(* ===== verification/Prelude.thy ===== *)
theory Prelude
  imports Main "HOL-Library.Char_ord" "HOL-Library.List_Lexorder"
begin

text \<open>
  What every component of the development shares: the sum type that stands for a
  Python computation that may raise, its sequencing operators, the scan that checks a
  declared order, and generic lemmas on lists and sorting.

  Texts and identifiers are \<^typ>\<open>string\<close>s, read as the octets of their UTF-8 form; the
  order of \<^theory_text>\<open>List_Lexorder\<close> on them is the bytewise order that the code sorts by.
\<close>

section \<open>Shared collections\<close>

named_theorems result_simps \<open>evaluation of computations that may raise\<close>
named_theorems order_simps \<open>facts about declared orders and sorted sequences\<close>

section \<open>Computations that may raise\<close>

type_synonym ('e, 'a) result = "'e + 'a"

definition ok :: "'a \<Rightarrow> ('e, 'a) result" where
  "ok x = Inr x"

definition andThen :: "('e, 'a) result \<Rightarrow> ('a \<Rightarrow> ('e, 'b) result) \<Rightarrow> ('e, 'b) result" where
  "andThen r f = (case r of Inl e \<Rightarrow> Inl e | Inr x \<Rightarrow> f x)"

definition require :: "bool \<Rightarrow> 'e \<Rightarrow> ('e, unit) result" where
  "require c e = (if c then Inr () else Inl e)"

fun mapM :: "('a \<Rightarrow> ('e, 'b) result) \<Rightarrow> 'a list \<Rightarrow> ('e, 'b list) result" where
  "mapM f [] = Inr []"
| "mapM f (x # xs) = andThen (f x) (\<lambda>y. andThen (mapM f xs) (\<lambda>ys. Inr (y # ys)))"

text \<open>A \<open>for\<close> loop whose body only checks: it stops at the first failure.\<close>

fun check_all :: "('a \<Rightarrow> ('e, unit) result) \<Rightarrow> 'a list \<Rightarrow> ('e, unit) result" where
  "check_all f [] = Inr ()"
| "check_all f (x # xs) = andThen (f x) (\<lambda>_. check_all f xs)"

lemma andThen_simps [simp, result_simps]:
  "andThen (Inl e) f = Inl e"
  "andThen (Inr x) f = f x"
  by (simp_all add: andThen_def)

lemma andThen_eq_Inr [result_simps]:
  "andThen r f = Inr y \<longleftrightarrow> (\<exists>x. r = Inr x \<and> f x = Inr y)"
  by (cases r) auto

lemma require_eq_Inr [simp, result_simps]: "require c e = Inr u \<longleftrightarrow> c"
  by (simp add: require_def)

lemma require_eq_Inl [simp, result_simps]: "require c e = Inl e' \<longleftrightarrow> \<not> c \<and> e' = e"
  by (auto simp: require_def)

lemma require_True [simp]: "require True e = Inr ()"
  by (simp add: require_def)

lemma require_False [simp]: "require False e = Inl e"
  by (simp add: require_def)

lemma check_all_eq_Inr [result_simps]:
  "check_all f xs = Inr u \<longleftrightarrow> (\<forall>x \<in> set xs. f x = Inr ())"
  by (induction xs) (auto simp: andThen_eq_Inr)

lemma mapM_eq_Inr_length: "mapM f xs = Inr ys \<Longrightarrow> length ys = length xs"
  by (induction xs arbitrary: ys) (auto simp: andThen_eq_Inr)

lemma mapM_eq_Inr_list_all2:
  "mapM f xs = Inr ys \<longleftrightarrow> list_all2 (\<lambda>x y. f x = Inr y) xs ys"
  by (induction xs arbitrary: ys) (auto simp: andThen_eq_Inr list_all2_Cons1)

lemma mapM_Inr: "(\<And>x. x \<in> set xs \<Longrightarrow> f x = Inr (g x)) \<Longrightarrow> mapM f xs = Inr (map g xs)"
  by (induction xs) simp_all

section \<open>Declared orders\<close>

text \<open>One scan over neighbours, as the code performs it: nothing is sorted.\<close>

fun strictly_ascending :: "'a::linorder list \<Rightarrow> bool" where
  "strictly_ascending [] = True"
| "strictly_ascending [x] = True"
| "strictly_ascending (x # y # zs) = (x < y \<and> strictly_ascending (y # zs))"

lemma strictly_ascending_Cons:
  "strictly_ascending (x # xs) \<longleftrightarrow> (\<forall>y \<in> set xs. x < y) \<and> strictly_ascending xs"
proof (induction xs arbitrary: x)
  case Nil
  then show ?case by simp
next
  case (Cons y ys)
  then show ?case by (auto dest: less_trans)
qed

lemma strictly_ascending_sorted_wrt [order_simps]:
  "strictly_ascending xs \<longleftrightarrow> sorted_wrt (<) xs"
  by (induction xs) (simp_all add: strictly_ascending_Cons)

lemma strictly_ascending_iff [order_simps]:
  "strictly_ascending xs \<longleftrightarrow> sorted xs \<and> distinct xs"
  by (simp add: strictly_ascending_sorted_wrt strict_sorted_iff)

lemma strictly_ascending_distinct: "strictly_ascending xs \<Longrightarrow> distinct xs"
  by (simp add: strictly_ascending_iff)

text \<open>\<open>sorted(set(xs))\<close> of the source.\<close>

definition sorted_dedup :: "'a::linorder list \<Rightarrow> 'a list" where
  "sorted_dedup xs = sort (remdups xs)"

lemma set_sorted_dedup [simp]: "set (sorted_dedup xs) = set xs"
  by (simp add: sorted_dedup_def)

lemma distinct_sorted_dedup [simp]: "distinct (sorted_dedup xs)"
  by (simp add: sorted_dedup_def)

lemma sorted_sorted_dedup [simp]: "sorted (sorted_dedup xs)"
  by (simp add: sorted_dedup_def)

lemma sorted_dedup_cong: "set xs = set ys \<Longrightarrow> sorted_dedup xs = sorted_dedup ys"
  by (rule sorted_distinct_set_unique) simp_all

lemma length_sorted_dedup: "length (sorted_dedup xs) = card (set xs)"
  using distinct_card [of "sorted_dedup xs"] by simp

section \<open>Positions in a list\<close>

text \<open>\<open>{x: i for i, x in enumerate(xs)}[k]\<close> on a list without repetitions.\<close>

fun position_of :: "'a list \<Rightarrow> 'a \<Rightarrow> nat option" where
  "position_of [] k = None"
| "position_of (x # xs) k =
     (if x = k then Some 0 else map_option Suc (position_of xs k))"

lemma position_of_None [simp]: "position_of xs k = None \<longleftrightarrow> k \<notin> set xs"
  by (induction xs) auto

lemma position_of_Some:
  "position_of xs k = Some i \<Longrightarrow> i < length xs \<and> xs ! i = k"
  by (induction xs arbitrary: i) (auto split: if_splits)

lemma position_of_nth:
  "distinct xs \<Longrightarrow> i < length xs \<Longrightarrow> position_of xs (xs ! i) = Some i"
proof (induction xs arbitrary: i)
  case Nil
  then show ?case by simp
next
  case (Cons x xs)
  then show ?case by (cases i) auto
qed

lemma position_of_less_take:
  assumes "distinct xs" and "k < length xs"
  shows "(\<exists>j < k. position_of xs y = Some j) \<longleftrightarrow> y \<in> set (take k xs)"
proof
  assume "\<exists>j < k. position_of xs y = Some j"
  then obtain j where "j < k" "position_of xs y = Some j" by blast
  with position_of_Some [of xs y j] assms(2) show "y \<in> set (take k xs)"
    by (auto simp: in_set_conv_nth)
next
  assume "y \<in> set (take k xs)"
  then obtain j where "j < k" "j < length xs" "y = xs ! j"
    by (auto simp: in_set_conv_nth)
  with position_of_nth [OF assms(1)] show "\<exists>j < k. position_of xs y = Some j" by auto
qed

end
