(* ===== verification/Errors.thy ===== *)
theory Errors
  imports Prelude
begin

text \<open>
  The error taxonomy of \<^verbatim>\<open>spectra_core/errors.py\<close>. An exception is its class and its
  reason code; the free-text detail is not modelled, since no consumer reads it. Python's
  own \<^verbatim>\<open>KeyError\<close>, \<^verbatim>\<open>IndexError\<close>, \<^verbatim>\<open>ValueError\<close>, \<^verbatim>\<open>TypeError\<close> and \<^verbatim>\<open>AssertionError\<close> are members, for
  the lookups and assertions that raise them.
\<close>

section \<open>Exceptions\<close>

datatype exn =
  SpectraError | CanonError | IdentifierError | IdentifierTypeError | IdentifierWidthError
| SchemaError | HashError | VerdictError | GuardError | ProfileError | LimitError
| BudgetError | DeterminismError | LicenceError
| KeyError | IndexError | ValueError | TypeError | AssertionError

datatype error = Raised (error_exn: exn) (error_code: string)

type_synonym 'a outcome = "(error, 'a) result"

datatype error_class = SOUNDNESS | MINIMALITY | DERIVED | CANONICITY | USAGE

fun default_code :: "exn \<Rightarrow> string" where
  "default_code CanonError = ''E-CANON-FORM''"
| "default_code IdentifierError = ''E-ID-GRAMMAR''"
| "default_code IdentifierTypeError = ''E-ID-TYPE''"
| "default_code IdentifierWidthError = ''E-ID-WIDTH''"
| "default_code SchemaError = ''E-SCHEMA-MISSING''"
| "default_code HashError = ''E-HASH-CERT''"
| "default_code VerdictError = ''VRD-010''"
| "default_code GuardError = ''E-SYN-000''"
| "default_code ProfileError = ''PROFILE_INVALID''"
| "default_code LimitError = ''E-LIMIT-COUNT''"
| "default_code BudgetError = ''E-BUDGET-EXHAUSTED''"
| "default_code DeterminismError = ''E-DET-ORDER''"
| "default_code LicenceError = ''E-LICENSE-UNIMPLIED''"
| "default_code _ = ''E-UNSPECIFIED''"

text \<open>\<open>raise C(detail)\<close> and \<open>raise C(detail, code=c)\<close>.\<close>

definition raises :: "exn \<Rightarrow> 'a outcome" where
  "raises c = Inl (Raised c (default_code c))"

definition raises_code :: "exn \<Rightarrow> string \<Rightarrow> 'a outcome" where
  "raises_code c code = Inl (Raised c code)"

definition guard :: "bool \<Rightarrow> exn \<Rightarrow> unit outcome" where
  "guard c x = require c (Raised x (default_code x))"

definition guard_code :: "bool \<Rightarrow> exn \<Rightarrow> string \<Rightarrow> unit outcome" where
  "guard_code c x code = require c (Raised x code)"

lemma raises_neq [simp]: "raises c \<noteq> Inr x" "Inr x \<noteq> raises c"
  by (simp_all add: raises_def)

lemma raises_code_neq [simp]: "raises_code c k \<noteq> Inr x" "Inr x \<noteq> raises_code c k"
  by (simp_all add: raises_code_def)

lemma guard_eq_Inr [simp, result_simps]: "guard c x = Inr u \<longleftrightarrow> c"
  by (simp add: guard_def)

lemma guard_code_eq_Inr [simp, result_simps]: "guard_code c x k = Inr u \<longleftrightarrow> c"
  by (simp add: guard_code_def)

lemma guard_simps [simp]:
  "guard True x = Inr ()" "guard False x = raises x"
  "guard_code True x k = Inr ()" "guard_code False x k = raises_code x k"
  by (simp_all add: guard_def guard_code_def raises_def raises_code_def)

section \<open>The declared code registry\<close>

definition bindings :: "(string \<times> error_class) list" where
  "bindings = [
    (''E-CANON-FORM'', CANONICITY), (''E-CANON-FLOAT'', CANONICITY),
    (''E-CANON-DUPKEY'', CANONICITY), (''E-CANON-ORDER'', CANONICITY),
    (''E-CANON-NFC'', CANONICITY), (''E-CANON-NULL'', CANONICITY),
    (''E-CANON-WIDTH'', CANONICITY), (''E-CANON-ESCAPE'', CANONICITY),
    (''E-CANON-TRAILING'', CANONICITY),
    (''E-ID-GRAMMAR'', CANONICITY), (''E-ID-TYPE'', CANONICITY), (''E-ID-WIDTH'', SOUNDNESS),
    (''E-SCHEMA-MISSING'', CANONICITY), (''E-SCHEMA-UNKNOWN'', CANONICITY),
    (''E-SCHEMA-DOWNGRADE'', CANONICITY), (''E-SCOPE-BIND'', SOUNDNESS),
    (''E-HASH-CERT'', SOUNDNESS), (''E-HASH-ALGO'', SOUNDNESS),
    (''E-INPUT-RULES'', SOUNDNESS), (''E-INPUT-BUNDLE'', SOUNDNESS),
    (''E-INPUT-LIVENESS'', SOUNDNESS), (''E-INPUT-PROFILE'', SOUNDNESS),
    (''E-INV-AXIOM'', SOUNDNESS), (''E-CLOSURE'', SOUNDNESS), (''E-GOAL-MEMBER'', SOUNDNESS),
    (''E-CUT-ORDER'', CANONICITY), (''E-CUT-CLOSURE'', SOUNDNESS),
    (''E-CUT-LEVEL'', MINIMALITY), (''E-LITERAL-TABLE'', SOUNDNESS),
    (''E-PSI-HIT'', SOUNDNESS), (''E-LICENSE-UNIMPLIED'', SOUNDNESS),
    (''E-LICENSE-WINDOW'', SOUNDNESS), (''E-GHOST-COUNT'', SOUNDNESS),
    (''E-WITNESS-CYCLE'', SOUNDNESS), (''E-WITNESS-EVENT'', SOUNDNESS),
    (''E-WITNESS-CUT'', SOUNDNESS), (''E-MIN-UNEARNED'', MINIMALITY),
    (''E-MIN-SMALLER'', MINIMALITY), (''E-FLAG-DERIVED'', DERIVED),
    (''E-FLAG-UNKNOWN'', CANONICITY),
    (''E-LEX-001'', USAGE), (''E-LEX-004'', USAGE), (''E-SYN-000'', USAGE),
    (''E-SYN-009'', USAGE), (''E-SYN-010'', USAGE), (''E-SYN-012'', USAGE),
    (''E-TYP-001'', USAGE), (''E-TYP-002'', USAGE), (''E-SEM-030'', USAGE),
    (''E-SEM-041'', USAGE), (''E-VS-BLOCK-CONJ'', USAGE),
    (''PROFILE_INVALID'', SOUNDNESS), (''PROFILE_SELF_CALIBRATED'', SOUNDNESS),
    (''PROFILE_FROM_DEGRADED_RUN'', SOUNDNESS), (''PROFILE_SEED_OVERLAP'', SOUNDNESS),
    (''PROFILE_CONFIG_MISMATCH'', SOUNDNESS), (''PROFILE_FAMILY_MISMATCH'', SOUNDNESS),
    (''PROFILE_INTERVALS_MISMATCH'', SOUNDNESS),
    (''E-LIMIT-COUNT'', SOUNDNESS), (''E-LIMIT-COMPRESSED'', SOUNDNESS),
    (''E-LIMIT-DEPTH'', CANONICITY), (''E-BUDGET-EXHAUSTED'', MINIMALITY),
    (''E-DET-ORDER'', SOUNDNESS), (''E-DET-RANDOM'', SOUNDNESS),
    (''VRD-001'', SOUNDNESS), (''VRD-002'', SOUNDNESS), (''VRD-003'', SOUNDNESS),
    (''VRD-004'', MINIMALITY), (''VRD-005'', SOUNDNESS), (''VRD-006'', CANONICITY),
    (''VRD-007'', SOUNDNESS), (''VRD-008'', CANONICITY), (''VRD-009'', CANONICITY),
    (''VRD-010'', SOUNDNESS), (''VRD-012'', SOUNDNESS), (''VRD-014'', DERIVED),
    (''E-UNSPECIFIED'', USAGE)]"

definition code_is_declared :: "string \<Rightarrow> bool" where
  "code_is_declared code = (code \<in> set (map fst bindings))"

definition code_class :: "string \<Rightarrow> error_class outcome" where
  "code_class code =
     (case map_of bindings code of
        Some c \<Rightarrow> Inr c
      | None \<Rightarrow> raises_code SchemaError ''E-SCHEMA-UNKNOWN'')"

lemma code_class_total: "code_is_declared code \<longleftrightarrow> (\<exists>c. code_class code = Inr c)"
proof (cases "map_of bindings code")
  case None
  then have "code \<notin> fst ` set bindings" by (simp add: map_of_eq_None_iff)
  with None show ?thesis
    by (simp add: code_is_declared_def code_class_def del: map_of_eq_None_iff)
next
  case (Some c)
  then have "(code, c) \<in> set bindings" by (rule map_of_SomeD)
  then have "code \<in> fst ` set bindings" by force
  with Some show ?thesis by (simp add: code_is_declared_def code_class_def)
qed

end
