(* ===== verification/Canon.thy ===== *)
theory Canon
  imports Errors
begin

unbundle bit_operations_syntax

text \<open>
  \<^verbatim>\<open>spectra_core/canon.py\<close>: the canonical byte encoding, the domain-separated digest and
  the ordering helpers. Octet strings are \<^typ>\<open>string\<close>s. Two things the module calls are
  parameters: the 256-bit digest of \<^verbatim>\<open>hashlib\<close> (\<open>raw_digest\<close>) and the Unicode
  normalisation tables of \<^verbatim>\<open>unicodedata\<close> (\<open>nform\<close>). The checks that reject a value
  of the wrong Python type have no counterpart, since the model is typed.
\<close>

section \<open>Scalars\<close>

type_synonym octets = string

fun to_bytes_big :: "nat \<Rightarrow> nat \<Rightarrow> octets" where
  "to_bytes_big 0 n = []"
| "to_bytes_big (Suc w) n = to_bytes_big w (n div 256) @ [char_of (n mod 256)]"

definition uint :: "int \<Rightarrow> nat \<Rightarrow> octets outcome" where
  "uint value width =
     (if 0 \<le> value \<and> value < 2 ^ (width * 8)
      then Inr (to_bytes_big width (nat value))
      else raises_code CanonError ''E-CANON-WIDTH'')"

definition u8 :: "int \<Rightarrow> octets outcome" where "u8 value = uint value 1"

definition u16 :: "int \<Rightarrow> octets outcome" where "u16 value = uint value 2"

definition u32 :: "int \<Rightarrow> octets outcome" where "u32 value = uint value 4"

definition u64 :: "int \<Rightarrow> octets outcome" where "u64 value = uint value 8"

definition i64 :: "int \<Rightarrow> octets outcome" where
  "i64 value =
     (if - (2 ^ 63) \<le> value \<and> value < 2 ^ 63
      then Inr (to_bytes_big 8 (nat (value mod 2 ^ 64)))
      else raises_code CanonError ''E-CANON-WIDTH'')"

definition boolean :: "bool \<Rightarrow> octets" where
  "boolean value = (if value then [char_of (1::nat)] else [char_of (0::nat)])"

function leb128_nat :: "nat \<Rightarrow> octets" where
  "leb128_nat value =
     (let byte = value AND 127; rest = drop_bit 7 value
      in if rest \<noteq> 0 then char_of (byte OR 128) # leb128_nat rest
         else [char_of byte])"
  by pat_completeness auto
termination
  by (relation "measure id") (auto simp: drop_bit_eq_div div_less_dividend intro!: Nat.gr0I)

declare leb128_nat.simps [simp del]

definition leb128 :: "int \<Rightarrow> octets outcome" where
  "leb128 value = (if value < 0 then raises CanonError else Inr (leb128_nat (nat value)))"

definition nfc :: "(string \<Rightarrow> string) \<Rightarrow> string \<Rightarrow> string outcome" where
  "nfc nform value =
     (let normalised = nform value
      in if \<exists>ch \<in> set normalised. of_char ch < (32::nat) \<or> of_char ch = (127::nat)
         then raises_code CanonError ''E-CANON-NFC''
         else Inr normalised)"

definition blob :: "octets \<Rightarrow> octets outcome" where
  "blob value =
     (if 4294967295 < length value then raises LimitError
      else andThen (u32 (int (length value))) (\<lambda>n. Inr (n @ value)))"

definition is_ascii :: "string \<Rightarrow> bool" where
  "is_ascii value = (\<forall>ch \<in> set value. of_char ch < (128::nat))"

definition ascii_text :: "string \<Rightarrow> octets outcome" where
  "ascii_text value = (if is_ascii value then blob value else raises CanonError)"

definition utf8_text :: "(string \<Rightarrow> string) \<Rightarrow> string \<Rightarrow> octets outcome" where
  "utf8_text nform value = andThen (nfc nform value) blob"

definition hex_digit :: "nat \<Rightarrow> char" where
  "hex_digit d = ''0123456789abcdef'' ! d"

fun hex_of :: "nat \<Rightarrow> nat \<Rightarrow> string" where
  "hex_of 0 n = []"
| "hex_of (Suc w) n = hex_of w (n div 16) @ [hex_digit (n mod 16)]"

definition mask_hex :: "int \<Rightarrow> string outcome" where
  "mask_hex value =
     (if 0 \<le> value \<and> value < 2 ^ 64 then Inr (''0x'' @ hex_of 16 (nat value))
      else raises_code CanonError ''E-CANON-WIDTH'')"

section \<open>Sequences\<close>

definition ordered_seq :: "octets list \<Rightarrow> octets outcome" where
  "ordered_seq items =
     (if 4294967295 < length items then raises LimitError
      else andThen (u32 (int (length items))) (\<lambda>n. Inr (n @ concat items)))"

fun adjacent_equal :: "'a list \<Rightarrow> bool" where
  "adjacent_equal (x # y # zs) = (x = y \<or> adjacent_equal (y # zs))"
| "adjacent_equal _ = False"

definition sorted_set :: "octets list \<Rightarrow> octets outcome" where
  "sorted_set items =
     (let materialised = sort items
      in if adjacent_equal materialised then raises_code CanonError ''E-CANON-DUPKEY''
         else if 4294967295 < length materialised then raises LimitError
         else andThen (u32 (int (length materialised))) (\<lambda>n. Inr (n @ concat materialised)))"

definition sorted_unique :: "string list \<Rightarrow> string list outcome" where
  "sorted_unique values =
     (let ordered = sort values
      in if adjacent_equal ordered then raises_code CanonError ''E-CANON-DUPKEY''
         else Inr ordered)"

definition encode_pair :: "(string \<Rightarrow> string) \<Rightarrow> string \<times> string \<Rightarrow> (octets \<times> octets) outcome" where
  "encode_pair nform kv =
     andThen (if is_ascii (fst kv) then ascii_text (fst kv) else utf8_text nform (fst kv))
       (\<lambda>k. andThen (utf8_text nform (snd kv)) (\<lambda>v. Inr (k, v)))"

definition pairs :: "(string \<Rightarrow> string) \<Rightarrow> (string \<times> string) list \<Rightarrow> octets outcome" where
  "pairs nform items =
     andThen (mapM (encode_pair nform) items) (\<lambda>kvs.
       let encoded = sort_key fst kvs
       in if adjacent_equal (map fst encoded) then raises_code CanonError ''E-CANON-DUPKEY''
          else andThen (u32 (int (length encoded)))
                 (\<lambda>n. Inr (n @ concat (map (\<lambda>kv. fst kv @ snd kv) encoded))))"

definition leb128_seq :: "int list \<Rightarrow> octets outcome" where
  "leb128_seq values =
     andThen (leb128 (int (length values))) (\<lambda>n.
       andThen (mapM leb128 values) (\<lambda>vs. Inr (n @ concat vs)))"

definition check_strictly_ascending ::
    "'a list \<Rightarrow> ('a \<Rightarrow> 'k::linorder) \<Rightarrow> 'a list outcome" where
  "check_strictly_ascending items key =
     (if strictly_ascending (map key items) then Inr items
      else raises_code CanonError ''E-CANON-ORDER'')"

section \<open>Digests\<close>

definition digest :: "(octets \<Rightarrow> octets) \<Rightarrow> string \<Rightarrow> octets \<Rightarrow> octets outcome" where
  "digest raw_digest kind payload =
     (if kind = [] then raises CanonError
      else if \<not> is_ascii kind then raises CanonError
      else if char_of (31::nat) \<in> set kind then raises CanonError
      else Inr (raw_digest (''spectra/v1/'' @ kind @ [char_of (31::nat)] @ payload)))"

fun hex_octets :: "octets \<Rightarrow> string" where
  "hex_octets [] = []"
| "hex_octets (c # cs) = hex_of 2 (of_char c) @ hex_octets cs"

definition digest_hex :: "(octets \<Rightarrow> octets) \<Rightarrow> string \<Rightarrow> octets \<Rightarrow> nat \<Rightarrow> string outcome" where
  "digest_hex raw_digest kind payload width =
     (if width \<noteq> 16 \<and> width \<noteq> 32 then raises CanonError
      else andThen (digest raw_digest kind payload) (\<lambda>d. Inr (hex_octets (take width d))))"

definition hash_ref :: "(octets \<Rightarrow> octets) \<Rightarrow> string \<Rightarrow> octets \<Rightarrow> string outcome" where
  "hash_ref raw_digest kind payload =
     andThen (digest_hex raw_digest kind payload 32) (\<lambda>h. Inr (''b2b256:'' @ h))"

definition is_lower_hex :: "string \<Rightarrow> bool" where
  "is_lower_hex s = (set s \<subseteq> set ''0123456789abcdef'')"

definition hex_value :: "char \<Rightarrow> nat" where
  "hex_value c = (if of_char c < (58::nat) then of_char c - 48 else of_char c - 87)"

fun fromhex :: "string \<Rightarrow> octets" where
  "fromhex (a # b # cs) = char_of (hex_value a * 16 + hex_value b) # fromhex cs"
| "fromhex _ = []"

definition parse_hash_ref :: "string \<Rightarrow> octets outcome" where
  "parse_hash_ref value =
     (if take 7 value \<noteq> ''b2b256:'' then raises CanonError
      else let body = drop 7 value
           in if length body \<noteq> 64 \<or> \<not> is_lower_hex body then raises CanonError
              else Inr (fromhex body))"

section \<open>The encodings are unambiguous\<close>

lemma length_to_bytes_big [simp]: "length (to_bytes_big w n) = w"
  by (induction w arbitrary: n) simp_all

lemma char_of_eq_mod [simp]: "char_of (m mod 256) = (char_of n :: char) \<longleftrightarrow> m mod 256 = n mod (256::nat)"
  by (simp add: char_of_eq_iff take_bit_eq_mod)

lemma char_of_inj: "a < 256 \<Longrightarrow> b < (256::nat) \<Longrightarrow> char_of a = (char_of b :: char) \<longleftrightarrow> a = b"
  by (simp add: char_of_eq_iff take_bit_eq_mod)

lemma to_bytes_big_inj:
  "m < 256 ^ w \<Longrightarrow> n < 256 ^ w \<Longrightarrow> to_bytes_big w m = to_bytes_big w n \<Longrightarrow> m = n"
proof (induction w arbitrary: m n)
  case 0
  then show ?case by simp
next
  case (Suc w)
  from Suc.prems have "m div 256 < 256 ^ w" "n div 256 < 256 ^ w"
    by (simp_all add: less_mult_imp_div_less mult.commute)
  with Suc have "m div 256 = n div 256" "m mod 256 = n mod 256" by auto
  then show ?case by (metis div_mult_mod_eq)
qed

lemma less_same_length_append:
  fixes xs ys :: "'a::linorder list"
  assumes "length xs = length ys"
  shows "xs @ [a] < ys @ [b] \<longleftrightarrow> xs < ys \<or> (xs = ys \<and> a < b)"
  using assms by (induction xs ys rule: list_induct2) auto

lemma to_bytes_big_less:
  "m < 256 ^ w \<Longrightarrow> n < 256 ^ w \<Longrightarrow> to_bytes_big w m < to_bytes_big w n \<longleftrightarrow> m < n"
proof (induction w arbitrary: m n)
  case 0
  then show ?case by simp
next
  case (Suc w)
  from Suc.prems have b: "m div 256 < 256 ^ w" "n div 256 < 256 ^ w"
    by (simp_all add: less_mult_imp_div_less mult.commute)
  have "to_bytes_big (Suc w) m < to_bytes_big (Suc w) n \<longleftrightarrow>
      to_bytes_big w (m div 256) < to_bytes_big w (n div 256)
      \<or> (to_bytes_big w (m div 256) = to_bytes_big w (n div 256) \<and> m mod 256 < n mod 256)"
    by (simp add: less_same_length_append less_char_def)
  also have "\<dots> \<longleftrightarrow> m div 256 < n div 256 \<or> (m div 256 = n div 256 \<and> m mod 256 < n mod 256)"
    using Suc.IH [OF b] to_bytes_big_inj [OF b] by metis
  also have "\<dots> \<longleftrightarrow> m < n"
    using div_mult_mod_eq [of m 256] div_mult_mod_eq [of n 256]
      mod_less_divisor [of 256 m] mod_less_divisor [of 256 n] by linarith
  finally show ?case .
qed

lemma uint_eq_Inr [result_simps]:
  "uint v w = Inr bs \<longleftrightarrow> 0 \<le> v \<and> v < 2 ^ (w * 8) \<and> bs = to_bytes_big w (nat v)"
  by (auto simp: uint_def)

lemma nat_less_256_power: "0 \<le> v \<Longrightarrow> v < 2 ^ (w * 8) \<Longrightarrow> nat v < 256 ^ w"
proof -
  have "(2::int) ^ (w * 8) = int (256 ^ w)"
    by (simp add: mult.commute [of w] power_mult)
  then show "0 \<le> v \<Longrightarrow> v < 2 ^ (w * 8) \<Longrightarrow> nat v < 256 ^ w"
    by (simp add: nat_less_iff)
qed

lemma u64_order:
  assumes "u64 a = Inr as" and "u64 b = Inr bs"
  shows "as < bs \<longleftrightarrow> a < b"
  using assms nat_less_256_power [of a 8] nat_less_256_power [of b 8]
  by (auto simp: u64_def uint_eq_Inr to_bytes_big_less)

lemma leb128_nat_unfold:
  "leb128_nat n = (if n < 128 then [char_of n]
                   else char_of (n mod 128 + 128) # leb128_nat (n div 128))"
proof -
  have and_mod: "n AND 127 = n mod 128"
    using take_bit_eq_mask [of 7 n] by (simp add: take_bit_eq_mod mask_eq_exp_minus_1)
  have "n mod 128 OR 128 = take_bit 7 n OR 2 ^ 7"
    by (simp add: take_bit_eq_mod)
  also have "\<dots> = take_bit 7 n + 2 ^ 7"
    by (rule disjunctive_add_eq_or [symmetric], rule bit_eqI)
      (auto simp only: bit_and_iff bit_take_bit_iff bit_exp_iff bit_0_eq bot_apply bot_bool_def)
  finally have "n mod 128 OR 128 = n mod 128 + (128::nat)"
    by (simp add: take_bit_eq_mod)
  with and_mod show ?thesis
    by (subst leb128_nat.simps) (auto simp: drop_bit_eq_div Let_def div_eq_0_iff)
qed


text \<open>LEB128 is prefix-free: two encodings that start the same octet string are equal.\<close>

lemma leb128_nat_prefix_free:
  "leb128_nat m @ xs = leb128_nat n @ ys \<Longrightarrow> m = n \<and> xs = ys"
proof (induction m arbitrary: n rule: less_induct)
  case (less m)
  show ?case
  proof (cases "m < 128")
    case True
    with less.prems show ?thesis
      by (auto simp: leb128_nat_unfold [of m] leb128_nat_unfold [of n] char_of_inj split: if_splits)
  next
    case False
    with less.prems have n: "\<not> n < 128" and low: "m mod 128 = n mod 128"
      and tl: "leb128_nat (m div 128) @ xs = leb128_nat (n div 128) @ ys"
      by (auto simp: leb128_nat_unfold [of m] leb128_nat_unfold [of n] char_of_inj
          split: if_splits)
    from False have "m div 128 < m" by simp
    from less.IH [OF this tl] low show ?thesis
      by (metis div_mult_mod_eq)
  qed
qed


lemma leb128_eq_Inr [result_simps]:
  "leb128 v = Inr bs \<longleftrightarrow> 0 \<le> v \<and> bs = leb128_nat (nat v)"
  by (auto simp: leb128_def)

definition prefix_free :: "octets set \<Rightarrow> bool" where
  "prefix_free C \<longleftrightarrow> (\<forall>a \<in> C. \<forall>b \<in> C. \<forall>x y. a @ x = b @ y \<longrightarrow> a = b)"

lemma prefix_freeD: "prefix_free C \<Longrightarrow> a \<in> C \<Longrightarrow> b \<in> C \<Longrightarrow> a @ x = b @ y \<Longrightarrow> a = b \<and> x = y"
  unfolding prefix_free_def by blast

lemma prefix_free_concat:
  assumes "prefix_free C"
  shows "length as = length bs \<Longrightarrow> set as \<subseteq> C \<Longrightarrow> set bs \<subseteq> C
    \<Longrightarrow> concat as @ x = concat bs @ y \<Longrightarrow> as = bs \<and> x = y"
proof (induction as bs rule: list_induct2)
  case Nil
  then show ?case by simp
next
  case (Cons a as b bs)
  then have "a @ (concat as @ x) = b @ (concat bs @ y)" by simp
  from prefix_freeD [OF assms _ _ this] Cons.prems
  have "a = b" and "concat as @ x = concat bs @ y" by auto
  with Cons show ?case by simp
qed

lemma leb128_prefix_free: "prefix_free (range leb128_nat)"
  by (auto simp: prefix_free_def dest: leb128_nat_prefix_free)

lemma u32_append_inj:
  assumes "u32 a = Inr as" "u32 b = Inr bs" "as @ x = bs @ y"
  shows "a = b \<and> x = y"
proof -
  from assms have len: "length as = length bs" by (auto simp: u32_def uint_eq_Inr)
  with assms(3) have "as = bs" "x = y" by auto
  with assms(1,2) nat_less_256_power [of a 4] nat_less_256_power [of b 4]
    to_bytes_big_inj [of "nat a" 4 "nat b"]
  show ?thesis by (auto simp: u32_def uint_eq_Inr)
qed

lemma blob_eq_Inr [result_simps]:
  "blob v = Inr bs \<longleftrightarrow> length v \<le> 4294967295 \<and> (\<exists>n. u32 (int (length v)) = Inr n \<and> bs = n @ v)"
  by (auto simp: blob_def andThen_eq_Inr)

lemma blob_unambiguous:
  assumes "blob v = Inr a" "blob w = Inr b" "a @ x = b @ y"
  shows "v = w \<and> x = y"
proof -
  from assms obtain n m where "u32 (int (length v)) = Inr n" "u32 (int (length w)) = Inr m"
    "n @ (v @ x) = m @ (w @ y)" by (auto simp: blob_eq_Inr)
  from u32_append_inj [OF this] show ?thesis by auto
qed

lemma blob_prefix_free: "prefix_free {b. \<exists>v. blob v = Inr b}"
proof (unfold prefix_free_def, intro ballI allI impI)
  fix a b x y
  assume "a \<in> {b. \<exists>v. blob v = Inr b}" "b \<in> {b. \<exists>v. blob v = Inr b}" and eq: "a @ x = b @ y"
  then obtain v w where "blob v = Inr a" "blob w = Inr b" by blast
  with blob_unambiguous [OF this eq] show "a = b" by simp
qed

lemma ascii_text_eq_Inr [result_simps]: "ascii_text v = Inr b \<longleftrightarrow> is_ascii v \<and> blob v = Inr b"
  by (auto simp: ascii_text_def)

lemma ordered_seq_eq_Inr [result_simps]:
  "ordered_seq items = Inr bs \<longleftrightarrow> length items \<le> 4294967295
     \<and> (\<exists>n. u32 (int (length items)) = Inr n \<and> bs = n @ concat items)"
  by (auto simp: ordered_seq_def andThen_eq_Inr)

lemma ordered_seq_unambiguous:
  assumes "prefix_free C" "set as \<subseteq> C" "set bs \<subseteq> C"
    and "ordered_seq as = Inr a" "ordered_seq bs = Inr b" "a @ x = b @ y"
  shows "as = bs \<and> x = y"
proof -
  from assms(4-6) obtain n m where "u32 (int (length as)) = Inr n" "u32 (int (length bs)) = Inr m"
    "n @ (concat as @ x) = m @ (concat bs @ y)" by (auto simp: ordered_seq_eq_Inr)
  from u32_append_inj [OF this] prefix_free_concat [OF assms(1) _ assms(2,3)] show ?thesis by auto
qed

lemma adjacent_equal_sorted [order_simps]:
  "sorted xs \<Longrightarrow> adjacent_equal xs \<longleftrightarrow> \<not> distinct xs"
proof (induction xs rule: adjacent_equal.induct)
  case (1 x y zs)
  then show ?case by (cases "x = y") auto
qed auto

lemma sorted_set_eq_Inr [result_simps]:
  "sorted_set items = Inr bs \<longleftrightarrow> distinct items \<and> ordered_seq (sort items) = Inr bs"
  by (auto simp: sorted_set_def ordered_seq_def adjacent_equal_sorted Let_def)

lemma sorted_unique_eq_Inr [result_simps]:
  "sorted_unique values = Inr ys \<longleftrightarrow> distinct values \<and> ys = sort values"
  by (auto simp: sorted_unique_def adjacent_equal_sorted Let_def)

lemma check_strictly_ascending_eq_Inr [simp, result_simps]:
  "check_strictly_ascending items key = Inr ys \<longleftrightarrow> strictly_ascending (map key items) \<and> ys = items"
  by (auto simp: check_strictly_ascending_def)

section \<open>Evaluation in binary\<close>

text \<open>
  Code equations under which the encoders compute on binary integers and on the bits of a
  character instead of on unary numbers.
\<close>

fun int_bytes :: "nat \<Rightarrow> int \<Rightarrow> octets" where
  "int_bytes 0 n = []"
| "int_bytes (Suc w) n = int_bytes w (n div 256) @ [char_of (n mod 256)]"

lemma to_bytes_big_int: "0 \<le> v \<Longrightarrow> to_bytes_big w (nat v) = int_bytes w v"
proof (induction w arbitrary: v)
  case (Suc w)
  have "nat v div 256 = nat (v div 256)" "nat v mod 256 = nat (v mod 256)"
    using Suc.prems by (simp_all add: nat_div_distrib nat_mod_distrib)
  moreover have "char_of (nat (v mod 256)) = (char_of (v mod 256) :: char)"
  proof -
    have "char_of (nat (v mod 256)) = (char_of (of_nat (nat (v mod 256)) :: int) :: char)"
      by (simp only: char_of_def bit_simps of_nat_nat) (simp add: char_of_def bit_nat_iff)
    then show ?thesis by simp
  qed
  ultimately show ?case using Suc by simp
qed simp

lemma uint_code [code]:
  "uint value width =
     (if 0 \<le> value \<and> value < 2 ^ (width * 8) then Inr (int_bytes width value)
      else raises_code CanonError ''E-CANON-WIDTH'')"
  by (simp add: uint_def to_bytes_big_int)

lemma i64_code [code]:
  "i64 value =
     (if - 9223372036854775808 \<le> value \<and> value < 9223372036854775808
      then Inr (int_bytes 8 (value mod 18446744073709551616))
      else raises_code CanonError ''E-CANON-WIDTH'')"
  by (simp add: i64_def to_bytes_big_int)

lemma blob_code [code]:
  "blob value =
     (if 4294967295 < int (length value) then raises LimitError
      else andThen (u32 (int (length value))) (\<lambda>n. Inr (n @ value)))"
  by (simp add: blob_def)

lemma ordered_seq_code [code]:
  "ordered_seq items =
     (if 4294967295 < int (length items) then raises LimitError
      else andThen (u32 (int (length items))) (\<lambda>n. Inr (n @ concat items)))"
  by (simp add: ordered_seq_def)

lemma of_char_bits:
  "of_char c < (128::nat) \<longleftrightarrow> \<not> digit7 c"
  "of_char c < (32::nat) \<longleftrightarrow> \<not> digit5 c \<and> \<not> digit6 c \<and> \<not> digit7 c"
  "of_char c = (127::nat) \<longleftrightarrow> c = CHR 0x7F"
proof -
  obtain b0 b1 b2 b3 b4 b5 b6 b7 where c: "c = Char b0 b1 b2 b3 b4 b5 b6 b7" by (cases c)
  show "of_char c < (128::nat) \<longleftrightarrow> \<not> digit7 c"
    by (simp add: c of_char_def of_bool_def)
  show "of_char c < (32::nat) \<longleftrightarrow> \<not> digit5 c \<and> \<not> digit6 c \<and> \<not> digit7 c"
    by (simp add: c of_char_def of_bool_def)
  show "of_char c = (127::nat) \<longleftrightarrow> c = CHR 0x7F"
  proof -
    have "(127::nat) = of_char (CHR 0x7F)" by simp
    then show ?thesis by (metis of_char_eq_iff)
  qed
qed

lemma is_ascii_code [code]: "is_ascii value = list_all (\<lambda>c. \<not> digit7 c) value"
  by (simp add: is_ascii_def list_all_iff of_char_bits)

lemma nfc_code [code]:
  "nfc nform value =
     (let normalised = nform value
      in if list_ex (\<lambda>c. \<not> digit5 c \<and> \<not> digit6 c \<and> \<not> digit7 c \<or> c = CHR 0x7F) normalised
         then raises_code CanonError ''E-CANON-NFC'' else Inr normalised)"
  by (simp add: nfc_def list_ex_iff of_char_bits)

end
