(* ===== verification/Ids.thy ===== *)
theory Ids
  imports Canon
begin

text \<open>
  \<^verbatim>\<open>spectra_core/ids.py\<close>: the identifier types and their wire grammar. An identifier is the
  string it is on the wire; its Python class is a value of \<open>id_type\<close>, so the nominal check
  \<open>require_id\<close> compares types. A constructor call \<open>Cls(value)\<close> is \<open>construct Cls value\<close>.
\<close>

section \<open>Primitives of the grammar\<close>

definition is_lower :: "char \<Rightarrow> bool" where
  "is_lower c = (97 \<le> (of_char c :: nat) \<and> (of_char c :: nat) \<le> 122)"

definition is_digit :: "char \<Rightarrow> bool" where
  "is_digit c = (48 \<le> (of_char c :: nat) \<and> (of_char c :: nat) \<le> 57)"

definition is_snake :: "string \<Rightarrow> bool" where
  "is_snake s = (case s of [] \<Rightarrow> False
     | c # cs \<Rightarrow> is_lower c \<and> length cs \<le> 47
         \<and> (\<forall>d \<in> set cs. is_lower d \<or> is_digit d \<or> d = CHR ''_''))"

fun decimal_value_from :: "nat \<Rightarrow> string \<Rightarrow> nat" where
  "decimal_value_from acc [] = acc"
| "decimal_value_from acc (c # cs) = decimal_value_from (acc * 10 + (of_char c - 48)) cs"

definition decimal_value :: "string \<Rightarrow> nat" where
  "decimal_value s = decimal_value_from 0 s"

fun decimal :: "nat \<Rightarrow> string" where
  "decimal n = (if n < 10 then [char_of (n + 48)] else decimal (n div 10) @ [char_of (n mod 10 + 48)])"

declare decimal.simps [simp del]

definition is_canonical_decimal :: "nat \<Rightarrow> string \<Rightarrow> bool" where
  "is_canonical_decimal width s =
     (s = ''0'' \<or> (s \<noteq> [] \<and> length s \<le> width \<and> (\<forall>c \<in> set s. is_digit c) \<and> hd s \<noteq> CHR ''0''))"

definition is_u16 :: "string \<Rightarrow> bool" where
  "is_u16 s = (is_canonical_decimal 5 s \<and> decimal_value s \<le> 65535)"

definition is_level :: "string \<Rightarrow> bool" where
  "is_level s = is_canonical_decimal 2 s"

definition is_hex :: "nat \<Rightarrow> string \<Rightarrow> bool" where
  "is_hex width s = (length s = width \<and> is_lower_hex s)"

definition check_snake :: "string \<Rightarrow> string outcome" where
  "check_snake value = (if is_snake value then Inr value else raises IdentifierError)"

definition check_level :: "int \<Rightarrow> int outcome" where
  "check_level value = (if 0 \<le> value \<and> value \<le> 99 then Inr value else raises IdentifierError)"

definition check_tick :: "int \<Rightarrow> int outcome" where
  "check_tick value = (if 0 \<le> value \<and> value < 2 ^ 64 then Inr value else raises IdentifierError)"

definition check_u16 :: "string \<Rightarrow> string outcome" where
  "check_u16 value = (if is_u16 value then Inr value else raises IdentifierError)"

text \<open>\<open>value.partition(sep)\<close>: the text before the first separator, and the rest if there is one.\<close>

fun partition_at :: "char \<Rightarrow> string \<Rightarrow> string \<times> string option" where
  "partition_at sep [] = ([], None)"
| "partition_at sep (c # cs) =
     (if c = sep then ([], Some cs)
      else (let (before, rest) = partition_at sep cs in (c # before, rest)))"

section \<open>The identifier hierarchy\<close>

datatype id_type =
  AssignmentId | BundleId | CertId | CollectorId | ControlId | CorridorId | CutId
| DegradationId | DimensionId | EntityId | EventId | FactHash | FlagId | HypergraphId
| HypothesisId | InstanceId | LicenseId | LiteralId | OperatorId | OracleId | RecordId
| RuleId | RunId | ScenarioId | SourceId | StateId | TransitionId | WindowId

fun PREFIX :: "id_type \<Rightarrow> string" where
  "PREFIX AssignmentId = ''asg:''" | "PREFIX BundleId = ''bn:''"
| "PREFIX CertId = ''cert:''" | "PREFIX CollectorId = ''col:''"
| "PREFIX ControlId = ''ctl:''" | "PREFIX CorridorId = ''cor:''"
| "PREFIX CutId = ''cut:''" | "PREFIX DegradationId = ''deg:''"
| "PREFIX DimensionId = ''dim:''" | "PREFIX EntityId = ''en:''"
| "PREFIX EventId = ''ev:''" | "PREFIX FactHash = ''fh:''"
| "PREFIX FlagId = ''flag:''" | "PREFIX HypergraphId = ''hg:''"
| "PREFIX HypothesisId = ''hy:''" | "PREFIX InstanceId = ''in:''"
| "PREFIX LicenseId = ''lic:''" | "PREFIX LiteralId = ''lit:''"
| "PREFIX OperatorId = ''op:''" | "PREFIX OracleId = ''orc:''"
| "PREFIX RecordId = ''rc:''" | "PREFIX RuleId = ''rl:''"
| "PREFIX RunId = ''run:''" | "PREFIX ScenarioId = ''sc:''"
| "PREFIX SourceId = ''src:''" | "PREFIX StateId = ''st:''"
| "PREFIX TransitionId = ''tr:''" | "PREFIX WindowId = ''bw:''"

definition ID_TYPES :: "id_type list" where
  "ID_TYPES = [AssignmentId, BundleId, CertId, CollectorId, ControlId, CorridorId, CutId,
     DegradationId, DimensionId, EntityId, EventId, FactHash, FlagId, HypergraphId,
     HypothesisId, InstanceId, LicenseId, LiteralId, OperatorId, OracleId, RecordId,
     RuleId, RunId, ScenarioId, SourceId, StateId, TransitionId, WindowId]"

text \<open>The four shapes a body can have: a digest, one snake, a composite, or an entity.\<close>

datatype id_shape = Hash nat | Snake | Versioned | LevelOf | SnakePair | Entity

fun shape :: "id_type \<Rightarrow> id_shape" where
  "shape EventId = Hash 16" | "shape TransitionId = Hash 16" | "shape WindowId = Hash 16"
| "shape AssignmentId = Hash 16" | "shape DegradationId = Hash 16"
| "shape SourceId = Snake" | "shape ControlId = Snake" | "shape RuleId = Snake"
| "shape DimensionId = Snake" | "shape FlagId = Snake" | "shape OperatorId = Snake"
| "shape OracleId = Snake"
| "shape CollectorId = Versioned" | "shape ScenarioId = Versioned"
| "shape LiteralId = LevelOf" | "shape StateId = SnakePair" | "shape EntityId = Entity"
| "shape _ = Hash 32"

fun CERTIFIABLE :: "id_type \<Rightarrow> bool" where
  "CERTIFIABLE t = (shape t \<noteq> Hash 16 \<and> shape t \<noteq> Entity)"

definition ENTITY_KINDS :: "string list" where
  "ENTITY_KINDS = [''account'', ''api_client'', ''credential'', ''file'', ''host'', ''key'',
     ''netflow'', ''process'', ''resource'', ''service'', ''session'', ''user'']"

fun body_ok :: "id_shape \<Rightarrow> string \<Rightarrow> bool" where
  "body_ok (Hash octets) body = is_hex (octets * 2) body"
| "body_ok Snake body = is_snake body"
| "body_ok Versioned body =
     (case partition_at (CHR ''@'') body of
        (name, Some version) \<Rightarrow> is_snake name \<and> is_u16 version | _ \<Rightarrow> False)"
| "body_ok LevelOf body =
     (case partition_at (CHR ''@'') body of
        (name, Some level) \<Rightarrow> is_snake name \<and> is_level level | _ \<Rightarrow> False)"
| "body_ok SnakePair body =
     (case partition_at (CHR '':'') body of
        (dimension, Some state) \<Rightarrow> is_snake dimension \<and> is_snake state | _ \<Rightarrow> False)"
| "body_ok Entity body =
     (case partition_at (CHR '':'') body of
        (kind, Some h) \<Rightarrow> kind \<in> set ENTITY_KINDS \<and> is_hex 32 h | _ \<Rightarrow> False)"

definition startswith :: "string \<Rightarrow> string \<Rightarrow> bool" where
  "startswith value p = (take (length p) value = p)"

definition construct :: "id_type \<Rightarrow> string \<Rightarrow> string outcome" where
  "construct t value =
     (if startswith value (PREFIX t) \<and> body_ok (shape t) (drop (length (PREFIX t)) value)
      then Inr value else raises IdentifierError)"

definition digest_kind :: "id_type \<Rightarrow> string" where
  "digest_kind t = butlast (PREFIX t)"

definition mint :: "(octets \<Rightarrow> octets) \<Rightarrow> id_type \<Rightarrow> octets \<Rightarrow> string outcome" where
  "mint raw_digest t payload =
     andThen (digest_hex raw_digest (digest_kind t) payload (case shape t of Hash n \<Rightarrow> n | _ \<Rightarrow> 16))
       (\<lambda>h. construct t (PREFIX t @ h))"

definition mint_entity :: "(octets \<Rightarrow> octets) \<Rightarrow> string \<Rightarrow> octets \<Rightarrow> string outcome" where
  "mint_entity raw_digest kind payload =
     (if kind \<notin> set ENTITY_KINDS then raises IdentifierError
      else andThen (digest_hex raw_digest (digest_kind EntityId) payload 16)
             (\<lambda>h. construct EntityId (''en:'' @ kind @ '':'' @ h)))"

definition snake_of :: "id_type \<Rightarrow> string \<Rightarrow> string" where
  "snake_of t value = drop (length (PREFIX t)) value"

definition of_snake :: "id_type \<Rightarrow> string \<Rightarrow> string outcome" where
  "of_snake t name = andThen (check_snake name) (\<lambda>s. construct t (PREFIX t @ s))"

definition of_versioned :: "id_type \<Rightarrow> string \<Rightarrow> int \<Rightarrow> string outcome" where
  "of_versioned t name version =
     andThen (check_snake name) (\<lambda>s.
       if \<not> (0 \<le> version \<and> version \<le> 65535) then raises IdentifierError
       else construct t (PREFIX t @ s @ ''@'' @ decimal (nat version)))"

definition of_state :: "string \<Rightarrow> string \<Rightarrow> string outcome" where
  "of_state dimension state =
     andThen (check_snake dimension) (\<lambda>d. andThen (check_snake state) (\<lambda>s.
       construct StateId (''st:'' @ d @ '':'' @ s)))"

definition of_literal :: "string \<Rightarrow> int \<Rightarrow> string outcome" where
  "of_literal control_id level =
     andThen (check_level level) (\<lambda>l.
       construct LiteralId (''lit:'' @ snake_of ControlId control_id @ ''@'' @ decimal (nat l)))"

definition literal_control :: "string \<Rightarrow> string outcome" where
  "literal_control value =
     construct ControlId (''ctl:'' @ fst (partition_at (CHR ''@'') (drop (length (PREFIX LiteralId)) value)))"

definition literal_level :: "string \<Rightarrow> nat" where
  "literal_level value = decimal_value (rev (takeWhile (\<lambda>c. c \<noteq> CHR ''@'') (rev value)))"

section \<open>Registry, prefix uniqueness and the wrong-type guard\<close>

definition PREFIX_TO_TYPE :: "string \<Rightarrow> id_type option" where
  "PREFIX_TO_TYPE = map_of (map (\<lambda>t. (PREFIX t, t)) ID_TYPES)"

definition assert_prefix_uniqueness :: "unit outcome" where
  "assert_prefix_uniqueness =
     (let prefixes = sorted_dedup (map PREFIX ID_TYPES)
      in if length prefixes \<noteq> length ID_TYPES then raises IdentifierError
         else guard (\<forall>i \<in> set [0..<length prefixes]. \<forall>j \<in> set [Suc i..<length prefixes].
                \<not> startswith (prefixes ! j) (prefixes ! i)
                \<and> \<not> startswith (prefixes ! i) (prefixes ! j)) IdentifierError)"

definition parse_id :: "string \<Rightarrow> (id_type \<times> string) outcome" where
  "parse_id value =
     (case partition_at (CHR '':'') value of
        (p, None) \<Rightarrow> raises IdentifierError
      | (p, Some _) \<Rightarrow>
          (case PREFIX_TO_TYPE (p @ '':'') of
             None \<Rightarrow> raises IdentifierError
           | Some t \<Rightarrow> andThen (construct t value) (\<lambda>v. Inr (t, v))))"

definition require_id :: "id_type \<times> string \<Rightarrow> id_type \<Rightarrow> string outcome" where
  "require_id value expected =
     (if fst value = expected then Inr (snd value) else raises IdentifierTypeError)"

definition reject_run_local_in_certificate :: "id_type \<times> string \<Rightarrow> (id_type \<times> string) outcome" where
  "reject_run_local_in_certificate value =
     (if CERTIFIABLE (fst value) then Inr value else raises IdentifierWidthError)"

section \<open>Every identifier parses to its own type\<close>

lemma partition_at_eq:
  "partition_at c s = (takeWhile (\<lambda>d. d \<noteq> c) s,
     if c \<in> set s then Some (tl (dropWhile (\<lambda>d. d \<noteq> c) s)) else None)"
  by (induction s) simp_all

lemma partition_at_append: "c \<notin> set p \<Longrightarrow> partition_at c (p @ c # r) = (p, Some r)"
  by (induction p) auto

lemma PREFIX_colon: "PREFIX t = digest_kind t @ '':'' \<and> CHR '':'' \<notin> set (digest_kind t)"
  by (cases t) (simp_all add: digest_kind_def)

lemma PREFIX_TO_TYPE_PREFIX [simp]: "PREFIX_TO_TYPE (PREFIX t) = Some t"
  by (cases t) (simp_all add: PREFIX_TO_TYPE_def ID_TYPES_def)

lemma PREFIX_TO_TYPE_Some: "PREFIX_TO_TYPE p = Some t \<longleftrightarrow> p = PREFIX t"
proof
  assume "PREFIX_TO_TYPE p = Some t"
  then show "p = PREFIX t"
    by (auto simp: PREFIX_TO_TYPE_def dest!: map_of_SomeD)
qed simp

lemma construct_eq_Inr:
  "construct t v = Inr w \<longleftrightarrow> w = v \<and> (\<exists>body. v = PREFIX t @ body \<and> body_ok (shape t) body)"
  by (auto simp: construct_def startswith_def dest!: sym [of "take _ _"])
     (metis append_take_drop_id)

lemma parse_id_eq_Inr:
  "parse_id v = Inr (t, w) \<longleftrightarrow> construct t v = Inr w"
proof
  assume l: "parse_id v = Inr (t, w)"
  then show "construct t v = Inr w"
    by (auto simp: parse_id_def andThen_eq_Inr split: prod.splits option.splits)
next
  assume r: "construct t v = Inr w"
  then obtain body where v: "w = v" "v = PREFIX t @ body" by (auto simp: construct_eq_Inr)
  with PREFIX_colon [of t] have "partition_at (CHR '':'') v = (digest_kind t, Some body)"
    using partition_at_append [of "CHR '':''" "digest_kind t" body] by simp
  moreover have "PREFIX_TO_TYPE (digest_kind t @ '':'') = Some t"
    using PREFIX_colon [of t] PREFIX_TO_TYPE_PREFIX [of t] by simp
  ultimately show "parse_id v = Inr (t, w)" using r v by (simp add: parse_id_def)
qed

lemma decimal_value_from_append:
  "decimal_value_from acc (s @ [c]) = decimal_value_from acc s * 10 + (of_char c - 48)"
  by (induction s arbitrary: acc) simp_all

lemma decimal_value_decimal [simp]: "decimal_value (decimal n) = n"
proof (induction n rule: decimal.induct)
  case (1 n)
  show ?case
  proof (cases "n < 10")
    case True
    then show ?thesis by (simp add: decimal.simps [of n] decimal_value_def)
  next
    case False
    with 1 have "decimal_value (decimal (n div 10)) = n div 10" by simp
    with False show ?thesis
      by (simp add: decimal.simps [of n] decimal_value_def decimal_value_from_append)
  qed
qed

lemma set_decimal: "c \<in> set (decimal n) \<Longrightarrow> is_digit c"
proof (induction n rule: decimal.induct)
  case (1 n)
  then show ?case
    by (cases "n < 10") (auto simp: decimal.simps [of n] is_digit_def)
qed

lemma snake_no_at: "is_snake s \<Longrightarrow> CHR ''@'' \<notin> set s"
  by (auto simp: is_snake_def is_lower_def is_digit_def split: list.splits)

lemma literal_roundtrip:
  assumes "of_literal c l = Inr v" and "construct ControlId c = Inr c"
  shows "literal_control v = Inr c \<and> int (literal_level v) = l"
proof -
  from assms(2) obtain s where c: "c = ''ctl:'' @ s" "is_snake s" by (auto simp: construct_eq_Inr)
  from assms(1) c have v: "v = ''lit:'' @ s @ ''@'' @ decimal (nat l)" and l: "0 \<le> l"
    by (auto simp: of_literal_def andThen_eq_Inr construct_eq_Inr snake_of_def check_level_def
        split: if_splits)
  have at: "CHR ''@'' \<notin> set (decimal (nat l))"
    using set_decimal [of "CHR ''@''"] by (auto simp: is_digit_def)
  from c snake_no_at have "partition_at (CHR ''@'') (s @ ''@'' @ decimal (nat l)) = (s, Some (decimal (nat l)))"
    by (simp add: partition_at_append)
  with assms(2) c v have "literal_control v = Inr c" by (simp add: literal_control_def)
  moreover from v l at have "int (literal_level v) = l"
    by (simp add: literal_level_def takeWhile_append)
  ultimately show ?thesis by simp
qed

lemma assert_prefix_uniqueness_ok: "assert_prefix_uniqueness = Inr ()"
  by code_simp


end
