(* ===== verification/Model.thy ===== *)
theory Model
  imports Ids "HOL-Library.Product_Lexorder"
begin

unbundle bit_operations_syntax

text \<open>
  \<^verbatim>\<open>spectra_core/model.py\<close>: the frozen records that the stages exchange. A class is a
  record, its \<open>__post_init__\<close> a function \<open>check_*\<close> that returns the record or raises, and
  its \<open>mint\<close> the constructor that computes the identifier from the canonical payload.
  Identifier fields are strings; the nominal \<open>require_id\<close> tests on them have no
  counterpart here (they are modelled in \<^theory_text>\<open>Ids\<close>). Masks are natural numbers, as the
  code rejects a negative one. Bit positions, ranks and levels are natural numbers, too.
\<close>

section \<open>Time\<close>

type_synonym nanos = int

definition TICK_GRANULARITY_NS :: int where
  "TICK_GRANULARITY_NS = 1000000000"

definition check_nanos :: "int \<Rightarrow> nanos outcome" where
  "check_nanos value =
     (if - (2 ^ 63) \<le> value \<and> value \<le> 2 ^ 63 - 1 then Inr value
      else raises_code SchemaError ''E-CANON-WIDTH'')"

definition tick_of :: "nanos \<Rightarrow> int outcome" where
  "tick_of t_ns = andThen (check_nanos t_ns) (\<lambda>t. Inr (t div TICK_GRANULARITY_NS))"

record interval =
  iv_t0 :: nanos
  iv_t1 :: nanos

definition Interval :: "nanos \<Rightarrow> nanos \<Rightarrow> interval outcome" where
  "Interval t0 t1 =
     andThen (check_nanos t0) (\<lambda>_. andThen (check_nanos t1) (\<lambda>_.
       if t1 < t0 then raises SchemaError else Inr \<lparr>iv_t0 = t0, iv_t1 = t1\<rparr>))"

definition is_empty :: "interval \<Rightarrow> bool" where
  "is_empty w = (iv_t0 w = iv_t1 w)"

definition duration_ns :: "interval \<Rightarrow> int" where
  "duration_ns w = iv_t1 w - iv_t0 w"

definition contains :: "interval \<Rightarrow> nanos \<Rightarrow> bool outcome" where
  "contains w t = andThen (check_nanos t) (\<lambda>t. Inr (iv_t0 w \<le> t \<and> t < iv_t1 w))"

definition covers :: "interval \<Rightarrow> interval \<Rightarrow> bool" where
  "covers w other = (iv_t0 w \<le> iv_t0 other \<and> iv_t1 other \<le> iv_t1 w)"

definition overlaps :: "interval \<Rightarrow> interval \<Rightarrow> bool" where
  "overlaps w other = (iv_t0 w < iv_t1 other \<and> iv_t0 other < iv_t1 w)"

text \<open>The instants of a half-open interval, the specification the predicates refer to.\<close>

definition instants :: "interval \<Rightarrow> nanos set" where
  "instants w = {iv_t0 w ..< iv_t1 w}"

section \<open>Closed enumerations\<close>

datatype integrity_class = CHAINED | SEQUENCED | NONE

datatype liveness_verdict = LIVE | BLIND | SUPPRESSED

datatype licence_basis = LB_BLIND | LB_SUPPRESSED | LB_OBLIGATION

datatype observation = OBSERVED | LICENSED

datatype minimality = EXACT_EXHAUSTIVE | EXACT_PSI_RELATIVE | SUBSET | UNVERIFIED

datatype program_kind = P_MIN | P_MAX

datatype rule_kind = DETECT | OBLIGATION

fun basis_text :: "licence_basis \<Rightarrow> string" where
  "basis_text LB_BLIND = ''BLIND''"
| "basis_text LB_SUPPRESSED = ''SUPPRESSED''"
| "basis_text LB_OBLIGATION = ''OBLIGATION''"

section \<open>Encodings of sequences\<close>

definition id_seq :: "string list \<Rightarrow> octets outcome" where
  "id_seq values = andThen (mapM ascii_text values) ordered_seq"

definition text_seq :: "(string \<Rightarrow> string) \<Rightarrow> string list \<Rightarrow> octets outcome" where
  "text_seq nform values = andThen (mapM (utf8_text nform) values) ordered_seq"

text \<open>\<open>b"".join((...))\<close> over parts each of which may raise.\<close>

definition join_parts :: "octets outcome list \<Rightarrow> octets outcome" where
  "join_parts parts = andThen (mapM id parts) (\<lambda>bs. Inr (concat bs))"

section \<open>Facts\<close>

record fact =
  f_key :: string
  f_predicate :: string
  f_args :: "string list"
  f_tick :: int

definition fact_payload :: "(string \<Rightarrow> string) \<Rightarrow> string \<Rightarrow> string list \<Rightarrow> int \<Rightarrow> octets outcome" where
  "fact_payload nform predicate args tick =
     join_parts [id_seq args, utf8_text nform predicate, u32 tick]"

definition mint_fact ::
    "(octets \<Rightarrow> octets) \<Rightarrow> (string \<Rightarrow> string) \<Rightarrow> string \<Rightarrow> string list \<Rightarrow> int \<Rightarrow> fact outcome" where
  "mint_fact raw_digest nform predicate args tick =
     andThen (fact_payload nform predicate args tick) (\<lambda>payload.
     andThen (mint raw_digest FactHash payload) (\<lambda>key.
     andThen (check_tick tick) (\<lambda>_.
       Inr \<lparr>f_key = key, f_predicate = predicate, f_args = args, f_tick = tick\<rparr>)))"

section \<open>Rule instances and their evidence\<close>

record evidence_ref =
  er_binding :: string
  er_event_id :: string
  er_source_id :: string
  er_t_evt_ns :: nanos

definition evidence_sort_key :: "evidence_ref \<Rightarrow> string \<times> string" where
  "evidence_sort_key e = (er_binding e, er_event_id e)"

record rule_instance =
  ri_instance_id :: string
  ri_rule_id :: string
  ri_rule_version :: string
  ri_head :: string
  ri_body :: "string list"
  ri_blockers :: "nat list"
  ri_observed :: observation
  ri_tick :: int
  ri_evidence :: "evidence_ref list"
  ri_license_ids :: "string list"
  ri_ghost :: bool

fun bit_count :: "nat \<Rightarrow> nat" where
  "bit_count n = (if n = 0 then 0 else n mod 2 + bit_count (n div 2))"

declare bit_count.simps [simp del]

definition check_blocker_term :: "nat \<Rightarrow> unit outcome" where
  "check_blocker_term m =
     andThen (mask_hex (int m)) (\<lambda>_.
       guard_code (bit_count m = 1) SchemaError ''E-VS-BLOCK-CONJ'')"

definition check_rule_instance :: "rule_instance \<Rightarrow> rule_instance outcome" where
  "check_rule_instance i =
     andThen (check_all check_blocker_term (ri_blockers i)) (\<lambda>_.
     andThen (check_strictly_ascending (ri_blockers i) (\<lambda>m. (bit_count m, m))) (\<lambda>_.
     andThen (check_tick (ri_tick i)) (\<lambda>_.
     andThen (check_strictly_ascending (ri_evidence i) evidence_sort_key) (\<lambda>_.
     andThen (check_strictly_ascending (ri_license_ids i) id) (\<lambda>_.
     andThen (guard (\<not> (ri_observed i = OBSERVED \<and> (ri_license_ids i \<noteq> [] \<or> ri_evidence i = [])))
               SchemaError) (\<lambda>_.
     andThen (guard (\<not> (ri_observed i = LICENSED \<and> (ri_evidence i \<noteq> [] \<or> ri_license_ids i = [])))
               SchemaError) (\<lambda>_.
     andThen (guard (\<not> (ri_ghost i \<and> ri_observed i \<noteq> LICENSED)) SchemaError) (\<lambda>_.
       Inr i))))))))"

definition instance_payload ::
    "string \<Rightarrow> string \<Rightarrow> string list \<Rightarrow> evidence_ref list \<Rightarrow> string list \<Rightarrow> octets outcome" where
  "instance_payload rule_id head body evidence license_ids =
     join_parts [id_seq body, id_seq (map er_event_id evidence), ascii_text head,
       id_seq license_ids, ascii_text rule_id]"

definition mint_rule_instance :: "(octets \<Rightarrow> octets) \<Rightarrow> rule_instance \<Rightarrow> rule_instance outcome" where
  "mint_rule_instance raw_digest i =
     andThen (instance_payload (ri_rule_id i) (ri_head i) (ri_body i) (ri_evidence i)
                (ri_license_ids i)) (\<lambda>payload.
     andThen (mint raw_digest InstanceId payload) (\<lambda>iid.
       check_rule_instance (i\<lparr>ri_instance_id := iid\<rparr>)))"

definition instance_mask :: "rule_instance \<Rightarrow> nat" where
  "instance_mask i = foldl (\<lambda>value t. value OR t) 0 (ri_blockers i)"

section \<open>Licences\<close>

record licence =
  lic_id :: string
  lic_source_id :: string
  lic_t0_ns :: nanos
  lic_t1_ns :: nanos
  lic_basis :: licence_basis
  lic_reason :: string
  lic_witness :: "string list"

definition check_licence :: "licence \<Rightarrow> licence outcome" where
  "check_licence l =
     andThen (Interval (lic_t0_ns l) (lic_t1_ns l)) (\<lambda>_.
     andThen (guard (lic_reason l \<noteq> []) SchemaError) (\<lambda>_.
     andThen (check_strictly_ascending (lic_witness l) id) (\<lambda>_.
     andThen (guard (\<not> (lic_basis l = LB_SUPPRESSED \<and> lic_witness l = [])) SchemaError) (\<lambda>_.
     andThen (guard (\<not> (lic_basis l \<noteq> LB_SUPPRESSED \<and> lic_witness l \<noteq> [])) SchemaError) (\<lambda>_.
       Inr l)))))"

definition licence_payload ::
    "(string \<Rightarrow> string) \<Rightarrow> licence_basis \<Rightarrow> string \<Rightarrow> string \<Rightarrow> interval \<Rightarrow> octets outcome" where
  "licence_payload nform basis reason source_id w =
     join_parts [ascii_text (basis_text basis), utf8_text nform reason, ascii_text source_id,
       i64 (iv_t0 w), i64 (iv_t1 w)]"

definition mint_licence ::
    "(octets \<Rightarrow> octets) \<Rightarrow> (string \<Rightarrow> string) \<Rightarrow> string \<Rightarrow> interval \<Rightarrow> licence_basis \<Rightarrow> string
     \<Rightarrow> string list \<Rightarrow> licence outcome" where
  "mint_licence raw_digest nform source_id w basis reason witness =
     andThen (licence_payload nform basis reason source_id w) (\<lambda>payload.
     andThen (mint raw_digest LicenseId payload) (\<lambda>lid.
       check_licence \<lparr>lic_id = lid, lic_source_id = source_id, lic_t0_ns = iv_t0 w,
         lic_t1_ns = iv_t1 w, lic_basis = basis, lic_reason = reason, lic_witness = witness\<rparr>))"

definition licence_sort_key :: "licence \<Rightarrow> string \<times> nanos \<times> nanos" where
  "licence_sort_key l = (lic_source_id l, lic_t0_ns l, lic_t1_ns l)"

section \<open>Threshold literals, corridors and cuts\<close>

record threshold_literal =
  tl_control_id :: string
  tl_level :: nat
  tl_bit :: nat
  tl_rank :: nat

definition check_threshold_literal :: "threshold_literal \<Rightarrow> threshold_literal outcome" where
  "check_threshold_literal a =
     andThen (check_level (int (tl_level a))) (\<lambda>_.
     andThen (guard (\<not> tl_level a < 1) SchemaError) (\<lambda>_.
     andThen (u8 (int (tl_bit a))) (\<lambda>_.
     andThen (guard_code (\<not> 64 \<le> tl_bit a) SchemaError ''E-LIMIT-COUNT'') (\<lambda>_.
     andThen (u16 (int (tl_rank a))) (\<lambda>_.
       Inr a)))))"

definition literal_order_key :: "threshold_literal \<Rightarrow> string \<times> nat" where
  "literal_order_key a = (snake_of ControlId (tl_control_id a), tl_level a)"

record corridor =
  cor_id :: string
  cor_atom_ranks :: "nat list"
  cor_mask :: nat

definition check_corridor :: "corridor \<Rightarrow> corridor outcome" where
  "check_corridor c =
     andThen (check_all (\<lambda>r. andThen (u16 (int r)) (\<lambda>_. Inr ())) (cor_atom_ranks c)) (\<lambda>_.
     andThen (check_strictly_ascending (cor_atom_ranks c) id) (\<lambda>_.
     andThen (mask_hex (int (cor_mask c))) (\<lambda>_.
       Inr c)))"

definition mint_corridor :: "(octets \<Rightarrow> octets) \<Rightarrow> nat list \<Rightarrow> nat \<Rightarrow> corridor outcome" where
  "mint_corridor raw_digest atom_ranks m =
     andThen (leb128_seq (map int atom_ranks)) (\<lambda>payload.
     andThen (mint raw_digest CorridorId payload) (\<lambda>cid.
       check_corridor \<lparr>cor_id = cid, cor_atom_ranks = atom_ranks, cor_mask = m\<rparr>))"

record cut =
  ct_atoms :: "threshold_literal list"
  ct_cardinality :: nat
  ct_mask :: nat
  ct_minimality :: minimality

definition levels_held :: "threshold_literal list \<Rightarrow> string \<Rightarrow> nat list" where
  "levels_held atoms control_id =
     sort (map tl_level (filter (\<lambda>a. tl_control_id a = control_id) atoms))"

definition check_upward_closed :: "threshold_literal list \<Rightarrow> unit outcome" where
  "check_upward_closed atoms =
     check_all (\<lambda>control_id.
         let levels = levels_held atoms control_id
         in guard_code (levels = [1..<length levels + 1]) SchemaError ''E-CUT-CLOSURE'')
       (sorted_dedup (map tl_control_id atoms))"

definition check_cut :: "cut \<Rightarrow> cut outcome" where
  "check_cut c =
     andThen (check_strictly_ascending (ct_atoms c) tl_rank) (\<lambda>_.
     andThen (u8 (int (ct_cardinality c))) (\<lambda>_.
     andThen (mask_hex (int (ct_mask c))) (\<lambda>_.
     andThen (check_upward_closed (ct_atoms c)) (\<lambda>_.
     andThen (guard (ct_cardinality c = card (set (map tl_control_id (ct_atoms c)))) SchemaError) (\<lambda>_.
       Inr c)))))"

definition mask_of_atoms :: "threshold_literal list \<Rightarrow> nat" where
  "mask_of_atoms atoms = foldl (\<lambda>m a. m OR push_bit (tl_bit a) 1) 0 atoms"

definition mint_cut :: "threshold_literal list \<Rightarrow> minimality \<Rightarrow> cut outcome" where
  "mint_cut atoms minimality =
     check_cut \<lparr>ct_atoms = atoms, ct_cardinality = card (set (map tl_control_id atoms)),
       ct_mask = mask_of_atoms atoms, ct_minimality = minimality\<rparr>"

definition compare_key :: "cut \<Rightarrow> nat \<times> nat list \<times> nat list" where
  "compare_key c = (ct_cardinality c, map tl_rank (ct_atoms c), map tl_level (ct_atoms c))"

end
