(* ===== verification/Masks.thy ===== *)
theory Masks
  imports Model
begin

text \<open>
  Bit masks as sets of bit positions. The code keeps a cut, a blocker term and a corridor
  as a Python integer below \<open>2 ^ 64\<close>; here it is a natural number, and the lemmas of this
  theory read the bitwise tests of the code (\<open>&\<close>, \<open>|\<close>, \<open>bit_count\<close>) as statements about
  the positions that are set.
\<close>

section \<open>Bits that are set\<close>

abbreviation single :: "nat \<Rightarrow> nat" where
  "single k \<equiv> 2 ^ k"

definition hits :: "nat \<Rightarrow> nat \<Rightarrow> bool" where
  "hits m c = (m AND c \<noteq> 0)"

definition submask :: "nat \<Rightarrow> nat \<Rightarrow> bool" where
  "submask m m' = (m AND m' = m)"

named_theorems mask_simps \<open>bitwise tests as statements about bit positions\<close>

lemma bit_single [mask_simps]: "bit (single k) i \<longleftrightarrow> i = k"
  by (auto simp: bit_exp_iff)

lemma hits_iff [mask_simps]: "hits m c \<longleftrightarrow> (\<exists>k. bit m k \<and> bit c k)"
  by (auto simp: hits_def bit_eq_iff bit_and_iff)

lemma submask_iff [mask_simps]: "submask m m' \<longleftrightarrow> (\<forall>k. bit m k \<longrightarrow> bit m' k)"
  by (auto simp: submask_def bit_eq_iff bit_and_iff)

lemma mask_eq_0_iff [mask_simps]: "m = 0 \<longleftrightarrow> (\<forall>k. \<not> bit m k)" for m :: nat
  by (auto simp: bit_eq_iff)

lemma hits_sym: "hits m c \<longleftrightarrow> hits c m"
  by (auto simp: mask_simps)

lemma hits_mono: "hits m c \<Longrightarrow> submask m m' \<Longrightarrow> hits m' c"
  by (auto simp: mask_simps)

lemma not_hits_0 [simp]: "\<not> hits 0 c" "\<not> hits c 0"
  by (simp_all add: hits_def)

lemma hits_or: "hits (m OR m') c \<longleftrightarrow> hits m c \<or> hits m' c"
  by (auto simp: mask_simps bit_or_iff)

lemma submask_refl [simp]: "submask m m"
  by (simp add: submask_def)

lemma submask_trans: "submask a b \<Longrightarrow> submask b c \<Longrightarrow> submask a c"
  by (simp add: submask_iff)

lemma submask_0 [simp]: "submask 0 m"
  by (simp add: submask_def)

lemma submask_or1 [simp]: "submask m (m OR m')"
  and submask_or2 [simp]: "submask m' (m OR m')"
  by (auto simp: mask_simps bit_or_iff)

lemma submask_antisym: "submask a b \<Longrightarrow> submask b a \<Longrightarrow> a = b"
  by (auto simp: submask_def and.commute)

section \<open>Population count\<close>

lemma bit_count_0 [simp]: "bit_count 0 = 0"
  by (simp add: bit_count.simps)

lemma bit_count_eq_0 [simp]: "bit_count n = 0 \<longleftrightarrow> n = 0"
proof (induction n rule: bit_count.induct)
  case (1 n)
  show ?case
  proof (cases "n = 0")
    case False
    with 1 have "bit_count n = 0 \<longleftrightarrow> n mod 2 = 0 \<and> n div 2 = 0"
      by (simp add: bit_count.simps [of n])
    also have "\<dots> \<longleftrightarrow> n = 0" by presburger
    finally show ?thesis .
  qed simp
qed

lemma bit_count_eq_1: "bit_count n = 1 \<longleftrightarrow> (\<exists>k. n = single k)"
proof (induction n rule: bit_count.induct)
  case (1 n)
  show ?case
  proof (cases "n = 0")
    case True
    then show ?thesis by simp
  next
    case False
    note IH = 1 [OF False]
    show ?thesis
    proof (cases "n mod 2 = 0")
      case True
      then have n: "n = 2 * (n div 2)" by presburger
      have "bit_count n = bit_count (n div 2)"
        using False True by (simp add: bit_count.simps [of n])
      also have "\<dots> = 1 \<longleftrightarrow> (\<exists>k. n div 2 = single k)" by (rule IH)
      also have "\<dots> \<longleftrightarrow> (\<exists>k. n = single k)"
      proof
        assume "\<exists>k. n div 2 = single k"
        then obtain k where "n div 2 = single k" by blast
        with n have "n = single (Suc k)" by simp
        then show "\<exists>k. n = single k" ..
      next
        assume "\<exists>k. n = single k"
        then obtain k where k: "n = single k" by blast
        with True obtain j where "k = Suc j" by (cases k) auto
        with k have "n div 2 = single j" by simp
        then show "\<exists>k. n div 2 = single k" ..
      qed
      finally show ?thesis .
    next
      case odd: False
      have "bit_count n = 1 \<longleftrightarrow> n div 2 = 0"
        using False odd by (simp add: bit_count.simps [of n])
      also have "\<dots> \<longleftrightarrow> n = 1" using odd by presburger
      also have "\<dots> \<longleftrightarrow> (\<exists>k. n = single k)"
      proof
        assume "n = 1"
        then have "n = single 0" by simp
        then show "\<exists>k. n = single k" ..
      next
        assume "\<exists>k. n = single k"
        then obtain k where k: "n = single k" by blast
        with odd have "k = 0" by (cases k) auto
        with k show "n = 1" by simp
      qed
      finally show ?thesis .
    qed
  qed
qed

section \<open>Unions of masks\<close>

definition union_of :: "nat list \<Rightarrow> nat" where
  "union_of ms = foldl (\<lambda>m t. m OR t) 0 ms"

lemma bit_foldl_or:
  "bit (foldl (\<lambda>m t. m OR f t) a xs) k \<longleftrightarrow> bit a k \<or> (\<exists>x \<in> set xs. bit (f x) k)"
  by (induction xs arbitrary: a) (auto simp: bit_or_iff)

lemma bit_union_of [mask_simps]: "bit (union_of ms) k \<longleftrightarrow> (\<exists>m \<in> set ms. bit m k)"
  using bit_foldl_or [of "\<lambda>t. t" 0 ms k] by (simp add: union_of_def)

lemma bit_mask_of_atoms [mask_simps]:
  "bit (mask_of_atoms atoms) k \<longleftrightarrow> (\<exists>a \<in> set atoms. tl_bit a = k)"
  by (auto simp: mask_of_atoms_def bit_foldl_or bit_single)

lemma bit_instance_mask [mask_simps]:
  "bit (instance_mask i) k \<longleftrightarrow> (\<exists>t \<in> set (ri_blockers i). bit t k)"
  using bit_foldl_or [of "\<lambda>t. t" 0 "ri_blockers i" k] by (simp add: instance_mask_def)

section \<open>The width of a mask\<close>

lemma mask_hex_eq_Inr: "(\<exists>t. mask_hex (int m) = Inr t) \<longleftrightarrow> m < 2 ^ 64"
  by (auto simp: mask_hex_def u64_def uint_def andThen_eq_Inr)

end
