(* ===== verification/Atoms.thy ===== *)
theory Atoms
  imports Masks
begin

text \<open>
  The literal universe of \<^verbatim>\<open>spectra_vs/cut.py\<close>: class \<open>AtomTable\<close> with its validation, its
  lookups and the rendering of a level assignment as a cut, the control catalog and the
  first assignment of bit positions. A table is its list of literals.
\<close>

section \<open>The table and its lookups\<close>

type_synonym atom_table = "threshold_literal list"

record control_spec =
  cs_control_id :: string
  cs_title :: string
  cs_levels :: "string list"
  cs_dimensions :: "string list"
  cs_provenance :: string

definition spec_max_level :: "control_spec \<Rightarrow> int" where
  "spec_max_level spec = int (length (cs_levels spec)) - 1"

fun check_ranks :: "nat \<Rightarrow> threshold_literal list \<Rightarrow> unit outcome" where
  "check_ranks index [] = Inr ()"
| "check_ranks index (l # ls) =
     (if tl_rank l \<noteq> index then raises SchemaError else check_ranks (Suc index) ls)"

definition control_levels :: "threshold_literal list \<Rightarrow> string \<Rightarrow> nat list" where
  "control_levels items control_id = map tl_level (filter (\<lambda>l. tl_control_id l = control_id) items)"

definition build_table :: "threshold_literal list \<Rightarrow> atom_table outcome" where
  "build_table items =
     andThen (check_strictly_ascending items literal_order_key) (\<lambda>_.
     andThen (guard_code (\<not> 64 < length items) LimitError ''E-LIMIT-COUNT'') (\<lambda>_.
     andThen (check_ranks 0 items) (\<lambda>_.
     andThen (guard (distinct (map tl_bit items)) SchemaError) (\<lambda>_.
     andThen (check_all (\<lambda>c. let levels = control_levels items c
                in guard (levels = [1..<length levels + 1]) SchemaError)
              (sorted_dedup (map tl_control_id items))) (\<lambda>_.
       Inr items)))))"

definition controls :: "atom_table \<Rightarrow> string list" where
  "controls atoms =
     foldl (\<lambda>seen l. if seen = [] \<or> last seen \<noteq> tl_control_id l
                     then seen @ [tl_control_id l] else seen) [] atoms"

definition levels_of :: "atom_table \<Rightarrow> string \<Rightarrow> threshold_literal list" where
  "levels_of atoms control_id = filter (\<lambda>a. tl_control_id a = control_id) atoms"

definition max_level :: "atom_table \<Rightarrow> string \<Rightarrow> nat" where
  "max_level atoms control_id = length (levels_of atoms control_id)"

definition literal_at :: "atom_table \<Rightarrow> string \<Rightarrow> nat \<Rightarrow> threshold_literal outcome" where
  "literal_at atoms control_id level =
     (case find (\<lambda>a. tl_control_id a = control_id \<and> tl_level a = level) atoms of
        None \<Rightarrow> raises SchemaError
      | Some a \<Rightarrow> Inr a)"

definition ranks_of_mask :: "atom_table \<Rightarrow> nat \<Rightarrow> nat list" where
  "ranks_of_mask atoms m =
     map tl_rank (filter (\<lambda>a. drop_bit (tl_bit a) m AND 1 \<noteq> 0) atoms)"

definition mask_of_ranks :: "atom_table \<Rightarrow> nat list \<Rightarrow> nat outcome" where
  "mask_of_ranks atoms ranks =
     andThen (mapM (\<lambda>r. if r < length atoms then Inr (atoms ! r) else raises IndexError) ranks)
       (\<lambda>ls. Inr (foldl (\<lambda>m l. m OR push_bit (tl_bit l) 1) 0 ls))"

text \<open>A dictionary from control ids to levels, read with \<open>.get(c, 0)\<close>.\<close>

type_synonym level_map = "string \<Rightarrow> nat option"

definition level_at :: "level_map \<Rightarrow> string \<Rightarrow> nat" where
  "level_at levels c = (case levels c of None \<Rightarrow> 0 | Some l \<Rightarrow> l)"

definition cut_of_levels :: "atom_table \<Rightarrow> level_map \<Rightarrow> minimality \<Rightarrow> cut outcome" where
  "cut_of_levels atoms levels minimality =
     mint_cut (filter (\<lambda>l. tl_level l \<le> level_at levels (tl_control_id l)) atoms) minimality"

section \<open>Tables from the catalog\<close>

definition control_snake :: "control_spec \<Rightarrow> string" where
  "control_snake spec = snake_of ControlId (cs_control_id spec)"

text \<open>The \<open>(control, level)\<close> pairs above the weakest setting, in canonical order.\<close>

definition catalog_levels :: "control_spec list \<Rightarrow> (string \<times> nat) list" where
  "catalog_levels catalog =
     concat (map (\<lambda>spec. map (\<lambda>level. (cs_control_id spec, level)) [1..<nat (spec_max_level spec + 1)])
       (sort_key control_snake catalog))"

fun catalog_literals :: "(string \<Rightarrow> nat option) \<Rightarrow> nat \<Rightarrow> (string \<times> nat) list
    \<Rightarrow> threshold_literal list outcome" where
  "catalog_literals bits rank [] = Inr []"
| "catalog_literals bits rank ((control_id, level) # rest) =
     andThen (of_literal control_id (int level)) (\<lambda>literal_id.
       case bits literal_id of
         None \<Rightarrow> raises SchemaError
       | Some b \<Rightarrow>
           andThen (check_threshold_literal
               \<lparr>tl_control_id = control_id, tl_level = level, tl_bit = b, tl_rank = rank\<rparr>) (\<lambda>l.
           andThen (catalog_literals bits (Suc rank) rest) (\<lambda>ls. Inr (l # ls))))"

definition from_catalog :: "control_spec list \<Rightarrow> (string \<Rightarrow> nat option) \<Rightarrow> atom_table outcome" where
  "from_catalog catalog bits =
     andThen (catalog_literals bits 0 (catalog_levels catalog)) build_table"

fun assign_positions :: "nat \<Rightarrow> (string \<times> nat) list \<Rightarrow> (string \<times> nat) list outcome" where
  "assign_positions position [] = Inr []"
| "assign_positions position ((control_id, level) # rest) =
     (if 64 \<le> position then raises_code LimitError ''E-LIMIT-COUNT''
      else andThen (of_literal control_id (int level)) (\<lambda>literal_id.
           andThen (assign_positions (Suc position) rest) (\<lambda>ps. Inr ((literal_id, position) # ps))))"

definition derive_bit_positions :: "control_spec list \<Rightarrow> (string \<times> nat) list outcome" where
  "derive_bit_positions catalog = assign_positions 0 (catalog_levels catalog)"

section \<open>What validation establishes\<close>

text \<open>A literal that the constructor accepts, and a table that \<open>build\<close> accepts.\<close>

definition built_table :: "atom_table \<Rightarrow> bool" where
  "built_table atoms \<longleftrightarrow>
     build_table atoms = Inr atoms \<and> (\<forall>a \<in> set atoms. check_threshold_literal a = Inr a)"

lemma check_ranks_eq_Inr:
  "check_ranks n items = Inr () \<longleftrightarrow> (\<forall>i < length items. tl_rank (items ! i) = n + i)"
proof (induction items arbitrary: n)
  case Nil
  then show ?case by simp
next
  case (Cons l ls)
  show ?case by (auto simp: Cons.IH nth_Cons split: nat.splits)
qed

lemma build_table_facts:
  assumes "built_table atoms"
  shows "strictly_ascending (map literal_order_key atoms)"
    and "length atoms \<le> 64"
    and "i < length atoms \<Longrightarrow> tl_rank (atoms ! i) = i"
    and "distinct (map tl_bit atoms)"
    and "c \<in> tl_control_id ` set atoms \<Longrightarrow> control_levels atoms c = [1..<length (control_levels atoms c) + 1]"
  using assms
  by (auto simp: built_table_def build_table_def andThen_eq_Inr check_strictly_ascending_eq_Inr
      check_ranks_eq_Inr check_all_eq_Inr Let_def not_less)

lemma built_literal:
  assumes "built_table atoms" and "a \<in> set atoms"
  shows "1 \<le> tl_level a" and "tl_bit a < 64"
proof -
  from assms have "check_threshold_literal a = Inr a" by (simp add: built_table_def)
  then show "1 \<le> tl_level a" "tl_bit a < 64"
    by (auto simp: check_threshold_literal_def andThen_eq_Inr not_less not_le)
qed

lemma map_rank_built:
  assumes "built_table atoms"
  shows "map tl_rank atoms = [0..<length atoms]"
  by (rule nth_equalityI) (simp_all add: build_table_facts(3) [OF assms])

lemma built_rank_nth:
  assumes "built_table atoms" and "a \<in> set atoms"
  shows "tl_rank a < length atoms" and "atoms ! tl_rank a = a"
proof -
  from assms(2) obtain i where "i < length atoms" "a = atoms ! i" by (auto simp: in_set_conv_nth)
  with build_table_facts(3) [OF assms(1)] show "tl_rank a < length atoms" "atoms ! tl_rank a = a"
    by auto
qed

lemma built_rank_inj:
  "built_table atoms \<Longrightarrow> a \<in> set atoms \<Longrightarrow> b \<in> set atoms \<Longrightarrow> tl_rank a = tl_rank b \<Longrightarrow> a = b"
  by (metis built_rank_nth(2))

lemma built_bit_inj:
  "built_table atoms \<Longrightarrow> a \<in> set atoms \<Longrightarrow> b \<in> set atoms \<Longrightarrow> tl_bit a = tl_bit b \<Longrightarrow> a = b"
  using build_table_facts(4) by (fastforce simp: distinct_map inj_on_def)

lemma set_ranks_of_mask: "set (ranks_of_mask atoms m) = tl_rank ` {a \<in> set atoms. bit m (tl_bit a)}"
  by (auto simp: ranks_of_mask_def bit_iff_odd_drop_bit and_one_eq odd_iff_mod_2_eq_one)

section \<open>The controls of a table\<close>

lemma controls_remdups_adj: "controls atoms = remdups_adj (map tl_control_id atoms)"
proof -
  let ?f = "\<lambda>seen l. if seen = [] \<or> last seen \<noteq> tl_control_id l then seen @ [tl_control_id l] else seen"
  have step: "foldl ?f (xs @ [c]) ls = xs @ remdups_adj (c # map tl_control_id ls)" for xs c ls
  proof (induction ls arbitrary: xs c)
    case (Cons l ls)
    show ?case using Cons.IH [of xs c] Cons.IH [of "xs @ [c]" "tl_control_id l"]
      by (cases "c = tl_control_id l") simp_all
  qed simp
  show ?thesis
  proof (cases atoms)
    case (Cons l ls)
    then show ?thesis using step [of "[]" "tl_control_id l" ls] by (simp add: controls_def)
  qed (simp add: controls_def)
qed

lemma set_controls [simp]: "set (controls atoms) = tl_control_id ` set atoms"
  by (simp add: controls_remdups_adj)

lemma distinct_remdups_adj_sorted:
  fixes g :: "'a \<Rightarrow> 'b::linorder"
  shows "sorted (map g xs) \<Longrightarrow> inj_on g (set xs) \<Longrightarrow>
    sorted_wrt (\<lambda>x y. g x < g y) (remdups_adj xs)"
proof (induction xs rule: remdups_adj.induct)
  case (3 x y xs)
  show ?case
  proof (cases "x = y")
    case True
    with 3 show ?thesis by (simp add: inj_on_def)
  next
    case False
    have "g x < g z" if "z \<in> set (y # xs)" for z
    proof -
      from that 3(3) have le: "g x \<le> g z" "g y \<le> g z" "g x \<le> g y" by auto
      have "g x \<noteq> g y" using False 3(4) by (auto simp: inj_on_def)
      with le show ?thesis by simp
    qed
    with False 3 show ?thesis by (simp add: inj_on_def)
  qed
qed simp_all

lemma built_level_one:
  assumes "built_table atoms" and "a \<in> set atoms" and "1 \<le> l" and "l \<le> tl_level a"
  shows "\<exists>b \<in> set atoms. tl_control_id b = tl_control_id a \<and> tl_level b = l"
proof -
  let ?ls = "control_levels atoms (tl_control_id a)"
  have "?ls = [1..<length ?ls + 1]"
    using build_table_facts(5) [OF assms(1)] assms(2) by blast
  moreover have "tl_level a \<in> set ?ls" using assms(2) by (auto simp: control_levels_def)
  ultimately have "l \<in> set ?ls" using assms(3,4)
    by (metis atLeastLessThan_iff le_less_trans set_upt)
  then show ?thesis by (auto simp: control_levels_def)
qed

lemma built_order_key_inj:
  assumes "built_table atoms" and "a \<in> set atoms" and "b \<in> set atoms"
    and "literal_order_key a = literal_order_key b"
  shows "a = b"
  using build_table_facts(1) [OF assms(1)] assms(2-)
  by (auto dest!: strictly_ascending_distinct simp: distinct_map inj_on_def)

lemma built_snake_inj:
  assumes "built_table atoms" and "a \<in> set atoms" and "b \<in> set atoms"
    and "snake_of ControlId (tl_control_id a) = snake_of ControlId (tl_control_id b)"
  shows "tl_control_id a = tl_control_id b"
proof -
  from built_level_one [OF assms(1,2), of 1] built_literal [OF assms(1,2)] obtain a1 where
    a1: "a1 \<in> set atoms" "tl_control_id a1 = tl_control_id a" "tl_level a1 = 1" by auto
  from built_level_one [OF assms(1,3), of 1] built_literal [OF assms(1,3)] obtain b1 where
    b1: "b1 \<in> set atoms" "tl_control_id b1 = tl_control_id b" "tl_level b1 = 1" by auto
  have "a1 = b1"
    by (rule built_order_key_inj [OF assms(1) a1(1) b1(1)])
      (simp add: literal_order_key_def a1 b1 assms(4))
  with a1 b1 show ?thesis by simp
qed

lemma controls_ascending:
  assumes "built_table atoms"
  shows "sorted_wrt (\<lambda>c d. snake_of ControlId c < snake_of ControlId d) (controls atoms)"
  unfolding controls_remdups_adj
proof (rule distinct_remdups_adj_sorted)
  have "sorted (map fst (map literal_order_key atoms))"
    using build_table_facts(1) [OF assms]
    by (auto simp: strictly_ascending_sorted_wrt sorted_wrt_map
        intro: sorted_wrt_mono_rel [rotated] simp: less_prod_def)
  then show "sorted (map (snake_of ControlId) (map tl_control_id atoms))"
    by (simp add: o_def literal_order_key_def)
  show "inj_on (snake_of ControlId) (set (map tl_control_id atoms))"
    using built_snake_inj [OF assms] by (auto simp: inj_on_def)
qed

lemma sorted_wrt_less_distinct: "sorted_wrt (\<lambda>x y. g x < g y) xs \<Longrightarrow> distinct xs"
  for g :: "'a \<Rightarrow> 'b::linorder"
  by (induction xs) auto

lemma distinct_controls: "built_table atoms \<Longrightarrow> distinct (controls atoms)"
  by (rule sorted_wrt_less_distinct [OF controls_ascending])

lemma levels_of_levels:
  assumes "built_table atoms"
  shows "map tl_level (levels_of atoms c) = [1..<max_level atoms c + 1]"
proof (cases "c \<in> tl_control_id ` set atoms")
  case True
  from build_table_facts(5) [OF assms True] show ?thesis
    by (simp add: control_levels_def levels_of_def max_level_def)
next
  case False
  then have "levels_of atoms c = []" by (auto simp: levels_of_def filter_empty_conv)
  then show ?thesis by (simp add: max_level_def)
qed

lemma max_level_pos: "c \<in> set (controls atoms) \<Longrightarrow> 1 \<le> max_level atoms c"
proof -
  assume "c \<in> set (controls atoms)"
  then have "levels_of atoms c \<noteq> []" by (auto simp: levels_of_def filter_empty_conv)
  then show ?thesis by (simp add: max_level_def Suc_le_eq)
qed

lemma level_le_max: "built_table atoms \<Longrightarrow> a \<in> set atoms \<Longrightarrow> tl_level a \<le> max_level atoms (tl_control_id a)"
proof -
  assume "built_table atoms" "a \<in> set atoms"
  then have "tl_level a \<in> set (map tl_level (levels_of atoms (tl_control_id a)))"
    by (auto simp: levels_of_def)
  with levels_of_levels [OF \<open>built_table atoms\<close>] show ?thesis by auto
qed

section \<open>Rendering a level assignment as a cut\<close>

definition raised :: "atom_table \<Rightarrow> level_map \<Rightarrow> threshold_literal list" where
  "raised atoms levels = filter (\<lambda>l. tl_level l \<le> level_at levels (tl_control_id l)) atoms"

lemma mask_of_atoms_less:
  "(\<forall>a \<in> set atoms. tl_bit a < 64) \<Longrightarrow> mask_of_atoms atoms < 2 ^ 64"
proof -
  assume *: "\<forall>a \<in> set atoms. tl_bit a < 64"
  have "take_bit 64 (mask_of_atoms atoms) = mask_of_atoms atoms"
    by (rule bit_eqI) (use * in \<open>auto simp: bit_take_bit_iff bit_mask_of_atoms\<close>)
  then show ?thesis by (simp add: take_bit_nat_eq_self_iff)
qed

lemma length_filter_card: "distinct xs \<Longrightarrow> length (filter P xs) = card {x \<in> set xs. P x}"
  by (metis distinct_card distinct_filter set_filter)

lemma filter_le_upt: "filter (\<lambda>l. l \<le> L) [1..<m + 1] = [1..<min m L + 1]"
  by (induction m) (auto simp: min_def not_less_eq_eq dest: le_antisym)

lemma levels_held_raised:
  assumes "built_table atoms"
  shows "levels_held (raised atoms levels) c = [1..<min (max_level atoms c) (level_at levels c) + 1]"
proof -
  have "map tl_level (filter (\<lambda>a. tl_control_id a = c) (raised atoms levels)) =
      filter (\<lambda>l. l \<le> level_at levels c) (map tl_level (levels_of atoms c))"
    unfolding raised_def levels_of_def by (induction atoms) auto
  also have "\<dots> = [1..<min (max_level atoms c) (level_at levels c) + 1]"
    by (simp only: levels_of_levels [OF assms] filter_le_upt)
  finally show ?thesis by (simp add: levels_held_def sorted_sort_id del: upt_Suc)
qed

lemma cut_of_levels_ok:
  assumes "built_table atoms"
  shows "cut_of_levels atoms levels mn =
    Inr \<lparr>ct_atoms = raised atoms levels,
         ct_cardinality = card (set (map tl_control_id (raised atoms levels))),
         ct_mask = mask_of_atoms (raised atoms levels), ct_minimality = mn\<rparr>"
proof -
  let ?as = "raised atoms levels"
  let ?c = "\<lparr>ct_atoms = ?as, ct_cardinality = card (set (map tl_control_id ?as)),
         ct_mask = mask_of_atoms ?as, ct_minimality = mn\<rparr>"
  have sub: "set ?as \<subseteq> set atoms" by (auto simp: raised_def)
  have "strictly_ascending (map tl_rank atoms)"
    by (simp add: map_rank_built [OF assms] strictly_ascending_sorted_wrt)
  then have asc: "strictly_ascending (map tl_rank ?as)"
    by (auto simp: strictly_ascending_sorted_wrt sorted_wrt_map raised_def intro: sorted_wrt_filter)
  have "card (set (map tl_control_id ?as)) \<le> length ?as"
    by (metis card_length length_map)
  also have "\<dots> \<le> 64"
    using build_table_facts(2) [OF assms] by (metis length_filter_le le_trans raised_def)
  finally have card: "card (set (map tl_control_id ?as)) \<le> 64" .
  have less: "mask_of_atoms ?as < 2 ^ 64"
    by (rule mask_of_atoms_less) (use sub built_literal(2) [OF assms] in auto)
  then obtain t where hex: "mask_hex (int (mask_of_atoms ?as)) = Inr t"
    using mask_hex_eq_Inr by blast
  have closed: "check_upward_closed ?as = Inr ()"
    by (simp add: check_upward_closed_def check_all_eq_Inr levels_held_raised [OF assms] del: upt_Suc)
  have "check_cut ?c = Inr ?c"
    using asc card hex closed
    by (simp add: check_cut_def andThen_eq_Inr check_strictly_ascending_eq_Inr u8_def uint_def)
  then show ?thesis by (simp add: cut_of_levels_def mint_cut_def raised_def [symmetric])
qed

end
