(* ===== verification/CutSearch.thy ===== *)
theory CutSearch
  imports Atoms "HOL-Library.Sublist"
begin

text \<open>
  \<^verbatim>\<open>spectra_vs/cut.py\<close>, first part: which clauses a control hits, the branch and bound
  \<open>_bb\<close> for the fewest raised controls that hit every corridor clause, its node budget, and
  \<open>min_cardinality\<close>. A clause is a set of atom ranks; the node counter \<open>_NodeBox\<close> is threaded
  as a number together with its limit, and a \<open>_BudgetHit\<close> is the left value that carries the
  count at which it was raised.
\<close>

section \<open>Which clauses a control hits\<close>

type_synonym clause = "nat set"

definition hit_indices :: "clause list \<Rightarrow> nat \<Rightarrow> nat set" where
  "hit_indices clauses rank = set (filter (\<lambda>i. rank \<in> clauses ! i) [0..<length clauses])"

fun level_hits :: "clause list \<Rightarrow> nat set \<Rightarrow> threshold_literal list \<Rightarrow> nat set list" where
  "level_hits clauses running [] = []"
| "level_hits clauses running (l # ls) =
     (let running' = running \<union> hit_indices clauses (tl_rank l)
      in running' # level_hits clauses running' ls)"

definition control_hits :: "clause list \<Rightarrow> atom_table \<Rightarrow> nat set list \<times> nat set list list" where
  "control_hits clauses atoms =
     (let per_level = map (\<lambda>c. level_hits clauses {} (levels_of atoms c)) (controls atoms)
      in (map (\<lambda>levels. if levels \<noteq> [] then last levels else {}) per_level, per_level))"

definition ceil_div :: "int \<Rightarrow> int \<Rightarrow> int" where
  "ceil_div numerator denominator = - ((- numerator) div denominator)"

section \<open>Branch and bound\<close>

definition widest :: "nat set list \<Rightarrow> nat list \<Rightarrow> nat set \<Rightarrow> nat" where
  "widest hs rest unhit =
     foldl (\<lambda>w c. let width = card (unhit \<inter> hs ! c) in if w < width then width else w) 0 rest"

text \<open>
  \<open>_bb\<close> and its loop over \<open>range(start, len(allowed))\<close>. The pair \<open>allowed, start\<close> is the
  list of the controls that are still to be considered.
\<close>

function bb ::
    "nat set list \<Rightarrow> int \<Rightarrow> nat list \<Rightarrow> nat set \<Rightarrow> nat \<Rightarrow> nat option \<Rightarrow> nat
     \<Rightarrow> (nat, nat option \<times> nat) result"
  and bb_loop ::
    "nat set list \<Rightarrow> int \<Rightarrow> nat list \<Rightarrow> nat set \<Rightarrow> nat \<Rightarrow> nat option \<Rightarrow> nat
     \<Rightarrow> (nat, nat option \<times> nat) result"
where
  "bb hs limit rest unhit chosen best used =
     (let used' = used + 1 in
      if limit < int used' then Inl used'
      else if unhit = {} then
        Inr ((case best of
                None \<Rightarrow> Some chosen
              | Some b \<Rightarrow> if chosen < b then Some chosen else best), used')
      else
        let w = widest hs rest unhit in
        if w = 0 then Inr (best, used')
        else if (case best of
                   None \<Rightarrow> False
                 | Some b \<Rightarrow> int b \<le> int chosen + ceil_div (int (card unhit)) (int w))
          then Inr (best, used')
          else bb_loop hs limit rest unhit chosen best used')"
| "bb_loop hs limit [] unhit chosen best used = Inr (best, used)"
| "bb_loop hs limit (control # rest) unhit chosen best used =
     (let covered = unhit \<inter> hs ! control in
      if covered = {} then bb_loop hs limit rest unhit chosen best used
      else case bb hs limit rest (unhit - covered) (chosen + 1) best used of
        Inl u \<Rightarrow> Inl u
      | Inr (best', used') \<Rightarrow> bb_loop hs limit rest unhit chosen best' used')"
  by pat_completeness auto
termination
  by (relation "measure (\<lambda>x. case x of
        Inl (hs, limit, rest, unhit, chosen, best, used) \<Rightarrow> 2 * length rest + 1
      | Inr (hs, limit, rest, unhit, chosen, best, used) \<Rightarrow> 2 * length rest)") auto

declare bb.simps [simp del]

datatype min_card_status = EXACT | INFEASIBLE | BUDGET_EXHAUSTED

record min_card_result =
  mc_value :: "nat option"
  mc_status :: min_card_status
  mc_nodes :: nat

definition allowed_controls :: "atom_table \<Rightarrow> string list \<Rightarrow> nat list" where
  "allowed_controls atoms excluded =
     map fst (filter (\<lambda>(i, c). c \<notin> set excluded) (enumerate 0 (controls atoms)))"

definition min_cardinality :: "clause list \<Rightarrow> atom_table \<Rightarrow> int \<Rightarrow> string list \<Rightarrow> min_card_result" where
  "min_cardinality clauses atoms budget excluded =
     (if budget \<le> 0 then \<lparr>mc_value = None, mc_status = BUDGET_EXHAUSTED, mc_nodes = 0\<rparr>
      else case bb (fst (control_hits clauses atoms)) budget (allowed_controls atoms excluded)
                  {0..<length clauses} 0 None 0 of
          Inl used \<Rightarrow> \<lparr>mc_value = None, mc_status = BUDGET_EXHAUSTED, mc_nodes = used\<rparr>
        | Inr (None, used) \<Rightarrow> \<lparr>mc_value = None, mc_status = INFEASIBLE, mc_nodes = used\<rparr>
        | Inr (Some best, used) \<Rightarrow> \<lparr>mc_value = Some best, mc_status = EXACT, mc_nodes = used\<rparr>)"

definition extendable ::
    "nat set list \<Rightarrow> int \<Rightarrow> nat list \<Rightarrow> nat set \<Rightarrow> int \<Rightarrow> nat \<Rightarrow> (nat, bool \<times> nat) result" where
  "extendable hs limit rest unhit cap used =
     (if cap < 0 then Inr (unhit = {}, used)
      else andThen (bb hs limit rest unhit 0 (Some (nat (cap + 1))) used) (\<lambda>(found, used').
        Inr ((case found of None \<Rightarrow> False | Some f \<Rightarrow> int f \<le> cap), used')))"

section \<open>What the hit tables hold\<close>

text \<open>The clauses that a control hits when it is raised to a level.\<close>

definition hit_by :: "atom_table \<Rightarrow> clause list \<Rightarrow> string \<Rightarrow> nat \<Rightarrow> nat set" where
  "hit_by atoms clauses c l =
     {j. j < length clauses \<and>
         (\<exists>a \<in> set atoms. tl_control_id a = c \<and> tl_level a \<le> l \<and> tl_rank a \<in> clauses ! j)}"

lemma length_level_hits [simp]: "length (level_hits clauses running ls) = length ls"
  by (induction ls arbitrary: running) (simp_all add: Let_def)

lemma nth_level_hits:
  "k < length ls \<Longrightarrow> level_hits clauses running ls ! k =
     running \<union> (\<Union>i \<in> {..k}. hit_indices clauses (tl_rank (ls ! i)))"
proof (induction ls arbitrary: running k)
  case (Cons l ls)
  show ?case
  proof (cases k)
    case (Suc k')
    have "{..k} = insert 0 (Suc ` {..k'})"
      using Suc by (simp add: atMost_Suc_eq_insert_0)
    with Suc Cons show ?thesis by (auto simp: Let_def)
  qed (simp add: Let_def)
qed simp

lemma nth_levels_of:
  assumes "built_table atoms" and "i < max_level atoms c"
  shows "tl_level (levels_of atoms c ! i) = i + 1"
proof -
  have "tl_level (levels_of atoms c ! i) = map tl_level (levels_of atoms c) ! i"
    using assms(2) by (simp add: max_level_def)
  then show ?thesis using levels_of_levels [OF assms(1), of c] assms(2) by (simp del: upt_Suc)
qed

lemma levels_of_upto:
  assumes "built_table atoms" and "k < max_level atoms c"
  shows "{levels_of atoms c ! i | i. i \<le> k} = {a \<in> set atoms. tl_control_id a = c \<and> tl_level a \<le> k + 1}"
proof -
  have "\<exists>i \<le> k. a = levels_of atoms c ! i"
    if "a \<in> set atoms" "tl_control_id a = c" "tl_level a \<le> k + 1" for a
  proof -
    from that have "a \<in> set (levels_of atoms c)" by (simp add: levels_of_def)
    then obtain i where "i < max_level atoms c" "a = levels_of atoms c ! i"
      by (auto simp: in_set_conv_nth max_level_def)
    with nth_levels_of [OF assms(1), of i c] that(3) show ?thesis by auto
  qed
  moreover have "levels_of atoms c ! i \<in> set atoms \<and> tl_control_id (levels_of atoms c ! i) = c \<and>
      tl_level (levels_of atoms c ! i) \<le> k + 1" if "i \<le> k" for i
    using nth_mem [of i "levels_of atoms c"] nth_levels_of [OF assms(1), of i c] that assms(2)
    by (auto simp: max_level_def levels_of_def)
  ultimately show ?thesis by blast
qed

lemma nth_per_level:
  assumes "built_table atoms" and "i < length (controls atoms)"
    and "1 \<le> l" and "l \<le> max_level atoms (controls atoms ! i)"
  shows "snd (control_hits clauses atoms) ! i ! (l - 1) = hit_by atoms clauses (controls atoms ! i) l"
proof -
  let ?c = "controls atoms ! i"
  have k: "l - 1 < max_level atoms ?c" using assms(3,4) by simp
  have "snd (control_hits clauses atoms) ! i ! (l - 1) =
      (\<Union>j \<in> {..l - 1}. hit_indices clauses (tl_rank (levels_of atoms ?c ! j)))"
    using assms(2) k by (simp add: control_hits_def Let_def nth_level_hits max_level_def)
  also have "\<dots> = (\<Union>a \<in> {levels_of atoms ?c ! j | j. j \<le> l - 1}. hit_indices clauses (tl_rank a))"
    by auto
  also have "\<dots> = hit_by atoms clauses ?c l"
    using assms(3) by (subst levels_of_upto [OF assms(1) k]) (auto simp: hit_by_def hit_indices_def)
  finally show ?thesis .
qed

lemma length_control_hits [simp]:
  "length (fst (control_hits clauses atoms)) = length (controls atoms)"
  by (simp add: control_hits_def Let_def)

lemma nth_at_max:
  assumes "built_table atoms" and "i < length (controls atoms)"
  shows "fst (control_hits clauses atoms) ! i =
    hit_by atoms clauses (controls atoms ! i) (max_level atoms (controls atoms ! i))"
proof -
  let ?c = "controls atoms ! i" and ?per = "snd (control_hits clauses atoms) ! i"
  have m: "1 \<le> max_level atoms ?c" using assms(2) by (intro max_level_pos nth_mem)
  have "?per = level_hits clauses {} (levels_of atoms ?c)"
    using assms(2) by (simp add: control_hits_def Let_def)
  then have len: "length ?per = max_level atoms ?c" by (simp add: max_level_def)
  have "fst (control_hits clauses atoms) ! i = last ?per"
  proof -
    from len m have "?per \<noteq> []" by auto
    then show ?thesis using assms(2) by (simp add: control_hits_def Let_def)
  qed
  also have "\<dots> = ?per ! (max_level atoms ?c - 1)"
    using len m by (subst last_conv_nth) auto
  also have "\<dots> = hit_by atoms clauses ?c (max_level atoms ?c)"
    using nth_per_level [OF assms m] by simp
  finally show ?thesis .
qed

lemma hit_by_max:
  assumes "built_table atoms" and "max_level atoms c \<le> l"
  shows "hit_by atoms clauses c l = hit_by atoms clauses c (max_level atoms c)"
  using level_le_max [OF assms(1)] assms(2) by (fastforce simp: hit_by_def)

section \<open>The branch and bound is exact\<close>

definition within :: "nat option \<Rightarrow> nat \<Rightarrow> bool" where
  "within best k = (case best of None \<Rightarrow> False | Some b \<Rightarrow> b \<le> k)"

definition covers_all :: "nat set list \<Rightarrow> nat set \<Rightarrow> nat set \<Rightarrow> bool" where
  "covers_all hs C unhit \<longleftrightarrow> unhit \<subseteq> (\<Union>c \<in> C. hs ! c)"

definition coverable :: "nat set list \<Rightarrow> nat list \<Rightarrow> nat set \<Rightarrow> nat \<Rightarrow> bool" where
  "coverable hs rest unhit k \<longleftrightarrow> (\<exists>C \<subseteq> set rest. covers_all hs C unhit \<and> card C \<le> k)"

lemma widest_ge: "c \<in> set rest \<Longrightarrow> card (unhit \<inter> hs ! c) \<le> widest hs rest unhit"
proof -
  let ?f = "\<lambda>w c. let width = card (unhit \<inter> hs ! c) in if w < width then width else w"
  have "w \<le> foldl ?f w cs \<and> (\<forall>c \<in> set cs. card (unhit \<inter> hs ! c) \<le> foldl ?f w cs)" for w cs
  proof (induction cs arbitrary: w)
    case (Cons c cs)
    from Cons [of "?f w c"] show ?case by (auto simp: Let_def split: if_splits)
  qed simp
  then show "c \<in> set rest \<Longrightarrow> ?thesis" by (simp add: widest_def)
qed

lemma cover_card_bound:
  assumes "covers_all hs C unhit" and "C \<subseteq> set rest" and "finite unhit"
  shows "card unhit \<le> card C * widest hs rest unhit"
proof -
  have fin: "finite C" using assms(2) finite_subset by blast
  have "unhit = (\<Union>c \<in> C. unhit \<inter> hs ! c)" using assms(1) by (auto simp: covers_all_def)
  then have "card unhit \<le> (\<Sum>c \<in> C. card (unhit \<inter> hs ! c))"
    using card_UN_le [OF fin, of "\<lambda>c. unhit \<inter> hs ! c"] by simp
  also have "\<dots> \<le> (\<Sum>c \<in> C. widest hs rest unhit)"
    by (rule sum_mono) (use widest_ge assms(2) in auto)
  finally show ?thesis by simp
qed

lemma ceil_div_le: "0 < d \<Longrightarrow> n \<le> k * d \<Longrightarrow> ceil_div n d \<le> k"
proof -
  assume d: "0 < d" and n: "n \<le> k * d"
  have "- k = (- k * d) div d"
    by (rule nonzero_mult_div_cancel_right [symmetric]) (use d in simp)
  also have "\<dots> \<le> (- n) div d" by (rule zdiv_mono1) (use d n in auto)
  finally show ?thesis by (simp add: ceil_div_def)
qed

lemma coverable_empty [simp]: "coverable hs rest {} k"
  unfolding coverable_def covers_all_def by (intro exI [of _ "{}"]) simp

lemma coverable_Nil: "unhit \<noteq> {} \<Longrightarrow> \<not> coverable hs [] unhit k"
  by (auto simp: coverable_def covers_all_def)

lemma coverable_Cons:
  "coverable hs (c # rest) unhit k \<longleftrightarrow>
     coverable hs rest unhit k \<or> (\<exists>k'. k = Suc k' \<and> coverable hs rest (unhit - hs ! c) k')"
proof
  assume "coverable hs (c # rest) unhit k"
  then obtain C where C: "C \<subseteq> insert c (set rest)" "covers_all hs C unhit" "card C \<le> k"
    by (auto simp: coverable_def)
  then have fin: "finite C" by (meson finite_insert finite_set finite_subset)
  show "coverable hs rest unhit k \<or> (\<exists>k'. k = Suc k' \<and> coverable hs rest (unhit - hs ! c) k')"
  proof (cases "c \<in> C")
    case False
    with C show ?thesis by (auto simp: coverable_def)
  next
    case True
    then have "card (C - {c}) < card C" using fin by (intro psubset_card_mono) auto
    with C(3) obtain k' where "k = Suc k'" "card (C - {c}) \<le> k'"
      by (cases k) auto
    moreover have "covers_all hs (C - {c}) (unhit - hs ! c)" using C(2) by (auto simp: covers_all_def)
    moreover have "C - {c} \<subseteq> set rest" using C(1) by auto
    ultimately show ?thesis unfolding coverable_def by blast
  qed
next
  assume "coverable hs rest unhit k \<or> (\<exists>k'. k = Suc k' \<and> coverable hs rest (unhit - hs ! c) k')"
  then show "coverable hs (c # rest) unhit k"
  proof
    assume "coverable hs rest unhit k"
    then show ?thesis by (auto simp: coverable_def)
  next
    assume "\<exists>k'. k = Suc k' \<and> coverable hs rest (unhit - hs ! c) k'"
    then obtain k' C where C: "k = Suc k'" "C \<subseteq> set rest" "covers_all hs C (unhit - hs ! c)" "card C \<le> k'"
      by (auto simp: coverable_def)
    then have "covers_all hs (insert c C) unhit" by (auto simp: covers_all_def)
    moreover have "card (insert c C) \<le> k"
      using C(1,4) card_insert_le_m1 [of k C c] by simp
    moreover have "insert c C \<subseteq> set (c # rest)" using C(2) by auto
    ultimately show ?thesis unfolding coverable_def by blast
  qed
qed

text \<open>An optimum found so far, improved by covers of what is left.\<close>

definition improves :: "nat set list \<Rightarrow> nat list \<Rightarrow> nat set \<Rightarrow> nat \<Rightarrow> nat option \<Rightarrow> nat option \<Rightarrow> bool" where
  "improves hs rest unhit chosen best best' \<longleftrightarrow>
     (\<forall>k. within best' k \<longleftrightarrow> within best k \<or> (chosen \<le> k \<and> coverable hs rest unhit (k - chosen)))"

lemma bb_improves:
  "bb hs limit rest unhit chosen best used = Inr (best', used') \<Longrightarrow> finite unhit \<Longrightarrow>
     improves hs rest unhit chosen best best'"
  "bb_loop hs limit rest unhit chosen best used = Inr (best', used') \<Longrightarrow> finite unhit \<Longrightarrow>
     unhit \<noteq> {} \<Longrightarrow> improves hs rest unhit chosen best best'"
proof (induction hs limit rest unhit chosen best used and hs limit rest unhit chosen best used
    arbitrary: best' used' and best' used' rule: bb_bb_loop.induct)
  case (1 hs limit rest unhit chosen best used)
  let ?w = "widest hs rest unhit"
  from "1.prems"(1) have within_limit: "\<not> limit < int (used + 1)"
    by (auto simp: bb.simps [of hs] Let_def split: if_splits)
  show ?case
  proof (cases "unhit = {}")
    case True
    with "1.prems"(1) within_limit show ?thesis
      by (auto simp: bb.simps [of hs] Let_def improves_def within_def split: option.splits if_splits)
  next
    case ne: False
    have bound: "card unhit \<le> k * ?w" if "coverable hs rest unhit k" for k
    proof -
      from that obtain C where C: "C \<subseteq> set rest" "covers_all hs C unhit" "card C \<le> k"
        by (auto simp: coverable_def)
      have "card unhit \<le> card C * ?w" by (rule cover_card_bound [OF C(2,1) "1.prems"(2)])
      also have "\<dots> \<le> k * ?w" using C(3) by simp
      finally show ?thesis .
    qed
    show ?thesis
    proof (cases "?w = 0")
      case True
      with ne bound have "\<not> coverable hs rest unhit k" for k
        using "1.prems"(2) by fastforce
      moreover have "best' = best"
        using "1.prems"(1) within_limit ne True by (simp add: bb.simps [of hs] Let_def)
      ultimately show ?thesis by (simp add: improves_def)
    next
      case w: False
      let ?cut = "case best of None \<Rightarrow> False
        | Some b \<Rightarrow> int b \<le> int chosen + ceil_div (int (card unhit)) (int ?w)"
      show ?thesis
      proof (cases ?cut)
        case True
        then obtain b where b: "best = Some b" "int b \<le> int chosen + ceil_div (int (card unhit)) (int ?w)"
          by (auto split: option.splits)
        have "b \<le> k" if "chosen \<le> k" "coverable hs rest unhit (k - chosen)" for k
        proof -
          have "int (card unhit) \<le> int (k - chosen) * int ?w"
            using bound [OF that(2)] by (simp flip: of_nat_mult)
          then have "ceil_div (int (card unhit)) (int ?w) \<le> int (k - chosen)"
            using w by (intro ceil_div_le) simp_all
          with b(2) that(1) show ?thesis by simp
        qed
        moreover have "best' = best"
          using "1.prems"(1) within_limit ne w True by (simp add: bb.simps [of hs] Let_def)
        ultimately show ?thesis by (auto simp: improves_def within_def b)
      next
        case False
        then have "bb_loop hs limit rest unhit chosen best (used + 1) = Inr (best', used')"
          using "1.prems"(1) within_limit ne w by (simp add: bb.simps [of hs] Let_def)
        with "1.IH" [OF refl within_limit ne refl w False] "1.prems"(2) ne show ?thesis by blast
      qed
    qed
  qed
next
  case (2 hs limit unhit chosen best used)
  then show ?case by (simp add: improves_def coverable_Nil)
next
  case (3 hs limit control rest unhit chosen best used)
  show ?case
  proof (cases "unhit \<inter> hs ! control = {}")
    case True
    then have "unhit - hs ! control = unhit" by auto
    then have "coverable hs (control # rest) unhit k \<longleftrightarrow> coverable hs rest unhit k" for k
      unfolding coverable_Cons by (auto simp: coverable_def intro: le_SucI)
    moreover have "improves hs rest unhit chosen best best'"
      using 3 True by simp
    ultimately show ?thesis by (simp add: improves_def)
  next
    case False
    from "3.prems"(1) False obtain b u where
      rec: "bb hs limit rest (unhit - unhit \<inter> hs ! control) (chosen + 1) best used = Inr (b, u)"
      and rest: "bb_loop hs limit rest unhit chosen b u = Inr (best', used')"
      by (auto simp: Let_def split: sum.splits)
    have diff: "unhit - unhit \<inter> hs ! control = unhit - hs ! control" by auto
    from "3.IH"(2) [OF refl False rec] "3.prems"(2)
    have 1: "improves hs rest (unhit - hs ! control) (chosen + 1) best b" by (simp add: diff)
    from "3.IH"(3) [OF refl False rec refl rest] "3.prems"(2,3)
    have 2: "improves hs rest unhit chosen b best'" by simp
    show ?thesis
      unfolding improves_def coverable_Cons
    proof
      fix k
      have "within best' k \<longleftrightarrow> within best k \<or>
          (chosen + 1 \<le> k \<and> coverable hs rest (unhit - hs ! control) (k - (chosen + 1))) \<or>
          (chosen \<le> k \<and> coverable hs rest unhit (k - chosen))"
        using 1 2 by (auto simp: improves_def)
      also have "chosen + 1 \<le> k \<and> coverable hs rest (unhit - hs ! control) (k - (chosen + 1)) \<longleftrightarrow>
          chosen \<le> k \<and> (\<exists>k'. k - chosen = Suc k' \<and> coverable hs rest (unhit - hs ! control) k')"
        by (cases "k - chosen") (auto simp: Suc_le_eq diff_Suc)
      finally show "within best' k \<longleftrightarrow> within best k \<or> (chosen \<le> k \<and>
          (coverable hs rest unhit (k - chosen) \<or>
           (\<exists>k'. k - chosen = Suc k' \<and> coverable hs rest (unhit - hs ! control) k')))"
        by blast
    qed
  qed
qed

section \<open>The node budget\<close>

abbreviation pruned :: "nat set list \<Rightarrow> nat list \<Rightarrow> nat set \<Rightarrow> nat \<Rightarrow> nat option \<Rightarrow> bool" where
  "pruned hs rest unhit chosen best \<equiv> (case best of None \<Rightarrow> False
     | Some b \<Rightarrow> int b \<le> int chosen + ceil_div (int (card unhit)) (int (widest hs rest unhit)))"

lemma bb_leaf:
  assumes "\<not> limit < int (used + 1)"
    and "unhit = {} \<or> widest hs rest unhit = 0 \<or> pruned hs rest unhit chosen best"
  shows "\<exists>b. bb hs limit rest unhit chosen best used = Inr (b, used + 1)"
proof (cases "unhit = {}")
  case True
  then show ?thesis using assms(1) by (simp add: bb.simps [of hs] Let_def)
next
  case False
  with assms have "bb hs limit rest unhit chosen best used = Inr (best, used + 1)"
    by (cases "widest hs rest unhit = 0") (simp_all add: bb.simps [of hs] Let_def)
  then show ?thesis by blast
qed

lemma bb_node:
  assumes "\<not> limit < int (used + 1)"
    and "\<not> (unhit = {} \<or> widest hs rest unhit = 0 \<or> pruned hs rest unhit chosen best)"
  shows "bb hs limit rest unhit chosen best used = bb_loop hs limit rest unhit chosen best (used + 1)"
  using assms by (simp add: bb.simps [of hs] Let_def)

lemma bb_used:
  "bb hs limit rest unhit chosen best used = r \<Longrightarrow>
     (case r of Inl u \<Rightarrow> limit < int u \<and> (int used \<le> limit \<longrightarrow> int u = limit + 1)
      | Inr (b, u) \<Rightarrow> used < u \<and> int u \<le> limit)"
  "bb_loop hs limit rest unhit chosen best used = r \<Longrightarrow> int used \<le> limit \<Longrightarrow>
     (case r of Inl u \<Rightarrow> int u = limit + 1 | Inr (b, u) \<Rightarrow> used \<le> u \<and> int u \<le> limit)"
proof (induction hs limit rest unhit chosen best used and hs limit rest unhit chosen best used
    arbitrary: r and r rule: bb_bb_loop.induct)
  case (1 hs limit rest unhit chosen best used)
  show ?case
  proof (cases "limit < int (used + 1)")
    case True
    then have "r = Inl (used + 1)" using "1.prems" by (simp add: bb.simps [of hs] Let_def)
    with True show ?thesis by auto
  next
    case within_limit: False
    let ?w = "widest hs rest unhit"
    show ?thesis
    proof (cases "unhit = {} \<or> ?w = 0 \<or> pruned hs rest unhit chosen best")
      case True
      then obtain b where "r = Inr (b, used + 1)"
        using "1.prems" bb_leaf [OF within_limit] by fastforce
      with within_limit show ?thesis by simp
    next
      case False
      then have "bb_loop hs limit rest unhit chosen best (used + 1) = r"
        using "1.prems" bb_node [OF within_limit False] by simp
      with "1.IH" [OF refl within_limit _ refl, of r] False within_limit
      show ?thesis by (auto split: sum.splits)
    qed
  qed
next
  case (3 hs limit control rest unhit chosen best used)
  show ?case
  proof (cases "unhit \<inter> hs ! control = {}")
    case True
    with 3 show ?thesis by simp
  next
    case False
    let ?rec = "bb hs limit rest (unhit - unhit \<inter> hs ! control) (chosen + 1) best used"
    note IH = "3.IH"(2) [OF refl False refl]
    show ?thesis
    proof (cases ?rec)
      case (Inl u)
      with "3.prems" False IH show ?thesis by (auto simp: Let_def)
    next
      case (Inr x)
      obtain b u where x: "x = (b, u)" by (cases x)
      have rest: "bb_loop hs limit rest unhit chosen b u = r"
        using "3.prems"(1) False Inr x by (simp add: Let_def)
      from IH Inr x have u: "used < u" "int u \<le> limit" by simp_all
      from "3.IH"(3) [OF refl False _ refl rest u(2)] Inr x u(1)
      show ?thesis by (auto split: sum.splits)
    qed
  qed
qed auto

lemma bb_enough:
  "int used + 2 ^ length rest \<le> limit \<Longrightarrow>
     \<exists>b u. bb hs limit rest unhit chosen best used = Inr (b, u) \<and> u \<le> used + 2 ^ length rest"
  "int used + 2 ^ length rest \<le> limit + 1 \<Longrightarrow>
     \<exists>b u. bb_loop hs limit rest unhit chosen best used = Inr (b, u) \<and> u + 1 \<le> used + 2 ^ length rest"
proof (induction hs limit rest unhit chosen best used and hs limit rest unhit chosen best used
    rule: bb_bb_loop.induct)
  case (1 hs limit rest unhit chosen best used)
  have one: "1 \<le> (2::int) ^ length rest" "1 \<le> (2::nat) ^ length rest" by simp_all
  with "1.prems" have within_limit: "\<not> limit < int (used + 1)" by linarith
  let ?w = "widest hs rest unhit"
  show ?case
  proof (cases "unhit = {} \<or> ?w = 0 \<or> pruned hs rest unhit chosen best")
    case True
    then obtain b where "bb hs limit rest unhit chosen best used = Inr (b, used + 1)"
      using bb_leaf [OF within_limit] by fastforce
    with one show ?thesis by simp
  next
    case False
    then have "bb hs limit rest unhit chosen best used = bb_loop hs limit rest unhit chosen best (used + 1)"
      using bb_node [OF within_limit False] by simp
    with "1.IH" [OF refl within_limit _ refl] False "1.prems" show ?thesis by auto
  qed
next
  case (3 hs limit control rest unhit chosen best used)
  have one: "1 \<le> (2::int) ^ length rest" "1 \<le> (2::nat) ^ length rest" by simp_all
  have dbl: "(2::int) ^ length (control # rest) = 2 * 2 ^ length rest"
    "(2::nat) ^ length (control # rest) = 2 * 2 ^ length rest" by simp_all
  show ?case
  proof (cases "unhit \<inter> hs ! control = {}")
    case True
    have "int used + 2 ^ length rest \<le> limit + 1" using "3.prems" one(1) dbl by linarith
    from "3.IH"(1) [OF refl True this] obtain b u where
      "bb_loop hs limit rest unhit chosen best used = Inr (b, u)" "u + 1 \<le> used + 2 ^ length rest"
      by blast
    moreover from this(2) have "u + 1 \<le> used + 2 ^ length (control # rest)"
      using one(2) dbl(2) by linarith
    ultimately show ?thesis using True by simp
  next
    case False
    have "int used + 2 ^ length rest \<le> limit" using "3.prems" one(1) dbl by linarith
    from "3.IH"(2) [OF refl False this] obtain b u where
      rec: "bb hs limit rest (unhit - unhit \<inter> hs ! control) (chosen + 1) best used = Inr (b, u)"
      and u: "u \<le> used + 2 ^ length rest" by blast
    have "int u \<le> int used + 2 ^ length rest" using of_nat_mono [OF u, where 'a = int] by simp
    then have "int u + 2 ^ length rest \<le> limit + 1" using "3.prems" dbl(1) by linarith
    from "3.IH"(3) [OF refl False rec refl this] obtain b' u' where
      "bb_loop hs limit rest unhit chosen b u = Inr (b', u')" "u' + 1 \<le> u + 2 ^ length rest" by blast
    with rec u False show ?thesis by (simp add: Let_def)
  qed
qed simp

section \<open>Minimum cardinality\<close>

text \<open>A set of controls, each raised to its maximum, hits every clause.\<close>

definition controls_hit :: "atom_table \<Rightarrow> clause list \<Rightarrow> string set \<Rightarrow> bool" where
  "controls_hit atoms clauses C \<longleftrightarrow>
     (\<forall>cl \<in> set clauses. \<exists>a \<in> set atoms. tl_control_id a \<in> C \<and> tl_rank a \<in> cl)"

text \<open>A set of at most \<open>k\<close> controls from \<open>D\<close> hits every clause.\<close>

definition cut_exists :: "atom_table \<Rightarrow> clause list \<Rightarrow> string set \<Rightarrow> nat \<Rightarrow> bool" where
  "cut_exists atoms clauses D k \<longleftrightarrow> (\<exists>C \<subseteq> D. controls_hit atoms clauses C \<and> card C \<le> k)"

abbreviation control_at :: "atom_table \<Rightarrow> nat \<Rightarrow> string" where
  "control_at atoms i \<equiv> controls atoms ! i"

lemma covers_all_controls:
  assumes "built_table atoms" and "I \<subseteq> {..<length (controls atoms)}"
  shows "covers_all (fst (control_hits clauses atoms)) I {0..<length clauses} \<longleftrightarrow>
    controls_hit atoms clauses (control_at atoms ` I)"
proof -
  have "j \<in> fst (control_hits clauses atoms) ! i \<longleftrightarrow>
      (\<exists>a \<in> set atoms. tl_control_id a = control_at atoms i \<and> tl_rank a \<in> clauses ! j)"
    if "i \<in> I" "j < length clauses" for i j
  proof -
    from that(1) assms(2) have i: "i < length (controls atoms)" by auto
    show ?thesis using that(2) level_le_max [OF assms(1)]
      by (fastforce simp: nth_at_max [OF assms(1) i] hit_by_def)
  qed
  then have "covers_all (fst (control_hits clauses atoms)) I {0..<length clauses} \<longleftrightarrow>
      (\<forall>j < length clauses. \<exists>i \<in> I. \<exists>a \<in> set atoms.
         tl_control_id a = control_at atoms i \<and> tl_rank a \<in> clauses ! j)"
    unfolding covers_all_def by (auto simp: subset_iff)
  also have "\<dots> \<longleftrightarrow> controls_hit atoms clauses (control_at atoms ` I)"
  proof -
    have "(\<exists>i \<in> I. \<exists>a \<in> set atoms. tl_control_id a = control_at atoms i \<and> tl_rank a \<in> cl) \<longleftrightarrow>
        (\<exists>a \<in> set atoms. tl_control_id a \<in> control_at atoms ` I \<and> tl_rank a \<in> cl)" for cl
      by blast
    then show ?thesis unfolding controls_hit_def all_set_conv_all_nth by simp
  qed
  finally show ?thesis .
qed

lemma coverable_controls:
  assumes "built_table atoms" and "set rest \<subseteq> {..<length (controls atoms)}"
  shows "coverable (fst (control_hits clauses atoms)) rest {0..<length clauses} k \<longleftrightarrow>
    cut_exists atoms clauses (control_at atoms ` set rest) k"
proof
  have inj: "inj_on (control_at atoms) {..<length (controls atoms)}"
    using distinct_controls [OF assms(1)] by (auto simp: inj_on_def nth_eq_iff_index_eq)
  { assume "coverable (fst (control_hits clauses atoms)) rest {0..<length clauses} k"
    then obtain I where I: "I \<subseteq> set rest"
        "covers_all (fst (control_hits clauses atoms)) I {0..<length clauses}" "card I \<le> k"
      by (auto simp: coverable_def)
    have "finite I" using I(1) finite_subset by blast
    then have "card (control_at atoms ` I) \<le> k" using I(3) card_image_le le_trans by blast
    moreover have "controls_hit atoms clauses (control_at atoms ` I)"
      using I covers_all_controls [OF assms(1), of I] assms(2) by auto
    ultimately show "cut_exists atoms clauses (control_at atoms ` set rest) k"
      using I(1) unfolding cut_exists_def by blast }
  { assume "cut_exists atoms clauses (control_at atoms ` set rest) k"
    then obtain C where C: "C \<subseteq> control_at atoms ` set rest" "controls_hit atoms clauses C" "card C \<le> k"
      by (auto simp: cut_exists_def)
    then obtain I where I: "I \<subseteq> set rest" "C = control_at atoms ` I" by (meson subset_imageE)
    have "card I = card C" unfolding I(2)
      using I(1) assms(2) inj by (metis card_image inj_on_subset subset_trans)
    with C I covers_all_controls [OF assms(1), of I] assms(2)
    show "coverable (fst (control_hits clauses atoms)) rest {0..<length clauses} k"
      unfolding coverable_def by (metis subset_trans) }
qed

lemma enumerate_map_nth: "enumerate 0 xs = map (\<lambda>i. (i, xs ! i)) [0..<length xs]"
  by (rule nth_equalityI) (simp_all add: nth_enumerate_eq)

lemma allowed_controls_eq:
  "allowed_controls atoms excluded =
     filter (\<lambda>i. control_at atoms i \<notin> set excluded) [0..<length (controls atoms)]"
  by (simp add: allowed_controls_def enumerate_map_nth filter_map o_def)

lemma set_allowed_controls:
  "control_at atoms ` set (allowed_controls atoms excluded) = set (controls atoms) - set excluded"
  "set (allowed_controls atoms excluded) \<subseteq> {..<length (controls atoms)}"
proof -
  have "set (controls atoms) = control_at atoms ` {..<length (controls atoms)}"
    by (auto simp: in_set_conv_nth simp del: set_controls)
  then show "control_at atoms ` set (allowed_controls atoms excluded) = set (controls atoms) - set excluded"
    by (auto simp: allowed_controls_eq simp del: set_controls)
qed (auto simp: allowed_controls_eq)

lemma length_allowed_controls: "length (allowed_controls atoms excluded) \<le> length (controls atoms)"
  using length_filter_le [of _ "[0..<length (controls atoms)]"] by (simp add: allowed_controls_eq)

text \<open>The contract of the solver, in terms of sets of controls.\<close>

definition solves ::
    "clause list \<Rightarrow> atom_table \<Rightarrow> string list \<Rightarrow> min_card_result \<Rightarrow> bool" where
  "solves clauses atoms excluded r \<longleftrightarrow>
     (case mc_status r of
        EXACT \<Rightarrow> (case mc_value r of None \<Rightarrow> False
          | Some n \<Rightarrow> \<forall>k. n \<le> k \<longleftrightarrow>
              cut_exists atoms clauses (set (controls atoms) - set excluded) k)
      | INFEASIBLE \<Rightarrow> mc_value r = None \<and>
          (\<forall>k. \<not> cut_exists atoms clauses (set (controls atoms) - set excluded) k)
      | BUDGET_EXHAUSTED \<Rightarrow> mc_value r = None)"

lemma min_cardinality_solves:
  assumes "built_table atoms"
  shows "solves clauses atoms excluded (min_cardinality clauses atoms budget excluded)"
proof (cases "budget \<le> 0")
  case True
  then show ?thesis by (simp add: min_cardinality_def solves_def)
next
  case False
  let ?hs = "fst (control_hits clauses atoms)" and ?al = "allowed_controls atoms excluded"
  let ?bb = "bb ?hs budget ?al {0..<length clauses} 0 None 0"
  show ?thesis
  proof (cases ?bb)
    case (Inl u)
    with False show ?thesis by (simp add: min_cardinality_def solves_def)
  next
    case (Inr x)
    obtain b u where x: "x = (b, u)" by (cases x)
    have "within b k \<longleftrightarrow> cut_exists atoms clauses (set (controls atoms) - set excluded) k" for k
      using bb_improves(1) [OF Inr [unfolded x]] coverable_controls [OF assms set_allowed_controls(2)]
      by (simp add: improves_def within_def [of None] set_allowed_controls(1) [symmetric]
          del: set_controls)
    with False Inr x show ?thesis
      by (cases b) (simp_all add: min_cardinality_def solves_def within_def)
  qed
qed

lemma min_cardinality_nodes:
  assumes "0 \<le> budget"
  shows "int (mc_nodes (min_cardinality clauses atoms budget excluded)) \<le> budget + 1"
    and "mc_status (min_cardinality clauses atoms budget excluded) \<noteq> BUDGET_EXHAUSTED \<Longrightarrow>
      int (mc_nodes (min_cardinality clauses atoms budget excluded)) \<le> budget"
proof -
  let ?bb = "bb (fst (control_hits clauses atoms)) budget (allowed_controls atoms excluded)
    {0..<length clauses} 0 None 0"
  have "(case ?bb of Inl u \<Rightarrow> int u = budget + 1 | Inr (b, u) \<Rightarrow> int u \<le> budget)"
    using bb_used(1) [of "fst (control_hits clauses atoms)" budget
      "allowed_controls atoms excluded" "{0..<length clauses}" 0 None 0, OF refl] assms
    by (auto split: sum.splits)
  then show "int (mc_nodes (min_cardinality clauses atoms budget excluded)) \<le> budget + 1"
    "mc_status (min_cardinality clauses atoms budget excluded) \<noteq> BUDGET_EXHAUSTED \<Longrightarrow>
      int (mc_nodes (min_cardinality clauses atoms budget excluded)) \<le> budget"
    using assms by (cases "budget \<le> 0"; auto simp: min_cardinality_def split: sum.splits option.splits)+
qed

lemma min_cardinality_enough:
  assumes "2 ^ length (controls atoms) \<le> budget"
  shows "mc_status (min_cardinality clauses atoms budget excluded) \<noteq> BUDGET_EXHAUSTED"
    and "mc_nodes (min_cardinality clauses atoms budget excluded) \<le> 2 ^ length (controls atoms)"
proof -
  have le: "(2::int) ^ length (allowed_controls atoms excluded) \<le> 2 ^ length (controls atoms)"
    "(2::nat) ^ length (allowed_controls atoms excluded) \<le> 2 ^ length (controls atoms)"
    using length_allowed_controls by (auto intro: power_increasing)
  have pos: "\<not> budget \<le> 0"
    using assms zero_less_power [of "2::int" "length (controls atoms)"] by linarith
  have "int 0 + 2 ^ length (allowed_controls atoms excluded) \<le> budget"
    using order_trans [OF le(1) assms] by simp
  from bb_enough(1) [OF this] obtain b u where "bb (fst (control_hits clauses atoms)) budget
      (allowed_controls atoms excluded) {0..<length clauses} 0 None 0 = Inr (b, u)"
      "u \<le> 2 ^ length (allowed_controls atoms excluded)" by (metis add_0)
  moreover from this(2) have "u \<le> 2 ^ length (controls atoms)" using le(2) by (rule le_trans)
  ultimately show
    "mc_status (min_cardinality clauses atoms budget excluded) \<noteq> BUDGET_EXHAUSTED"
    "mc_nodes (min_cardinality clauses atoms budget excluded) \<le> 2 ^ length (controls atoms)"
    using pos by (auto simp: min_cardinality_def split: option.splits)
qed

section \<open>A small table for the witnesses\<close>

definition sample_literal :: "string \<Rightarrow> nat \<Rightarrow> nat \<Rightarrow> nat \<Rightarrow> threshold_literal" where
  "sample_literal c level b rank =
     \<lparr>tl_control_id = c, tl_level = level, tl_bit = b, tl_rank = rank\<rparr>"

text \<open>Three controls with one level each.\<close>

definition sample_atoms :: atom_table where
  "sample_atoms = [sample_literal ''ctl:a'' 1 0 0, sample_literal ''ctl:b'' 1 1 1,
     sample_literal ''ctl:c'' 1 2 2]"

lemma sample_built: "built_table sample_atoms"
proof -
  have "build_table sample_atoms = Inr sample_atoms" by code_simp
  moreover have "\<forall>a \<in> set sample_atoms. check_threshold_literal a = Inr a" by code_simp
  ultimately show ?thesis by (simp add: built_table_def)
qed

text \<open>Two controls with two levels each.\<close>

definition tie_atoms :: atom_table where
  "tie_atoms = [sample_literal ''ctl:a'' 1 0 0, sample_literal ''ctl:a'' 2 1 1,
     sample_literal ''ctl:b'' 1 2 2, sample_literal ''ctl:b'' 2 3 3]"

lemma tie_built: "built_table tie_atoms"
proof -
  have "build_table tie_atoms = Inr tie_atoms" by code_simp
  moreover have "\<forall>a \<in> set tie_atoms. check_threshold_literal a = Inr a" by code_simp
  ultimately show ?thesis by (simp add: built_table_def)
qed

definition tie_clauses :: "clause list" where
  "tie_clauses = [{0}, {2}, {1, 3}]"

lemma tie_min_cardinality:
  "min_cardinality tie_clauses tie_atoms 1000 [] =
     \<lparr>mc_value = Some 2, mc_status = EXACT, mc_nodes = 4\<rparr>"
  by code_simp

section \<open>Properties\<close>



end
