(* ===== verification/Tables.thy ===== *)
theory Tables
  imports Prelude "HOL-Library.Sublist"
begin

text \<open>
  Dictionaries of lists as the code builds them: \<^verbatim>\<open>d.setdefault(k, []).append(x)\<close> on an
  association list in insertion order, and the grouping of a sequence by a key.
\<close>

fun push :: "('k \<times> 'a list) list \<Rightarrow> 'k \<Rightarrow> 'a \<Rightarrow> ('k \<times> 'a list) list" where
  "push [] k x = [(k, [x])]"
| "push ((k', xs) # d) k x =
     (if k' = k then (k', xs @ [x]) # d else (k', xs) # push d k x)"

definition group_by :: "('a \<Rightarrow> 'k) \<Rightarrow> 'a list \<Rightarrow> ('k \<times> 'a list) list" where
  "group_by f xs = foldl (\<lambda>d x. push d (f x) x) [] xs"

text \<open>\<open>dict.fromkeys(xs)\<close>: the first occurrence of every element, in order.\<close>

definition from_keys :: "'a list \<Rightarrow> 'a list" where
  "from_keys xs = rev (remdups (rev xs))"

lemma set_from_keys [simp]: "set (from_keys xs) = set xs"
  by (simp add: from_keys_def)

lemma distinct_from_keys [simp]: "distinct (from_keys xs)"
  by (simp add: from_keys_def)

lemma from_keys_snoc:
  "from_keys (xs @ [x]) = (if x \<in> set xs then from_keys xs else from_keys xs @ [x])"
  by (simp add: from_keys_def)

lemma push_map:
  "distinct ks \<Longrightarrow> push (map (\<lambda>k. (k, g k)) ks) k x =
    (if k \<in> set ks then map (\<lambda>k'. (k', if k' = k then g k' @ [x] else g k')) ks
     else map (\<lambda>k. (k, g k)) ks @ [(k, [x])])"
  by (induction ks) auto

text \<open>Every key once, in the order of first appearance, with its elements in their order.\<close>

lemma group_by_eq:
  "group_by f xs = map (\<lambda>k. (k, filter (\<lambda>x. f x = k) xs)) (from_keys (map f xs))"
proof (induction xs rule: rev_induct)
  case (snoc x xs)
  have "group_by f (xs @ [x]) = push (group_by f xs) (f x) x" by (simp add: group_by_def)
  also have "\<dots> = map (\<lambda>k. (k, filter (\<lambda>y. f y = k) (xs @ [x]))) (from_keys (map f (xs @ [x])))"
    unfolding snoc push_map [OF distinct_from_keys] map_append list.map(2) list.map(1) from_keys_snoc
    by (auto simp: filter_empty_conv) (metis imageI)
  finally show ?case .
qed (simp add: group_by_def from_keys_def)

lemma mem_group_by: "(k, ys) \<in> set (group_by f xs) \<longleftrightarrow> k \<in> f ` set xs \<and> ys = filter (\<lambda>x. f x = k) xs"
  by (auto simp: group_by_eq)

lemma distinct_group_by [simp]: "distinct (map fst (group_by f xs))"
  by (simp add: group_by_eq o_def)

text \<open>Counting by a key loses nothing.\<close>

lemma sum_length_filter:
  "distinct cs \<Longrightarrow> f ` set xs \<subseteq> set cs \<Longrightarrow> (\<Sum>c\<leftarrow>cs. length (filter (\<lambda>a. f a = c) xs)) = length xs"
proof (induction xs)
  case (Cons x xs)
  have "(\<Sum>c\<leftarrow>cs. length (filter (\<lambda>a. f a = c) (x # xs))) =
      (\<Sum>c\<leftarrow>cs. (if f x = c then 1 else 0) + length (filter (\<lambda>a. f a = c) xs))"
    by (intro arg_cong [where f = sum_list] map_cong refl) simp
  also have "\<dots> = (\<Sum>c\<leftarrow>cs. if f x = c then 1 else 0) + length xs"
    using Cons by (simp add: sum_list_addf)
  also have "(\<Sum>c\<leftarrow>cs. if f x = c then 1 else (0::nat)) = 1"
    using Cons.prems by (simp add: sum_list_distinct_conv_sum_set)
  finally show ?case by simp
qed simp

text \<open>Subsequences.\<close>

lemma subseq_set: "subseq xs ys \<Longrightarrow> set xs \<subseteq> set ys"
  by (metis notin_set_nthsI subseq_conv_nths subsetI)

lemma subseq_sorted_wrt: "subseq xs ys \<Longrightarrow> sorted_wrt R ys \<Longrightarrow> sorted_wrt R xs"
  by (induction xs ys rule: list_emb.induct) (auto dest: subseq_set)

end
