(* ===== verification/Selection.thy ===== *)
theory Selection
  imports CutSearch Tables
begin

text \<open>
  \<^verbatim>\<open>spectra_vs/cut.py\<close>, second part: the canonical representative of a minimum cut
  (\<open>canonical_select\<close>) and the subset-minimal fallback (\<open>_subset_minimal\<close>), with the walk
  over the controls and the lowering of levels that they share.
\<close>

section \<open>Canonical selection\<close>

text \<open>Phase one: the walk over the controls in canonical order.\<close>

fun select_controls ::
    "nat set list \<Rightarrow> int \<Rightarrow> nat \<Rightarrow> nat list \<Rightarrow> nat list \<Rightarrow> nat set \<Rightarrow> nat
     \<Rightarrow> (nat, nat list \<times> nat set \<times> nat) result" where
  "select_controls hs limit cardinality [] chosen unhit used = Inr (chosen, unhit, used)"
| "select_controls hs limit cardinality (index # rest) chosen unhit used =
     (if length chosen = cardinality then Inr (chosen, unhit, used)
      else let covered = unhit \<inter> hs ! index;
               remaining = int cardinality - int (length chosen) - 1
           in andThen (extendable hs limit rest (unhit - covered) remaining used) (\<lambda>(ext, used').
             if ext then select_controls hs limit cardinality rest (chosen @ [index])
                           (unhit - covered) used'
             else select_controls hs limit cardinality rest chosen unhit used'))"

definition hits_all ::
    "clause list \<Rightarrow> nat list \<Rightarrow> atom_table \<Rightarrow> nat set list list \<Rightarrow> level_map \<Rightarrow> bool" where
  "hits_all clauses chosen atoms per_level levels =
     (card (foldl (\<lambda>covered control.
         let level = level_at levels (controls atoms ! control)
         in if 1 \<le> level then covered \<union> per_level ! control ! (level - 1) else covered) {} chosen)
      = length clauses)"

definition level_minimal ::
    "clause list \<Rightarrow> nat list \<Rightarrow> atom_table \<Rightarrow> nat set list list \<Rightarrow> level_map \<Rightarrow> bool" where
  "level_minimal clauses chosen atoms per_level levels =
     (\<not> list_ex (\<lambda>control.
         let c = controls atoms ! control; level = level_at levels c
         in \<not> level \<le> 1 \<and>
            hits_all clauses chosen atoms per_level (levels(c \<mapsto> level - 1))) chosen)"

text \<open>\<open>while levels[c] > 1\<close>: lower one step as long as the test still passes.\<close>

fun lower_control :: "(level_map \<Rightarrow> bool) \<Rightarrow> string \<Rightarrow> nat \<Rightarrow> level_map \<Rightarrow> level_map" where
  "lower_control passes c 0 levels = levels"
| "lower_control passes c (Suc n) levels =
     (if \<not> 1 < Suc n then levels
      else let trial = levels(c \<mapsto> n)
           in if passes trial then lower_control passes c n trial else levels)"

definition lower_controls ::
    "(level_map \<Rightarrow> bool) \<Rightarrow> atom_table \<Rightarrow> nat list \<Rightarrow> level_map \<Rightarrow> level_map" where
  "lower_controls passes atoms chosen levels =
     foldl (\<lambda>levels control. let c = controls atoms ! control
              in lower_control passes c (level_at levels c) levels) levels chosen"

definition max_levels :: "atom_table \<Rightarrow> nat list \<Rightarrow> level_map" where
  "max_levels atoms chosen =
     map_of (map (\<lambda>i. (controls atoms ! i, max_level atoms (controls atoms ! i))) chosen)"

definition canonical_select ::
    "clause list \<Rightarrow> atom_table \<Rightarrow> nat \<Rightarrow> minimality \<Rightarrow> int \<Rightarrow> (cut \<times> nat) outcome" where
  "canonical_select clauses atoms cardinality minimality budget =
     (case control_hits clauses atoms of (hs, per_level) \<Rightarrow>
      case select_controls hs budget cardinality [0..<length (controls atoms)] []
             {0..<length clauses} 0 of
        Inl used \<Rightarrow> raises BudgetError
      | Inr (chosen, unhit, used) \<Rightarrow>
          andThen (guard (length chosen = cardinality \<and> unhit = {}) SchemaError) (\<lambda>_.
          let levels = lower_controls (hits_all clauses chosen atoms per_level) atoms chosen
                         (max_levels atoms chosen) in
          andThen (guard (hits_all clauses chosen atoms per_level levels) SchemaError) (\<lambda>_.
          andThen (guard_code (level_minimal clauses chosen atoms per_level levels) SchemaError
                     ''E-CUT-CLOSURE'') (\<lambda>_.
          andThen (cut_of_levels atoms levels minimality) (\<lambda>c. Inr (c, used))))))"

section \<open>The subset-minimal fallback\<close>

definition drop_controls :: "(nat list \<Rightarrow> bool) \<Rightarrow> nat list \<Rightarrow> nat list" where
  "drop_controls passes chosen =
     foldl (\<lambda>chosen control.
         let trial_chosen = filter (\<lambda>c. c \<noteq> control) chosen
         in if passes trial_chosen then trial_chosen else chosen) chosen (rev chosen)"

definition kept_levels :: "atom_table \<Rightarrow> nat list \<Rightarrow> level_map \<Rightarrow> level_map" where
  "kept_levels atoms chosen levels =
     map_of (map (\<lambda>i. (controls atoms ! i, level_at levels (controls atoms ! i))) chosen)"

definition subset_minimal :: "clause list \<Rightarrow> atom_table \<Rightarrow> cut outcome" where
  "subset_minimal clauses atoms =
     (let per_level = snd (control_hits clauses atoms);
          chosen = [0..<length (controls atoms)];
          levels = max_levels atoms chosen
      in andThen (guard (hits_all clauses chosen atoms per_level levels) SchemaError) (\<lambda>_.
         let chosen' = drop_controls (\<lambda>ch. hits_all clauses ch atoms per_level levels) chosen;
             levels' = lower_controls (hits_all clauses chosen' atoms per_level) atoms chosen' levels
         in cut_of_levels atoms (kept_levels atoms chosen' levels') SUBSET))"

section \<open>Assignments that hit every clause\<close>

text \<open>A set of clauses is hit by an assignment of levels.\<close>

definition hits_clauses :: "atom_table \<Rightarrow> clause list \<Rightarrow> level_map \<Rightarrow> bool" where
  "hits_clauses atoms clauses levels \<longleftrightarrow>
     (\<forall>cl \<in> set clauses. \<exists>a \<in> set (raised atoms levels). tl_rank a \<in> cl)"

definition only_on :: "atom_table \<Rightarrow> nat list \<Rightarrow> level_map \<Rightarrow> level_map" where
  "only_on atoms chosen levels c = (if c \<in> (!) (controls atoms) ` set chosen then levels c else None)"

lemma hits_all_iff:
  assumes built: "built_table atoms"
    and chosen: "\<And>i. i \<in> set chosen \<Longrightarrow> i < length (controls atoms) \<and>
      level_at levels (controls atoms ! i) \<le> max_level atoms (controls atoms ! i)"
  shows "hits_all clauses chosen atoms (snd (control_hits clauses atoms)) levels \<longleftrightarrow>
    hits_clauses atoms clauses (only_on atoms chosen levels)"
proof -
  let ?cs = "controls atoms" and ?per = "snd (control_hits clauses atoms)"
  let ?step = "\<lambda>covered control. let level = level_at levels (?cs ! control)
     in if 1 \<le> level then covered \<union> ?per ! control ! (level - 1) else covered"
  have none: "hit_by atoms clauses c 0 = {}" for c
    using built_literal(1) [OF built] by (force simp: hit_by_def)
  have "foldl ?step A ch = A \<union> (\<Union>i \<in> set ch. hit_by atoms clauses (?cs ! i) (level_at levels (?cs ! i)))"
    if "set ch \<subseteq> set chosen" for A ch
    using that
  proof (induction ch arbitrary: A)
    case (Cons i ch)
    then have i: "i < length ?cs" "level_at levels (?cs ! i) \<le> max_level atoms (?cs ! i)"
      using chosen by auto
    have "?step A i = A \<union> hit_by atoms clauses (?cs ! i) (level_at levels (?cs ! i))"
      using nth_per_level [OF built i(1) _ i(2), of clauses] none [of "?cs ! i"]
      by (cases "level_at levels (?cs ! i)") (simp_all add: Let_def)
    with Cons show ?case by auto
  qed simp
  then have fold: "foldl ?step {} chosen =
      (\<Union>i \<in> set chosen. hit_by atoms clauses (?cs ! i) (level_at levels (?cs ! i)))" (is "_ = ?U")
    by simp
  have "?U \<subseteq> {..<length clauses}" by (auto simp: hit_by_def)
  then have "card ?U = length clauses \<longleftrightarrow> ?U = {..<length clauses}"
    by (metis card_lessThan card_subset_eq finite_lessThan)
  also have "\<dots> \<longleftrightarrow> (\<forall>j < length clauses. j \<in> ?U)"
    using \<open>?U \<subseteq> {..<length clauses}\<close> by blast
  also have "\<dots> \<longleftrightarrow> (\<forall>j < length clauses. \<exists>a \<in> set (raised atoms (only_on atoms chosen levels)).
      tl_rank a \<in> clauses ! j)"
  proof (intro all_cong)
    fix j assume j: "j < length clauses"
    have lvl: "level_at (only_on atoms chosen levels) c =
        (if c \<in> (!) ?cs ` set chosen then level_at levels c else 0)" for c
      by (simp add: only_on_def level_at_def)
    show "j \<in> ?U \<longleftrightarrow> (\<exists>a \<in> set (raised atoms (only_on atoms chosen levels)). tl_rank a \<in> clauses ! j)"
      using j built_literal(1) [OF built]
      by (fastforce simp: hit_by_def raised_def lvl split: if_splits)
  qed
  also have "\<dots> \<longleftrightarrow> hits_clauses atoms clauses (only_on atoms chosen levels)"
    by (simp add: hits_clauses_def all_set_conv_all_nth)
  finally show ?thesis unfolding hits_all_def fold .
qed

section \<open>The canonical walk over controls\<close>

lemma extendable_iff:
  assumes "extendable hs limit rest unhit (int k) used = Inr (b, u)" and "finite unhit"
  shows "b \<longleftrightarrow> coverable hs rest unhit k"
proof -
  from assms(1) obtain found where
    found: "bb hs limit rest unhit 0 (Some (nat (int k + 1))) used = Inr (found, u)"
    and b: "b \<longleftrightarrow> (case found of None \<Rightarrow> False | Some f \<Rightarrow> int f \<le> int k)"
    by (auto simp: extendable_def andThen_eq_Inr)
  have "within found k \<longleftrightarrow> coverable hs rest unhit k"
    using bb_improves(1) [OF found assms(2)]
    by (simp add: improves_def within_def [of "Some _"] nat_add_distrib)
  with b show ?thesis by (simp add: within_def split: option.splits)
qed

lemma select_controls_step:
  assumes "select_controls hs limit k (index # rest) chosen unhit used = Inr r"
    and "length chosen < k"
  shows "\<exists>ext u1.
    extendable hs limit rest (unhit - hs ! index) (int (k - length chosen - 1)) used = Inr (ext, u1) \<and>
    (if ext then select_controls hs limit k rest (chosen @ [index]) (unhit - hs ! index) u1
     else select_controls hs limit k rest chosen unhit u1) = Inr r"
proof -
  have diff: "unhit - unhit \<inter> hs ! index = unhit - hs ! index" by auto
  have cap: "int k - int (length chosen) - 1 = int (k - length chosen - 1)"
    using assms(2) by simp
  from assms show ?thesis
    by (simp only: select_controls.simps Let_def diff cap andThen_eq_Inr if_False nat_neq_iff)
      (auto simp: andThen_eq_Inr)
qed

lemma select_controls_covers:
  assumes "select_controls hs limit k rest chosen unhit used = Inr (chosen', unhit', u)"
    and "length chosen \<le> k" and "coverable hs rest unhit (k - length chosen)" and "finite unhit"
  shows "\<exists>sel. chosen' = chosen @ sel \<and> subseq sel rest \<and> unhit' = unhit - (\<Union>c \<in> set sel. hs ! c) \<and>
    unhit' = {} \<and> length chosen' \<le> k"
  using assms
proof (induction rest arbitrary: chosen unhit used)
  case Nil
  then have "unhit = {}" using coverable_Nil by blast
  with Nil show ?case by simp
next
  case (Cons index rest)
  show ?case
  proof (cases "length chosen = k")
    case True
    have "unhit = {}"
    proof -
      from Cons.prems(3) True obtain C where "covers_all hs C unhit" "card C = 0" "C \<subseteq> set (index # rest)"
        by (auto simp: coverable_def)
      moreover then have "C = {}" by (metis List.finite_set card_0_eq finite_subset)
      ultimately show ?thesis by (simp add: covers_all_def)
    qed
    with True Cons.prems(1,2) show ?thesis by auto
  next
    case False
    with Cons.prems(2) have short: "length chosen < k" by simp
    from select_controls_step [OF Cons.prems(1) short] obtain ext u1 where
      ext: "extendable hs limit rest (unhit - hs ! index) (int (k - length chosen - 1)) used = Inr (ext, u1)"
      and rest: "(if ext then select_controls hs limit k rest (chosen @ [index]) (unhit - hs ! index) u1
         else select_controls hs limit k rest chosen unhit u1) = Inr (chosen', unhit', u)"
      by blast
    have iff: "ext \<longleftrightarrow> coverable hs rest (unhit - hs ! index) (k - length chosen - 1)"
      by (rule extendable_iff [OF ext]) (use Cons.prems(4) in simp)
    show ?thesis
    proof (cases ext)
      case True
      with rest iff Cons.IH [of "chosen @ [index]" "unhit - hs ! index" u1] Cons.prems False
      obtain sel where "chosen' = (chosen @ [index]) @ sel" "subseq sel rest"
        "unhit' = (unhit - hs ! index) - (\<Union>c \<in> set sel. hs ! c)" "unhit' = {}" "length chosen' \<le> k"
        by auto
      then show ?thesis by (intro exI [of _ "index # sel"]) auto
    next
      case False
      then have "\<not> coverable hs rest (unhit - hs ! index) k'" if "k - length chosen = Suc k'" for k'
        using iff that by simp
      then have "coverable hs rest unhit (k - length chosen)"
        using Cons.prems(3) by (auto simp: coverable_Cons)
      with rest False Cons.IH [of chosen unhit u1] Cons.prems(2,4) obtain sel where
        "chosen' = chosen @ sel" "subseq sel rest"
        "unhit' = unhit - (\<Union>c \<in> set sel. hs ! c)" "unhit' = {}" "length chosen' \<le> k"
        by auto
      then show ?thesis by (intro exI [of _ sel]) (simp add: list_emb_Cons)
    qed
  qed
qed

lemma select_controls_prefix:
  "select_controls hs limit k rest chosen unhit used = Inr (chosen', unhit', u) \<Longrightarrow>
     \<exists>sel. chosen' = chosen @ sel"
proof (induction rest arbitrary: chosen unhit used)
  case (Cons index rest)
  then show ?case
    by (fastforce simp: Let_def andThen_eq_Inr split: if_splits)
qed simp

lemma select_controls_least:
  assumes "select_controls hs limit k rest chosen unhit used = Inr (chosen', unhit', u)"
    and "strictly_ascending rest" and "finite unhit"
    and "subseq ds rest" and "covers_all hs (set ds) unhit" and "length ds = k - length chosen"
    and "length chosen \<le> k"
  shows "\<exists>sel. chosen' = chosen @ sel \<and> sel \<le> ds"
  using assms
proof (induction rest arbitrary: chosen unhit used ds)
  case Nil
  then show ?case by simp
next
  case (Cons index rest)
  show ?case
  proof (cases "length chosen = k")
    case True
    with Cons.prems show ?thesis by simp
  next
    case False
    with Cons.prems(7) have short: "length chosen < k" by simp
    from select_controls_step [OF Cons.prems(1) short] obtain ext u1 where
      ext: "extendable hs limit rest (unhit - hs ! index) (int (k - length chosen - 1)) used = Inr (ext, u1)"
      and rest: "(if ext then select_controls hs limit k rest (chosen @ [index]) (unhit - hs ! index) u1
         else select_controls hs limit k rest chosen unhit u1) = Inr (chosen', unhit', u)"
      by blast
    have iff: "ext \<longleftrightarrow> coverable hs rest (unhit - hs ! index) (k - length chosen - 1)"
      by (rule extendable_iff [OF ext]) (use Cons.prems(3) in simp)
    have asc: "strictly_ascending rest" "\<forall>y \<in> set rest. index < y"
      using Cons.prems(2) by (simp_all add: strictly_ascending_Cons)
    from False Cons.prems(6,7) obtain d ds' where ds: "ds = d # ds'" by (cases ds) auto
    show ?thesis
    proof (cases "d = index")
      case True
      then have sub: "subseq ds' rest" using Cons.prems(4) ds by (simp add: subseq_Cons2_iff)
      have cov: "covers_all hs (set ds') (unhit - hs ! index)"
        using Cons.prems(5) ds True by (auto simp: covers_all_def)
      have len: "length ds' = k - length chosen - 1" using Cons.prems(6) ds by simp
      have "set ds' \<subseteq> set rest" using sub by (rule subseq_set)
      then have "coverable hs rest (unhit - hs ! index) (k - length chosen - 1)"
        using cov len card_length [of ds'] unfolding coverable_def by auto
      with iff rest have "select_controls hs limit k rest (chosen @ [index]) (unhit - hs ! index) u1
          = Inr (chosen', unhit', u)" by simp
      from Cons.IH [OF this asc(1) _ sub cov] len False Cons.prems(3,7)
      obtain sel where "chosen' = (chosen @ [index]) @ sel" "sel \<le> ds'" by auto
      then show ?thesis using ds True by (intro exI [of _ "index # sel"]) auto
    next
      case neq: False
      then have sub: "subseq ds rest" using Cons.prems(4) ds by (simp add: subseq_Cons2_iff)
      then have "d \<in> set rest" using ds subseq_set by fastforce
      then have less: "index < d" using asc(2) by blast
      show ?thesis
      proof (cases ext)
        case True
        obtain sel where "chosen' = (chosen @ [index]) @ sel"
        proof -
          have "\<exists>sel. chosen' = (chosen @ [index]) @ sel"
            using rest True select_controls_prefix by fastforce
          then show ?thesis using that by blast
        qed
        then show ?thesis using ds less by (intro exI [of _ "index # sel"]) auto
      next
        case False
        with rest Cons.IH [OF _ asc(1) Cons.prems(3) sub Cons.prems(5,6,7)] show ?thesis by simp
      qed
    qed
  qed
qed

section \<open>Lowering the levels\<close>

definition level_le :: "level_map \<Rightarrow> level_map \<Rightarrow> bool" where
  "level_le l l' \<longleftrightarrow> (\<forall>c. level_at l c \<le> level_at l' c)"

lemma level_le_trans: "level_le a b \<Longrightarrow> level_le b c \<Longrightarrow> level_le a c"
  unfolding level_le_def using le_trans by blast

lemma level_le_refl [simp]: "level_le l l"
  by (simp add: level_le_def)

lemma level_at_upd [simp]: "level_at (l(c \<mapsto> n)) d = (if d = c then n else level_at l d)"
  by (simp add: level_at_def)

lemma lower_control_spec:
  "levels c = Some n \<Longrightarrow> 1 \<le> n \<Longrightarrow> passes levels \<Longrightarrow>
     \<exists>m. 1 \<le> m \<and> m \<le> n \<and> lower_control passes c n levels = levels(c \<mapsto> m) \<and>
       passes (levels(c \<mapsto> m)) \<and> (1 < m \<longrightarrow> \<not> passes (levels(c \<mapsto> m - 1)))"
proof (induction n arbitrary: levels)
  case 0
  then show ?case by simp
next
  case (Suc n)
  have same: "levels(c \<mapsto> Suc n) = levels" using Suc.prems(1) by auto
  show ?case
  proof (cases "1 < Suc n \<and> passes (levels(c \<mapsto> n))")
    case True
    then have "1 \<le> n" "passes (levels(c \<mapsto> n))" "(levels(c \<mapsto> n)) c = Some n" by simp_all
    from Suc.IH [OF this(3,1,2)] obtain m where
      "1 \<le> m" "m \<le> n" "lower_control passes c n (levels(c \<mapsto> n)) = levels(c \<mapsto> m)"
      "passes (levels(c \<mapsto> m))" "1 < m \<longrightarrow> \<not> passes (levels(c \<mapsto> m - 1))"
      unfolding fun_upd_upd by blast
    moreover have "lower_control passes c (Suc n) levels = lower_control passes c n (levels(c \<mapsto> n))"
      using True by (simp add: Let_def)
    ultimately show ?thesis using le_SucI by metis
  next
    case False
    then have "lower_control passes c (Suc n) levels = levels" by (auto simp: Let_def)
    moreover have "1 < Suc n \<longrightarrow> \<not> passes (levels(c \<mapsto> Suc n - 1))"
      using False by (simp only: diff_Suc_1) blast
    ultimately show ?thesis using same Suc.prems(2,3) le_refl [of "Suc n"] by metis
  qed
qed

lemma lower_controls_spec:
  assumes mono: "\<And>l l'. level_le l' hi \<Longrightarrow> level_le l l' \<Longrightarrow> passes l \<Longrightarrow> passes l'"
  shows "level_le levels hi \<Longrightarrow> passes levels \<Longrightarrow>
    (\<forall>i \<in> set ch. \<exists>n \<ge> 1. levels (control_at atoms i) = Some n) \<Longrightarrow>
    distinct (map (control_at atoms) ch) \<Longrightarrow>
    L = lower_controls passes atoms ch levels \<Longrightarrow>
    passes L \<and> level_le L levels \<and> (\<forall>c. c \<notin> control_at atoms ` set ch \<longrightarrow> L c = levels c) \<and>
    (\<forall>i \<in> set ch. \<exists>n \<ge> 1. L (control_at atoms i) = Some n \<and>
       (1 < n \<longrightarrow> \<not> passes (L(control_at atoms i \<mapsto> n - 1))))"
proof (induction ch arbitrary: levels)
  case Nil
  then show ?case by (simp add: lower_controls_def)
next
  case (Cons i ch)
  let ?c = "control_at atoms i"
  from Cons.prems(3) obtain n where n: "levels ?c = Some n" "1 \<le> n" by auto
  from lower_control_spec [of levels _ n passes, OF n Cons.prems(2)] obtain m where m: "1 \<le> m" "m \<le> n"
    "lower_control passes ?c n levels = levels(?c \<mapsto> m)" "passes (levels(?c \<mapsto> m))"
    "1 < m \<longrightarrow> \<not> passes (levels(?c \<mapsto> m - 1))" by blast
  have le: "level_le (levels(?c \<mapsto> m)) levels" using m(2) n by (auto simp: level_le_def level_at_def)
  have rest: "\<forall>j \<in> set ch. \<exists>n \<ge> 1. (levels(?c \<mapsto> m)) (control_at atoms j) = Some n"
    using Cons.prems(3,4) by (metis (mono_tags, lifting) fun_upd_apply list.set_intros(2) m(1))
  have L: "L = lower_controls passes atoms ch (levels(?c \<mapsto> m))"
    using Cons.prems(5) m(3) n by (simp add: lower_controls_def level_at_def Let_def)
  have dist: "distinct (map (control_at atoms) ch)" using Cons.prems(4) by simp
  note IH_all = Cons.IH [OF level_le_trans [OF le Cons.prems(1)] m(4) rest dist L]
  then have IH: "passes L" "level_le L (levels(?c \<mapsto> m))"
    "\<forall>c. c \<notin> control_at atoms ` set ch \<longrightarrow> L c = (levels(?c \<mapsto> m)) c"
    "\<forall>j \<in> set ch. \<exists>n \<ge> 1. L (control_at atoms j) = Some n \<and>
       (1 < n \<longrightarrow> \<not> passes (L(control_at atoms j \<mapsto> n - 1)))" by blast+
  have Lc: "L ?c = Some m" using IH(3) Cons.prems(4) by auto
  have "\<not> passes (L(?c \<mapsto> m - 1))" if "1 < m"
  proof
    assume "passes (L(?c \<mapsto> m - 1))"
    moreover have "level_le (L(?c \<mapsto> m - 1)) (levels(?c \<mapsto> m - 1))"
      using IH(2) by (auto simp: level_le_def split: if_splits)
    moreover have "level_le (levels(?c \<mapsto> m - 1)) (levels(?c \<mapsto> m))"
      by (simp add: level_le_def)
    then have "level_le (levels(?c \<mapsto> m - 1)) hi"
      using le Cons.prems(1) level_le_trans by blast
    ultimately show False using mono m(5) that by blast
  qed
  with Lc m(1) IH(4) have all: "\<forall>j \<in> set (i # ch). \<exists>n \<ge> 1. L (control_at atoms j) = Some n \<and>
       (1 < n \<longrightarrow> \<not> passes (L(control_at atoms j \<mapsto> n - 1)))" by auto
  have "level_le L levels" using level_le_trans [OF IH(2) le] .
  moreover have "\<forall>c. c \<notin> control_at atoms ` set (i # ch) \<longrightarrow> L c = levels c" using IH(3) by auto
  ultimately show ?case using IH(1) all by blast
qed

lemma hits_clauses_mono: "level_le l l' \<Longrightarrow> hits_clauses atoms clauses l \<Longrightarrow> hits_clauses atoms clauses l'"
  unfolding hits_clauses_def raised_def level_le_def using le_trans by fastforce

lemma level_at_only_on:
  "level_at (only_on atoms chosen levels) c =
     (if c \<in> control_at atoms ` set chosen then level_at levels c else 0)"
  by (simp add: only_on_def level_at_def)

lemma level_at_max_levels:
  "level_at (max_levels atoms chosen) c =
     (if c \<in> control_at atoms ` set chosen then max_level atoms c else 0)"
proof (cases "c \<in> control_at atoms ` set chosen")
  case True
  then have "map_of (map (\<lambda>i. (control_at atoms i, max_level atoms (control_at atoms i))) chosen) c
      = Some (max_level atoms c)"
    by (induction chosen) auto
  with True show ?thesis by (simp add: max_levels_def level_at_def)
next
  case False
  then have "map_of (map (\<lambda>i. (control_at atoms i, max_level atoms (control_at atoms i))) chosen) c = None"
    by (induction chosen) auto
  with False show ?thesis by (simp add: max_levels_def level_at_def)
qed

lemma max_levels_Some:
  "i \<in> set chosen \<Longrightarrow> max_levels atoms chosen (control_at atoms i) = Some (max_level atoms (control_at atoms i))"
  unfolding max_levels_def by (induction chosen) auto

lemma hits_all_mono:
  assumes built: "built_table atoms" and chosen: "set chosen \<subseteq> {..<length (controls atoms)}"
    and hi: "level_le l' (max_levels atoms ch)" and le: "level_le l l'"
    and "hits_all clauses chosen atoms (snd (control_hits clauses atoms)) l"
  shows "hits_all clauses chosen atoms (snd (control_hits clauses atoms)) l'"
proof -
  have bound: "level_at x (control_at atoms i) \<le> max_level atoms (control_at atoms i)"
    if "level_le x (max_levels atoms ch)" for x i
    using that le_trans by (fastforce simp: level_le_def level_at_max_levels split: if_splits)
  have bounds: "level_at l (control_at atoms i) \<le> max_level atoms (control_at atoms i)"
     "level_at l' (control_at atoms i) \<le> max_level atoms (control_at atoms i)" for i
    using bound hi level_le_trans [OF le hi] by auto
  have "level_le (only_on atoms chosen l) (only_on atoms chosen l')"
    using le by (simp add: level_le_def level_at_only_on)
  moreover have "hits_clauses atoms clauses (only_on atoms chosen l)"
    using assms(5) bounds chosen by (subst (asm) hits_all_iff [OF built]) auto
  ultimately have "hits_clauses atoms clauses (only_on atoms chosen l')" by (rule hits_clauses_mono)
  then show ?thesis using bounds chosen by (subst hits_all_iff [OF built]) auto
qed

section \<open>The canonical representative\<close>

text \<open>What canonical selection promises of its cut: its controls are the lexicographically
  least set of the given size that hits every clause, and no level can be lowered.\<close>

definition canonical_cut ::
    "atom_table \<Rightarrow> clause list \<Rightarrow> nat \<Rightarrow> minimality \<Rightarrow> cut \<Rightarrow> nat list \<Rightarrow> level_map \<Rightarrow> bool" where
  "canonical_cut atoms clauses n mn c chosen levels \<longleftrightarrow>
     c = \<lparr>ct_atoms = raised atoms levels, ct_cardinality = n,
          ct_mask = mask_of_atoms (raised atoms levels), ct_minimality = mn\<rparr> \<and>
     strictly_ascending chosen \<and> set chosen \<subseteq> {..<length (controls atoms)} \<and> length chosen = n \<and>
     (\<forall>d. 1 \<le> level_at levels d \<longleftrightarrow> d \<in> control_at atoms ` set chosen) \<and>
     hits_clauses atoms clauses levels \<and>
     (\<forall>d. 1 < level_at levels d \<longrightarrow>
        \<not> hits_clauses atoms clauses (levels(d \<mapsto> level_at levels d - 1))) \<and>
     (\<forall>ds. strictly_ascending ds \<longrightarrow> set ds \<subseteq> {..<length (controls atoms)} \<longrightarrow> length ds = n \<longrightarrow>
        controls_hit atoms clauses (control_at atoms ` set ds) \<longrightarrow> chosen \<le> ds)"

lemma hits_clauses_cong:
  "(\<And>c. level_at l c = level_at l' c) \<Longrightarrow> hits_clauses atoms clauses l \<longleftrightarrow> hits_clauses atoms clauses l'"
  by (simp add: hits_clauses_def raised_def)

lemma hits_clauses_max:
  assumes "built_table atoms" and "controls_hit atoms clauses (control_at atoms ` set chosen)"
  shows "hits_clauses atoms clauses (max_levels atoms chosen)"
  unfolding hits_clauses_def
proof
  fix cl assume "cl \<in> set clauses"
  with assms(2) obtain a where "a \<in> set atoms" "tl_control_id a \<in> control_at atoms ` set chosen"
    "tl_rank a \<in> cl" by (auto simp: controls_hit_def)
  then show "\<exists>a \<in> set (raised atoms (max_levels atoms chosen)). tl_rank a \<in> cl"
    using level_le_max [OF assms(1)] by (auto simp: raised_def level_at_max_levels)
qed

lemma control_ids_raised:
  assumes "built_table atoms"
  shows "set (map tl_control_id (raised atoms levels)) =
    {c \<in> set (controls atoms). 1 \<le> level_at levels c}"
proof -
  have "c \<in> tl_control_id ` set (raised atoms levels)"
    if "a \<in> set atoms" "c = tl_control_id a" "1 \<le> level_at levels c" for a c
  proof -
    from built_level_one [OF assms that(1), of 1] built_literal(1) [OF assms that(1)]
    obtain b where "b \<in> set atoms" "tl_control_id b = c" "tl_level b = 1"
      using \<open>c = tl_control_id a\<close> by auto
    with \<open>1 \<le> level_at levels c\<close> show ?thesis by (auto simp: raised_def image_iff)
  qed
  moreover have "1 \<le> level_at levels (tl_control_id a)" if "a \<in> set (raised atoms levels)" for a
    using that built_literal(1) [OF assms, of a] by (auto simp: raised_def)
  ultimately show ?thesis by (auto simp: raised_def)
qed

lemma select_controls_optimal:
  assumes built: "built_table atoms"
    and opt: "\<forall>k. n \<le> k \<longleftrightarrow> cut_exists atoms clauses (set (controls atoms)) k"
    and sel: "select_controls (fst (control_hits clauses atoms)) limit n [0..<length (controls atoms)]
      [] {0..<length clauses} 0 = Inr (chosen, unhit, u)"
  shows "unhit = {}" and "length chosen = n" and "strictly_ascending chosen"
    and "set chosen \<subseteq> {..<length (controls atoms)}"
    and "controls_hit atoms clauses (control_at atoms ` set chosen)"
    and "strictly_ascending ds \<Longrightarrow> set ds \<subseteq> {..<length (controls atoms)} \<Longrightarrow> length ds = n \<Longrightarrow>
      controls_hit atoms clauses (control_at atoms ` set ds) \<Longrightarrow> chosen \<le> ds"
proof -
  let ?hs = "fst (control_hits clauses atoms)" and ?N = "[0..<length (controls atoms)]"
  have img: "control_at atoms ` {..<length (controls atoms)} = set (controls atoms)"
    by (auto simp: in_set_conv_nth simp del: set_controls)
  have all: "set ?N = {..<length (controls atoms)}" by auto
  have "coverable ?hs ?N {0..<length clauses} n"
    using coverable_controls [OF built, of ?N clauses n] opt [rule_format, of n]
    unfolding all img by simp
  from select_controls_covers [OF sel _ _ finite_atLeastLessThan] this
  have sub: "subseq chosen ?N" and un: "unhit = {0..<length clauses} - (\<Union>c \<in> set chosen. ?hs ! c)"
    and empty: "unhit = {}" and len: "length chosen \<le> n" by auto
  show "unhit = {}" by (rule empty)
  show inN: "set chosen \<subseteq> {..<length (controls atoms)}" using subseq_set [OF sub] all by simp
  have "sorted_wrt (<) chosen" using sub
    using sorted_wrt_upt by (rule subseq_sorted_wrt)
  then show asc: "strictly_ascending chosen" by (simp add: strictly_ascending_sorted_wrt)
  have "covers_all ?hs (set chosen) {0..<length clauses}" using un empty by (auto simp: covers_all_def)
  then show hit: "controls_hit atoms clauses (control_at atoms ` set chosen)"
    using covers_all_controls [OF built inN] by simp
  have "control_at atoms ` set chosen \<subseteq> set (controls atoms)" using inN img by blast
  moreover have "card (control_at atoms ` set chosen) \<le> length chosen"
    by (metis card_image_le card_length finite_set le_trans)
  ultimately have "cut_exists atoms clauses (set (controls atoms)) (length chosen)"
    using hit unfolding cut_exists_def by blast
  with opt len show lenn: "length chosen = n" by (meson le_antisym)
  assume ds: "strictly_ascending ds" "set ds \<subseteq> {..<length (controls atoms)}" "length ds = n"
    "controls_hit atoms clauses (control_at atoms ` set ds)"
  have "subseq ds ?N"
    using ds(1,2) by (intro sorted_subset_imp_subseq) (auto simp: strictly_ascending_sorted_wrt)
  moreover have "covers_all ?hs (set ds) {0..<length clauses}"
    using covers_all_controls [OF built ds(2)] ds(4) by simp
  moreover have "strictly_ascending ?N" by (simp add: strictly_ascending_sorted_wrt)
  ultimately show "chosen \<le> ds"
    using select_controls_least [OF sel _ finite_atLeastLessThan, of ds] ds(3) by auto
qed

lemma canonical_select_spec:
  assumes built: "built_table atoms"
    and opt: "\<forall>k. n \<le> k \<longleftrightarrow> cut_exists atoms clauses (set (controls atoms)) k"
  shows "canonical_select clauses atoms n mn budget = raises BudgetError \<or>
    (\<exists>c u chosen levels. canonical_select clauses atoms n mn budget = Inr (c, u) \<and>
       canonical_cut atoms clauses n mn c chosen levels)"
proof -
  let ?hs = "fst (control_hits clauses atoms)" and ?per = "snd (control_hits clauses atoms)"
  let ?sel = "select_controls ?hs budget n [0..<length (controls atoms)] [] {0..<length clauses} 0"
  show ?thesis
  proof (cases ?sel)
    case (Inl u)
    then show ?thesis by (simp add: canonical_select_def split_beta)
  next
    case (Inr r)
    obtain chosen unhit u where r: "r = (chosen, unhit, u)" by (cases r)
    note sel = select_controls_optimal [OF built opt Inr [unfolded r]]
    let ?max = "max_levels atoms chosen" and ?passes = "hits_all clauses chosen atoms ?per"
    define L where "L = lower_controls ?passes atoms chosen ?max"
    have iff: "?passes l \<longleftrightarrow> hits_clauses atoms clauses (only_on atoms chosen l)" if "level_le l ?max" for l
      using that sel(4) by (intro hits_all_iff [OF built])
        (auto simp: level_le_def level_at_max_levels split: if_splits)
    have pass: "?passes ?max"
      using hits_clauses_max [OF built sel(5)] iff [OF level_le_refl]
        hits_clauses_cong [of "only_on atoms chosen ?max" ?max]
      by (simp add: level_at_only_on level_at_max_levels)
    have inj: "distinct (map (control_at atoms) chosen)"
      using distinct_controls [OF built] sel(3,4) strictly_ascending_distinct [of chosen]
      by (auto simp: distinct_map inj_on_def nth_eq_iff_index_eq subset_iff)
    have pos: "\<forall>i \<in> set chosen. \<exists>m \<ge> 1. ?max (control_at atoms i) = Some m"
      using max_level_pos sel(4) by (auto simp: max_levels_Some simp del: set_controls
          intro!: max_level_pos nth_mem)
    have mono: "?passes l'" if "level_le l' ?max" "level_le l l'" "?passes l" for l l'
      using that by (rule hits_all_mono [OF built sel(4)])
    have low_all: "?passes L \<and> level_le L ?max \<and>
        (\<forall>c. c \<notin> control_at atoms ` set chosen \<longrightarrow> L c = ?max c) \<and>
        (\<forall>i \<in> set chosen. \<exists>m \<ge> 1. L (control_at atoms i) = Some m \<and>
           (1 < m \<longrightarrow> \<not> ?passes (L(control_at atoms i \<mapsto> m - 1))))"
      by (rule lower_controls_spec [where hi = ?max, OF _ level_le_refl pass pos inj L_def])
        (rule mono)
    then have low: "?passes L" "level_le L ?max" "\<forall>c. c \<notin> control_at atoms ` set chosen \<longrightarrow> L c = ?max c"
      "\<forall>i \<in> set chosen. \<exists>m \<ge> 1. L (control_at atoms i) = Some m \<and>
         (1 < m \<longrightarrow> \<not> ?passes (L(control_at atoms i \<mapsto> m - 1)))"
      by blast+
    have lvl: "level_at L c = 0" if "c \<notin> control_at atoms ` set chosen" for c
      using low(3) that level_at_max_levels [of atoms chosen c] by (simp add: level_at_def)
    have at: "L (control_at atoms i) = Some m \<Longrightarrow> level_at L (control_at atoms i) = m" for i m
      by (simp add: level_at_def)
    have raisedc: "1 \<le> level_at L c \<longleftrightarrow> c \<in> control_at atoms ` set chosen" for c
      using lvl low(4) at by fastforce
    have minimal: "\<not> ?passes (L(c \<mapsto> level_at L c - 1))" if "1 < level_at L c" for c
    proof -
      from that raisedc [of c] obtain i where i: "i \<in> set chosen" "c = control_at atoms i" by auto
      with low(4) obtain m where "L c = Some m" "1 < m \<longrightarrow> \<not> ?passes (L(c \<mapsto> m - 1))" by blast
      with that show ?thesis by (simp add: level_at_def)
    qed
    have lower_le: "level_le (L(c \<mapsto> level_at L c - 1)) ?max" for c
      using low(2) by (auto simp: level_le_def intro: le_trans [OF diff_le_self])
    have only: "hits_clauses atoms clauses (only_on atoms chosen l) \<longleftrightarrow> hits_clauses atoms clauses l"
      if "\<forall>c. c \<notin> control_at atoms ` set chosen \<longrightarrow> level_at l c = 0" for l
      using that by (intro hits_clauses_cong) (simp add: level_at_only_on)
    have hits: "hits_clauses atoms clauses L"
      using low(1) iff [OF low(2)] only [of L] lvl by blast
    have least: "\<not> hits_clauses atoms clauses (L(c \<mapsto> level_at L c - 1))" if "1 < level_at L c" for c
      using minimal [OF that] iff [OF lower_le] only [of "L(c \<mapsto> level_at L c - 1)"] lvl that
      by auto
    have lmin: "level_minimal clauses chosen atoms ?per L"
      using minimal by (auto simp: level_minimal_def list_ex_iff Let_def)
    have "card (set (map tl_control_id (raised atoms L))) = card (control_at atoms ` set chosen)"
      using raisedc sel(4) unfolding control_ids_raised [OF built]
      by (intro arg_cong [of _ _ card]) (auto simp del: set_controls intro: nth_mem)
    also have "\<dots> = n" using inj sel(2) by (metis distinct_card length_map set_map)
    finally have card: "card (set (map tl_control_id (raised atoms L))) = n" .
    let ?c = "\<lparr>ct_atoms = raised atoms L, ct_cardinality = n,
      ct_mask = mask_of_atoms (raised atoms L), ct_minimality = mn\<rparr>"
    have "canonical_select clauses atoms n mn budget = Inr (?c, u)"
      using Inr r sel(1,2) low(1) lmin
      by (simp add: canonical_select_def split_beta L_def [symmetric] Let_def
          cut_of_levels_ok [OF built] card del: set_map)
    moreover have "canonical_cut atoms clauses n mn ?c chosen L"
      unfolding canonical_cut_def using sel raisedc hits least by blast
    ultimately show ?thesis by blast
  qed
qed

lemma select_controls_enough:
  "int used + 2 ^ length rest \<le> limit + 1 \<Longrightarrow> length chosen \<le> k \<Longrightarrow>
     \<exists>ch un u. select_controls hs limit k rest chosen unhit used = Inr (ch, un, u) \<and>
       u + 1 \<le> used + 2 ^ length rest"
proof (induction rest arbitrary: chosen unhit used)
  case (Cons index rest)
  have one: "1 \<le> (2::int) ^ length rest" "1 \<le> (2::nat) ^ length rest" by simp_all
  have dbl: "(2::int) ^ length (index # rest) = 2 * 2 ^ length rest"
    "(2::nat) ^ length (index # rest) = 2 * 2 ^ length rest" by simp_all
  show ?case
  proof (cases "length chosen = k")
    case True
    with one(2) dbl(2) show ?thesis by simp
  next
    case False
    let ?cap = "int k - int (length chosen) - 1"
    have "int used + 2 ^ length rest \<le> limit" using Cons.prems(1) one(1) dbl by linarith
    from bb_enough(1) [OF this, of hs "unhit - unhit \<inter> hs ! index" 0 "Some (nat (?cap + 1))"] obtain b u1
      where "bb hs limit rest (unhit - unhit \<inter> hs ! index) 0 (Some (nat (?cap + 1))) used = Inr (b, u1)"
        and u1: "u1 \<le> used + 2 ^ length rest" by blast
    moreover have "\<not> ?cap < 0" using False Cons.prems(2) by simp
    ultimately obtain ext where
      ext: "extendable hs limit rest (unhit - unhit \<inter> hs ! index) ?cap used = Inr (ext, u1)"
      by (auto simp: extendable_def)
    have "int u1 \<le> int used + 2 ^ length rest" using of_nat_mono [OF u1, where 'a = int] by simp
    then have lim: "int u1 + 2 ^ length rest \<le> limit + 1" using Cons.prems(1) dbl(1) by linarith
    obtain ch un u where
      "select_controls hs limit k (index # rest) chosen unhit used = Inr (ch, un, u)"
      "u + 1 \<le> u1 + 2 ^ length rest"
    proof (cases ext)
      case True
      from Cons.IH [OF lim, of "chosen @ [index]" "unhit - unhit \<inter> hs ! index"] Cons.prems(2) False
      obtain ch un u where "select_controls hs limit k rest (chosen @ [index])
          (unhit - unhit \<inter> hs ! index) u1 = Inr (ch, un, u)" "u + 1 \<le> u1 + 2 ^ length rest" by auto
      with ext True False that show ?thesis by (simp add: Let_def)
    next
      case no: False
      from Cons.IH [OF lim Cons.prems(2), of unhit] obtain ch un u where
        "select_controls hs limit k rest chosen unhit u1 = Inr (ch, un, u)"
        "u + 1 \<le> u1 + 2 ^ length rest" by auto
      with ext no False that show ?thesis by (simp add: Let_def)
    qed
    moreover from this(2) u1 have "u + 1 \<le> used + 2 ^ length (index # rest)" using dbl(2) by linarith
    ultimately show ?thesis by blast
  qed
qed simp

lemma canonical_select_enough:
  assumes built: "built_table atoms" and budget: "2 ^ length (controls atoms) \<le> budget"
  shows "canonical_select clauses atoms n mn budget \<noteq> raises BudgetError"
    and "canonical_select clauses atoms n mn budget = Inr (c, u) \<Longrightarrow> u \<le> 2 ^ length (controls atoms)"
proof -
  let ?sel = "select_controls (fst (control_hits clauses atoms)) budget n [0..<length (controls atoms)]
    [] {0..<length clauses} 0"
  obtain ch un w where sel: "?sel = Inr (ch, un, w)" "w + 1 \<le> 2 ^ length (controls atoms)"
    using select_controls_enough [of 0 "[0..<length (controls atoms)]" budget "[]" n
      "fst (control_hits clauses atoms)" "{0..<length clauses}"] budget by auto
  show "canonical_select clauses atoms n mn budget = Inr (c, u) \<Longrightarrow> u \<le> 2 ^ length (controls atoms)"
    using sel by (auto simp: canonical_select_def split_beta Let_def andThen_eq_Inr)
  show "canonical_select clauses atoms n mn budget \<noteq> raises BudgetError"
    by (simp add: canonical_select_def split_beta sel(1) Let_def cut_of_levels_ok [OF built]
        guard_def guard_code_def require_def raises_def andThen_def)
qed

section \<open>The fallback\<close>

lemma drop_controls_spec:
  assumes mono: "\<And>xs ys. set xs \<subseteq> set ys \<Longrightarrow> set ys \<subseteq> D \<Longrightarrow> passes xs \<Longrightarrow> passes ys"
  shows "passes ch \<Longrightarrow> set ch \<subseteq> D \<Longrightarrow>
    R = foldl (\<lambda>ch i. let t = filter (\<lambda>c. c \<noteq> i) ch in if passes t then t else ch) ch ls \<Longrightarrow>
    passes R \<and> subseq R ch \<and> (\<forall>i \<in> set ls. i \<in> set R \<longrightarrow> \<not> passes (filter (\<lambda>c. c \<noteq> i) R))"
proof (induction ls arbitrary: ch)
  case Nil
  then show ?case by simp
next
  case (Cons i ls)
  let ?t = "filter (\<lambda>c. c \<noteq> i) ch"
  show ?case
  proof (cases "passes ?t")
    case True
    have sub: "set ?t \<subseteq> D" using Cons.prems(2) by auto
    have "R = foldl (\<lambda>ch i. let t = filter (\<lambda>c. c \<noteq> i) ch in if passes t then t else ch) ?t ls"
      using Cons.prems(3) True by simp
    note IH = Cons.IH [OF True sub this]
    have "i \<notin> set R" using IH subseq_set by fastforce
    with IH show ?thesis by (auto intro: subseq_order.trans)
  next
    case False
    have "R = foldl (\<lambda>ch i. let t = filter (\<lambda>c. c \<noteq> i) ch in if passes t then t else ch) ch ls"
      using Cons.prems(3) False by simp
    note IH = Cons.IH [OF Cons.prems(1,2) this]
    have "\<not> passes (filter (\<lambda>c. c \<noteq> i) R)"
    proof
      assume "passes (filter (\<lambda>c. c \<noteq> i) R)"
      moreover have "set (filter (\<lambda>c. c \<noteq> i) R) \<subseteq> set ?t" using IH subseq_set [of R ch] by auto
      moreover have "set ?t \<subseteq> D" using Cons.prems(2) by auto
      ultimately show False using mono False by blast
    qed
    with IH show ?thesis by auto
  qed
qed

text \<open>What the fallback promises: every clause is hit, no control can be removed and no level
  lowered.\<close>

definition irredundant_cut :: "atom_table \<Rightarrow> clause list \<Rightarrow> cut \<Rightarrow> level_map \<Rightarrow> bool" where
  "irredundant_cut atoms clauses c levels \<longleftrightarrow>
     ct_atoms c = raised atoms levels \<and> ct_mask c = mask_of_atoms (raised atoms levels) \<and>
     ct_minimality c = SUBSET \<and> hits_clauses atoms clauses levels \<and>
     (\<forall>d. 1 \<le> level_at levels d \<longrightarrow> d \<in> set (controls atoms) \<and>
        \<not> hits_clauses atoms clauses (levels(d \<mapsto> level_at levels d - 1)))"

lemma level_at_kept_levels:
  "level_at (kept_levels atoms chosen levels) c =
     (if c \<in> control_at atoms ` set chosen then level_at levels c else 0)"
proof -
  have "map_of (map (\<lambda>i. (control_at atoms i, level_at levels (control_at atoms i))) chosen) c =
      (if c \<in> control_at atoms ` set chosen then Some (level_at levels c) else None)"
    by (induction chosen) auto
  then show ?thesis by (simp add: kept_levels_def level_at_def [of "map_of _"])
qed

lemma max_level_at: "i < length (controls atoms) \<Longrightarrow> 1 \<le> max_level atoms (control_at atoms i)"
  by (rule max_level_pos) (rule nth_mem)

lemma hits_clauses_whole:
  "controls_hit atoms clauses (set (controls atoms)) \<longleftrightarrow> (\<forall>cl \<in> set clauses. cl \<inter> tl_rank ` set atoms \<noteq> {})"
  by (auto simp: controls_hit_def)

lemma subset_minimal_spec:
  assumes built: "built_table atoms"
    and hit: "\<forall>cl \<in> set clauses. cl \<inter> tl_rank ` set atoms \<noteq> {}"
  shows "\<exists>c levels. subset_minimal clauses atoms = Inr c \<and> irredundant_cut atoms clauses c levels"
proof -
  let ?per = "snd (control_hits clauses atoms)" and ?all = "[0..<length (controls atoms)]"
  let ?max = "max_levels atoms ?all"
  let ?D = "{..<length (controls atoms)}"
  have D: "set ?all = ?D" by auto
  have img: "control_at atoms ` ?D = set (controls atoms)"
    by (auto simp: in_set_conv_nth simp del: set_controls)
  have iff: "hits_all clauses ch atoms ?per l \<longleftrightarrow> hits_clauses atoms clauses (only_on atoms ch l)"
    if "level_le l ?max" "set ch \<subseteq> ?D" for l ch
    using that by (intro hits_all_iff [OF built])
      (auto simp: level_le_def level_at_max_levels split: if_splits)
  have whole: "hits_all clauses ?all atoms ?per ?max"
    using hits_clauses_max [OF built, of clauses ?all] hit hits_clauses_whole [of atoms clauses]
      iff [OF level_le_refl, of ?all] hits_clauses_cong [of "only_on atoms ?all ?max" ?max]
    unfolding D img by (simp add: level_at_only_on level_at_max_levels)
  have sub_mono: "hits_all clauses ys atoms ?per ?max"
    if "set xs \<subseteq> set ys" "set ys \<subseteq> ?D" "hits_all clauses xs atoms ?per ?max" for xs ys
  proof -
    have "level_le (only_on atoms xs ?max) (only_on atoms ys ?max)"
      using that(1) by (auto simp: level_le_def level_at_only_on)
    with that hits_clauses_mono show ?thesis by (simp add: iff [OF level_le_refl])
  qed
  define R where "R = drop_controls (\<lambda>ch. hits_all clauses ch atoms ?per ?max) ?all"
  have R: "hits_all clauses R atoms ?per ?max \<and> subseq R ?all \<and> (\<forall>i \<in> set (rev ?all). i \<in> set R \<longrightarrow>
      \<not> hits_all clauses (filter (\<lambda>c. c \<noteq> i) R) atoms ?per ?max)"
    by (rule drop_controls_spec [where D = ?D, OF _ whole _ R_def [unfolded drop_controls_def]])
      (use sub_mono in auto)
  have RD: "set R \<subseteq> ?D" using R subseq_set [of R ?all] by auto
  have inj: "distinct (map (control_at atoms) R)"
    using distinct_controls [OF built] RD subseq_sorted_wrt [OF R [THEN conjunct2, THEN conjunct1],
        of "(<)"] strict_sorted_iff [of R]
    by (auto simp: distinct_map inj_on_def nth_eq_iff_index_eq subset_iff)
  let ?passes = "hits_all clauses R atoms ?per"
  define L where "L = lower_controls ?passes atoms R ?max"
  have mono: "?passes l'" if "level_le l' ?max" "level_le l l'" "?passes l" for l l'
    using that by (rule hits_all_mono [OF built RD])
  have pos: "\<forall>i \<in> set R. \<exists>m \<ge> 1. ?max (control_at atoms i) = Some m"
    using RD max_level_at [of _ atoms] by (auto simp: max_levels_Some subset_iff)
  have low: "?passes L \<and> level_le L ?max \<and>
      (\<forall>c. c \<notin> control_at atoms ` set R \<longrightarrow> L c = ?max c) \<and>
      (\<forall>i \<in> set R. \<exists>m \<ge> 1. L (control_at atoms i) = Some m \<and>
         (1 < m \<longrightarrow> \<not> ?passes (L(control_at atoms i \<mapsto> m - 1))))"
    by (rule lower_controls_spec [where hi = ?max, OF _ level_le_refl _ pos inj L_def])
      (use mono R in blast)+
  let ?K = "kept_levels atoms R L"
  have K: "level_at ?K c = (if c \<in> control_at atoms ` set R then level_at L c else 0)" for c
    by (rule level_at_kept_levels)
  have hits: "hits_clauses atoms clauses ?K"
    using low iff [of L R] RD hits_clauses_cong [of ?K "only_on atoms R L"]
    by (simp add: K level_at_only_on)
  have irr: "d \<in> set (controls atoms) \<and>
      \<not> hits_clauses atoms clauses (?K(d \<mapsto> level_at ?K d - 1))" if d: "1 \<le> level_at ?K d" for d
  proof -
    from d obtain i where i: "i \<in> set R" "d = control_at atoms i"
      by (auto simp: K split: if_splits)
    with low obtain m where m: "1 \<le> m" "L d = Some m" "1 < m \<longrightarrow> \<not> ?passes (L(d \<mapsto> m - 1))" by blast
    then have lvl: "level_at L d = m" "level_at ?K d = m" using i by (auto simp: K level_at_def [of L])
    let ?K' = "?K(d \<mapsto> m - 1)"
    have "\<not> hits_clauses atoms clauses ?K'"
    proof (cases "1 < m")
      case True
      have "level_le (L(d \<mapsto> m - 1)) ?max"
        using low lvl(1) by (auto simp: level_le_def intro: le_trans [OF diff_le_self])
      moreover have "level_at (only_on atoms R (L(d \<mapsto> m - 1))) c = level_at ?K' c" for c
        using i by (auto simp: level_at_only_on K)
      ultimately show ?thesis
        using m(3) True iff [of "L(d \<mapsto> m - 1)" R] RD hits_clauses_cong by metis
    next
      case False
      let ?R' = "filter (\<lambda>c. c \<noteq> i) R"
      have "level_le ?K' (only_on atoms ?R' ?max)"
        unfolding level_le_def
      proof
        fix c
        have "c \<in> control_at atoms ` set ?R' \<longleftrightarrow> c \<in> control_at atoms ` set R \<and> c \<noteq> d"
          using inj i by (auto simp: distinct_map inj_on_def)
        moreover have "level_at L c \<le> level_at ?max c" using low by (simp add: level_le_def)
        ultimately show "level_at ?K' c \<le> level_at (only_on atoms ?R' ?max) c"
          using False m(1) by (auto simp: level_at_only_on K)
      qed
      moreover have "\<not> hits_all clauses ?R' atoms ?per ?max" using R i RD by auto
      then have "\<not> hits_clauses atoms clauses (only_on atoms ?R' ?max)"
        using iff [OF level_le_refl, of ?R'] RD by auto
      ultimately show ?thesis using hits_clauses_mono by blast
    qed
    moreover have "d \<in> set (controls atoms)" using i RD img by auto
    ultimately show ?thesis by (simp add: lvl(2))
  qed
  have "subset_minimal clauses atoms = cut_of_levels atoms ?K SUBSET"
    using whole by (simp add: subset_minimal_def Let_def R_def L_def)
  then show ?thesis
    using hits irr unfolding cut_of_levels_ok [OF built] irredundant_cut_def by auto
qed

section \<open>Properties\<close>

lemma solved_optimum:
  assumes "built_table atoms" and "min_cardinality clauses atoms budget [] = r"
    and "mc_status r = EXACT" and "mc_value r = Some n"
  shows "\<forall>k. n \<le> k \<longleftrightarrow> cut_exists atoms clauses (set (controls atoms)) k"
  using min_cardinality_solves [OF assms(1), of clauses "[]" budget] assms(2-)
  by (auto simp: solves_def)

text \<open>C16. Canonical selection delivers the mandated representative. For a cardinality that the
  solver found to be optimal it never reports an inconsistent database: it either runs out
  of nodes, which a budget of \<open>2 ^ controls\<close> rules out, or returns a cut that raises exactly
  that many controls, whose controls are the lexicographically least set of that size that
  hits every clause at all, that hits every clause, and in which no raised level can be
  lowered one step without losing a clause.\<close>

theorem canonical_select_canonical:
  assumes "built_table atoms" and "min_cardinality clauses atoms b [] = r"
    and "mc_status r = EXACT" and "mc_value r = Some n"
  shows "(canonical_select clauses atoms n mn budget = raises BudgetError \<and>
       \<not> 2 ^ length (controls atoms) \<le> budget) \<or>
    (\<exists>c u chosen levels. canonical_select clauses atoms n mn budget = Inr (c, u) \<and>
       ct_atoms c = raised atoms levels \<and> ct_mask c = mask_of_atoms (raised atoms levels) \<and>
       ct_cardinality c = n \<and> ct_minimality c = mn \<and>
       strictly_ascending chosen \<and> length chosen = n \<and>
       (\<forall>d. 1 \<le> level_at levels d \<longleftrightarrow> d \<in> control_at atoms ` set chosen) \<and>
       hits_clauses atoms clauses levels \<and>
       (\<forall>d. 1 < level_at levels d \<longrightarrow>
          \<not> hits_clauses atoms clauses (levels(d \<mapsto> level_at levels d - 1))) \<and>
       (\<forall>ds. strictly_ascending ds \<longrightarrow> set ds \<subseteq> {..<length (controls atoms)} \<longrightarrow> length ds = n \<longrightarrow>
          controls_hit atoms clauses (control_at atoms ` set ds) \<longrightarrow> chosen \<le> ds))"
proof -
  from canonical_select_spec [OF assms(1) solved_optimum [OF assms], of mn budget]
  show ?thesis
  proof
    assume fail: "canonical_select clauses atoms n mn budget = raises BudgetError"
    with canonical_select_enough(1) [OF assms(1), of budget clauses n mn] show ?thesis by blast
  next
    assume "\<exists>c u chosen levels. canonical_select clauses atoms n mn budget = Inr (c, u) \<and>
       canonical_cut atoms clauses n mn c chosen levels"
    then obtain c u chosen levels where *: "canonical_select clauses atoms n mn budget = Inr (c, u)"
      "canonical_cut atoms clauses n mn c chosen levels" by blast
    from *(2) have "ct_atoms c = raised atoms levels" "ct_mask c = mask_of_atoms (raised atoms levels)"
      "ct_cardinality c = n" "ct_minimality c = mn" by (simp_all add: canonical_cut_def)
    with * show ?thesis unfolding canonical_cut_def by blast
  qed
qed

theorem canonical_select_canonical_witness:
  "canonical_select tie_clauses tie_atoms 2 UNVERIFIED 1000 \<noteq> raises BudgetError"
proof -
  have "length (controls tie_atoms) = 2" by code_simp
  then show ?thesis
    using canonical_select_canonical [OF tie_built tie_min_cardinality, of 2 UNVERIFIED 1000]
    by auto
qed

text \<open>The fallback is irredundant. Whenever every clause names at least one literal of the
  table, the cap-and-budget fallback returns a cut that hits every clause and from which no
  raised control can be lowered one step or removed: the claim SUBSET is earned.\<close>

theorem subset_minimal_irredundant:
  assumes "built_table atoms" and "\<forall>cl \<in> set clauses. cl \<inter> tl_rank ` set atoms \<noteq> {}"
  shows "\<exists>c levels. subset_minimal clauses atoms = Inr c \<and> ct_atoms c = raised atoms levels \<and>
    ct_mask c = mask_of_atoms (raised atoms levels) \<and> ct_minimality c = SUBSET \<and>
    hits_clauses atoms clauses levels \<and>
    (\<forall>d. 1 \<le> level_at levels d \<longrightarrow>
       \<not> hits_clauses atoms clauses (levels(d \<mapsto> level_at levels d - 1)))"
  using subset_minimal_spec [OF assms] unfolding irredundant_cut_def by blast

theorem subset_minimal_irredundant_witness:
  "\<exists>c levels. subset_minimal tie_clauses tie_atoms = Inr c \<and> hits_clauses tie_atoms tie_clauses levels"
proof -
  have "\<forall>cl \<in> set tie_clauses. cl \<inter> tl_rank ` set tie_atoms \<noteq> {}"
    by (simp add: tie_clauses_def tie_atoms_def sample_literal_def)
  from subset_minimal_irredundant [OF tie_built this] show ?thesis by blast
qed

end
