(* ===== verification/Closure.thy ===== *)
theory Closure
  imports Masks
begin

text \<open>
  The contract of a forward-chaining engine over Horn clauses that a cut may disable. Two
  routines of the program keep it: the emitter's counter propagation (\<^verbatim>\<open>reach.py\<close>) and the
  checker's rescanning fixpoint (\<^verbatim>\<open>checker.py\<close>, \<open>_reach\<close>). The lemmas that follow from the
  contract (leastness, antitonicity in the cut, agreement of two engines) are proved once,
  inside the locale.
\<close>

section \<open>The least closed set\<close>

inductive_set closure :: "'f set \<Rightarrow> ('f set \<times> 'f) set \<Rightarrow> 'f set"
  for A :: "'f set" and R :: "('f set \<times> 'f) set"
where
  seed: "f \<in> A \<Longrightarrow> f \<in> closure A R"
| step: "(B, h) \<in> R \<Longrightarrow> (\<And>b. b \<in> B \<Longrightarrow> b \<in> closure A R) \<Longrightarrow> h \<in> closure A R"

lemma closure_least:
  assumes "A \<subseteq> X" and "\<And>B h. (B, h) \<in> R \<Longrightarrow> B \<subseteq> X \<Longrightarrow> h \<in> X"
  shows "closure A R \<subseteq> X"
proof
  fix f assume "f \<in> closure A R"
  then show "f \<in> X"
  proof induction
    case (seed f)
    with assms(1) show ?case by blast
  next
    case (step B h)
    then show ?case using assms(2) [of B h] by blast
  qed
qed

lemma closure_mono:
  assumes "A \<subseteq> A'" and "R \<subseteq> R'"
  shows "closure A R \<subseteq> closure A' R'"
proof (rule closure_least)
  show "A \<subseteq> closure A' R'" using assms(1) by (auto intro: closure.seed)
next
  fix B h assume "(B, h) \<in> R" "B \<subseteq> closure A' R'"
  with assms(2) show "h \<in> closure A' R'" by (auto intro: closure.step)
qed

section \<open>The contract\<close>

locale closure_engine =
  fixes valid :: "'p \<Rightarrow> nat \<Rightarrow> bool"
    and seeds :: "'p \<Rightarrow> 'f set"
    and clauses :: "'p \<Rightarrow> nat \<Rightarrow> ('f set \<times> 'f) set"
    and run :: "'p \<Rightarrow> nat \<Rightarrow> 'f list"
  assumes founded: "valid p S \<Longrightarrow> k < length (run p S) \<Longrightarrow>
      run p S ! k \<in> seeds p \<or>
      (\<exists>B. (B, run p S ! k) \<in> clauses p S \<and> B \<subseteq> set (take k (run p S)))"
    and seeds_run: "valid p S \<Longrightarrow> seeds p \<subseteq> set (run p S)"
    and clauses_run: "valid p S \<Longrightarrow> (B, h) \<in> clauses p S \<Longrightarrow> B \<subseteq> set (run p S) \<Longrightarrow>
      h \<in> set (run p S)"
    and clauses_antitone: "submask S S' \<Longrightarrow> clauses p S' \<subseteq> clauses p S"
begin

lemma nth_run_closure:
  "valid p S \<Longrightarrow> k < length (run p S) \<Longrightarrow> run p S ! k \<in> closure (seeds p) (clauses p S)"
proof (induction k rule: less_induct)
  case (less k)
  from founded [OF less.prems] show ?case
  proof
    assume "run p S ! k \<in> seeds p"
    then show ?thesis by (rule closure.seed)
  next
    assume "\<exists>B. (B, run p S ! k) \<in> clauses p S \<and> B \<subseteq> set (take k (run p S))"
    then obtain B where B: "(B, run p S ! k) \<in> clauses p S" "B \<subseteq> set (take k (run p S))" by blast
    show ?thesis
    proof (rule closure.step [OF B(1)])
      fix b assume "b \<in> B"
      with B(2) obtain j where "j < k" "j < length (run p S)" "b = run p S ! j"
        by (force simp: in_set_conv_nth)
      with less.IH less.prems(1) show "b \<in> closure (seeds p) (clauses p S)" by blast
    qed
  qed
qed

lemma run_closure:
  assumes "valid p S"
  shows "set (run p S) = closure (seeds p) (clauses p S)"
proof
  show "set (run p S) \<subseteq> closure (seeds p) (clauses p S)"
    using nth_run_closure [OF assms] by (auto simp: in_set_conv_nth)
  show "closure (seeds p) (clauses p S) \<subseteq> set (run p S)"
    by (rule closure_least) (use seeds_run clauses_run assms in auto)
qed

lemma run_antitone:
  assumes "valid p S" and "valid p S'" and "submask S S'"
  shows "set (run p S') \<subseteq> set (run p S)"
  using assms by (simp add: run_closure closure_mono clauses_antitone)

lemma run_inductive:
  assumes "valid p S" and "seeds p \<subseteq> X"
    and "\<And>B h. (B, h) \<in> clauses p S \<Longrightarrow> B \<subseteq> X \<Longrightarrow> h \<in> X"
  shows "set (run p S) \<subseteq> X"
  using assms closure_least [of "seeds p" X] by (simp add: run_closure)

end

end
