(* ===== verification/Reach.thy ===== *)
theory Reach
  imports Closure
begin

text \<open>
  \<^verbatim>\<open>spectra_vs/reach.py\<close>: the fixpoint of derivable facts under a cut by unit propagation
  with one counter of unsatisfied body facts per instance, the well-founded witness tree
  over it, and the corridor mask of a tree. A \<^verbatim>\<open>dict\<close> is an association list in its
  insertion order, the deque a list whose head is its left end, the set \<^verbatim>\<open>seen\<close> a set.
  \<open>ReachProgram.build\<close> is the only constructor, so the index tables of a program are
  those that \<open>build\<close> computes.
\<close>

section \<open>The indexed program\<close>

record reach_program =
  rp_kind :: program_kind
  rp_instances :: "rule_instance list"
  rp_axioms :: "string list"
  rp_goal :: string
  rp_goals :: "string list"
  rp_axiom_evidence :: "(string \<times> string list) list"
  rp_by_body :: "(string \<times> nat list) list"
  rp_body_size :: "nat list"
  rp_by_head :: "(string \<times> nat list) list"

text \<open>\<open>d.setdefault(k, []).append(i)\<close>.\<close>

fun setdefault_append :: "(string \<times> nat list) list \<Rightarrow> string \<Rightarrow> nat \<Rightarrow> (string \<times> nat list) list" where
  "setdefault_append [] k i = [(k, [i])]"
| "setdefault_append ((k', is) # d) k i =
     (if k' = k then (k', is @ [i]) # d else (k', is) # setdefault_append d k i)"

text \<open>The loop of \<open>build\<close> over \<open>enumerate(insts)\<close>, with its three tables.\<close>

fun index_instances ::
    "nat \<Rightarrow> rule_instance list
     \<Rightarrow> (string \<times> nat list) list \<times> nat list \<times> (string \<times> nat list) list
     \<Rightarrow> ((string \<times> nat list) list \<times> nat list \<times> (string \<times> nat list) list) outcome" where
  "index_instances index [] tables = Inr tables"
| "index_instances index (inst # insts) (by_body, body_size, by_head) =
     andThen (check_all (\<lambda>m. guard_code (bit_count m = 1) SchemaError ''E-VS-BLOCK-CONJ'')
                (ri_blockers inst)) (\<lambda>_.
       let keys = sorted_dedup (ri_body inst)
       in index_instances (Suc index) insts
            (foldl (\<lambda>d k. setdefault_append d k index) by_body keys,
             body_size @ [length keys],
             setdefault_append by_head (ri_head inst) index))"

definition build ::
    "program_kind \<Rightarrow> rule_instance list \<Rightarrow> string list \<Rightarrow> string
     \<Rightarrow> (string \<times> string list) list \<Rightarrow> string list option \<Rightarrow> reach_program outcome" where
  "build kind insts axs goal evid goals =
     andThen (check_strictly_ascending insts ri_instance_id) (\<lambda>_.
     andThen (check_strictly_ascending axs id) (\<lambda>_.
     let gs = (case goals of None \<Rightarrow> [goal] | Some gs \<Rightarrow> gs) in
     andThen (check_strictly_ascending gs id) (\<lambda>_.
     andThen (guard_code (goal \<in> set gs) SchemaError ''E-VS-GOAL-REP'') (\<lambda>_.
     andThen (check_strictly_ascending evid fst) (\<lambda>_.
     andThen (index_instances 0 insts ([], [], [])) (\<lambda>(by_body, body_size, by_head).
       Inr \<lparr>rp_kind = kind, rp_instances = insts, rp_axioms = axs, rp_goal = goal,
            rp_goals = gs, rp_axiom_evidence = evid,
            rp_by_body = sort_key fst by_body, rp_body_size = body_size,
            rp_by_head = sort_key fst by_head\<rparr>))))))"

definition dependents :: "reach_program \<Rightarrow> string \<Rightarrow> nat list" where
  "dependents p fact_key = (case map_of (rp_by_body p) fact_key of None \<Rightarrow> [] | Some is \<Rightarrow> is)"

definition supports :: "reach_program \<Rightarrow> string \<Rightarrow> nat list" where
  "supports p fact_key = (case map_of (rp_by_head p) fact_key of None \<Rightarrow> [] | Some is \<Rightarrow> is)"

definition axiom_events :: "reach_program \<Rightarrow> string \<Rightarrow> string list" where
  "axiom_events p fact_key =
     (case find (\<lambda>pair. fst pair = fact_key) (rp_axiom_evidence p) of
        None \<Rightarrow> [] | Some pair \<Rightarrow> snd pair)"

section \<open>The propagation loop\<close>

fun some_term_raised :: "nat list \<Rightarrow> nat \<Rightarrow> bool" where
  "some_term_raised [] cut_mask = False"
| "some_term_raised (t # ts) cut_mask =
     (if t AND cut_mask = t then True else some_term_raised ts cut_mask)"

definition instance_blocked :: "rule_instance \<Rightarrow> nat \<Rightarrow> bool" where
  "instance_blocked inst cut_mask = some_term_raised (ri_blockers inst) cut_mask"

text \<open>The inner loop over the dependents of the fact that was popped.\<close>

fun touch ::
    "reach_program \<Rightarrow> nat \<Rightarrow> nat list \<Rightarrow> int list \<times> string list \<times> nat
     \<Rightarrow> int list \<times> string list \<times> nat" where
  "touch p cut_mask [] st = st"
| "touch p cut_mask (index # is) (remaining, queue, steps) =
     (let inst = rp_instances p ! index in
      if instance_blocked inst cut_mask then touch p cut_mask is (remaining, queue, steps)
      else
        let remaining' = remaining[index := remaining ! index - 1];
            queue' = (if remaining' ! index = 0 then queue @ [ri_head inst] else queue)
        in touch p cut_mask is (remaining', queue', steps + 1))"

definition head_pool :: "reach_program \<Rightarrow> string set" where
  "head_pool p = (\<lambda>i. ri_head (rp_instances p ! i)) ` (\<Union>(k, is) \<in> set (rp_by_body p). set is)"

lemma finite_head_pool [simp]: "finite (head_pool p)"
  by (auto simp: head_pool_def)

lemma touch_queue_pool:
  "set (fst (snd (touch p S is (r, q, n)))) \<subseteq> set q \<union> (\<lambda>i. ri_head (rp_instances p ! i)) ` set is"
proof (induction "is" arbitrary: r q n)
  case (Cons i "is")
  let ?q = "\<lambda>b. if b then q @ [ri_head (rp_instances p ! i)] else q"
  have "\<And>r' b n'. set (fst (snd (touch p S is (r', ?q b, n'))))
          \<subseteq> set q \<union> (\<lambda>i. ri_head (rp_instances p ! i)) ` set (i # is)"
    using Cons.IH by (fastforce split: if_splits)
  from this [of _ False] this show ?case
    by (simp add: Let_def del: list.set)
qed simp

lemma dependents_pool: "(\<lambda>i. ri_head (rp_instances p ! i)) ` set (dependents p k) \<subseteq> head_pool p"
proof (cases "map_of (rp_by_body p) k")
  case (Some "is")
  then have "(k, is) \<in> set (rp_by_body p)" by (rule map_of_SomeD)
  with Some show ?thesis by (fastforce simp: head_pool_def dependents_def)
qed (simp add: dependents_def)

text \<open>
  The outer loop. It ends on every program: each turn either expands a fact for the first
  time, of finitely many, or shortens the queue.
\<close>

function propagate ::
    "reach_program \<Rightarrow> nat \<Rightarrow> int list \<Rightarrow> string set \<Rightarrow> string list \<Rightarrow> string list \<Rightarrow> nat
     \<Rightarrow> string set \<times> string list \<times> nat" where
  "propagate p cut_mask remaining seen order [] steps = (seen, order, steps)"
| "propagate p cut_mask remaining seen order (fact_key # queue) steps =
     (if fact_key \<in> seen then propagate p cut_mask remaining seen order queue steps
      else case touch p cut_mask (dependents p fact_key) (remaining, queue, steps) of
        (remaining', queue', steps') \<Rightarrow>
          propagate p cut_mask remaining' (insert fact_key seen) (order @ [fact_key]) queue'
            (steps' + 1))"
  by pat_completeness auto
termination
proof (relation "measures [\<lambda>(p, S, r, seen, ord, q, n). card ((head_pool p \<union> set q) - seen),
                           \<lambda>(p, S, r, seen, ord, q, n). length q]", goal_cases)
  case 1
  then show ?case by simp
next
  case (2 p S r seen ord k q n)
  have "card ((head_pool p \<union> set q) - seen) \<le> card ((head_pool p \<union> set (k # q)) - seen)"
    by (rule card_mono) auto
  then show ?case by auto
next
  case (3 p S r seen ord k q n r' y q' n')
  from 3(2,3) have q': "q' = fst (snd (touch p S (dependents p k) (r, q, n)))" by (metis fst_conv snd_conv)
  have "set q' \<subseteq> set q \<union> head_pool p"
    using touch_queue_pool [of p S "dependents p k" r q n] dependents_pool [of p k] q' by blast
  then have "(head_pool p \<union> set q') - insert k seen \<subset> (head_pool p \<union> set (k # q)) - seen"
    using 3(1) by auto
  then have "card ((head_pool p \<union> set q') - insert k seen) < card ((head_pool p \<union> set (k # q)) - seen)"
    by (intro psubset_card_mono) auto
  then show ?case by simp
qed

record reach_result =
  rr_derivable :: bool
  rr_closure :: "string list"
  rr_order :: "string list"
  rr_steps :: nat

definition bodyless_heads :: "reach_program \<Rightarrow> nat \<Rightarrow> string list" where
  "bodyless_heads p cut_mask =
     map (\<lambda>(index, inst). ri_head inst)
       (filter (\<lambda>(index, inst). rp_body_size p ! index = 0 \<and> \<not> instance_blocked inst cut_mask)
          (enumerate 0 (rp_instances p)))"

definition reach :: "reach_program \<Rightarrow> nat \<Rightarrow> reach_result outcome" where
  "reach p cut_mask =
     andThen (mask_hex (int cut_mask)) (\<lambda>_.
       case propagate p cut_mask (map int (rp_body_size p)) {} []
              (rp_axioms p @ bodyless_heads p cut_mask) 0 of
         (seen, order, steps) \<Rightarrow>
           Inr \<lparr>rr_derivable = list_ex (\<lambda>g. g \<in> seen) (rp_goals p),
                rr_closure = sort order, rr_order = order, rr_steps = steps\<rparr>)"

section \<open>Witness trees\<close>

datatype witness_kind = OBSERVED_KIND | LICENSED_KIND | GHOST_KIND | AXIOM_KIND

datatype witness_node =
  WitnessNode (wn_head: string) (wn_kind: witness_kind) (wn_instance_id: "string option")
    (wn_evidence: "string list") (wn_children: "witness_node list")

text \<open>
  \<open>WitnessNode.instances\<close>: a traversal with an explicit stack, whose top is the head of
  the list, so that \<open>stack.extend(children)\<close> puts the last child on top.
\<close>

function collect_instances :: "witness_node list \<Rightarrow> string list \<Rightarrow> string list" where
  "collect_instances [] found = found"
| "collect_instances (node # stack) found =
     collect_instances (rev (wn_children node) @ stack)
       (case wn_instance_id node of None \<Rightarrow> found | Some i \<Rightarrow> found @ [i])"
  by pat_completeness auto
termination
proof (relation "measure (\<lambda>(stack, found). sum_list (map (Suc \<circ> size) stack))", goal_cases)
  case (2 node stack found)
  have "sum_list (map (Suc \<circ> size) (wn_children node)) \<le> size node"
  proof (cases node)
    case (WitnessNode h k i e cs)
    have "sum_list (map (Suc \<circ> size) cs) = size_list size cs"
      by (induction cs) auto
    then show ?thesis by (simp add: WitnessNode)
  qed
  then show ?case by (simp add: rev_map [symmetric] sum_list_rev)
qed simp

definition tree_instances :: "witness_node \<Rightarrow> string list" where
  "tree_instances tree = sorted_dedup (collect_instances [tree] [])"

text \<open>The loop over \<open>program.supports(fact_key)\<close> that picks the support of a fact.\<close>

definition usable :: "nat \<Rightarrow> string list \<Rightarrow> nat \<Rightarrow> rule_instance \<Rightarrow> bool" where
  "usable cut_mask order here inst =
     (\<not> instance_blocked inst cut_mask \<and>
      \<not> list_ex (\<lambda>b. case position_of order b of None \<Rightarrow> True | Some j \<Rightarrow> here \<le> j) (ri_body inst))"

fun choose_support ::
    "reach_program \<Rightarrow> nat \<Rightarrow> string list \<Rightarrow> nat \<Rightarrow> nat list \<Rightarrow> rule_instance option
     \<Rightarrow> rule_instance option" where
  "choose_support p cut_mask order here [] chosen = chosen"
| "choose_support p cut_mask order here (index # is) chosen =
     (let inst = rp_instances p ! index in
      choose_support p cut_mask order here is
        (if \<not> usable cut_mask order here inst then chosen
         else case chosen of
           None \<Rightarrow> Some inst
         | Some c \<Rightarrow> if ri_instance_id inst < ri_instance_id c then Some inst else chosen))"

definition node_kind :: "rule_instance \<Rightarrow> witness_kind" where
  "node_kind inst =
     (if ri_ghost inst then GHOST_KIND
      else if ri_observed inst = LICENSED then LICENSED_KIND
      else OBSERVED_KIND)"

lemma choose_support_usable:
  "choose_support p S order here is chosen = Some inst \<Longrightarrow>
     chosen = Some inst \<or>
     (\<exists>i \<in> set is. inst = rp_instances p ! i) \<and> usable S order here inst"
  by (induction "is" arbitrary: chosen) (force simp: Let_def split: if_splits option.splits)+

lemma usable_position:
  "usable S order here inst \<Longrightarrow> b \<in> set (ri_body inst) \<Longrightarrow> \<exists>j < here. position_of order b = Some j"
  by (cases "position_of order b")
    (auto simp: usable_def list_ex_iff not_le simp del: position_of_None)

lemma mapM_cong [fundef_cong]:
  "xs = ys \<Longrightarrow> (\<And>x. x \<in> set ys \<Longrightarrow> f x = g x) \<Longrightarrow> mapM f xs = mapM g ys"
  by (induction xs arbitrary: ys) auto

text \<open>
  The inner function \<open>build\<close> of \<open>witness_tree\<close>. Its memo table only avoids building a node
  twice, so the recursion is stated without it; it ends because every body fact of a usable
  instance stands strictly earlier in the derivation order.
\<close>

function build_node :: "reach_program \<Rightarrow> nat \<Rightarrow> string list \<Rightarrow> string \<Rightarrow> witness_node outcome" where
  "build_node p cut_mask order fact_key =
     (case position_of order fact_key of
        None \<Rightarrow> raises KeyError
      | Some here \<Rightarrow>
          (case choose_support p cut_mask order here (supports p fact_key) None of
             None \<Rightarrow> Inr (WitnessNode fact_key AXIOM_KIND None (axiom_events p fact_key) [])
           | Some inst \<Rightarrow>
               andThen (mapM (build_node p cut_mask order) (ri_body inst)) (\<lambda>children.
                 Inr (WitnessNode fact_key (node_kind inst) (Some (ri_instance_id inst))
                   (map er_event_id (ri_evidence inst)) children))))"
  by pat_completeness auto
termination
  by (relation "measure (\<lambda>(p, S, order, k). case position_of order k of None \<Rightarrow> 0 | Some i \<Rightarrow> i)")
    (auto dest!: choose_support_usable dest: usable_position)

declare build_node.simps [simp del]

definition tree_root :: "reach_program \<Rightarrow> reach_result \<Rightarrow> string option \<Rightarrow> string" where
  "tree_root p result target =
     (case target of
        Some t \<Rightarrow> t
      | None \<Rightarrow>
          (case filter (\<lambda>g. g \<in> set (rr_order result)) (rp_goals p) of
             [] \<Rightarrow> rp_goal p
           | g # _ \<Rightarrow> g))"

definition witness_tree ::
    "reach_program \<Rightarrow> nat \<Rightarrow> reach_result \<Rightarrow> string option \<Rightarrow> witness_node outcome" where
  "witness_tree p cut_mask result target =
     (let goal = tree_root p result target in
      andThen (guard (goal \<in> set (rr_order result)) SchemaError) (\<lambda>_.
        build_node p cut_mask (rr_order result) goal))"

text \<open>\<open>{str(i.instance_id): i for i in program.instances}\<close>, where a later instance wins.\<close>

definition instance_by_id :: "reach_program \<Rightarrow> string \<Rightarrow> rule_instance outcome" where
  "instance_by_id p iid =
     (case map_of (rev (map (\<lambda>i. (ri_instance_id i, i)) (rp_instances p))) iid of
        None \<Rightarrow> raises KeyError
      | Some i \<Rightarrow> Inr i)"

definition witness_mask :: "reach_program \<Rightarrow> witness_node \<Rightarrow> nat outcome" where
  "witness_mask p tree =
     andThen (mapM (instance_by_id p) (tree_instances tree)) (\<lambda>insts.
       Inr (foldl (\<lambda>m inst. foldl (\<lambda>m t. m OR t) m (ri_blockers inst)) 0 insts))"

section \<open>The lattice of admissible cuts\<close>

fun running_options :: "nat \<Rightarrow> threshold_literal list \<Rightarrow> nat list" where
  "running_options running [] = []"
| "running_options running (l # ls) =
     (let running' = running OR push_bit (tl_bit l) 1 in running' # running_options running' ls)"

definition control_options :: "threshold_literal list \<Rightarrow> string \<Rightarrow> nat list" where
  "control_options literals control_id =
     0 # running_options 0
       (sort_key tl_level (filter (\<lambda>l. tl_control_id l = control_id) literals))"

definition admissible_cut_masks :: "threshold_literal list \<Rightarrow> nat list" where
  "admissible_cut_masks literals =
     sorted_dedup
       (foldl (\<lambda>ms c. concat (map (\<lambda>m. map (\<lambda>opt. m OR opt) (control_options literals c)) ms)) [0]
          (sorted_dedup (map tl_control_id literals)))"

section \<open>What the index tables hold\<close>

definition lookup_list :: "(string \<times> nat list) list \<Rightarrow> string \<Rightarrow> nat list" where
  "lookup_list d k = (case map_of d k of None \<Rightarrow> [] | Some is \<Rightarrow> is)"

lemma lookup_list_Nil [simp]: "lookup_list [] k = []"
  by (simp add: lookup_list_def)

lemma lookup_setdefault [simp]:
  "lookup_list (setdefault_append d k i) k' =
     (if k' = k then lookup_list d k @ [i] else lookup_list d k')"
  by (induction d k i rule: setdefault_append.induct) (auto simp: lookup_list_def)

lemma fst_setdefault: "fst ` set (setdefault_append d k i) = insert k (fst ` set d)"
  by (induction d k i rule: setdefault_append.induct) auto

lemma distinct_setdefault [simp]:
  "distinct (map fst (setdefault_append d k i)) \<longleftrightarrow> distinct (map fst d)"
proof (induction d k i rule: setdefault_append.induct)
  case (2 k' "is" d k i)
  then show ?case using fst_setdefault [of d k i] by auto
qed simp

lemma distinct_foldl_setdefault:
  "distinct (map fst (foldl (\<lambda>d k. setdefault_append d k i) d ks)) \<longleftrightarrow> distinct (map fst d)"
  by (induction ks arbitrary: d) simp_all

lemma lookup_foldl_setdefault:
  "distinct ks \<Longrightarrow> lookup_list (foldl (\<lambda>d k. setdefault_append d k i) d ks) k' =
     (if k' \<in> set ks then lookup_list d k' @ [i] else lookup_list d k')"
  by (induction ks arbitrary: d) auto

lemma lookup_sort_key:
  assumes "distinct (map fst d)"
  shows "lookup_list (sort_key fst d) k = lookup_list d k"
proof -
  have "map_of (sort_key fst d) = map_of d"
  proof (rule map_of_eqI)
    show "\<forall>k \<in> set (map fst (sort_key fst d)). map_of (sort_key fst d) k = map_of d k"
    proof
      fix k assume "k \<in> set (map fst (sort_key fst d))"
      then obtain v where v: "(k, v) \<in> set d" by auto
      have "distinct (map fst (sort_key fst d))"
        using assms by (simp add: distinct_map)
      with v assms show "map_of (sort_key fst d) k = map_of d k" by simp
    qed
  qed simp
  then show ?thesis by (simp add: lookup_list_def)
qed

text \<open>The indices of the instances with a property, ascending.\<close>

definition indices_where :: "nat \<Rightarrow> (rule_instance \<Rightarrow> bool) \<Rightarrow> rule_instance list \<Rightarrow> nat list" where
  "indices_where n P insts = map fst (filter (\<lambda>(j, i). P i) (enumerate n insts))"

lemma indices_where_simps [simp]:
  "indices_where n P [] = []"
  "indices_where n P (i # insts) =
     (if P i then n # indices_where (Suc n) P insts else indices_where (Suc n) P insts)"
  by (simp_all add: indices_where_def)

lemma set_indices_where [simp]:
  "set (indices_where 0 P insts) = {j. j < length insts \<and> P (insts ! j)}"
  by (force simp: indices_where_def in_set_enumerate_eq)

lemma distinct_indices_where [simp]: "distinct (indices_where n P insts)"
  unfolding indices_where_def
  by (rule distinct_map_filter) (simp add: map_fst_enumerate)

definition single_literals :: "rule_instance \<Rightarrow> bool" where
  "single_literals inst \<longleftrightarrow> (\<forall>m \<in> set (ri_blockers inst). bit_count m = 1)"

lemma index_instances_tables:
  "index_instances n insts (bb, bs, bh) = Inr (bb', bs', bh') \<Longrightarrow>
     (\<forall>k. lookup_list bb' k = lookup_list bb k @ indices_where n (\<lambda>i. k \<in> set (ri_body i)) insts) \<and>
     bs' = bs @ map (\<lambda>i. card (set (ri_body i))) insts \<and>
     (\<forall>k. lookup_list bh' k = lookup_list bh k @ indices_where n (\<lambda>i. ri_head i = k) insts) \<and>
     (\<forall>i \<in> set insts. single_literals i) \<and>
     (distinct (map fst bb) \<longrightarrow> distinct (map fst bb')) \<and>
     (distinct (map fst bh) \<longrightarrow> distinct (map fst bh'))"
proof (induction insts arbitrary: n bb bs bh)
  case Nil
  then show ?case by simp
next
  case (Cons i insts)
  let ?bb = "foldl (\<lambda>d k. setdefault_append d k n) bb (sorted_dedup (ri_body i))"
  let ?bs = "bs @ [length (sorted_dedup (ri_body i))]"
  let ?bh = "setdefault_append bh (ri_head i) n"
  from Cons.prems have lits: "single_literals i"
    and rest: "index_instances (Suc n) insts (?bb, ?bs, ?bh) = Inr (bb', bs', bh')"
    by (auto simp: Let_def andThen_eq_Inr check_all_eq_Inr single_literals_def)
  from Cons.IH [OF rest] lits show ?case
    by (simp add: lookup_foldl_setdefault distinct_foldl_setdefault length_sorted_dedup)
qed

text \<open>A program as \<open>build\<close> makes it.\<close>

definition indexed :: "reach_program \<Rightarrow> bool" where
  "indexed p \<longleftrightarrow>
     rp_body_size p = map (\<lambda>i. card (set (ri_body i))) (rp_instances p) \<and>
     (\<forall>k. dependents p k = indices_where 0 (\<lambda>i. k \<in> set (ri_body i)) (rp_instances p)) \<and>
     (\<forall>k. supports p k = indices_where 0 (\<lambda>i. ri_head i = k) (rp_instances p)) \<and>
     (\<forall>i \<in> set (rp_instances p). single_literals i) \<and>
     distinct (map ri_instance_id (rp_instances p)) \<and>
     strictly_ascending (map ri_instance_id (rp_instances p)) \<and>
     rp_goal p \<in> set (rp_goals p)"

lemma build_indexed:
  assumes "build kind insts axs goal evid goals = Inr p"
  shows "indexed p" and "rp_instances p = insts" and "rp_axioms p = axs"
proof -
  obtain bb bs bh where tables: "index_instances 0 insts ([], [], []) = Inr (bb, bs, bh)"
    and p: "rp_by_body p = sort_key fst bb" "rp_body_size p = bs" "rp_by_head p = sort_key fst bh"
      "rp_instances p = insts" "rp_axioms p = axs" "rp_goal p = goal"
      "rp_goals p = (case goals of None \<Rightarrow> [goal] | Some gs \<Rightarrow> gs)"
    and asc: "strictly_ascending (map ri_instance_id insts)"
    and mem: "goal \<in> set (case goals of None \<Rightarrow> [goal] | Some gs \<Rightarrow> gs)"
    using assms
    by (auto simp: build_def Let_def andThen_eq_Inr check_strictly_ascending_eq_Inr)
  show "rp_instances p = insts" "rp_axioms p = axs" by (simp_all add: p)
  have dep: "dependents p k = lookup_list (sort_key fst bb) k"
    and sup: "supports p k = lookup_list (sort_key fst bh) k" for k
    by (simp_all add: dependents_def supports_def lookup_list_def p)
  from index_instances_tables [OF tables] show "indexed p"
    using asc mem
    by (simp add: indexed_def dep sup lookup_sort_key p strictly_ascending_distinct)
qed

section \<open>The least fixpoint\<close>

text \<open>The specification: a fact is derivable under a cut from the axioms and the instances
  that the cut does not block.\<close>

inductive derives :: "rule_instance list \<Rightarrow> string list \<Rightarrow> nat \<Rightarrow> string \<Rightarrow> bool"
  for insts :: "rule_instance list" and axs :: "string list" and S :: nat
where
  seed: "f \<in> set axs \<Longrightarrow> derives insts axs S f"
| fire: "i \<in> set insts \<Longrightarrow> \<not> instance_blocked i S \<Longrightarrow>
    (\<And>b. b \<in> set (ri_body i) \<Longrightarrow> derives insts axs S b) \<Longrightarrow> derives insts axs S (ri_head i)"

lemma some_term_raised_iff: "some_term_raised ts S \<longleftrightarrow> (\<exists>t \<in> set ts. submask t S)"
  by (induction ts) (auto simp: submask_def)

lemma instance_blocked_iff: "instance_blocked i S \<longleftrightarrow> (\<exists>t \<in> set (ri_blockers i). submask t S)"
  by (simp add: instance_blocked_def some_term_raised_iff)

lemma instance_blocked_mono: "instance_blocked i S \<Longrightarrow> submask S S' \<Longrightarrow> instance_blocked i S'"
  by (auto simp: instance_blocked_iff intro: submask_trans)

lemma instance_blocked_single:
  assumes "single_literals i"
  shows "instance_blocked i S \<longleftrightarrow> hits (instance_mask i) S"
proof -
  have "submask t S \<longleftrightarrow> hits t S" if "t \<in> set (ri_blockers i)" for t
    using assms that bit_count_eq_1 [of t] by (auto simp: single_literals_def mask_simps)
  then show ?thesis by (auto simp: instance_blocked_iff mask_simps)
qed

lemma derives_antitone: "derives insts axs S' f \<Longrightarrow> submask S S' \<Longrightarrow> derives insts axs S f"
proof (induction rule: derives.induct)
  case (seed f)
  then show ?case by (simp add: derives.seed)
next
  case (fire i)
  then show ?case by (blast intro: derives.fire dest: instance_blocked_mono)
qed

section \<open>The propagation loop computes it\<close>

definition open_at :: "reach_program \<Rightarrow> nat \<Rightarrow> nat \<Rightarrow> bool" where
  "open_at p S i \<longleftrightarrow> \<not> instance_blocked (rp_instances p ! i) S"

abbreviation body_at :: "reach_program \<Rightarrow> nat \<Rightarrow> string set" where
  "body_at p i \<equiv> set (ri_body (rp_instances p ! i))"

abbreviation head_at :: "reach_program \<Rightarrow> nat \<Rightarrow> string" where
  "head_at p i \<equiv> ri_head (rp_instances p ! i)"

lemma touch_closed_form:
  assumes "distinct is" and "\<forall>i \<in> set is. i < length r"
  shows "\<exists>r'. touch p S is (r, q, n) =
      (r', q @ map (head_at p) (filter (\<lambda>i. open_at p S i \<and> r ! i = 1) is),
       n + length (filter (open_at p S) is)) \<and>
     length r' = length r \<and>
     (\<forall>i < length r. r' ! i = (if i \<in> set is \<and> open_at p S i then r ! i - 1 else r ! i))"
  using assms
proof (induction "is" arbitrary: r q n)
  case Nil
  then show ?case by simp
next
  case (Cons j "is")
  show ?case
  proof (cases "open_at p S j")
    case False
    with Cons.prems Cons.IH [of r q n] show ?thesis
      by (auto simp: open_at_def Let_def)
  next
    case True
    let ?r = "r[j := r ! j - 1]"
    let ?q = "if r ! j = 1 then q @ [head_at p j] else q"
    have len: "\<forall>i \<in> set is. i < length ?r" using Cons.prems by simp
    have dist: "distinct is" using Cons.prems by simp
    have other: "i \<in> set is \<Longrightarrow> ?r ! i = r ! i" for i using Cons.prems by (cases "i = j") auto
    then have filt: "filter (\<lambda>i. open_at p S i \<and> ?r ! i = 1) is =
        filter (\<lambda>i. open_at p S i \<and> r ! i = 1) is"
      by (intro filter_cong) auto
    from Cons.IH [OF dist len, of ?q "n + 1"] obtain r' where
      r': "touch p S is (?r, ?q, n + 1) =
        (r', ?q @ map (head_at p) (filter (\<lambda>i. open_at p S i \<and> r ! i = 1) is),
         n + 1 + length (filter (open_at p S) is))"
        "length r' = length r"
        "\<forall>i < length r. r' ! i = (if i \<in> set is \<and> open_at p S i then ?r ! i - 1 else ?r ! i)"
      unfolding filt by auto
    have "touch p S (j # is) (r, q, n) = touch p S is (?r, ?q, n + 1)"
      using True Cons.prems by (simp add: open_at_def Let_def)
    with r' True Cons.prems show ?thesis
      by (intro exI [of _ r']) (auto simp: nth_list_update)
  qed
qed

text \<open>A fact is supported by a set when it is an axiom or an unblocked instance fires on it.\<close>

definition supported :: "reach_program \<Rightarrow> nat \<Rightarrow> string set \<Rightarrow> string \<Rightarrow> bool" where
  "supported p S X f \<longleftrightarrow>
     f \<in> set (rp_axioms p) \<or>
     (\<exists>i < length (rp_instances p). open_at p S i \<and> head_at p i = f \<and> body_at p i \<subseteq> X)"

lemma supported_mono: "supported p S X f \<Longrightarrow> X \<subseteq> Y \<Longrightarrow> supported p S Y f"
  by (auto simp: supported_def)

definition edges_seen :: "reach_program \<Rightarrow> nat \<Rightarrow> string set \<Rightarrow> nat" where
  "edges_seen p S X = (\<Sum>i \<in> {i. i < length (rp_instances p) \<and> open_at p S i}. card (body_at p i \<inter> X))"

text \<open>The invariant of the outer loop.\<close>

definition prop_inv ::
    "reach_program \<Rightarrow> nat \<Rightarrow> int list \<Rightarrow> string set \<Rightarrow> string list \<Rightarrow> string list \<Rightarrow> nat \<Rightarrow> bool" where
  "prop_inv p S r seen order q n \<longleftrightarrow>
     set order = seen \<and> distinct order \<and> length r = length (rp_instances p) \<and>
     (\<forall>i < length r. open_at p S i \<longrightarrow> r ! i = int (card (body_at p i - seen))) \<and>
     set (rp_axioms p) \<subseteq> seen \<union> set q \<and>
     (\<forall>i < length r. open_at p S i \<longrightarrow> body_at p i \<subseteq> seen \<longrightarrow> head_at p i \<in> seen \<union> set q) \<and>
     (\<forall>f \<in> set q. supported p S seen f) \<and>
     (\<forall>j < length order. supported p S (set (take j order)) (order ! j)) \<and>
     n = length order + edges_seen p S seen"

lemma prop_inv_skip:
  "prop_inv p S r seen order (k # q) n \<Longrightarrow> k \<in> seen \<Longrightarrow> prop_inv p S r seen order q n"
  by (auto simp: prop_inv_def)

lemma edges_seen_insert:
  assumes "indexed p" and "k \<notin> X" and "finite X"
  shows "edges_seen p S (insert k X) =
     edges_seen p S X + length (filter (open_at p S) (dependents p k))"
proof -
  let ?I = "{i. i < length (rp_instances p) \<and> open_at p S i}"
  have "card (body_at p i \<inter> insert k X) = card (body_at p i \<inter> X) + (if k \<in> body_at p i then 1 else 0)" for i
    using assms(2) by (simp add: Int_insert_right)
  then have "edges_seen p S (insert k X) =
      edges_seen p S X + (\<Sum>i \<in> ?I. if k \<in> body_at p i then 1 else 0)"
    by (simp add: edges_seen_def sum.distrib)
  also have "(\<Sum>i \<in> ?I. if k \<in> body_at p i then 1 else 0) = card {i \<in> ?I. k \<in> body_at p i}"
    by (simp add: sum.If_cases Int_def)
  also have "{i \<in> ?I. k \<in> body_at p i} = set (filter (open_at p S) (dependents p k))"
    using assms(1) by (auto simp: indexed_def)
  also have "card \<dots> = length (filter (open_at p S) (dependents p k))"
    using assms(1) by (intro distinct_card distinct_filter) (simp add: indexed_def)
  finally show ?thesis .
qed

lemma body_counter:
  assumes "finite B" and "k \<notin> X"
  shows "int (card (B - insert k X)) = (if k \<in> B then int (card (B - X)) - 1 else int (card (B - X)))"
proof (cases "k \<in> B")
  case True
  then have "B - X = insert k (B - insert k X)" using assms(2) by auto
  then have "card (B - X) = Suc (card (B - insert k X))"
    using assms(1) by (metis Diff_iff card_insert_disjoint finite_Diff insertI1)
  with True show ?thesis by simp
next
  case False
  then have "B - insert k X = B - X" by auto
  with False show ?thesis by simp
qed

lemma prop_inv_expand:
  assumes ind: "indexed p" and inv: "prop_inv p S r seen order (k # q) n" and new: "k \<notin> seen"
    and t: "touch p S (dependents p k) (r, q, n) = (r', q', n')"
  shows "prop_inv p S r' (insert k seen) (order @ [k]) q' (n' + 1)"
proof -
  let ?n = "length (rp_instances p)"
  have len: "length r = ?n" and fin: "finite seen"
    using inv by (auto simp: prop_inv_def)
  have dep: "set (dependents p k) = {i. i < ?n \<and> k \<in> body_at p i}" "distinct (dependents p k)"
    using ind by (auto simp: indexed_def)
  have cnt: "\<forall>i < ?n. open_at p S i \<longrightarrow> r ! i = int (card (body_at p i - seen))"
    using inv len by (simp add: prop_inv_def)
  obtain q'': "q' = q @ map (head_at p) (filter (\<lambda>i. open_at p S i \<and> r ! i = 1) (dependents p k))"
    and n': "n' = n + length (filter (open_at p S) (dependents p k))"
    and len': "length r' = ?n"
    and r': "\<forall>i < ?n. r' ! i = (if i \<in> set (dependents p k) \<and> open_at p S i then r ! i - 1 else r ! i)"
    using touch_closed_form [of "dependents p k" r p S q n] dep len t by auto
  have counters: "r' ! i = int (card (body_at p i - insert k seen))" if "i < ?n" "open_at p S i" for i
    using that r' cnt dep body_counter [of "body_at p i" k seen] new by auto
  have heads: "head_at p i \<in> insert k seen \<union> set q'"
    if i: "i < ?n" "open_at p S i" "body_at p i \<subseteq> insert k seen" for i
  proof (cases "body_at p i \<subseteq> seen")
    case True
    with i inv len have "head_at p i \<in> seen \<union> set (k # q)" by (simp add: prop_inv_def)
    then show ?thesis by (auto simp: q'')
  next
    case False
    with i have "k \<in> body_at p i" and one: "body_at p i - seen = {k}" using new by auto
    with i dep cnt have "i \<in> set (filter (\<lambda>i. open_at p S i \<and> r ! i = 1) (dependents p k))"
      by auto
    then show ?thesis by (auto simp: q'')
  qed
  have sup: "supported p S (insert k seen) f" if "f \<in> set q'" for f
  proof (cases "f \<in> set q")
    case True
    with inv show ?thesis by (auto simp: prop_inv_def intro: supported_mono)
  next
    case False
    with that obtain i where i: "i \<in> set (dependents p k)" "open_at p S i" "r ! i = 1" "f = head_at p i"
      by (auto simp: q'')
    with cnt dep have "card (body_at p i - seen) = 1" and "k \<in> body_at p i - seen" using new by auto
    then have "body_at p i - seen = {k}"
      by (metis card_1_singletonE singletonD)
    then have "body_at p i \<subseteq> insert k seen" by auto
    with i dep show ?thesis by (auto simp: supported_def)
  qed
  have founded: "supported p S (set (take j (order @ [k]))) ((order @ [k]) ! j)"
    if "j < length (order @ [k])" for j
    using that inv by (cases "j < length order") (auto simp: prop_inv_def nth_append less_Suc_eq)
  have count: "n' + 1 = length (order @ [k]) + edges_seen p S (insert k seen)"
    using inv edges_seen_insert [OF ind new fin] n' by (simp add: prop_inv_def)
  have axs: "set (rp_axioms p) \<subseteq> insert k seen \<union> set q'"
    using inv by (auto simp: prop_inv_def q'')
  have ord: "set (order @ [k]) = insert k seen" "distinct (order @ [k])"
    using inv new by (auto simp: prop_inv_def)
  show ?thesis
    unfolding prop_inv_def len'
    using counters heads sup founded count axs ord by (intro conjI) simp_all
qed

lemma propagate_prop_inv:
  "propagate p S r seen order q n = (seen', order', n') \<Longrightarrow> indexed p \<Longrightarrow>
     prop_inv p S r seen order q n \<Longrightarrow> \<exists>r'. prop_inv p S r' seen' order' [] n'"
proof (induction p S r seen order q n rule: propagate.induct)
  case (1 p S r seen order n)
  then show ?case by auto
next
  case (2 p S r seen order k q n)
  show ?case
  proof (cases "k \<in> seen")
    case True
    with "2.prems" prop_inv_skip [OF "2.prems"(3)] "2.IH"(1) show ?thesis by simp
  next
    case False
    obtain r1 q1 n1 where t: "touch p S (dependents p k) (r, q, n) = (r1, q1, n1)"
      by (cases "touch p S (dependents p k) (r, q, n)") auto
    from "2.prems"(1) False t
    have "propagate p S r1 (insert k seen) (order @ [k]) q1 (n1 + 1) = (seen', order', n')" by simp
    with "2.IH"(2) [OF False t [symmetric] refl] "2.prems"(2)
      prop_inv_expand [OF "2.prems"(2,3) False t]
    show ?thesis by simp
  qed
qed

lemma initial_prop_inv:
  assumes "indexed p"
  shows "prop_inv p S (map int (rp_body_size p)) {} [] (rp_axioms p @ bodyless_heads p S) 0"
proof -
  let ?n = "length (rp_instances p)"
  have size: "rp_body_size p ! i = card (body_at p i)" if "i < ?n" for i
    using assms that by (simp add: indexed_def)
  have heads: "f \<in> set (bodyless_heads p S) \<longleftrightarrow>
      (\<exists>i < ?n. open_at p S i \<and> head_at p i = f \<and> body_at p i \<subseteq> {})" for f
    using size by (force simp: bodyless_heads_def open_at_def in_set_enumerate_eq image_iff)
  have "length (rp_body_size p) = ?n" using assms by (simp add: indexed_def)
  then show ?thesis
    using size heads unfolding prop_inv_def by (auto simp: supported_def edges_seen_def)
qed

lemma reach_prop_inv:
  assumes "indexed p" and "reach p S = Inr r"
  shows "\<exists>rm. prop_inv p S rm (set (rr_order r)) (rr_order r) [] (rr_steps r)"
    and "rr_closure r = sort (rr_order r)"
    and "rr_derivable r \<longleftrightarrow> (\<exists>g \<in> set (rp_goals p). g \<in> set (rr_order r))"
    and "S < 2 ^ 64"
proof -
  obtain seen order n where loop: "propagate p S (map int (rp_body_size p)) {} []
      (rp_axioms p @ bodyless_heads p S) 0 = (seen, order, n)"
    by (cases "propagate p S (map int (rp_body_size p)) {} [] (rp_axioms p @ bodyless_heads p S) 0")
  obtain rm where inv: "prop_inv p S rm seen order [] n"
    using propagate_prop_inv [OF loop assms(1) initial_prop_inv [OF assms(1)]] by blast
  then have "set order = seen" by (simp add: prop_inv_def)
  moreover have "S < 2 ^ 64" and "r = \<lparr>rr_derivable = list_ex (\<lambda>g. g \<in> seen) (rp_goals p), rr_closure = sort order,
          rr_order = order, rr_steps = n\<rparr>"
    using assms(2) loop mask_hex_eq_Inr [of S] by (auto simp: reach_def andThen_eq_Inr)
  ultimately show "\<exists>rm. prop_inv p S rm (set (rr_order r)) (rr_order r) [] (rr_steps r)"
    "rr_closure r = sort (rr_order r)"
    "rr_derivable r \<longleftrightarrow> (\<exists>g \<in> set (rp_goals p). g \<in> set (rr_order r))" "S < 2 ^ 64"
    using inv by (auto simp: list_ex_iff)
qed

lemma reach_total: "(\<exists>r. reach p S = Inr r) \<longleftrightarrow> S < 2 ^ 64"
  using mask_hex_eq_Inr [of S] by (auto simp: reach_def andThen_eq_Inr split: prod.splits)

text \<open>The clauses of a program that a cut leaves open.\<close>

definition open_clauses :: "rule_instance list \<Rightarrow> nat \<Rightarrow> (string set \<times> string) set" where
  "open_clauses insts S =
     (\<lambda>i. (set (ri_body i), ri_head i)) ` {i \<in> set insts. \<not> instance_blocked i S}"

lemma derives_closure: "derives insts axs S f \<longleftrightarrow> f \<in> closure (set axs) (open_clauses insts S)"
proof
  assume "derives insts axs S f"
  then show "f \<in> closure (set axs) (open_clauses insts S)"
  proof induction
    case (seed f)
    then show ?case by (rule closure.seed)
  next
    case (fire i)
    then have "(set (ri_body i), ri_head i) \<in> open_clauses insts S" by (auto simp: open_clauses_def)
    then show ?case by (rule closure.step) (rule fire.IH)
  qed
next
  assume "f \<in> closure (set axs) (open_clauses insts S)"
  then show "derives insts axs S f"
  proof induction
    case (seed f)
    then show ?case by (rule derives.seed)
  next
    case (step B h)
    then show ?case by (auto simp: open_clauses_def intro: derives.fire)
  qed
qed

definition run_order :: "reach_program \<Rightarrow> nat \<Rightarrow> string list" where
  "run_order p S = (case reach p S of Inl e \<Rightarrow> [] | Inr r \<Rightarrow> rr_order r)"

definition runs :: "reach_program \<Rightarrow> nat \<Rightarrow> bool" where
  "runs p S \<longleftrightarrow> indexed p \<and> S < 2 ^ 64"

lemma runs_reach: "runs p S \<Longrightarrow> \<exists>r. reach p S = Inr r \<and> run_order p S = rr_order r"
  using reach_total [of p S] by (auto simp: runs_def run_order_def)

lemma supported_open_clauses:
  "supported p S X f \<longleftrightarrow>
     f \<in> set (rp_axioms p) \<or> (\<exists>B. (B, f) \<in> open_clauses (rp_instances p) S \<and> B \<subseteq> X)"
  unfolding supported_def open_clauses_def open_at_def
  by (auto simp: in_set_conv_nth image_iff Bex_def)

lemma runs_prop_inv:
  assumes "runs p S"
  shows "\<exists>rm n. prop_inv p S rm (set (run_order p S)) (run_order p S) [] n"
proof -
  obtain r where "reach p S = Inr r" "run_order p S = rr_order r"
    using runs_reach [OF assms] by blast
  with reach_prop_inv(1) [of p S r] assms show ?thesis by (auto simp: runs_def)
qed

interpretation emitter: closure_engine
  runs "\<lambda>p. set (rp_axioms p)" "\<lambda>p. open_clauses (rp_instances p)" run_order
proof
  fix p S k
  assume "runs p S" and k: "k < length (run_order p S)"
  then obtain rm n where "prop_inv p S rm (set (run_order p S)) (run_order p S) [] n"
    using runs_prop_inv by blast
  then have "supported p S (set (take k (run_order p S))) (run_order p S ! k)"
    using k by (simp add: prop_inv_def)
  then show "run_order p S ! k \<in> set (rp_axioms p) \<or>
      (\<exists>B. (B, run_order p S ! k) \<in> open_clauses (rp_instances p) S \<and>
           B \<subseteq> set (take k (run_order p S)))"
    by (simp add: supported_open_clauses)
next
  fix p S
  assume "runs p S"
  then obtain rm n where "prop_inv p S rm (set (run_order p S)) (run_order p S) [] n"
    using runs_prop_inv by blast
  then show "set (rp_axioms p) \<subseteq> set (run_order p S)" by (simp add: prop_inv_def)
next
  fix p S B h
  assume "runs p S" and B: "(B, h) \<in> open_clauses (rp_instances p) S" "B \<subseteq> set (run_order p S)"
  then obtain rm n where "prop_inv p S rm (set (run_order p S)) (run_order p S) [] n"
    using runs_prop_inv by blast
  with B show "h \<in> set (run_order p S)"
    by (fastforce simp: prop_inv_def open_clauses_def open_at_def in_set_conv_nth)
next
  fix p S S'
  assume "submask S S'"
  then show "open_clauses (rp_instances p) S' \<subseteq> open_clauses (rp_instances p) S"
    by (auto simp: open_clauses_def dest: instance_blocked_mono)
qed

section \<open>Witness trees are derivations\<close>

fun valid_tree :: "rule_instance list \<Rightarrow> string list \<Rightarrow> nat \<Rightarrow> witness_node \<Rightarrow> bool" where
  "valid_tree insts axs S (WitnessNode h kind iid ev cs) \<longleftrightarrow>
     (case iid of
        None \<Rightarrow> kind = AXIOM_KIND \<and> cs = [] \<and> h \<in> set axs
      | Some x \<Rightarrow> \<exists>i \<in> set insts. ri_instance_id i = x \<and> ri_head i = h \<and>
          \<not> instance_blocked i S \<and> kind = node_kind i \<and>
          ev = map er_event_id (ri_evidence i) \<and> map wn_head cs = ri_body i) \<and>
     (\<forall>c \<in> set cs. valid_tree insts axs S c)"

fun tree_ids :: "witness_node \<Rightarrow> string set" where
  "tree_ids (WitnessNode h kind iid ev cs) = set_option iid \<union> (\<Union>c \<in> set cs. tree_ids c)"

text \<open>No fact is used below itself.\<close>

fun below :: "witness_node \<Rightarrow> string set" where
  "below (WitnessNode h kind iid ev cs) = (\<Union>c \<in> set cs. insert (wn_head c) (below c))"

fun acyclic_tree :: "witness_node \<Rightarrow> bool" where
  "acyclic_tree (WitnessNode h kind iid ev cs) \<longleftrightarrow>
     h \<notin> below (WitnessNode h kind iid ev cs) \<and> (\<forall>c \<in> set cs. acyclic_tree c)"

lemma valid_tree_derives: "valid_tree insts axs S t \<Longrightarrow> derives insts axs S (wn_head t)"
proof (induction insts axs S t rule: valid_tree.induct)
  case (1 insts axs S h kind iid ev cs)
  show ?case
  proof (cases iid)
    case None
    with 1 show ?thesis by (simp add: derives.seed)
  next
    case (Some x)
    with 1 obtain i where i: "i \<in> set insts" "ri_head i = h" "\<not> instance_blocked i S"
      "map wn_head cs = ri_body i" by auto
    have "derives insts axs S b" if "b \<in> set (ri_body i)" for b
    proof -
      from that have "b \<in> wn_head ` set cs" by (metis i(4) set_map)
      with 1 show ?thesis by auto
    qed
    with i derives.fire show ?thesis by fastforce
  qed
qed

lemma choose_support_None:
  "choose_support p S order here is chosen = None \<longleftrightarrow>
     chosen = None \<and> (\<forall>i \<in> set is. \<not> usable S order here (rp_instances p ! i))"
  by (induction "is" arbitrary: chosen) (auto simp: Let_def split: if_splits option.splits)

lemma choose_support_least:
  "choose_support p S order here is chosen = Some inst \<Longrightarrow>
     (\<forall>c. chosen = Some c \<longrightarrow> ri_instance_id inst \<le> ri_instance_id c) \<and>
     (\<forall>i \<in> set is. usable S order here (rp_instances p ! i) \<longrightarrow>
        ri_instance_id inst \<le> ri_instance_id (rp_instances p ! i))"
proof (induction "is" arbitrary: chosen)
  case Nil
  then show ?case by simp
next
  case (Cons i "is")
  let ?inst = "rp_instances p ! i"
  show ?case
  proof (cases "usable S order here ?inst")
    case False
    with Cons.prems Cons.IH [of chosen] show ?thesis by (auto simp: Let_def)
  next
    case True
    show ?thesis
    proof (cases chosen)
      case None
      with True Cons.prems Cons.IH [of "Some ?inst"] show ?thesis by (auto simp: Let_def)
    next
      case (Some c)
      with True Cons.prems Cons.IH [of "Some ?inst"] Cons.IH [of "Some c"] show ?thesis
        by (force simp: Let_def split: if_splits)
    qed
  qed
qed

lemma usable_iff:
  assumes "distinct order" and "here < length order"
  shows "usable S order here i \<longleftrightarrow>
    \<not> instance_blocked i S \<and> set (ri_body i) \<subseteq> set (take here order)"
proof -
  have "(case position_of order b of None \<Rightarrow> True | Some j \<Rightarrow> here \<le> j) \<longleftrightarrow>
      b \<notin> set (take here order)" for b
    using position_of_less_take [OF assms, of b]
    by (cases "position_of order b") (auto simp: not_le simp del: position_of_None)
  then show ?thesis by (auto simp: usable_def list_ex_iff)
qed

lemma build_node_valid:
  assumes ind: "indexed p"
    and order: "distinct order"
      "\<forall>j < length order. supported p S (set (take j order)) (order ! j)"
  shows "here < length order \<Longrightarrow>
    \<exists>t. build_node p S order (order ! here) = Inr t \<and> wn_head t = order ! here \<and>
        valid_tree (rp_instances p) (rp_axioms p) S t \<and> acyclic_tree t \<and>
        below t \<subseteq> set (take here order)"
proof (induction here rule: less_induct)
  case (less here)
  let ?f = "order ! here"
  let ?choice = "choose_support p S order here (supports p ?f) None"
  have pos: "position_of order ?f = Some here"
    using order(1) less.prems by (rule position_of_nth)
  have sup: "set (supports p ?f) = {i. i < length (rp_instances p) \<and> head_at p i = ?f}"
    using ind by (simp add: indexed_def)
  note usable = usable_iff [OF order(1) less.prems]
  have fresh: "?f \<notin> set (take here order)"
    using order(1) less.prems by (metis distinct_take id_take_nth_drop not_distinct_conv_prefix)
  show ?case
  proof (cases ?choice)
    case None
    then have "\<not> (\<exists>i < length (rp_instances p). open_at p S i \<and> head_at p i = ?f \<and>
        body_at p i \<subseteq> set (take here order))"
      using sup usable by (auto simp: choose_support_None open_at_def)
    then have "?f \<in> set (rp_axioms p)"
      using order(2) less.prems by (auto simp: supported_def)
    with None pos show ?thesis by (simp add: build_node.simps [of p S order ?f])
  next
    case (Some inst)
    then obtain i where i: "i \<in> set (supports p ?f)" "inst = rp_instances p ! i"
      and use: "usable S order here inst"
      using choose_support_usable by blast
    then have inst: "inst \<in> set (rp_instances p)" "ri_head inst = ?f" by (simp_all add: sup)
    from use have body: "set (ri_body inst) \<subseteq> set (take here order)" "\<not> instance_blocked inst S"
      by (simp_all add: usable)
    let ?good = "\<lambda>b t. build_node p S order b = Inr t \<and> wn_head t = b \<and>
        valid_tree (rp_instances p) (rp_axioms p) S t \<and> acyclic_tree t \<and>
        insert (wn_head t) (below t) \<subseteq> set (take here order)"
    have child: "\<exists>t. ?good b t" if "b \<in> set (ri_body inst)" for b
    proof -
      from that body(1) have "b \<in> set (take here order)" by blast
      then obtain j where j: "j < here" "b = order ! j" by (auto simp: in_set_conv_nth)
      with less have "set (take j order) \<subseteq> set (take here order)"
        by (intro set_take_subset_set_take) simp
      with less.IH [OF j(1)] less.prems j that body(1) show ?thesis by (fastforce simp: subset_iff)
    qed
    then obtain tr where tr: "\<And>b. b \<in> set (ri_body inst) \<Longrightarrow> ?good b (tr b)" by metis
    then have "mapM (build_node p S order) (ri_body inst) = Inr (map tr (ri_body inst))"
      by (intro mapM_Inr) simp
    with Some pos have node: "build_node p S order ?f =
        Inr (WitnessNode ?f (node_kind inst) (Some (ri_instance_id inst))
          (map er_event_id (ri_evidence inst)) (map tr (ri_body inst)))" (is "_ = Inr ?t")
      by (simp add: build_node.simps [of p S order ?f])
    have "below ?t \<subseteq> set (take here order)" using tr body(1) by auto
    moreover have "map wn_head (map tr (ri_body inst)) = ri_body inst"
      using tr by (simp add: map_idI)
    ultimately show ?thesis
      using node inst(1,2) body(2) tr fresh by (intro exI [of _ ?t]) auto
  qed
qed

section \<open>Corridor masks\<close>

lemma tree_ids_unfold:
  "tree_ids node = set_option (wn_instance_id node) \<union> (\<Union>t \<in> set (wn_children node). tree_ids t)"
  by (cases node) simp

lemma set_collect_instances:
  "set (collect_instances stack found) = set found \<union> (\<Union>t \<in> set stack. tree_ids t)"
proof (induction stack found rule: collect_instances.induct)
  case (2 node stack found)
  then show ?case by (cases "wn_instance_id node") (auto simp: tree_ids_unfold [of node])
qed simp

lemma set_tree_instances [simp]: "set (tree_instances t) = tree_ids t"
  by (simp add: tree_instances_def set_collect_instances del: collect_instances.simps)

lemma instance_by_id_eq:
  assumes "distinct (map ri_instance_id (rp_instances p))"
  shows "instance_by_id p x = Inr i \<longleftrightarrow> i \<in> set (rp_instances p) \<and> ri_instance_id i = x"
proof -
  let ?ps = "map (\<lambda>i. (ri_instance_id i, i)) (rp_instances p)"
  have "distinct (map fst (rev ?ps))"
    using assms by (simp add: rev_map [symmetric] o_def)
  then have "map_of (rev ?ps) x = Some i \<longleftrightarrow> (x, i) \<in> set ?ps"
    by (simp add: map_of_eq_Some_iff)
  then show ?thesis by (auto simp: instance_by_id_def split: option.splits)
qed

lemma valid_tree_ids:
  "valid_tree insts axs S t \<Longrightarrow> x \<in> tree_ids t \<Longrightarrow>
     \<exists>i \<in> set insts. ri_instance_id i = x \<and> \<not> instance_blocked i S"
proof (induction insts axs S t rule: valid_tree.induct)
  case (1 insts axs S h kind iid ev cs)
  then show ?case by (cases iid) auto
qed

lemma valid_tree_transfer:
  assumes dist: "distinct (map ri_instance_id insts)"
  shows "valid_tree insts axs S t \<Longrightarrow>
    (\<And>i. i \<in> set insts \<Longrightarrow> ri_instance_id i \<in> tree_ids t \<Longrightarrow> \<not> instance_blocked i S') \<Longrightarrow>
    valid_tree insts axs S' t"
proof (induction t)
  case (WitnessNode h kind iid ev cs)
  then show ?case by (cases iid) auto
qed

lemma witness_mask_valid:
  assumes ind: "indexed p" and valid: "valid_tree (rp_instances p) (rp_axioms p) S t"
  shows "\<exists>m. witness_mask p t = Inr m \<and>
    (\<forall>S'. hits m S' \<longleftrightarrow>
      (\<exists>i \<in> set (rp_instances p). ri_instance_id i \<in> tree_ids t \<and> instance_blocked i S'))"
proof -
  let ?ids = "tree_instances t"
  have dist: "distinct (map ri_instance_id (rp_instances p))" using ind by (simp add: indexed_def)
  note by_id = instance_by_id_eq [OF dist]
  have "\<forall>x \<in> set ?ids. \<exists>i. instance_by_id p x = Inr i"
    using valid_tree_ids [OF valid] by_id by auto
  then obtain g where g: "\<And>x. x \<in> set ?ids \<Longrightarrow> instance_by_id p x = Inr (g x)" by metis
  then have lookups: "mapM (instance_by_id p) ?ids = Inr (map g ?ids)"
    by (rule mapM_Inr)
  define m where "m = foldl (\<lambda>m inst. foldl (\<lambda>m t. m OR t) m (ri_blockers inst)) 0 (map g ?ids)"
  have inner: "foldl (\<lambda>m t. m OR t) a ts = a OR union_of ts" for a ts
    by (rule bit_eqI) (use bit_foldl_or [of "\<lambda>t. t" a ts] in \<open>simp add: bit_or_iff bit_union_of\<close>)
  have bits: "bit m k \<longleftrightarrow> (\<exists>x \<in> tree_ids t. bit (instance_mask (g x)) k)" for k
    using bit_foldl_or [of "\<lambda>i. union_of (ri_blockers i)" 0 "map g ?ids" k]
    by (simp add: m_def inner bit_union_of bit_instance_mask)
  have "hits m S' \<longleftrightarrow> (\<exists>x \<in> tree_ids t. hits (instance_mask (g x)) S')" for S'
    by (auto simp: hits_iff bits)
  also have "(\<exists>x \<in> tree_ids t. hits (instance_mask (g x)) S') \<longleftrightarrow>
      (\<exists>i \<in> set (rp_instances p). ri_instance_id i \<in> tree_ids t \<and> instance_blocked i S')" for S'
  proof -
    have "hits (instance_mask i) S' \<longleftrightarrow> instance_blocked i S'" if "i \<in> set (rp_instances p)" for i
      using ind that instance_blocked_single by (simp add: indexed_def)
    moreover have "g x \<in> set (rp_instances p) \<and> ri_instance_id (g x) = x" if "x \<in> tree_ids t" for x
      using g [of x] that by_id by simp
    moreover have "g (ri_instance_id i) = i"
      if "i \<in> set (rp_instances p)" "ri_instance_id i \<in> tree_ids t" for i
      using g [of "ri_instance_id i"] that by_id [of "ri_instance_id i" i] by simp
    ultimately show ?thesis by (metis (no_types, lifting))
  qed
  finally have "\<forall>S'. hits m S' \<longleftrightarrow>
      (\<exists>i \<in> set (rp_instances p). ri_instance_id i \<in> tree_ids t \<and> instance_blocked i S')" by blast
  moreover have "witness_mask p t = Inr m" by (simp add: witness_mask_def lookups m_def)
  ultimately show ?thesis by blast
qed

text \<open>What the hitting-set loops rely on: the tree of a derivation yields a clause that the
  current cut misses and that every cut which underives the root hits.\<close>

lemma corridor_clause:
  assumes ind: "indexed p" and valid: "valid_tree (rp_instances p) (rp_axioms p) S t"
  shows "\<exists>m. witness_mask p t = Inr m \<and> \<not> hits m S \<and>
    (\<forall>S'. \<not> derives (rp_instances p) (rp_axioms p) S' (wn_head t) \<longrightarrow> hits m S')"
proof -
  have dist: "distinct (map ri_instance_id (rp_instances p))" using ind by (simp add: indexed_def)
  from witness_mask_valid [OF assms] obtain m where m: "witness_mask p t = Inr m"
    and hits: "\<And>S'. hits m S' \<longleftrightarrow>
      (\<exists>i \<in> set (rp_instances p). ri_instance_id i \<in> tree_ids t \<and> instance_blocked i S')"
    by blast
  have "\<not> hits m S"
    using hits valid_tree_ids [OF valid] dist
    by (metis (no_types, lifting) distinct_map inj_onD)
  moreover have "hits m S'" if "\<not> derives (rp_instances p) (rp_axioms p) S' (wn_head t)" for S'
    using that hits valid_tree_transfer [OF dist valid, of S'] valid_tree_derives by blast
  ultimately show ?thesis using m by blast
qed

lemma reach_derives:
  assumes "indexed p" and "reach p S = Inr r"
  shows "set (rr_order r) = {f. derives (rp_instances p) (rp_axioms p) S f}"
    and "rr_derivable r \<longleftrightarrow>
      (\<exists>g \<in> set (rp_goals p). derives (rp_instances p) (rp_axioms p) S g)"
proof -
  have "runs p S" using assms reach_prop_inv(4) by (simp add: runs_def)
  then have "set (rr_order r) = closure (set (rp_axioms p)) (open_clauses (rp_instances p) S)"
    using emitter.run_closure [of p S] assms(2) by (simp add: run_order_def)
  then show *: "set (rr_order r) = {f. derives (rp_instances p) (rp_axioms p) S f}"
    by (auto simp: derives_closure)
  show "rr_derivable r \<longleftrightarrow> (\<exists>g \<in> set (rp_goals p). derives (rp_instances p) (rp_axioms p) S g)"
    using reach_prop_inv(3) [OF assms] * by auto
qed

lemma witness_tree_valid:
  assumes ind: "indexed p" and r: "reach p S = Inr r"
    and root: "tree_root p r target \<in> set (rr_order r)"
  shows "\<exists>t. witness_tree p S r target = Inr t \<and> wn_head t = tree_root p r target \<and>
    valid_tree (rp_instances p) (rp_axioms p) S t \<and> acyclic_tree t"
proof -
  obtain rm where inv: "prop_inv p S rm (set (rr_order r)) (rr_order r) [] (rr_steps r)"
    using reach_prop_inv(1) [OF ind r] by blast
  then have order: "distinct (rr_order r)"
    "\<forall>j < length (rr_order r). supported p S (set (take j (rr_order r))) (rr_order r ! j)"
    by (simp_all add: prop_inv_def)
  from root obtain here where "here < length (rr_order r)" "rr_order r ! here = tree_root p r target"
    by (auto simp: in_set_conv_nth)
  with build_node_valid [OF ind order, of here] root show ?thesis
    by (simp add: witness_tree_def) auto
qed

lemma tree_root_derived:
  "rr_derivable r \<longleftrightarrow> (\<exists>g \<in> set (rp_goals p). g \<in> set (rr_order r)) \<Longrightarrow> rr_derivable r \<Longrightarrow>
     tree_root p r None \<in> set (rr_order r) \<and> tree_root p r None \<in> set (rp_goals p)"
proof -
  assume *: "rr_derivable r \<longleftrightarrow> (\<exists>g \<in> set (rp_goals p). g \<in> set (rr_order r))" "rr_derivable r"
  let ?gs = "filter (\<lambda>g. g \<in> set (rr_order r)) (rp_goals p)"
  from * obtain g gs where "?gs = g # gs" by (cases ?gs) (auto simp: filter_empty_conv)
  moreover from this have "g \<in> set ?gs" by simp
  then have "g \<in> set (rr_order r)" "g \<in> set (rp_goals p)" by simp_all
  ultimately show ?thesis by (simp add: tree_root_def)
qed

section \<open>A small program for the witnesses\<close>

definition sample_instance :: "string \<Rightarrow> string \<Rightarrow> string list \<Rightarrow> nat list \<Rightarrow> rule_instance" where
  "sample_instance iid head body blockers =
     \<lparr>ri_instance_id = iid, ri_rule_id = ''rule'', ri_rule_version = ''1'', ri_head = head,
      ri_body = body, ri_blockers = blockers, ri_observed = OBSERVED, ri_tick = 0,
      ri_evidence = [\<lparr>er_binding = ''b'', er_event_id = ''e'', er_source_id = ''s'', er_t_evt_ns = 0\<rparr>],
      ri_license_ids = [], ri_ghost = False\<rparr>"

text \<open>Two derivations of \<open>G\<close>: through \<open>F\<close> (bits 0 and 1), and directly (bit 2).\<close>

definition sample_instances :: "rule_instance list" where
  "sample_instances =
     [sample_instance ''i1'' ''F'' [''E''] [1], sample_instance ''i2'' ''G'' [''F''] [2],
      sample_instance ''i3'' ''G'' [''E''] [4]]"

definition sample_program :: reach_program where
  "sample_program =
     \<lparr>rp_kind = P_MIN, rp_instances = sample_instances, rp_axioms = [''E''], rp_goal = ''G'',
      rp_goals = [''G''], rp_axiom_evidence = [(''E'', [''e''])],
      rp_by_body = [(''E'', [0, 2]), (''F'', [1])], rp_body_size = [1, 1, 1],
      rp_by_head = [(''F'', [0]), (''G'', [1, 2])]\<rparr>"

lemma sample_build:
  "build P_MIN sample_instances [''E''] ''G'' [(''E'', [''e''])] None = Inr sample_program"
  by code_simp

lemma sample_reach_0:
  "reach sample_program 0 =
     Inr \<lparr>rr_derivable = True, rr_closure = [''E'', ''F'', ''G''], rr_order = [''E'', ''F'', ''G''],
          rr_steps = 6\<rparr>"
  by code_simp

lemma sample_reach_5:
  "reach sample_program 5 =
     Inr \<lparr>rr_derivable = False, rr_closure = [''E''], rr_order = [''E''], rr_steps = 1\<rparr>"
  by code_simp

section \<open>Properties\<close>

lemma reach_steps:
  assumes "indexed p" and "reach p S = Inr r"
  shows "rr_steps r = length (rr_order r) + edges_seen p S (set (rr_order r))"
  using reach_prop_inv(1) [OF assms] by (auto simp: prop_inv_def)

lemma length_order_bound:
  assumes ind: "indexed p" and r: "reach p S = Inr r"
  shows "length (rr_order r) \<le> length (rp_axioms p) + length (rp_instances p)"
proof -
  have "set (rr_order r) \<subseteq> set (rp_axioms p) \<union> ri_head ` set (rp_instances p)"
  proof
    fix f assume "f \<in> set (rr_order r)"
    then have "derives (rp_instances p) (rp_axioms p) S f" using reach_derives(1) [OF assms] by simp
    then show "f \<in> set (rp_axioms p) \<union> ri_head ` set (rp_instances p)" by cases auto
  qed
  then have "card (set (rr_order r)) \<le> card (set (rp_axioms p) \<union> ri_head ` set (rp_instances p))"
    by (rule card_mono [rotated]) simp
  also have "\<dots> \<le> card (set (rp_axioms p)) + card (ri_head ` set (rp_instances p))"
    by (rule card_Un_le)
  also have "\<dots> \<le> length (rp_axioms p) + length (rp_instances p)"
    by (meson add_mono card_image_le card_length finite_set le_trans)
  finally show ?thesis
    using reach_prop_inv(1) [OF assms] by (simp add: prop_inv_def distinct_card)
qed

lemma edges_seen_bound: "edges_seen p S X \<le> sum_list (map (\<lambda>i. length (ri_body i)) (rp_instances p))"
proof -
  let ?I = "{i. i < length (rp_instances p) \<and> open_at p S i}"
  have "edges_seen p S X \<le> (\<Sum>i \<in> ?I. length (ri_body (rp_instances p ! i)))"
    unfolding edges_seen_def
    by (rule sum_mono) (meson Int_lower1 card_length card_mono finite_set le_trans)
  also have "\<dots> \<le> (\<Sum>i \<in> {0..<length (rp_instances p)}. length (ri_body (rp_instances p ! i)))"
    by (rule sum_mono2) auto
  also have "\<dots> = sum_list (map (\<lambda>i. length (ri_body i)) (rp_instances p))"
    by (simp add: sum_list_sum_nth)
  finally show ?thesis .
qed

text \<open>C6. On every program that \<open>build\<close> accepts, one run of unit propagation under a cut
  computes the least fixpoint: the published closure is exactly the set of facts derivable
  from the axioms and the instances that the cut leaves open, sorted and without
  repetitions, and \<open>derivable\<close> holds exactly when some member of the goal set is derivable.\<close>

theorem reach_is_least_fixpoint:
  assumes "build kind insts axs goal evid goals = Inr p" and "reach p S = Inr r"
  shows "set (rr_closure r) = {f. derives insts axs S f} \<and> sorted (rr_closure r) \<and>
    distinct (rr_closure r) \<and>
    (rr_derivable r \<longleftrightarrow> (\<exists>g \<in> set (rp_goals p). derives insts axs S g))"
proof -
  note ind = build_indexed [OF assms(1)]
  show ?thesis
    using reach_derives [OF ind(1) assms(2)] reach_prop_inv(1,2) [OF ind(1) assms(2)]
    by (auto simp: ind(2,3) prop_inv_def)
qed

theorem reach_is_least_fixpoint_witness:
  "{f. derives sample_instances [''E''] 0 f} = {''E'', ''F'', ''G''} \<and>
   {f. derives sample_instances [''E''] 5 f} = {''E''}"
proof
  show "{f. derives sample_instances [''E''] 0 f} = {''E'', ''F'', ''G''}"
    using reach_is_least_fixpoint [OF sample_build sample_reach_0, THEN conjunct1] by simp
  show "{f. derives sample_instances [''E''] 5 f} = {''E''}"
    using reach_is_least_fixpoint [OF sample_build sample_reach_5, THEN conjunct1] by simp
qed



text \<open>The loop is total and linear: on every program that \<open>build\<close> accepts, \<open>reach\<close> raises
  exactly on a mask wider than 64 bits, and the step counter it reports, which the step
  budget is compared with, is the number of facts expanded plus the number of body edges
  of open instances that were touched. It is bounded by the axioms, the instances and the
  lengths of the bodies, whatever the cut.\<close>

theorem reach_total_and_linear:
  assumes "build kind insts axs goal evid goals = Inr p"
  shows "((\<exists>r. reach p S = Inr r) \<longleftrightarrow> S < 2 ^ 64) \<and>
    (\<forall>r. reach p S = Inr r \<longrightarrow>
       rr_steps r = length (rr_closure r) +
         (\<Sum>i \<in> {i. i < length insts \<and> \<not> instance_blocked (insts ! i) S}.
            card (set (ri_body (insts ! i)) \<inter> set (rr_closure r))) \<and>
       rr_steps r \<le> length axs + length insts + sum_list (map (\<lambda>i. length (ri_body i)) insts))"
proof (intro conjI allI impI)
  note ind = build_indexed [OF assms]
  show "(\<exists>r. reach p S = Inr r) \<longleftrightarrow> S < 2 ^ 64" by (rule reach_total)
  fix r assume r: "reach p S = Inr r"
  note * = reach_steps [OF ind(1) r] reach_prop_inv(2) [OF ind(1) r]
  show "rr_steps r = length (rr_closure r) +
      (\<Sum>i \<in> {i. i < length insts \<and> \<not> instance_blocked (insts ! i) S}.
         card (set (ri_body (insts ! i)) \<inter> set (rr_closure r)))"
    using * by (simp add: edges_seen_def open_at_def ind(2))
  show "rr_steps r \<le> length axs + length insts + sum_list (map (\<lambda>i. length (ri_body i)) insts)"
    using * length_order_bound [OF ind(1) r] edges_seen_bound [of p S "set (rr_order r)"]
    by (simp add: ind(2,3))
qed

theorem reach_total_and_linear_witness:
  "rr_steps (\<lparr>rr_derivable = True, rr_closure = [''E'', ''F'', ''G''],
     rr_order = [''E'', ''F'', ''G''], rr_steps = 6\<rparr>) \<le> 1 + 3 + 3"
  using reach_total_and_linear [OF sample_build, of 0] sample_reach_0
  by (auto simp: sample_instances_def sample_instance_def)

text \<open>C14. A witness tree exists for every fact of the closure, and it is a derivation: its
  root is the fact, its leaves are axioms of the program, every other node is the firing of
  an instance that the cut leaves open, with the children in body order and the evidence of
  the instance, and no fact is used below itself (the checker's \<open>E-WITNESS-CYCLE\<close> can never
  arise from it). With no target and a derivable result, the root is a member of the goal
  set.\<close>

theorem witness_tree_is_derivation:
  assumes "build kind insts axs goal evid goals = Inr p" and "reach p S = Inr r"
  shows "(\<forall>f \<in> set (rr_closure r). \<exists>t. witness_tree p S r (Some f) = Inr t \<and> wn_head t = f \<and>
           valid_tree insts axs S t \<and> acyclic_tree t) \<and>
    (rr_derivable r \<longrightarrow> (\<exists>t. witness_tree p S r None = Inr t \<and> wn_head t \<in> set (rp_goals p) \<and>
       valid_tree insts axs S t \<and> acyclic_tree t))"
proof (intro conjI ballI impI)
  note ind = build_indexed [OF assms(1)]
  note clo = reach_prop_inv(2,3) [OF ind(1) assms(2)]
  note tree = witness_tree_valid [OF ind(1) assms(2), unfolded ind(2,3)]
  { fix f assume "f \<in> set (rr_closure r)"
    then show "\<exists>t. witness_tree p S r (Some f) = Inr t \<and> wn_head t = f \<and>
        valid_tree insts axs S t \<and> acyclic_tree t"
      using tree [of "Some f"] clo(1) by (simp add: tree_root_def) }
  assume "rr_derivable r"
  from tree_root_derived [OF clo(2) this] tree [of None]
  show "\<exists>t. witness_tree p S r None = Inr t \<and> wn_head t \<in> set (rp_goals p) \<and>
      valid_tree insts axs S t \<and> acyclic_tree t" by auto
qed

theorem witness_tree_is_derivation_witness:
  "\<exists>t. witness_tree sample_program 0
      \<lparr>rr_derivable = True, rr_closure = [''E'', ''F'', ''G''], rr_order = [''E'', ''F'', ''G''],
       rr_steps = 6\<rparr> None = Inr t \<and> wn_head t = ''G'' \<and> valid_tree sample_instances [''E''] 0 t"
  using witness_tree_is_derivation [OF sample_build sample_reach_0]
  by (auto simp: sample_program_def)

text \<open>C9. The corridor mask of a witness tree separates: if the goal set is derivable under a
  cut, the mask of its tree shares no bit with that cut, while every cut under which the
  root of the tree is no longer derivable has a bit in common with it. This is the law that
  makes the learned clauses of the hitting-set search sound.\<close>

theorem corridor_separates:
  assumes "build kind insts axs goal evid goals = Inr p" and "reach p S = Inr r"
    and "rr_derivable r"
  shows "\<exists>t m. witness_tree p S r None = Inr t \<and> witness_mask p t = Inr m \<and> m AND S = 0 \<and>
    wn_head t \<in> set (rp_goals p) \<and>
    (\<forall>S'. \<not> derives insts axs S' (wn_head t) \<longrightarrow> m AND S' \<noteq> 0)"
proof -
  note ind = build_indexed [OF assms(1)]
  from tree_root_derived [OF reach_prop_inv(3) [OF ind(1) assms(2)] assms(3)]
    witness_tree_valid [OF ind(1) assms(2), of None]
  obtain t where t: "witness_tree p S r None = Inr t" "wn_head t \<in> set (rp_goals p)"
    "valid_tree (rp_instances p) (rp_axioms p) S t" by auto
  from corridor_clause [OF ind(1) t(3)] obtain m where "witness_mask p t = Inr m" "\<not> hits m S"
    "\<forall>S'. \<not> derives (rp_instances p) (rp_axioms p) S' (wn_head t) \<longrightarrow> hits m S'" by blast
  then show ?thesis using t by (auto simp: hits_def ind(2,3))
qed

theorem corridor_separates_witness:
  "\<exists>t m. witness_tree sample_program 0
      \<lparr>rr_derivable = True, rr_closure = [''E'', ''F'', ''G''], rr_order = [''E'', ''F'', ''G''],
       rr_steps = 6\<rparr> None = Inr t \<and> witness_mask sample_program t = Inr m \<and> m AND 0 = 0"
  using corridor_separates [OF sample_build sample_reach_0] by auto

end
