(* ===== verification/Oracle.thy ===== *)
theory Oracle
  imports Prelude
begin

text \<open>
  The contract between a search that hits learned clauses and the oracle that supplies them.
  A client proposes a candidate; the oracle says whether it severs, and if it does not, hands
  out a clause that the candidate misses and every severing candidate hits. What a
  hitting-set loop needs follows from these two laws alone: learned clauses are sound, every
  new clause is fresh, a cheapest hitting candidate that severs is cheapest among all that
  sever, and a clause nobody can hit means that nothing severs. \<open>Psi\<close> interprets the
  contract on the fixpoint of \<open>Reach\<close>.
\<close>

locale separation_oracle =
  fixes valid :: "'p \<Rightarrow> bool"
    and severs :: "'p \<Rightarrow> 'c \<Rightarrow> bool"
    and clause :: "'p \<Rightarrow> 'c \<Rightarrow> 'k"
    and hit :: "'p \<Rightarrow> 'c \<Rightarrow> 'k \<Rightarrow> bool"
  assumes misses: "valid p \<Longrightarrow> \<not> severs p c \<Longrightarrow> \<not> hit p c (clause p c)"
    and sound: "valid p \<Longrightarrow> \<not> severs p c \<Longrightarrow> severs p c' \<Longrightarrow> hit p c' (clause p c)"
begin

definition learned :: "'p \<Rightarrow> 'k set \<Rightarrow> bool" where
  "learned p K \<longleftrightarrow> (\<forall>k \<in> K. \<exists>c. \<not> severs p c \<and> k = clause p c)"

lemma learned_empty [simp]: "learned p {}"
  by (simp add: learned_def)

lemma learned_insert: "learned p K \<Longrightarrow> \<not> severs p c \<Longrightarrow> learned p (insert (clause p c) K)"
  by (auto simp: learned_def)

lemma learned_sound: "valid p \<Longrightarrow> learned p K \<Longrightarrow> severs p c \<Longrightarrow> k \<in> K \<Longrightarrow> hit p c k"
  using sound by (auto simp: learned_def)

lemma clause_fresh: "valid p \<Longrightarrow> \<not> severs p c \<Longrightarrow> (\<forall>k \<in> K. hit p c k) \<Longrightarrow> clause p c \<notin> K"
  using misses by blast

lemma hitting_optimal:
  fixes cost :: "'c \<Rightarrow> nat"
  assumes "valid p" and "learned p K"
    and "\<And>c'. (\<forall>k \<in> K. hit p c' k) \<Longrightarrow> n \<le> cost c'"
    and "severs p c'"
  shows "n \<le> cost c'"
  using assms learned_sound by blast

lemma unhittable: "valid p \<Longrightarrow> \<not> severs p c \<Longrightarrow> (\<And>c'. \<not> hit p c' (clause p c)) \<Longrightarrow> \<not> severs p c'"
  using sound by blast

end

end
