(* ===== verification/Psi.thy ===== *)
theory Psi
  imports Selection Reach Oracle
begin

text \<open>
  \<^verbatim>\<open>spectra_vs/cut.py\<close>, third part: the hitting-set loop \<open>enumerate_psi\<close> over one program, its
  exits, and the two brute-force routines. The fixpoint of \<open>Reach\<close> is shown to be a
  separation oracle, from which the correctness of the loop follows.
\<close>

section \<open>The hitting-set loop\<close>

record psi =
  psi_program :: program_kind
  psi_complete :: bool
  psi_corridors :: "corridor list"
  psi_corridor_cap :: nat
  psi_bb_nodes :: nat

record cut_search =
  cse_program :: program_kind
  cse_cut :: cut
  cse_psi :: psi
  cse_minimality :: minimality
  cse_severs :: bool
  cse_witness :: "witness_node option"
  cse_fixpoint_steps :: nat
  cse_bb_nodes :: nat
  cse_budget_exhausted :: bool
  cse_corridor_cap_hit :: bool

definition mint_corridors :: "(octets \<Rightarrow> octets) \<Rightarrow> atom_table \<Rightarrow> clause list \<Rightarrow> corridor list outcome" where
  "mint_corridors raw_digest atoms clauses =
     mapM (\<lambda>clause. let ranks = sorted_list_of_set clause in
       andThen (mask_of_ranks atoms ranks) (mint_corridor raw_digest ranks)) clauses"

definition finish ::
    "(octets \<Rightarrow> octets) \<Rightarrow> reach_program \<Rightarrow> atom_table \<Rightarrow> clause list \<Rightarrow> cut \<Rightarrow> minimality \<Rightarrow> bool
     \<Rightarrow> bool \<Rightarrow> witness_node option \<Rightarrow> nat \<Rightarrow> nat \<Rightarrow> nat \<Rightarrow> bool \<Rightarrow> bool \<Rightarrow> cut_search outcome" where
  "finish raw_digest p atoms clauses c minimality complete severs witness steps nodes corridor_cap
       budget_exhausted cap_hit =
     andThen (mint_corridors raw_digest atoms clauses) (\<lambda>minted.
     let corridors = sort_key cor_id minted in
     andThen (check_strictly_ascending corridors cor_id) (\<lambda>_.
       Inr \<lparr>cse_program = rp_kind p, cse_cut = c,
            cse_psi = \<lparr>psi_program = rp_kind p, psi_complete = complete, psi_corridors = corridors,
                       psi_corridor_cap = corridor_cap, psi_bb_nodes = nodes\<rparr>,
            cse_minimality = minimality, cse_severs = severs, cse_witness = witness,
            cse_fixpoint_steps = steps, cse_bb_nodes = nodes,
            cse_budget_exhausted = budget_exhausted, cse_corridor_cap_hit = cap_hit\<rparr>))"

text \<open>The code after the loop, reached when the budget or the corridor cap fired.\<close>

definition fall_back ::
    "(octets \<Rightarrow> octets) \<Rightarrow> reach_program \<Rightarrow> atom_table \<Rightarrow> nat \<Rightarrow> clause list \<Rightarrow> nat \<Rightarrow> nat \<Rightarrow> bool \<Rightarrow> bool
     \<Rightarrow> cut_search outcome" where
  "fall_back raw_digest p atoms corridor_cap clauses nodes steps budget_exhausted cap_hit =
     andThen (subset_minimal clauses atoms) (\<lambda>c.
     andThen (reach p (ct_mask c)) (\<lambda>result.
     andThen (if rr_derivable result
              then andThen (witness_tree p (ct_mask c) result None) (\<lambda>t. Inr (Some t))
              else Inr None) (\<lambda>tree.
       finish raw_digest p atoms clauses c SUBSET False (\<not> rr_derivable result) tree
         (steps + rr_steps result) nodes corridor_cap budget_exhausted cap_hit)))"

function psi_loop ::
    "(octets \<Rightarrow> octets) \<Rightarrow> reach_program \<Rightarrow> atom_table \<Rightarrow> int \<Rightarrow> nat \<Rightarrow> clause list \<Rightarrow> nat \<Rightarrow> nat
     \<Rightarrow> cut_search outcome" where
  "psi_loop raw_digest p atoms budget corridor_cap clauses nodes steps =
     (let solve = min_cardinality clauses atoms (budget - int nodes) [];
          nodes1 = nodes + mc_nodes solve in
      case mc_status solve of
        BUDGET_EXHAUSTED \<Rightarrow>
          fall_back raw_digest p atoms corridor_cap clauses nodes1 steps True False
      | INFEASIBLE \<Rightarrow> raises DeterminismError
      | EXACT \<Rightarrow>
          (case mc_value solve of
             None \<Rightarrow> raises AssertionError
           | Some cardinality \<Rightarrow>
          (case canonical_select clauses atoms cardinality EXACT_PSI_RELATIVE
                  (budget - int nodes1) of
             Inl e \<Rightarrow>
               if error_exn e = BudgetError
               then fall_back raw_digest p atoms corridor_cap clauses nodes1 steps True False
               else Inl e
           | Inr (c, select_nodes) \<Rightarrow>
               let nodes2 = nodes1 + select_nodes in
               andThen (reach p (ct_mask c)) (\<lambda>result.
               let steps' = steps + rr_steps result in
               if \<not> rr_derivable result then
                 finish raw_digest p atoms clauses c EXACT_PSI_RELATIVE True True None steps'
                   nodes2 corridor_cap False False
               else
                 andThen (witness_tree p (ct_mask c) result None) (\<lambda>tree.
                 andThen (witness_mask p tree) (\<lambda>m.
                 if m = 0 then
                   finish raw_digest p atoms clauses c UNVERIFIED True False (Some tree) steps'
                     nodes2 corridor_cap False False
                 else
                   let clause = set (ranks_of_mask atoms m) in
                   if clause \<in> set clauses then raises DeterminismError
                   else if corridor_cap \<le> length clauses + 1 then
                     fall_back raw_digest p atoms corridor_cap (clauses @ [clause]) nodes2 steps'
                       False True
                   else psi_loop raw_digest p atoms budget corridor_cap (clauses @ [clause])
                          nodes2 steps'))))))"
  by pat_completeness auto
termination
  by (relation "measure (\<lambda>(d, p, atoms, budget, cap, clauses, nodes, steps). cap - length clauses)")
    auto

declare psi_loop.simps [simp del]

definition enumerate_psi ::
    "(octets \<Rightarrow> octets) \<Rightarrow> reach_program \<Rightarrow> atom_table \<Rightarrow> int \<Rightarrow> nat \<Rightarrow> cut_search outcome" where
  "enumerate_psi raw_digest p atoms budget corridor_cap =
     psi_loop raw_digest p atoms budget corridor_cap [] 0 0"

definition CORRIDOR_CAP :: nat where "CORRIDOR_CAP = 4096"

definition STEP_BUDGET :: int where "STEP_BUDGET = 2000000"

section \<open>Brute force\<close>

definition admissible_level_vectors :: "atom_table \<Rightarrow> nat list list" where
  "admissible_level_vectors atoms =
     foldl (\<lambda>vectors c. concat (map (\<lambda>v. map (\<lambda>level. v @ [level]) [0..<max_level atoms c + 1]) vectors))
       [[]] (controls atoms)"

definition vector_levels :: "atom_table \<Rightarrow> nat list \<Rightarrow> level_map" where
  "vector_levels atoms v = map_of (zip (controls atoms) v)"

definition vector_chosen :: "nat list \<Rightarrow> nat list" where
  "vector_chosen v = map fst (filter (\<lambda>(i, level). 1 \<le> level) (enumerate 0 v))"

text \<open>The loop of \<open>all_minimum_cuts\<close>, with its running optimum and list of cuts.\<close>

fun scan_vectors ::
    "clause list \<Rightarrow> atom_table \<Rightarrow> nat set list list \<Rightarrow> nat list list \<Rightarrow> nat option \<Rightarrow> cut list
     \<Rightarrow> cut list outcome" where
  "scan_vectors clauses atoms per_level [] best found = Inr found"
| "scan_vectors clauses atoms per_level (v # vs) best found =
     (let levels = vector_levels atoms v; chosen = vector_chosen v; cardinality = length chosen in
      if \<not> hits_all clauses chosen atoms per_level levels
         \<or> \<not> level_minimal clauses chosen atoms per_level levels
         \<or> (case best of None \<Rightarrow> False | Some b \<Rightarrow> b < cardinality)
      then scan_vectors clauses atoms per_level vs best found
      else
        let fresh = (case best of None \<Rightarrow> True | Some b \<Rightarrow> cardinality < b);
            found' = (if fresh then [] else found);
            best' = (if fresh then Some cardinality else best)
        in andThen (cut_of_levels atoms (kept_levels atoms chosen levels) UNVERIFIED) (\<lambda>c.
             scan_vectors clauses atoms per_level vs best' (found' @ [c])))"

definition all_minimum_cuts :: "clause list \<Rightarrow> atom_table \<Rightarrow> cut list outcome" where
  "all_minimum_cuts clauses atoms =
     andThen (scan_vectors clauses atoms (snd (control_hits clauses atoms))
                (admissible_level_vectors atoms) None []) (\<lambda>found.
       Inr (sort_key compare_key found))"

datatype skipped_reason = RAN | CARDINALITY_ZERO | COMBINATION_CAP

record probe_result =
  ep_ran :: bool
  ep_cuts_tested :: nat
  ep_smaller_found :: bool
  ep_skipped_reason :: skipped_reason

fun probe_vectors :: "reach_program \<Rightarrow> atom_table \<Rightarrow> nat list list \<Rightarrow> nat \<Rightarrow> bool \<Rightarrow> (nat \<times> bool) outcome" where
  "probe_vectors p atoms [] tested smaller = Inr (tested, smaller)"
| "probe_vectors p atoms (v # vs) tested smaller =
     andThen (cut_of_levels atoms (kept_levels atoms (vector_chosen v) (vector_levels atoms v))
                UNVERIFIED) (\<lambda>c.
     andThen (reach p (ct_mask c)) (\<lambda>result.
       probe_vectors p atoms vs (tested + 1) (if \<not> rr_derivable result then True else smaller)))"

definition exhaustive_probe :: "reach_program \<Rightarrow> atom_table \<Rightarrow> nat \<Rightarrow> nat \<Rightarrow> probe_result outcome" where
  "exhaustive_probe p atoms cardinality combination_cap =
     (if cardinality < 1 then
        Inr \<lparr>ep_ran = False, ep_cuts_tested = 0, ep_smaller_found = False,
             ep_skipped_reason = CARDINALITY_ZERO\<rparr>
      else
        let candidates = filter (\<lambda>v. length (filter (\<lambda>level. 1 \<le> level) v) = cardinality - 1)
                           (admissible_level_vectors atoms) in
        if combination_cap < length candidates then
          Inr \<lparr>ep_ran = False, ep_cuts_tested = 0, ep_smaller_found = False,
               ep_skipped_reason = COMBINATION_CAP\<rparr>
        else
          andThen (probe_vectors p atoms candidates 0 False) (\<lambda>(tested, smaller).
            Inr \<lparr>ep_ran = True, ep_cuts_tested = tested, ep_smaller_found = smaller,
                 ep_skipped_reason = RAN\<rparr>))"

section \<open>The fixpoint as a separation oracle\<close>

definition mask_of_levels :: "atom_table \<Rightarrow> level_map \<Rightarrow> nat" where
  "mask_of_levels atoms levels = mask_of_atoms (raised atoms levels)"

definition severed :: "reach_program \<Rightarrow> nat \<Rightarrow> bool" where
  "severed p S \<longleftrightarrow> (\<forall>g \<in> set (rp_goals p). \<not> derives (rp_instances p) (rp_axioms p) S g)"

definition cut_cost :: "atom_table \<Rightarrow> level_map \<Rightarrow> nat" where
  "cut_cost atoms levels = card {c \<in> set (controls atoms). 1 \<le> level_at levels c}"

definition hit_levels :: "atom_table \<Rightarrow> level_map \<Rightarrow> clause \<Rightarrow> bool" where
  "hit_levels atoms levels cl \<longleftrightarrow> (\<exists>a \<in> set (raised atoms levels). tl_rank a \<in> cl)"

text \<open>The clause that the loop learns when a cut fails to sever.\<close>

definition learned_mask :: "reach_program \<Rightarrow> nat \<Rightarrow> nat" where
  "learned_mask p S =
     (case andThen (reach p S) (\<lambda>r. andThen (witness_tree p S r None) (witness_mask p)) of
        Inl e \<Rightarrow> 0 | Inr m \<Rightarrow> m)"

definition learned_clause :: "reach_program \<Rightarrow> atom_table \<Rightarrow> nat \<Rightarrow> clause" where
  "learned_clause p atoms S = set (ranks_of_mask atoms (learned_mask p S))"

lemma hits_clauses_hit: "hits_clauses atoms clauses levels \<longleftrightarrow> (\<forall>cl \<in> set clauses. hit_levels atoms levels cl)"
  by (simp add: hits_clauses_def hit_levels_def)

lemma bit_mask_of_levels:
  "bit (mask_of_levels atoms levels) k \<longleftrightarrow> (\<exists>a \<in> set (raised atoms levels). tl_bit a = k)"
  by (simp add: mask_of_levels_def bit_mask_of_atoms)

lemma mask_of_levels_less: "built_table atoms \<Longrightarrow> mask_of_levels atoms levels < 2 ^ 64"
  unfolding mask_of_levels_def
  by (rule mask_of_atoms_less) (auto simp: raised_def dest: built_literal(2))

lemma hit_levels_mask:
  assumes "built_table atoms"
  shows "hit_levels atoms levels (set (ranks_of_mask atoms m)) \<longleftrightarrow> hits m (mask_of_levels atoms levels)"
proof -
  have "tl_rank a \<in> set (ranks_of_mask atoms m) \<longleftrightarrow> bit m (tl_bit a)" if "a \<in> set atoms" for a
    using built_rank_inj [OF assms that] that by (auto simp: set_ranks_of_mask)
  then show ?thesis
    by (auto simp: hit_levels_def hits_iff bit_mask_of_levels raised_def)
qed

lemma severed_derivable:
  assumes "indexed p" and "reach p S = Inr r"
  shows "severed p S \<longleftrightarrow> \<not> rr_derivable r"
  using reach_derives(2) [OF assms] by (simp add: severed_def)

lemma learned_mask_spec:
  assumes ind: "indexed p" and r: "reach p S = Inr r" and der: "rr_derivable r"
  shows "\<exists>t m. witness_tree p S r None = Inr t \<and> witness_mask p t = Inr m \<and> learned_mask p S = m \<and>
    wn_head t \<in> set (rp_goals p) \<and> valid_tree (rp_instances p) (rp_axioms p) S t \<and>
    \<not> hits m S \<and> (\<forall>S'. severed p S' \<longrightarrow> hits m S')"
proof -
  from tree_root_derived [OF reach_prop_inv(3) [OF ind r] der] witness_tree_valid [OF ind r, of None]
  obtain t where t: "witness_tree p S r None = Inr t" "wn_head t \<in> set (rp_goals p)"
    "valid_tree (rp_instances p) (rp_axioms p) S t" by auto
  from corridor_clause [OF ind t(3)] obtain m where "witness_mask p t = Inr m" "\<not> hits m S"
    "\<forall>S'. \<not> derives (rp_instances p) (rp_axioms p) S' (wn_head t) \<longrightarrow> hits m S'" by blast
  with t r show ?thesis by (auto simp: learned_mask_def severed_def)
qed

interpretation corridor: separation_oracle
  "\<lambda>(p, atoms). indexed p \<and> built_table atoms"
  "\<lambda>(p, atoms) levels. severed p (mask_of_levels atoms levels)"
  "\<lambda>(p, atoms) levels. learned_clause p atoms (mask_of_levels atoms levels)"
  "\<lambda>(p, atoms). hit_levels atoms"
proof (unfold_locales, goal_cases)
  case (1 x levels)
  obtain p atoms where x: "x = (p, atoms)" by (cases x)
  let ?S = "mask_of_levels atoms levels"
  from 1 x obtain r where r: "reach p ?S = Inr r" "rr_derivable r"
    using reach_total mask_of_levels_less severed_derivable by (metis (no_types, lifting) case_prod_conv)
  from 1 x learned_mask_spec [OF _ r] show ?case
    by (auto simp: learned_clause_def hit_levels_mask)
next
  case (2 x levels levels')
  obtain p atoms where x: "x = (p, atoms)" by (cases x)
  let ?S = "mask_of_levels atoms levels"
  from 2 x obtain r where r: "reach p ?S = Inr r" "rr_derivable r"
    using reach_total mask_of_levels_less severed_derivable by (metis (no_types, lifting) case_prod_conv)
  from 2 x learned_mask_spec [OF _ r] show ?case
    by (auto simp: learned_clause_def hit_levels_mask)
qed

section \<open>The loop is correct\<close>

lemma hits_clauses_cost:
  assumes "built_table atoms" and "hits_clauses atoms clauses levels"
  shows "cut_exists atoms clauses (set (controls atoms)) (cut_cost atoms levels)"
proof -
  let ?C = "{c \<in> set (controls atoms). 1 \<le> level_at levels c}"
  have "controls_hit atoms clauses ?C"
    unfolding controls_hit_def
  proof
    fix cl assume "cl \<in> set clauses"
    with assms(2) obtain a where a: "a \<in> set (raised atoms levels)" "tl_rank a \<in> cl"
      by (auto simp: hits_clauses_def)
    then have "tl_control_id a \<in> set (map tl_control_id (raised atoms levels))" by simp
    then have "tl_control_id a \<in> ?C" by (simp only: control_ids_raised [OF assms(1)])
    with a show "\<exists>a \<in> set atoms. tl_control_id a \<in> ?C \<and> tl_rank a \<in> cl"
      by (auto simp: raised_def)
  qed
  moreover have "?C \<subseteq> set (controls atoms)" by blast
  ultimately show ?thesis unfolding cut_exists_def cut_cost_def by blast
qed

text \<open>What one side of the bracket promises about its cut.\<close>

definition psi_contract :: "reach_program \<Rightarrow> atom_table \<Rightarrow> cut_search \<Rightarrow> bool" where
  "psi_contract p atoms cs \<longleftrightarrow>
     (\<exists>levels. ct_atoms (cse_cut cs) = raised atoms levels \<and>
        ct_mask (cse_cut cs) = mask_of_levels atoms levels \<and>
        ct_cardinality (cse_cut cs) = cut_cost atoms levels) \<and>
     (cse_severs cs \<longleftrightarrow> severed p (ct_mask (cse_cut cs))) \<and>
     (case cse_minimality cs of
        EXACT_PSI_RELATIVE \<Rightarrow> cse_severs cs \<and>
          (\<forall>levels. severed p (mask_of_levels atoms levels) \<longrightarrow>
             ct_cardinality (cse_cut cs) \<le> cut_cost atoms levels)
      | UNVERIFIED \<Rightarrow> (\<forall>levels. \<not> severed p (mask_of_levels atoms levels))
      | SUBSET \<Rightarrow> cse_budget_exhausted cs \<or> cse_corridor_cap_hit cs
      | EXACT_EXHAUSTIVE \<Rightarrow> False) \<and>
     (case cse_witness cs of
        None \<Rightarrow> cse_severs cs
      | Some t \<Rightarrow> \<not> cse_severs cs \<and> wn_head t \<in> set (rp_goals p) \<and>
          valid_tree (rp_instances p) (rp_axioms p) (ct_mask (cse_cut cs)) t)"

lemma finish_eq_Inr:
  assumes "finish raw_digest p atoms clauses c mn complete sv w steps nodes cap be ch = Inr cs"
  shows "cse_cut cs = c" "cse_minimality cs = mn" "cse_severs cs = sv" "cse_witness cs = w"
    "cse_budget_exhausted cs = be" "cse_corridor_cap_hit cs = ch" "psi_complete (cse_psi cs) = complete"
  using assms by (auto simp: finish_def andThen_eq_Inr Let_def)

lemma fall_back_contract:
  assumes ind: "indexed p" and built: "built_table atoms"
    and fb: "fall_back raw_digest p atoms cap clauses nodes steps be ch = Inr cs" and "be \<or> ch"
  shows "psi_contract p atoms cs"
proof -
  from fb obtain c r tree where
    sm: "subset_minimal clauses atoms = Inr c" and r: "reach p (ct_mask c) = Inr r"
    and tree: "(if rr_derivable r then andThen (witness_tree p (ct_mask c) r None) (\<lambda>t. Inr (Some t))
                else Inr None) = Inr tree"
    and fin: "finish raw_digest p atoms clauses c SUBSET False (\<not> rr_derivable r) tree
         (steps + rr_steps r) nodes cap be ch = Inr cs"
    by (auto simp: fall_back_def andThen_eq_Inr)
  from sm obtain l where "cut_of_levels atoms l SUBSET = Inr c"
    by (auto simp: subset_minimal_def Let_def andThen_eq_Inr)
  then have c: "ct_atoms c = raised atoms l" "ct_mask c = mask_of_levels atoms l"
    "ct_cardinality c = cut_cost atoms l"
    by (auto simp only: cut_of_levels_ok [OF built] mask_of_levels_def cut_cost_def
        control_ids_raised [OF built, symmetric] sum.inject cut.simps)
  have "case tree of None \<Rightarrow> \<not> rr_derivable r
      | Some t \<Rightarrow> rr_derivable r \<and> wn_head t \<in> set (rp_goals p) \<and>
          valid_tree (rp_instances p) (rp_axioms p) (ct_mask c) t"
    using tree learned_mask_spec [OF ind r] by (auto simp: andThen_eq_Inr split: if_splits)
  with c assms(4) severed_derivable [OF ind r] show ?thesis
    by (auto simp: psi_contract_def finish_eq_Inr [OF fin] split: option.splits)
qed

text \<open>The branches of one turn of the loop, for the cuts that the solver proposes.\<close>

lemma psi_loop_cases:
  assumes built: "built_table atoms"
  obtains
    nodes' where "psi_loop raw_digest p atoms budget cap clauses nodes steps =
        fall_back raw_digest p atoms cap clauses nodes' steps True False"
      "\<not> int nodes + 2 * 2 ^ length (controls atoms) \<le> budget"
  | "psi_loop raw_digest p atoms budget cap clauses nodes steps = raises DeterminismError"
      "\<forall>k. \<not> cut_exists atoms clauses (set (controls atoms)) k"
  | n c l r nodes' where
      "\<forall>k. n \<le> k \<longleftrightarrow> cut_exists atoms clauses (set (controls atoms)) k"
      "ct_atoms c = raised atoms l" "ct_mask c = mask_of_levels atoms l" "ct_cardinality c = n"
      "\<forall>cl \<in> set clauses. hit_levels atoms l cl" "reach p (ct_mask c) = Inr r"
      "int nodes + 2 * 2 ^ length (controls atoms) \<le> budget \<Longrightarrow>
         nodes' \<le> nodes + 2 * 2 ^ length (controls atoms)"
      "\<not> rr_derivable r \<Longrightarrow> psi_loop raw_digest p atoms budget cap clauses nodes steps =
         finish raw_digest p atoms clauses c EXACT_PSI_RELATIVE True True None (steps + rr_steps r)
           nodes' cap False False"
      "\<And>t m. rr_derivable r \<Longrightarrow> witness_tree p (ct_mask c) r None = Inr t \<Longrightarrow>
         witness_mask p t = Inr m \<Longrightarrow> psi_loop raw_digest p atoms budget cap clauses nodes steps =
         (if m = 0 then finish raw_digest p atoms clauses c UNVERIFIED True False (Some t)
              (steps + rr_steps r) nodes' cap False False
          else if set (ranks_of_mask atoms m) \<in> set clauses then raises DeterminismError
          else if cap \<le> length clauses + 1 then
            fall_back raw_digest p atoms cap (clauses @ [set (ranks_of_mask atoms m)]) nodes'
              (steps + rr_steps r) False True
          else psi_loop raw_digest p atoms budget cap (clauses @ [set (ranks_of_mask atoms m)])
            nodes' (steps + rr_steps r))"
      "cut_cost atoms l = n"
proof -
  define solve where "solve = min_cardinality clauses atoms (budget - int nodes) []"
  let ?nodes1 = "nodes + mc_nodes solve" and ?N = "2 ^ length (controls atoms)"
  have solves: "solves clauses atoms [] solve"
    unfolding solve_def by (rule min_cardinality_solves [OF built])
  have enough1: "mc_status solve \<noteq> BUDGET_EXHAUSTED \<and> mc_nodes solve \<le> ?N"
    if "int nodes + 2 * ?N \<le> budget"
    using min_cardinality_enough [of atoms "budget - int nodes" clauses "[]"] that
      zero_le_power [of "2::int" "length (controls atoms)"] unfolding solve_def by linarith
  have enough2: "?N \<le> budget - int ?nodes1" if "int nodes + 2 * ?N \<le> budget"
  proof -
    from enough1 [OF that] have le: "mc_nodes solve \<le> ?N" by blast
    have "int (mc_nodes solve) \<le> 2 ^ length (controls atoms)"
      using of_nat_mono [OF le, where 'a = int] by (simp only: of_nat_power of_nat_numeral)
    with that show ?thesis by linarith
  qed
  show thesis
  proof (cases "mc_status solve")
    case BUDGET_EXHAUSTED
    then have "psi_loop raw_digest p atoms budget cap clauses nodes steps =
        fall_back raw_digest p atoms cap clauses ?nodes1 steps True False"
      by (simp add: psi_loop.simps [of raw_digest] Let_def solve_def)
    moreover have "\<not> int nodes + 2 * ?N \<le> budget" using enough1 BUDGET_EXHAUSTED by blast
    ultimately show thesis by (rule that(1))
  next
    case INFEASIBLE
    with solves that(2) show thesis
      by (simp add: psi_loop.simps [of raw_digest] Let_def solve_def [symmetric] solves_def)
  next
    case EXACT
    with solves obtain n where n: "mc_value solve = Some n"
      and opt: "\<forall>k. n \<le> k \<longleftrightarrow> cut_exists atoms clauses (set (controls atoms)) k"
      by (auto simp: solves_def split: option.splits)
    let ?cs = "canonical_select clauses atoms n EXACT_PSI_RELATIVE (budget - int ?nodes1)"
    show thesis
    proof (cases ?cs)
      case (Inl e)
      with canonical_select_spec [OF built opt, of EXACT_PSI_RELATIVE "budget - int ?nodes1"]
      have "error_exn e = BudgetError" and bud: "?cs = raises BudgetError" by (auto simp: raises_def)
      with Inl EXACT n that(1) [of ?nodes1] enough2 canonical_select_enough(1) [OF built]
      show thesis by (auto simp: psi_loop.simps [of raw_digest] Let_def solve_def)
    next
      case (Inr cu)
      obtain c u where cu: "cu = (c, u)" by (cases cu)
      from canonical_select_spec [OF built opt, of EXACT_PSI_RELATIVE "budget - int ?nodes1"] Inr cu
      obtain chosen l where canon: "canonical_cut atoms clauses n EXACT_PSI_RELATIVE c chosen l"
        by auto
      then have c: "ct_atoms c = raised atoms l" "ct_mask c = mask_of_levels atoms l"
        "ct_cardinality c = n" "\<forall>cl \<in> set clauses. hit_levels atoms l cl"
        by (auto simp: canonical_cut_def mask_of_levels_def hits_clauses_hit)
      have "{d \<in> set (controls atoms). 1 \<le> level_at l d} = control_at atoms ` set chosen"
        and chosen: "distinct chosen" "set chosen \<subseteq> {..<length (controls atoms)}" "length chosen = n"
        using canon by (auto simp: canonical_cut_def strictly_ascending_distinct simp del: set_controls)
      moreover have "inj_on (control_at atoms) (set chosen)"
        using distinct_controls [OF built] chosen(2) by (auto simp: inj_on_def nth_eq_iff_index_eq subset_iff)
      ultimately have cost: "cut_cost atoms l = n"
        by (simp add: cut_cost_def card_image distinct_card)
      obtain r where r: "reach p (ct_mask c) = Inr r"
        using reach_total mask_of_levels_less [OF built] c(2) by metis
      have "?nodes1 + u \<le> nodes + 2 * ?N" if "int nodes + 2 * ?N \<le> budget"
        using enough1 [OF that] canonical_select_enough(2) [OF built enough2 [OF that] Inr [unfolded cu]]
        by simp
      then show thesis
        using Inr cu EXACT n r
        by (intro that(3) [of n c l r "?nodes1 + u", OF opt c r])
          (simp_all add: psi_loop.simps [of raw_digest p atoms budget cap clauses] Let_def
            solve_def [symmetric] cost)
    qed
  qed
qed
lemma psi_loop_contract:
  assumes ind: "indexed p" and built: "built_table atoms"
  shows "corridor.learned (p, atoms) (set clauses) \<Longrightarrow>
     psi_loop raw_digest p atoms budget cap clauses nodes steps = Inr cs \<Longrightarrow> psi_contract p atoms cs"
proof (induction "cap - length clauses" arbitrary: clauses nodes steps rule: less_induct)
  case less
  note learned = less.prems(1) and loop = less.prems(2)
  show ?case
  proof (cases rule: psi_loop_cases [OF built, of raw_digest p budget cap clauses nodes steps])
    case (1 nodes')
    with loop have "fall_back raw_digest p atoms cap clauses nodes' steps True False = Inr cs" by simp
    then show ?thesis by (rule fall_back_contract [OF ind built]) simp
  next
    case 2
    with loop show ?thesis by simp
  next
    case cut: (3 n c l r nodes')
    note sev = severed_derivable [OF ind cut(6)]
    show ?thesis
    proof (cases "rr_derivable r")
      case False
      with loop cut(8) have fin: "finish raw_digest p atoms clauses c EXACT_PSI_RELATIVE True True
          None (steps + rr_steps r) nodes' cap False False = Inr cs" by simp
      have "n \<le> cut_cost atoms l'" if "severed p (mask_of_levels atoms l')" for l'
        by (rule corridor.hitting_optimal [of "(p, atoms)" "set clauses"])
          (use ind built learned that cut(1) hits_clauses_cost [OF built] in
            \<open>auto simp: hits_clauses_hit\<close>)
      with False cut(2,3,4,10) sev show ?thesis by (auto simp: psi_contract_def finish_eq_Inr [OF fin])
    next
      case der: True
      from learned_mask_spec [OF ind cut(6) der] obtain t m where
        t: "witness_tree p (ct_mask c) r None = Inr t" "witness_mask p t = Inr m"
          "learned_mask p (ct_mask c) = m" "wn_head t \<in> set (rp_goals p)"
          "valid_tree (rp_instances p) (rp_axioms p) (ct_mask c) t"
          "\<forall>S'. severed p S' \<longrightarrow> hits m S'" by blast
      let ?cl = "set (ranks_of_mask atoms m)"
      have "\<not> severed p (mask_of_levels atoms l)" using der sev cut(3) by simp
      then have learned': "corridor.learned (p, atoms) (set (clauses @ [?cl]))"
        using corridor.learned_insert [OF learned, of l] t(3) cut(3) by (simp add: learned_clause_def)
      note loop' = loop [unfolded cut(9) [OF der t(1,2)]]
      consider "m = 0" | "m \<noteq> 0" "cap \<le> length clauses + 1" | "m \<noteq> 0" "\<not> cap \<le> length clauses + 1"
        by blast
      then show ?thesis
      proof cases
        case 1
        with loop' have fin: "finish raw_digest p atoms clauses c UNVERIFIED True False (Some t)
            (steps + rr_steps r) nodes' cap False False = Inr cs" by simp
        from 1 t(4,5,6) cut(2,3,4,10) der sev show ?thesis
          by (auto simp: psi_contract_def finish_eq_Inr [OF fin])
      next
        case 2
        with loop' have "fall_back raw_digest p atoms cap (clauses @ [?cl]) nodes'
            (steps + rr_steps r) False True = Inr cs" by (simp split: if_splits)
        then show ?thesis by (rule fall_back_contract [OF ind built]) simp
      next
        case 3
        with loop' have "psi_loop raw_digest p atoms budget cap (clauses @ [?cl]) nodes'
            (steps + rr_steps r) = Inr cs" by (simp split: if_splits)
        with less.hyps [OF _ learned'] 3 show ?thesis by simp
      qed
    qed
  qed
qed

section \<open>The exhaustive probe\<close>

lemma list_all2_snoc: "list_all2 P (xs @ [x]) (ys @ [y]) \<longleftrightarrow> list_all2 P xs ys \<and> P x y"
  by (auto simp: list_all2_conv_all_nth nth_append less_Suc_eq)

lemma set_product_fold:
  "set (foldl (\<lambda>vectors c. concat (map (\<lambda>v. map (\<lambda>level. v @ [level]) [0..<mx c + 1]) vectors)) [[]] cs)
   = {v. list_all2 (\<lambda>c l. l \<le> mx c) cs v}"
proof (induction cs rule: rev_induct)
  case Nil
  then show ?case by auto
next
  case (snoc c cs)
  have "list_all2 (\<lambda>c l. l \<le> mx c) (cs @ [c]) v \<longleftrightarrow>
      (\<exists>w l. v = w @ [l] \<and> list_all2 (\<lambda>c l. l \<le> mx c) cs w \<and> l \<le> mx c)" for v
    by (cases v rule: rev_cases) (auto simp: list_all2_snoc)
  then have "{v. list_all2 (\<lambda>c l. l \<le> mx c) (cs @ [c]) v} =
      {w @ [l] | w l. list_all2 (\<lambda>c l. l \<le> mx c) cs w \<and> l \<le> mx c}" by simp
  with snoc show ?case by (auto simp del: upt_Suc) 
qed

lemma set_admissible_level_vectors:
  "set (admissible_level_vectors atoms) = {v. list_all2 (\<lambda>c l. l \<le> max_level atoms c) (controls atoms) v}"
  unfolding admissible_level_vectors_def by (rule set_product_fold)

lemma level_at_vector:
  assumes "built_table atoms" and "length v = length (controls atoms)"
  shows "i < length v \<Longrightarrow> level_at (vector_levels atoms v) (control_at atoms i) = v ! i"
    and "c \<notin> set (controls atoms) \<Longrightarrow> level_at (vector_levels atoms v) c = 0"
proof -
  show "level_at (vector_levels atoms v) (control_at atoms i) = v ! i" if "i < length v"
    using map_of_zip_nth [OF assms(2) [symmetric] distinct_controls [OF assms(1)]] that assms(2)
    by (simp add: vector_levels_def level_at_def)
  show "level_at (vector_levels atoms v) c = 0" if "c \<notin> set (controls atoms)"
  proof -
    have "map_of (zip (controls atoms) v) c = None"
      using that assms(2) by (simp add: map_of_zip_is_None del: set_controls)
    then show ?thesis by (simp add: vector_levels_def level_at_def)
  qed
qed

lemma vector_chosen_eq: "vector_chosen v = filter (\<lambda>i. 1 \<le> v ! i) [0..<length v]"
  by (simp add: vector_chosen_def enumerate_map_nth filter_map o_def)

lemma level_at_kept_vector:
  assumes "built_table atoms" and "length v = length (controls atoms)"
  shows "level_at (kept_levels atoms (vector_chosen v) (vector_levels atoms v)) c =
    level_at (vector_levels atoms v) c"
proof (cases "c \<in> set (controls atoms)")
  case True
  then obtain i where i: "i < length v" "c = control_at atoms i"
    using assms(2) by (auto simp: in_set_conv_nth simp del: set_controls)
  have "c \<in> control_at atoms ` set (vector_chosen v)" if "1 \<le> v ! i"
    using i that by (auto simp: vector_chosen_eq)
  moreover have "v ! i = 0" if "\<not> 1 \<le> v ! i" using that by simp
  ultimately show ?thesis
    using i level_at_vector(1) [OF assms i(1)] by (fastforce simp: level_at_kept_levels)
next
  case False
  then show ?thesis using level_at_vector(2) [OF assms False] by (simp add: level_at_kept_levels)
qed

lemma raised_cong: "(\<And>c. level_at l c = level_at l' c) \<Longrightarrow> raised atoms l = raised atoms l'"
  by (simp add: raised_def)

lemma cost_vector:
  assumes "built_table atoms" and "length v = length (controls atoms)"
  shows "cut_cost atoms (vector_levels atoms v) = length (filter (\<lambda>level. 1 \<le> level) v)"
proof -
  have "{c \<in> set (controls atoms). 1 \<le> level_at (vector_levels atoms v) c} =
      control_at atoms ` {i. i < length v \<and> 1 \<le> v ! i}"
    using level_at_vector(1) [OF assms] assms(2)
    by (auto simp: in_set_conv_nth image_iff simp del: set_controls)
  moreover have "inj_on (control_at atoms) {i. i < length v \<and> 1 \<le> v ! i}"
    using distinct_controls [OF assms(1)] assms(2) by (auto simp: inj_on_def nth_eq_iff_index_eq)
  ultimately have "cut_cost atoms (vector_levels atoms v) = card {i. i < length v \<and> 1 \<le> v ! i}"
    by (simp add: cut_cost_def card_image)
  then show ?thesis by (simp add: length_filter_conv_card)
qed

lemma probe_vectors_spec:
  assumes ind: "indexed p" and built: "built_table atoms"
  shows "\<forall>v \<in> set vs. length v = length (controls atoms) \<Longrightarrow>
    probe_vectors p atoms vs tested smaller = Inr (tested + length vs, smaller \<or>
      (\<exists>v \<in> set vs. severed p (mask_of_levels atoms (vector_levels atoms v))))"
proof (induction vs arbitrary: tested smaller)
  case (Cons v vs)
  let ?K = "kept_levels atoms (vector_chosen v) (vector_levels atoms v)"
  let ?S = "mask_of_levels atoms (vector_levels atoms v)"
  have "raised atoms ?K = raised atoms (vector_levels atoms v)"
    by (rule raised_cong) (rule level_at_kept_vector [OF built], use Cons.prems in simp)
  then have mask: "mask_of_atoms (raised atoms ?K) = ?S" by (simp add: mask_of_levels_def)
  obtain r where r: "reach p ?S = Inr r" using reach_total mask_of_levels_less [OF built] by blast
  from Cons show ?case
    using severed_derivable [OF ind r]
    by (auto simp: cut_of_levels_ok [OF built] mask r)
qed simp

lemma severed_antitone: "severed p S \<Longrightarrow> submask S S' \<Longrightarrow> severed p S'"
  using derives_antitone by (auto simp: severed_def)

lemma mask_of_levels_mono: "level_le l l' \<Longrightarrow> submask (mask_of_levels atoms l) (mask_of_levels atoms l')"
  unfolding submask_iff bit_mask_of_levels raised_def level_le_def using le_trans by fastforce

text \<open>Every assignment can be padded to any larger number of raised controls.\<close>

lemma pad_levels:
  assumes built: "built_table atoms" and "cut_cost atoms levels \<le> k" and "k \<le> length (controls atoms)"
  shows "\<exists>v. list_all2 (\<lambda>c l. l \<le> max_level atoms c) (controls atoms) v \<and>
    length (filter (\<lambda>level. 1 \<le> level) v) = k \<and>
    submask (mask_of_levels atoms levels) (mask_of_levels atoms (vector_levels atoms v))"
proof -
  let ?R = "{c \<in> set (controls atoms). 1 \<le> level_at levels c}"
  have "card (set (controls atoms)) = length (controls atoms)"
    using distinct_controls [OF built] by (rule distinct_card)
  then obtain C where C: "?R \<subseteq> C" "C \<subseteq> set (controls atoms)" "card C = k"
    using exists_subset_between [of ?R k "set (controls atoms)"] assms(2,3)
    by (auto simp: cut_cost_def)
  define v where "v = map (\<lambda>c. if c \<in> C then max_level atoms c else 0) (controls atoms)"
  have len: "length v = length (controls atoms)" by (simp add: v_def)
  have v: "list_all2 (\<lambda>c l. l \<le> max_level atoms c) (controls atoms) v"
    by (simp add: v_def list_all2_conv_all_nth)
  have at: "level_at (vector_levels atoms v) c = (if c \<in> C then max_level atoms c else 0)" for c
  proof (cases "c \<in> set (controls atoms)")
    case True
    then obtain i where "i < length v" "c = control_at atoms i"
      using len by (auto simp: in_set_conv_nth simp del: set_controls)
    then show ?thesis using level_at_vector(1) [OF built len] by (simp add: v_def)
  next
    case False
    then show ?thesis using level_at_vector(2) [OF built len False] C(2) by auto
  qed
  have "{c \<in> set (controls atoms). 1 \<le> level_at (vector_levels atoms v) c} = C"
    using C(2) max_level_pos [of _ atoms] by (auto simp: at simp del: set_controls split: if_splits)
  then have "length (filter (\<lambda>level. 1 \<le> level) v) = k"
    using cost_vector [OF built len] C(3) by (simp add: cut_cost_def)
  moreover have "submask (mask_of_levels atoms levels) (mask_of_levels atoms (vector_levels atoms v))"
    unfolding submask_iff bit_mask_of_levels
  proof (intro allI impI)
    fix k assume "\<exists>a \<in> set (raised atoms levels). tl_bit a = k"
    then obtain a where a: "a \<in> set atoms" "tl_level a \<le> level_at levels (tl_control_id a)" "tl_bit a = k"
      by (auto simp: raised_def)
    then have "tl_control_id a \<in> C"
      using C(1) built_literal(1) [OF built a(1)] by auto
    with a level_le_max [OF built a(1)] show "\<exists>a \<in> set (raised atoms (vector_levels atoms v)). tl_bit a = k"
      by (auto simp: raised_def at)
  qed
  ultimately show ?thesis using v by blast
qed

lemma exhaustive_probe_spec:
  assumes ind: "indexed p" and built: "built_table atoms"
    and pr: "exhaustive_probe p atoms n cap = Inr pr" and ran: "ep_ran pr"
    and n: "n \<le> length (controls atoms)"
  shows "ep_smaller_found pr \<longleftrightarrow> (\<exists>levels. severed p (mask_of_levels atoms levels) \<and> cut_cost atoms levels < n)"
proof -
  let ?cands = "filter (\<lambda>v. length (filter (\<lambda>level. 1 \<le> level) v) = n - 1) (admissible_level_vectors atoms)"
  have n1: "1 \<le> n" and small: "\<not> cap < length ?cands"
    using pr ran by (auto simp: exhaustive_probe_def Let_def split: if_splits)
  have len: "\<forall>v \<in> set ?cands. length v = length (controls atoms)"
    by (auto simp: set_admissible_level_vectors list_all2_lengthD)
  have "ep_smaller_found pr \<longleftrightarrow> (\<exists>v \<in> set ?cands. severed p (mask_of_levels atoms (vector_levels atoms v)))"
    using pr n1 small probe_vectors_spec [OF ind built len, of 0 False]
    by (simp add: exhaustive_probe_def Let_def) auto
  also have "\<dots> \<longleftrightarrow> (\<exists>levels. severed p (mask_of_levels atoms levels) \<and> cut_cost atoms levels < n)"
  proof
    assume "\<exists>v \<in> set ?cands. severed p (mask_of_levels atoms (vector_levels atoms v))"
    then obtain v where v: "v \<in> set ?cands" "severed p (mask_of_levels atoms (vector_levels atoms v))"
      by blast
    have "length v = length (controls atoms)" using v(1) len by blast
    from cost_vector [OF built this] v(1) have "cut_cost atoms (vector_levels atoms v) = n - 1"
      by (simp only: set_filter mem_Collect_eq)
    with v(2) n1 show "\<exists>levels. severed p (mask_of_levels atoms levels) \<and> cut_cost atoms levels < n"
      by (intro exI [of _ "vector_levels atoms v"]) simp
  next
    assume "\<exists>levels. severed p (mask_of_levels atoms levels) \<and> cut_cost atoms levels < n"
    then obtain levels where l: "severed p (mask_of_levels atoms levels)" "cut_cost atoms levels < n"
      by blast
    then have "cut_cost atoms levels \<le> n - 1" "n - 1 \<le> length (controls atoms)" using n by simp_all
    from pad_levels [OF built this] obtain v where v:
      "list_all2 (\<lambda>c l. l \<le> max_level atoms c) (controls atoms) v"
      "length (filter (\<lambda>level. 1 \<le> level) v) = n - 1"
      "submask (mask_of_levels atoms levels) (mask_of_levels atoms (vector_levels atoms v))" by blast
    then have "v \<in> set ?cands" by (simp add: set_admissible_level_vectors)
    with severed_antitone [OF l(1) v(3)]
    show "\<exists>v \<in> set ?cands. severed p (mask_of_levels atoms (vector_levels atoms v))" by blast
  qed
  finally show ?thesis .
qed

section \<open>The loop never raises\<close>

text \<open>The digest is the 32 octets that BLAKE2b-256 returns, and no two clauses over the table
  collide: the code relies on both.\<close>

definition corridor_key :: "(octets \<Rightarrow> octets) \<Rightarrow> clause \<Rightarrow> string outcome" where
  "corridor_key raw_digest cl =
     andThen (leb128_seq (map int (sorted_list_of_set cl))) (mint raw_digest CorridorId)"

definition collision_free :: "(octets \<Rightarrow> octets) \<Rightarrow> atom_table \<Rightarrow> bool" where
  "collision_free raw_digest atoms \<longleftrightarrow>
     (\<forall>x. length (raw_digest x) = 32) \<and>
     inj_on (corridor_key raw_digest) (Pow (tl_rank ` set atoms))"

text \<open>Every blocker literal of the program is a literal of the table.\<close>

definition blockable :: "reach_program \<Rightarrow> atom_table \<Rightarrow> bool" where
  "blockable p atoms \<longleftrightarrow>
     (\<forall>i \<in> set (rp_instances p). \<forall>t \<in> set (ri_blockers i). \<forall>k. bit t k \<longrightarrow> k \<in> tl_bit ` set atoms)"

lemma hex_digit_lower: "d < 16 \<Longrightarrow> hex_digit d \<in> set ''0123456789abcdef''"
  unfolding hex_digit_def by (rule nth_mem) simp

lemma hex_of_props: "length (hex_of w n) = w" "is_lower_hex (hex_of w n)"
proof -
  show "length (hex_of w n) = w" by (induction w arbitrary: n) simp_all
  show "is_lower_hex (hex_of w n)"
  proof (induction w arbitrary: n)
    case (Suc w)
    have "set [hex_digit (n mod 16)] \<subseteq> set ''0123456789abcdef''"
      using hex_digit_lower [of "n mod 16"] by simp
    with Suc [of "n div 16"] show ?case
      unfolding is_lower_hex_def hex_of.simps set_append by (rule Un_least)
  qed (simp add: is_lower_hex_def)
qed

lemma hex_octets_props: "length (hex_octets cs) = 2 * length cs" "is_lower_hex (hex_octets cs)"
proof -
  show "length (hex_octets cs) = 2 * length cs"
    by (induction cs) (simp_all add: hex_of_props)
  show "is_lower_hex (hex_octets cs)"
  proof (induction cs)
    case (Cons c cs)
    with hex_of_props(2) [of 2 "of_char c"] show ?case
      unfolding is_lower_hex_def hex_octets.simps set_append by (rule Un_least)
  qed (simp add: is_lower_hex_def)
qed

lemma mint_corridor_id:
  assumes "\<forall>x. length (raw_digest x) = 32"
  shows "\<exists>i. mint raw_digest CorridorId payload = Inr i"
proof -
  have kind: "digest_kind CorridorId = ''cor''" by (simp add: digest_kind_def)
  have sep: "char_of (31::nat) \<noteq> CHR ''c'' \<and> char_of (31::nat) \<noteq> CHR ''o'' \<and> char_of (31::nat) \<noteq> CHR ''r''"
    by code_simp
  let ?h = "hex_octets (take 32 (raw_digest (''spectra/v1/'' @ ''cor'' @ [char_of (31::nat)] @ payload)))"
  have h: "digest_hex raw_digest (digest_kind CorridorId) payload 32 = Inr ?h"
    using sep by (simp add: digest_hex_def digest_def kind is_ascii_def)
  have "is_hex (32 * 2) ?h"
    using assms hex_octets_props by (simp add: is_hex_def)
  then have "construct CorridorId (PREFIX CorridorId @ ?h) = Inr (PREFIX CorridorId @ ?h)"
    unfolding construct_eq_Inr by simp
  with h show ?thesis by (simp add: mint_def)
qed

lemma mint_corridor_ok:
  assumes "\<forall>x. length (raw_digest x) = 32" and "built_table atoms" and "cl \<subseteq> tl_rank ` set atoms"
  shows "\<exists>c m. mask_of_ranks atoms (sorted_list_of_set cl) = Inr m \<and>
    mint_corridor raw_digest (sorted_list_of_set cl) m = Inr c \<and>
    corridor_key raw_digest cl = Inr (cor_id c)"
proof -
  let ?rs = "sorted_list_of_set cl"
  have fin: "finite cl" using assms(3) finite_surj by blast
  then have rs: "set ?rs = cl" by simp
  have rank: "r < length atoms" if "r \<in> set ?rs" for r
    using that assms(3) built_rank_nth(1) [OF assms(2)] by (auto simp: rs)
  let ?m = "foldl (\<lambda>m l. m OR push_bit (tl_bit l) 1) (0::nat) (map ((!) atoms) ?rs)"
  have "mapM (\<lambda>r. if r < length atoms then Inr (atoms ! r) else raises IndexError) ?rs =
      Inr (map ((!) atoms) ?rs)"
    by (rule mapM_Inr) (use rank in simp)
  then have m: "mask_of_ranks atoms ?rs = Inr ?m" by (simp add: mask_of_ranks_def)
  have "?m < 2 ^ 64"
    using mask_of_atoms_less [of "map ((!) atoms) ?rs"] rank built_literal(2) [OF assms(2)]
    by (auto simp: mask_of_atoms_def)
  then obtain t where t: "mask_hex (int ?m) = Inr t" using mask_hex_eq_Inr by blast
  have "mapM leb128 (map int ?rs) = Inr (map (\<lambda>v. leb128_nat (nat v)) (map int ?rs))"
    by (rule mapM_Inr) (auto simp: leb128_def)
  then obtain payload where payload: "leb128_seq (map int ?rs) = Inr payload"
    by (auto simp: leb128_seq_def leb128_def andThen_eq_Inr)
  obtain i where i: "mint raw_digest CorridorId payload = Inr i"
    using mint_corridor_id [OF assms(1)] by blast
  have small: "\<forall>r \<in> set ?rs. andThen (u16 (int r)) (\<lambda>_. Inr ()) = Inr ()"
  proof
    fix r assume "r \<in> set ?rs"
    with rank build_table_facts(2) [OF assms(2)] have "r < 64" by fastforce
    then show "andThen (u16 (int r)) (\<lambda>_. Inr ()) = Inr ()" by (simp add: u16_def uint_def)
  qed
  have "strictly_ascending (map id ?rs)"
    by (simp add: strictly_ascending_sorted_wrt strict_sorted_iff)
  with small t have
    "check_corridor \<lparr>cor_id = i, cor_atom_ranks = ?rs, cor_mask = ?m\<rparr> =
      Inr \<lparr>cor_id = i, cor_atom_ranks = ?rs, cor_mask = ?m\<rparr>"
    by (simp add: check_corridor_def andThen_eq_Inr check_all_eq_Inr check_strictly_ascending_eq_Inr)
  with m payload i show ?thesis
    by (simp add: mint_corridor_def corridor_key_def)
qed

lemma sort_key_distinct_ascending:
  fixes f :: "'a \<Rightarrow> 'b::linorder"
  assumes "distinct (map f xs)"
  shows "strictly_ascending (map f (sort_key f xs))"
  using assms by (simp add: strictly_ascending_iff distinct_map)

lemma finish_total:
  assumes "collision_free raw_digest atoms" and built: "built_table atoms"
    and "distinct clauses" and "\<forall>cl \<in> set clauses. cl \<subseteq> tl_rank ` set atoms"
  shows "\<exists>cs. finish raw_digest p atoms clauses c mn complete sv w steps nodes cap be ch = Inr cs"
proof -
  have dig: "\<forall>x. length (raw_digest x) = 32"
    and inj: "inj_on (corridor_key raw_digest) (Pow (tl_rank ` set atoms))"
    using assms(1) by (simp_all add: collision_free_def)
  have "\<forall>cl \<in> set clauses. \<exists>c. (let ranks = sorted_list_of_set cl in
      andThen (mask_of_ranks atoms ranks) (mint_corridor raw_digest ranks)) = Inr c \<and>
      corridor_key raw_digest cl = Inr (cor_id c)"
  proof
    fix cl assume "cl \<in> set clauses"
    with assms(4) have "cl \<subseteq> tl_rank ` set atoms" by blast
    from mint_corridor_ok [OF dig built this] show "\<exists>c. (let ranks = sorted_list_of_set cl in
        andThen (mask_of_ranks atoms ranks) (mint_corridor raw_digest ranks)) = Inr c \<and>
        corridor_key raw_digest cl = Inr (cor_id c)" by (auto simp: Let_def)
  qed
  then obtain g where g: "\<And>cl. cl \<in> set clauses \<Longrightarrow> (let ranks = sorted_list_of_set cl in
      andThen (mask_of_ranks atoms ranks) (mint_corridor raw_digest ranks)) = Inr (g cl)"
    "\<And>cl. cl \<in> set clauses \<Longrightarrow> corridor_key raw_digest cl = Inr (cor_id (g cl))" by metis
  have "mint_corridors raw_digest atoms clauses = Inr (map g clauses)"
    unfolding mint_corridors_def by (rule mapM_Inr) (rule g(1))
  moreover have "distinct (map cor_id (map g clauses))"
  proof -
    have "cl = cl'" if "cl \<in> set clauses" "cl' \<in> set clauses" "cor_id (g cl) = cor_id (g cl')" for cl cl'
    proof (rule inj_onD [OF inj])
      show "corridor_key raw_digest cl = corridor_key raw_digest cl'" using g(2) that by simp
      show "cl \<in> Pow (tl_rank ` set atoms)" "cl' \<in> Pow (tl_rank ` set atoms)"
        using assms(4) that(1,2) by blast+
    qed
    then show ?thesis using assms(3) by (auto simp: distinct_map inj_on_def)
  qed
  ultimately show ?thesis
    using sort_key_distinct_ascending [of cor_id "map g clauses"]
    by (auto simp: finish_def Let_def andThen_eq_Inr check_strictly_ascending_eq_Inr)
qed

lemma learned_mask_bits:
  assumes ind: "indexed p" and r: "reach p S = Inr r" and der: "rr_derivable r" and k: "bit (learned_mask p S) k"
  shows "\<exists>i \<in> set (rp_instances p). \<exists>t \<in> set (ri_blockers i). bit t k"
proof -
  from learned_mask_spec [OF ind r der] obtain t m where t: "witness_mask p t = Inr m"
    "learned_mask p S = m" "valid_tree (rp_instances p) (rp_axioms p) S t" by blast
  from witness_mask_valid [OF ind t(3)] t(1) have
    "hits m (single k) \<longleftrightarrow> (\<exists>i \<in> set (rp_instances p). ri_instance_id i \<in> tree_ids t \<and>
       instance_blocked i (single k))" by auto
  moreover have "hits m (single k)" using k t(2) by (auto simp: hits_iff bit_single)
  ultimately obtain i b where i: "i \<in> set (rp_instances p)" "b \<in> set (ri_blockers i)" "submask b (single k)"
    by (auto simp: instance_blocked_iff)
  then have "bit_count b = 1" using ind by (auto simp: indexed_def single_literals_def)
  then have "bit b k" using i(3) bit_count_eq_1 [of b] by (auto simp: submask_iff bit_single)
  with i show ?thesis by blast
qed

lemma learned_clause_universe: "learned_clause p atoms S \<subseteq> tl_rank ` set atoms"
  by (auto simp: learned_clause_def set_ranks_of_mask)

lemma fall_back_total:
  assumes ind: "indexed p" and built: "built_table atoms" and cf: "collision_free raw_digest atoms"
    and cl: "distinct clauses" "\<forall>cl \<in> set clauses. cl \<subseteq> tl_rank ` set atoms \<and> cl \<noteq> {}"
  shows "\<exists>cs. fall_back raw_digest p atoms cap clauses nodes steps be ch = Inr cs"
proof -
  have "\<forall>cl \<in> set clauses. cl \<inter> tl_rank ` set atoms \<noteq> {}" using cl(2) by (simp add: Int_absorb2)
  from subset_minimal_spec [OF built this] obtain c l where
    c: "subset_minimal clauses atoms = Inr c" "irredundant_cut atoms clauses c l" by blast
  then have "ct_mask c = mask_of_levels atoms l" by (simp add: irredundant_cut_def mask_of_levels_def)
  then obtain r where r: "reach p (ct_mask c) = Inr r"
    using reach_total mask_of_levels_less [OF built] by metis
  have fin: "\<exists>cs. finish raw_digest p atoms clauses c SUBSET False (\<not> rr_derivable r) w
      (steps + rr_steps r) nodes cap be ch = Inr cs" for w
    by (rule finish_total [OF cf built cl(1)]) (use cl(2) in blast)
  show ?thesis
  proof (cases "rr_derivable r")
    case True
    from learned_mask_spec [OF ind r True] obtain t where "witness_tree p (ct_mask c) r None = Inr t" by blast
    with True c r fin show ?thesis by (simp add: fall_back_def)
  next
    case False
    with c r fin show ?thesis by (simp add: fall_back_def)
  qed
qed

lemma clauses_cut_exists:
  assumes "\<forall>cl \<in> set clauses. cl \<subseteq> tl_rank ` set atoms \<and> cl \<noteq> {}"
  shows "\<exists>k. cut_exists atoms clauses (set (controls atoms)) k"
proof -
  have "controls_hit atoms clauses (set (controls atoms))"
    unfolding hits_clauses_whole using assms by (simp add: Int_absorb2)
  then show ?thesis unfolding cut_exists_def by blast
qed

lemma learned_clause_nonempty:
  assumes ind: "indexed p" and "blockable p atoms" and r: "reach p S = Inr r" and der: "rr_derivable r"
    and "learned_mask p S \<noteq> 0"
  shows "learned_clause p atoms S \<noteq> {}"
proof -
  from assms(5) obtain k where k: "bit (learned_mask p S) k" by (auto simp: mask_eq_0_iff)
  with learned_mask_bits [OF ind r der] assms(2) obtain a where "a \<in> set atoms" "tl_bit a = k"
    by (fastforce simp: blockable_def)
  with k show ?thesis by (auto simp: learned_clause_def set_ranks_of_mask)
qed

lemma psi_loop_total:
  assumes ind: "indexed p" and built: "built_table atoms" and cf: "collision_free raw_digest atoms"
    and bl: "blockable p atoms"
  shows "distinct clauses \<Longrightarrow> \<forall>cl \<in> set clauses. cl \<subseteq> tl_rank ` set atoms \<and> cl \<noteq> {} \<Longrightarrow>
     \<exists>cs. psi_loop raw_digest p atoms budget cap clauses nodes steps = Inr cs"
proof (induction "cap - length clauses" arbitrary: clauses nodes steps rule: less_induct)
  case less
  show ?case
  proof (cases rule: psi_loop_cases [OF built, of raw_digest p budget cap clauses nodes steps])
    case (1 nodes')
    with fall_back_total [OF ind built cf less.prems] show ?thesis by simp
  next
    case 2
    with clauses_cut_exists [OF less.prems(2)] show ?thesis by blast
  next
    case cut: (3 n c l r nodes')
    show ?thesis
    proof (cases "rr_derivable r")
      case False
      with cut(8) finish_total [OF cf built less.prems(1)] less.prems(2) show ?thesis by simp
    next
      case der: True
      from learned_mask_spec [OF ind cut(6) der] obtain t m where
        t: "witness_tree p (ct_mask c) r None = Inr t" "witness_mask p t = Inr m"
          "learned_mask p (ct_mask c) = m" by blast
      let ?cl = "set (ranks_of_mask atoms m)"
      have cl: "?cl = learned_clause p atoms (mask_of_levels atoms l)"
        using t(3) cut(3) by (simp add: learned_clause_def)
      have "\<not> severed p (mask_of_levels atoms l)"
        using der severed_derivable [OF ind cut(6)] cut(3) by simp
      then have new: "?cl \<notin> set clauses"
        using corridor.clause_fresh [of "(p, atoms)" l "set clauses"] ind built cut(5) cl by simp
      have univ: "\<forall>x \<in> set (clauses @ [?cl]). x \<subseteq> tl_rank ` set atoms \<and> x \<noteq> {}" if "m \<noteq> 0"
        using less.prems(2) learned_clause_nonempty [OF ind bl cut(6) der] that t(3) cut(3)
          learned_clause_universe [of p atoms] cl by simp
      have dist: "distinct (clauses @ [?cl])" using less.prems(1) new by simp
      note turn = cut(9) [OF der t(1,2)]
      consider "m = 0" | "m \<noteq> 0" "cap \<le> length clauses + 1" | "m \<noteq> 0" "\<not> cap \<le> length clauses + 1"
        by blast
      then show ?thesis
      proof cases
        case 1
        with turn finish_total [OF cf built less.prems(1)] less.prems(2) show ?thesis by simp
      next
        case 2
        with turn new fall_back_total [OF ind built cf dist univ] show ?thesis by simp
      next
        case 3
        with turn new less.hyps [OF _ dist univ] show ?thesis by simp
      qed
    qed
  qed
qed

text \<open>A budget that pays for every turn never fires.\<close>

lemma fall_back_budget:
  "fall_back raw_digest p atoms cap clauses nodes steps be ch = Inr cs \<Longrightarrow> cse_budget_exhausted cs = be"
  by (auto simp: fall_back_def andThen_eq_Inr finish_eq_Inr split: if_splits)

lemma psi_loop_budget:
  assumes ind: "indexed p" and built: "built_table atoms"
  shows "psi_loop raw_digest p atoms budget cap clauses nodes steps = Inr cs \<Longrightarrow>
     int nodes + int (cap + 1 - length clauses) * (2 * 2 ^ length (controls atoms)) \<le> budget \<Longrightarrow>
     length clauses \<le> cap \<Longrightarrow> \<not> cse_budget_exhausted cs"
proof (induction "cap - length clauses" arbitrary: clauses nodes steps rule: less_induct)
  case less
  let ?N = "2 * 2 ^ length (controls atoms) :: int"
  have pos: "0 \<le> ?N" by simp
  have "int (cap + 1 - length clauses) = int (cap - length clauses) + 1"
    using less.prems(3) by simp
  then have pay: "int nodes + ?N + int (cap - length clauses) * ?N \<le> budget"
    using less.prems(2) by (simp add: algebra_simps)
  then have enough: "int nodes + ?N \<le> budget"
    using mult_nonneg_nonneg [OF of_nat_0_le_iff [of "cap - length clauses"] pos] by linarith
  show ?case
  proof (cases rule: psi_loop_cases [OF built, of raw_digest p budget cap clauses nodes steps])
    case (1 nodes')
    with enough show ?thesis by blast
  next
    case 2
    with less.prems(1) show ?thesis by simp
  next
    case cut: (3 n c l r nodes')
    show ?thesis
    proof (cases "rr_derivable r")
      case False
      with cut(8) less.prems(1) have "finish raw_digest p atoms clauses c EXACT_PSI_RELATIVE True
          True None (steps + rr_steps r) nodes' cap False False = Inr cs" by simp
      then show ?thesis by (simp add: finish_eq_Inr)
    next
      case der: True
      from learned_mask_spec [OF ind cut(6) der] obtain t m where
        t: "witness_tree p (ct_mask c) r None = Inr t" "witness_mask p t = Inr m" by blast
      let ?cl = "set (ranks_of_mask atoms m)"
      note loop' = less.prems(1) [unfolded cut(9) [OF der t]]
      consider "m = 0" | "m \<noteq> 0" "cap \<le> length clauses + 1" | "m \<noteq> 0" "\<not> cap \<le> length clauses + 1"
        by blast
      then show ?thesis
      proof cases
        case 1
        with loop' have "finish raw_digest p atoms clauses c UNVERIFIED True False (Some t)
            (steps + rr_steps r) nodes' cap False False = Inr cs" by simp
        then show ?thesis by (simp add: finish_eq_Inr)
      next
        case 2
        with loop' have "fall_back raw_digest p atoms cap (clauses @ [?cl]) nodes'
            (steps + rr_steps r) False True = Inr cs" by (simp split: if_splits)
        then show ?thesis by (simp add: fall_back_budget)
      next
        case 3
        with loop' have rec: "psi_loop raw_digest p atoms budget cap (clauses @ [?cl]) nodes'
            (steps + rr_steps r) = Inr cs" by (simp split: if_splits)
        have "int nodes' \<le> int nodes + ?N"
          using of_nat_mono [OF cut(7) [OF enough], where 'a = int] by simp
        then have "int nodes' + int (cap + 1 - length (clauses @ [?cl])) * ?N \<le> budget"
          using pay by simp
        with less.hyps [OF _ rec] 3 show ?thesis by simp
      qed
    qed
  qed
qed

section \<open>Properties\<close>

definition sample_digest :: "octets \<Rightarrow> octets" where
  "sample_digest x = take 32 (rev x @ replicate 32 (CHR ''x''))"

lemma sample_blockable: "blockable sample_program sample_atoms"
proof -
  have bits: "bit (1::nat) k \<longleftrightarrow> k = 0" "bit (2::nat) k \<longleftrightarrow> k = 1" "bit (4::nat) k \<longleftrightarrow> k = 2" for k
    using bit_single [of 0 k] bit_single [of 1 k] bit_single [of 2 k] by simp_all
  have suc: "bit (Suc 0) k \<longleftrightarrow> k = 0" for k using bits(1) by simp
  show ?thesis
    by (auto simp: blockable_def sample_program_def sample_instances_def sample_instance_def
        sample_atoms_def sample_literal_def bits suc)
qed

lemma sample_collision_free: "collision_free sample_digest sample_atoms"
proof -
  let ?cls = "[{}, {0}, {1}, {2}, {0, 1}, {0, 2}, {1, 2}, {0, 1, 2}] :: clause list"
  have "Pow (tl_rank ` set sample_atoms) = set ?cls" by code_simp
  moreover have "distinct (map (corridor_key sample_digest) ?cls)" by code_simp
  then have "inj_on (corridor_key sample_digest) (set ?cls)"
    by (simp only: distinct_map)
  ultimately have "inj_on (corridor_key sample_digest) (Pow (tl_rank ` set sample_atoms))"
    by (simp only:)
  moreover have "length (sample_digest x) = 32" for x by (simp add: sample_digest_def)
  ultimately show ?thesis by (simp add: collision_free_def)
qed

lemma sample_search:
  "map_sum id (\<lambda>cs. (cse_minimality cs, cse_severs cs, map tl_rank (ct_atoms (cse_cut cs))))
     (enumerate_psi sample_digest sample_program sample_atoms 1000 10) =
   Inr (EXACT_PSI_RELATIVE, True, [0, 2])"
  by code_simp





text \<open>C15. The exhaustive probe earns its label. When it ran, it reports a smaller cut exactly if
  some admissible cut with fewer raised controls severs every goal: testing only the cuts
  one control smaller loses nothing, because severing is monotone.\<close>

theorem exhaustive_probe_exact:
  assumes "build kind insts axs goal evid goals = Inr p" and "built_table atoms"
    and "exhaustive_probe p atoms n combination_cap = Inr pr" and "ep_ran pr"
    and "n \<le> length (controls atoms)"
  shows "ep_smaller_found pr \<longleftrightarrow>
    (\<exists>levels. (\<forall>g \<in> set (rp_goals p). \<not> derives insts axs (mask_of_levels atoms levels) g) \<and>
       cut_cost atoms levels < n)"
  using exhaustive_probe_spec [OF build_indexed(1) [OF assms(1)] assms(2-5)]
  by (simp add: severed_def build_indexed(2,3) [OF assms(1)])

theorem exhaustive_probe_exact_witness:
  "\<not> (\<exists>levels. (\<forall>g \<in> set (rp_goals sample_program).
       \<not> derives sample_instances [''E''] (mask_of_levels sample_atoms levels) g) \<and>
     cut_cost sample_atoms levels < 2)"
proof -
  have pr: "exhaustive_probe sample_program sample_atoms 2 1000 =
      Inr \<lparr>ep_ran = True, ep_cuts_tested = 3, ep_smaller_found = False, ep_skipped_reason = RAN\<rparr>"
    by code_simp
  have len: "length (controls sample_atoms) = 3" by code_simp
  show ?thesis
    using exhaustive_probe_exact [OF sample_build sample_built pr] by (simp add: len)
qed


end
