(* ===== verification/Premium.thy ===== *)
theory Premium
  imports Psi Tables
begin

text \<open>
  \<^verbatim>\<open>spectra_vs/premium.py\<close>: the cut machinery run once per side of the bracket, the controls
  that every minimum cut raises (NEC), those that some minimum cut raises (OCC), and the
  blindness premium, their difference across the two databases. The node counter of each
  solve is charged to one budget, so the loops thread what was spent.
\<close>

section \<open>The bracket\<close>

record bracket =
  br_lower :: cut_search
  br_upper :: cut_search

definition two_sided_bracket ::
    "(octets \<Rightarrow> octets) \<Rightarrow> reach_program \<Rightarrow> reach_program \<Rightarrow> atom_table \<Rightarrow> int \<Rightarrow> nat option
     \<Rightarrow> bracket outcome" where
  "two_sided_bracket raw_digest p_min p_max atoms budget corridor_cap =
     andThen (guard (rp_kind p_min = P_MIN) SchemaError) (\<lambda>_.
     andThen (guard (rp_kind p_max = P_MAX) SchemaError) (\<lambda>_.
     let cap = (case corridor_cap of None \<Rightarrow> CORRIDOR_CAP | Some n \<Rightarrow> n) in
     andThen (enumerate_psi raw_digest p_min atoms budget cap) (\<lambda>lower.
     andThen (enumerate_psi raw_digest p_max atoms budget cap) (\<lambda>upper.
       Inr \<lparr>br_lower = lower, br_upper = upper\<rparr>))))"

definition clauses_of :: "psi \<Rightarrow> clause list" where
  "clauses_of db = map (\<lambda>c. set (cor_atom_ranks c)) (psi_corridors db)"

section \<open>The two solve loops\<close>

record solves_result =
  so_controls :: "string list"
  so_nodes :: nat
  so_solves :: nat
  so_exhausted :: bool

definition exhausted_solves :: "nat \<Rightarrow> nat \<Rightarrow> solves_result" where
  "exhausted_solves spent count =
     \<lparr>so_controls = [], so_nodes = spent, so_solves = count, so_exhausted = True\<rparr>"

definition finished_solves :: "string list \<Rightarrow> nat \<Rightarrow> nat \<Rightarrow> solves_result outcome" where
  "finished_solves found spent count =
     (let ordered = sort found in
      andThen (check_strictly_ascending ordered id) (\<lambda>_.
        Inr \<lparr>so_controls = ordered, so_nodes = spent, so_solves = count, so_exhausted = False\<rparr>))"

fun necessary_loop ::
    "clause list \<Rightarrow> atom_table \<Rightarrow> int \<Rightarrow> nat option \<Rightarrow> string list \<Rightarrow> string list \<Rightarrow> nat \<Rightarrow> nat
     \<Rightarrow> solves_result outcome" where
  "necessary_loop clauses atoms budget baseline [] found spent count =
     finished_solves found spent count"
| "necessary_loop clauses atoms budget baseline (control_id # rest) found spent count =
     (let probe = min_cardinality clauses atoms (budget - int spent) [control_id];
          spent' = spent + mc_nodes probe;
          count' = count + 1 in
      case mc_status probe of
        BUDGET_EXHAUSTED \<Rightarrow> Inr (exhausted_solves spent' count')
      | INFEASIBLE \<Rightarrow>
          necessary_loop clauses atoms budget baseline rest (found @ [control_id]) spent' count'
      | EXACT \<Rightarrow>
          (case (mc_value probe, baseline) of
             (Some value, Some base) \<Rightarrow>
               necessary_loop clauses atoms budget baseline rest
                 (if base < value then found @ [control_id] else found) spent' count'
           | _ \<Rightarrow> raises AssertionError))"

definition necessary_controls :: "psi \<Rightarrow> atom_table \<Rightarrow> int \<Rightarrow> solves_result outcome" where
  "necessary_controls db atoms budget =
     (let clauses = clauses_of db;
          baseline = min_cardinality clauses atoms budget [];
          spent = mc_nodes baseline in
      case mc_status baseline of
        BUDGET_EXHAUSTED \<Rightarrow> Inr (exhausted_solves spent 1)
      | INFEASIBLE \<Rightarrow> raises SchemaError
      | EXACT \<Rightarrow>
          necessary_loop clauses atoms budget (mc_value baseline) (controls atoms) [] spent 1)"

text \<open>The levels of one control: \<open>None\<close> when the budget fired, else whether one pays for itself.\<close>

fun level_pays ::
    "clause list \<Rightarrow> atom_table \<Rightarrow> int \<Rightarrow> nat \<Rightarrow> string \<Rightarrow> nat list \<Rightarrow> nat \<Rightarrow> nat
     \<Rightarrow> (bool option \<times> nat \<times> nat) outcome" where
  "level_pays clauses atoms budget base control_id [] spent count = Inr (Some False, spent, count)"
| "level_pays clauses atoms budget base control_id (level # levels) spent count =
     andThen (mapM (literal_at atoms control_id) [1..<level + 1]) (\<lambda>literals.
     let ranks = set (map tl_rank literals);
         kept = filter (\<lambda>c. c \<inter> ranks = {}) clauses;
         probe = min_cardinality kept atoms (budget - int spent) [control_id];
         spent' = spent + mc_nodes probe;
         count' = count + 1 in
     case mc_status probe of
       BUDGET_EXHAUSTED \<Rightarrow> Inr (None, spent', count')
     | INFEASIBLE \<Rightarrow> level_pays clauses atoms budget base control_id levels spent' count'
     | EXACT \<Rightarrow>
         (case mc_value probe of
            None \<Rightarrow> raises AssertionError
          | Some value \<Rightarrow>
              if 1 + value = base then Inr (Some True, spent', count')
              else level_pays clauses atoms budget base control_id levels spent' count'))"

fun occurring_loop ::
    "clause list \<Rightarrow> atom_table \<Rightarrow> int \<Rightarrow> nat \<Rightarrow> string list \<Rightarrow> string list \<Rightarrow> nat \<Rightarrow> nat
     \<Rightarrow> solves_result outcome" where
  "occurring_loop clauses atoms budget base [] found spent count =
     finished_solves found spent count"
| "occurring_loop clauses atoms budget base (control_id # rest) found spent count =
     andThen (level_pays clauses atoms budget base control_id
                [1..<max_level atoms control_id + 1] spent count) (\<lambda>(occurs, spent', count').
       case occurs of
         None \<Rightarrow> Inr (exhausted_solves spent' count')
       | Some b \<Rightarrow>
           occurring_loop clauses atoms budget base rest
             (if b then found @ [control_id] else found) spent' count')"

definition occurring_controls :: "psi \<Rightarrow> atom_table \<Rightarrow> int \<Rightarrow> solves_result outcome" where
  "occurring_controls db atoms budget =
     (let clauses = clauses_of db;
          baseline = min_cardinality clauses atoms budget [];
          spent = mc_nodes baseline in
      case mc_status baseline of
        BUDGET_EXHAUSTED \<Rightarrow> Inr (exhausted_solves spent 1)
      | INFEASIBLE \<Rightarrow> raises SchemaError
      | EXACT \<Rightarrow>
          (case mc_value baseline of
             None \<Rightarrow> raises AssertionError
           | Some base \<Rightarrow> occurring_loop clauses atoms budget base (controls atoms) [] spent 1))"

section \<open>The premium\<close>

datatype suppressed_reason =
  GROUNDING_CAPPED | CORRIDOR_CAP_HIT | SOLVER_BUDGET | HORIZON_TRUNCATED | ER_AMBIGUOUS

record premium_result =
  pm_published :: bool
  pm_suppressed_reason :: "suppressed_reason option"
  pm_nec_max :: "string list"
  pm_occ_min :: "string list"
  pm_blindness_premium :: "string list"
  pm_solves :: nat
  pm_bb_nodes :: nat

definition suppressed :: "suppressed_reason \<Rightarrow> nat \<Rightarrow> nat \<Rightarrow> premium_result" where
  "suppressed reason nodes count =
     \<lparr>pm_published = False, pm_suppressed_reason = Some reason, pm_nec_max = [], pm_occ_min = [],
      pm_blindness_premium = [], pm_solves = count, pm_bb_nodes = nodes\<rparr>"

definition blindness_premium ::
    "psi \<Rightarrow> psi \<Rightarrow> atom_table \<Rightarrow> int \<Rightarrow> bool \<Rightarrow> bool \<Rightarrow> bool \<Rightarrow> bool \<Rightarrow> premium_result outcome" where
  "blindness_premium psi_min psi_max atoms budget grounding_capped budget_exhausted
       horizon_truncated er_ambiguous =
     (if grounding_capped then Inr (suppressed GROUNDING_CAPPED 0 0)
      else if \<not> psi_complete psi_min \<or> \<not> psi_complete psi_max
      then Inr (suppressed CORRIDOR_CAP_HIT 0 0)
      else if budget_exhausted then Inr (suppressed SOLVER_BUDGET 0 0)
      else if horizon_truncated then Inr (suppressed HORIZON_TRUNCATED 0 0)
      else if er_ambiguous then Inr (suppressed ER_AMBIGUOUS 0 0)
      else if psi_program psi_max \<noteq> P_MAX then raises SchemaError
      else if psi_program psi_min \<noteq> P_MIN then raises SchemaError
      else
        andThen (necessary_controls psi_max atoms budget) (\<lambda>nec.
        if so_exhausted nec then Inr (suppressed SOLVER_BUDGET (so_nodes nec) (so_solves nec))
        else
          andThen (occurring_controls psi_min atoms (budget - int (so_nodes nec))) (\<lambda>occ.
          if so_exhausted occ
          then Inr (suppressed SOLVER_BUDGET (so_nodes nec + so_nodes occ)
                      (so_solves nec + so_solves occ))
          else
            let premium = filter (\<lambda>c. c \<notin> set (so_controls occ)) (so_controls nec) in
            andThen (check_strictly_ascending premium id) (\<lambda>_.
              Inr \<lparr>pm_published = True, pm_suppressed_reason = None,
                   pm_nec_max = so_controls nec, pm_occ_min = so_controls occ,
                   pm_blindness_premium = premium,
                   pm_solves = so_solves nec + so_solves occ,
                   pm_bb_nodes = so_nodes nec + so_nodes occ\<rparr>))))"

definition cut_delta_canonical :: "cut \<Rightarrow> cut \<Rightarrow> string list" where
  "cut_delta_canonical lower upper =
     sort (filter (\<lambda>c. c \<notin> tl_control_id ` set (ct_atoms lower))
       (remdups (map tl_control_id (ct_atoms upper))))"

section \<open>Minimum cuts of a clause database\<close>

text \<open>The controls a level assignment raises, and the assignments of least cost that hit every clause.\<close>

definition raised_controls :: "atom_table \<Rightarrow> level_map \<Rightarrow> string set" where
  "raised_controls atoms levels = {c \<in> set (controls atoms). 1 \<le> level_at levels c}"

definition minimum_cut :: "atom_table \<Rightarrow> clause list \<Rightarrow> level_map \<Rightarrow> bool" where
  "minimum_cut atoms clauses levels \<longleftrightarrow> hits_clauses atoms clauses levels \<and>
     (\<forall>levels'. hits_clauses atoms clauses levels' \<longrightarrow> cut_cost atoms levels \<le> cut_cost atoms levels')"

definition minimum_controls :: "atom_table \<Rightarrow> clause list \<Rightarrow> string set \<Rightarrow> bool" where
  "minimum_controls atoms clauses C \<longleftrightarrow> C \<subseteq> set (controls atoms) \<and> controls_hit atoms clauses C \<and>
     (\<forall>C' \<subseteq> set (controls atoms). controls_hit atoms clauses C' \<longrightarrow> card C \<le> card C')"

lemma cut_cost_raised: "cut_cost atoms levels = card (raised_controls atoms levels)"
  by (simp add: cut_cost_def raised_controls_def)

lemma raised_controls_subset: "raised_controls atoms levels \<subseteq> set (controls atoms)"
  by (auto simp: raised_controls_def simp del: set_controls)

lemma hits_clauses_controls:
  assumes "built_table atoms" and "hits_clauses atoms clauses levels"
  shows "controls_hit atoms clauses (raised_controls atoms levels)"
  unfolding controls_hit_def
proof
  fix cl assume "cl \<in> set clauses"
  with assms(2) obtain a where a: "a \<in> set (raised atoms levels)" "tl_rank a \<in> cl"
    by (auto simp: hits_clauses_def)
  then have "tl_control_id a \<in> set (map tl_control_id (raised atoms levels))" by simp
  then have "tl_control_id a \<in> raised_controls atoms levels"
    by (simp only: control_ids_raised [OF assms(1)] raised_controls_def)
  with a show "\<exists>a \<in> set atoms. tl_control_id a \<in> raised_controls atoms levels \<and> tl_rank a \<in> cl"
    by (auto simp: raised_def)
qed

lemma controls_hit_levels:
  assumes "built_table atoms" and "C \<subseteq> set (controls atoms)" and "controls_hit atoms clauses C"
  shows "\<exists>levels. hits_clauses atoms clauses levels \<and> raised_controls atoms levels = C"
proof (intro exI conjI)
  let ?l = "\<lambda>c. if c \<in> C then Some (max_level atoms c) else None"
  have at: "level_at ?l c = (if c \<in> C then max_level atoms c else 0)" for c
    by (simp add: level_at_def)
  show "hits_clauses atoms clauses ?l"
    unfolding hits_clauses_def
  proof
    fix cl assume "cl \<in> set clauses"
    with assms(3) obtain a where a: "a \<in> set atoms" "tl_control_id a \<in> C" "tl_rank a \<in> cl"
      by (auto simp: controls_hit_def)
    with level_le_max [OF assms(1) a(1)] show "\<exists>a \<in> set (raised atoms ?l). tl_rank a \<in> cl"
      by (auto simp: raised_def at)
  qed
  show "raised_controls atoms ?l = C"
    using max_level_pos [of _ atoms] assms(2)
    by (auto simp: raised_controls_def at subset_iff simp del: set_controls split: if_splits)
qed

lemma minimum_cut_controls:
  assumes "built_table atoms" and "minimum_cut atoms clauses levels"
  shows "minimum_controls atoms clauses (raised_controls atoms levels)"
proof -
  from assms(2) have hit: "hits_clauses atoms clauses levels"
    and least: "\<And>l. hits_clauses atoms clauses l \<Longrightarrow>
      card (raised_controls atoms levels) \<le> card (raised_controls atoms l)"
    unfolding minimum_cut_def cut_cost_raised by blast+
  have "controls_hit atoms clauses (raised_controls atoms levels)"
    by (rule hits_clauses_controls [OF assms(1) hit])
  moreover have "card (raised_controls atoms levels) \<le> card C'"
    if "C' \<subseteq> set (controls atoms)" "controls_hit atoms clauses C'" for C'
    using controls_hit_levels [OF assms(1) that] least by blast
  ultimately show ?thesis by (simp add: minimum_controls_def raised_controls_subset del: set_controls)
qed

lemma minimum_controls_cut:
  assumes "built_table atoms" and "minimum_controls atoms clauses C"
  shows "\<exists>levels. minimum_cut atoms clauses levels \<and> raised_controls atoms levels = C"
proof -
  from assms(2) have C: "C \<subseteq> set (controls atoms)" "controls_hit atoms clauses C"
    and least: "\<And>C'. C' \<subseteq> set (controls atoms) \<Longrightarrow> controls_hit atoms clauses C' \<Longrightarrow> card C \<le> card C'"
    unfolding minimum_controls_def by blast+
  from controls_hit_levels [OF assms(1) C] obtain levels
    where l: "hits_clauses atoms clauses levels" "raised_controls atoms levels = C" by blast
  moreover have "cut_cost atoms levels \<le> cut_cost atoms l'" if "hits_clauses atoms clauses l'" for l'
    unfolding cut_cost_raised l(2)
    by (rule least [OF raised_controls_subset hits_clauses_controls [OF assms(1) that]])
  ultimately show ?thesis unfolding minimum_cut_def by blast
qed

text \<open>The optimum of a database: what an EXACT answer says about all of its minimum cuts.\<close>

lemma minimum_controls_card:
  assumes "\<forall>k. n \<le> k \<longleftrightarrow> cut_exists atoms clauses (set (controls atoms)) k"
  shows "minimum_controls atoms clauses C \<longleftrightarrow>
    C \<subseteq> set (controls atoms) \<and> controls_hit atoms clauses C \<and> card C = n"
proof -
  have least: "n \<le> card C'" if "C' \<subseteq> set (controls atoms)" "controls_hit atoms clauses C'" for C'
    using assms that by (auto simp: cut_exists_def simp del: set_controls)
  obtain D where "D \<subseteq> set (controls atoms)" "controls_hit atoms clauses D" "card D \<le> n"
    using assms unfolding cut_exists_def by blast
  with least have "\<exists>D \<subseteq> set (controls atoms). controls_hit atoms clauses D \<and> card D = n"
    by (meson le_antisym)
  then show ?thesis using least unfolding minimum_controls_def by (metis le_antisym)
qed

lemma controls_hit_mono: "controls_hit atoms clauses C \<Longrightarrow> C \<subseteq> C' \<Longrightarrow> controls_hit atoms clauses C'"
  unfolding controls_hit_def by blast

lemma necessary_iff:
  assumes "\<forall>k. n \<le> k \<longleftrightarrow> cut_exists atoms clauses (set (controls atoms)) k"
  shows "(\<forall>C. minimum_controls atoms clauses C \<longrightarrow> c \<in> C) \<longleftrightarrow>
    \<not> cut_exists atoms clauses (set (controls atoms) - {c}) n"
proof
  assume all: "\<forall>C. minimum_controls atoms clauses C \<longrightarrow> c \<in> C"
  show "\<not> cut_exists atoms clauses (set (controls atoms) - {c}) n"
  proof
    assume "cut_exists atoms clauses (set (controls atoms) - {c}) n"
    then obtain C where C: "C \<subseteq> set (controls atoms)" "c \<notin> C" "controls_hit atoms clauses C" "card C \<le> n"
      unfolding cut_exists_def by blast
    moreover from C have "n \<le> card C"
      using assms unfolding cut_exists_def by blast
    ultimately have "minimum_controls atoms clauses C"
      unfolding minimum_controls_card [OF assms] by simp
    with all C(2) show False by blast
  qed
next
  assume none: "\<not> cut_exists atoms clauses (set (controls atoms) - {c}) n"
  show "\<forall>C. minimum_controls atoms clauses C \<longrightarrow> c \<in> C"
  proof (intro allI impI, rule ccontr)
    fix C assume "minimum_controls atoms clauses C" "c \<notin> C"
    then show False
      using none unfolding minimum_controls_card [OF assms] cut_exists_def by blast
  qed
qed

text \<open>Level \<open>L\<close> of \<open>c\<close> pays for itself when one control plus the rest is an optimum.\<close>

definition missed_by :: "atom_table \<Rightarrow> string \<Rightarrow> nat \<Rightarrow> clause list \<Rightarrow> clause list" where
  "missed_by atoms c level clauses =
     filter (\<lambda>cl. \<not> (\<exists>a \<in> set atoms. tl_control_id a = c \<and> tl_level a \<le> level \<and> tl_rank a \<in> cl)) clauses"

lemma missed_by_insert:
  assumes "controls_hit atoms (missed_by atoms c level clauses) C"
  shows "controls_hit atoms clauses (insert c C)"
  using assms unfolding controls_hit_def missed_by_def by (simp add: Ball_def) blast

lemma missed_by_remove:
  assumes "built_table atoms" and "controls_hit atoms clauses C"
  shows "controls_hit atoms (missed_by atoms c (max_level atoms c) clauses) (C - {c})"
  unfolding controls_hit_def
proof
  fix cl assume "cl \<in> set (missed_by atoms c (max_level atoms c) clauses)"
  then have cl: "cl \<in> set clauses"
    and miss: "\<And>a. a \<in> set atoms \<Longrightarrow> tl_control_id a = c \<Longrightarrow> tl_rank a \<notin> cl"
    using level_le_max [OF assms(1)] by (auto simp: missed_by_def)
  from assms(2) cl obtain a where "a \<in> set atoms" "tl_control_id a \<in> C" "tl_rank a \<in> cl"
    by (auto simp: controls_hit_def)
  with miss show "\<exists>a \<in> set atoms. tl_control_id a \<in> C - {c} \<and> tl_rank a \<in> cl" by blast
qed

lemma paying_level_occurs:
  assumes "\<forall>k. n \<le> k \<longleftrightarrow> cut_exists atoms clauses (set (controls atoms)) k"
    and "c \<in> set (controls atoms)"
    and "cut_exists atoms (missed_by atoms c level clauses) (set (controls atoms) - {c}) v"
  shows "n \<le> 1 + v" and "n = 1 + v \<Longrightarrow> \<exists>C. minimum_controls atoms clauses C \<and> c \<in> C"
proof -
  from assms(3) obtain C where C: "C \<subseteq> set (controls atoms) - {c}" "card C \<le> v"
    "controls_hit atoms (missed_by atoms c level clauses) C" by (auto simp: cut_exists_def)
  have fin: "finite C" using C(1) finite_subset by blast
  have hit: "controls_hit atoms clauses (insert c C)" by (rule missed_by_insert [OF C(3)])
  have sub: "insert c C \<subseteq> set (controls atoms)" using C(1) assms(2) by blast
  have card: "card (insert c C) \<le> 1 + v" using C(2) fin by (simp add: card_insert_if)
  then have "cut_exists atoms clauses (set (controls atoms)) (1 + v)"
    using hit sub unfolding cut_exists_def by blast
  with assms(1) show "n \<le> 1 + v" by blast
  assume n: "n = 1 + v"
  have "n \<le> card (insert c C)" using assms(1) hit sub unfolding cut_exists_def by blast
  with card n have "card (insert c C) = n" by simp
  with hit sub show "\<exists>C. minimum_controls atoms clauses C \<and> c \<in> C"
    unfolding minimum_controls_card [OF assms(1)] by blast
qed

lemma occurring_pays_at_max:
  assumes "built_table atoms"
    and "\<forall>k. n \<le> k \<longleftrightarrow> cut_exists atoms clauses (set (controls atoms)) k"
    and "minimum_controls atoms clauses C" and "c \<in> C"
  shows "cut_exists atoms (missed_by atoms c (max_level atoms c) clauses) (set (controls atoms) - {c}) (n - 1)
    \<and> 1 \<le> n"
proof -
  from assms(3) have C: "C \<subseteq> set (controls atoms)" "controls_hit atoms clauses C" "card C = n"
    unfolding minimum_controls_card [OF assms(2)] by blast+
  have "finite C" using C(1) finite_subset by blast
  with C(3) assms(4) have "card (C - {c}) = n - 1" "1 \<le> n"
    by (auto simp: card_gt_0_iff Suc_le_eq)
  moreover have "C - {c} \<subseteq> set (controls atoms) - {c}" using C(1) by blast
  ultimately show ?thesis
    using missed_by_remove [OF assms(1) C(2), of c] unfolding cut_exists_def by (metis le_refl)
qed

declare set_controls [simp del]

section \<open>What the loops compute\<close>

lemma finished_solves_ok:
  "distinct found \<Longrightarrow> finished_solves found spent count =
     Inr \<lparr>so_controls = sort found, so_nodes = spent, so_solves = count, so_exhausted = False\<rparr>"
  by (simp add: finished_solves_def check_strictly_ascending_def strictly_ascending_iff)

abbreviation optimum_is :: "atom_table \<Rightarrow> clause list \<Rightarrow> string set \<Rightarrow> nat \<Rightarrow> bool" where
  "optimum_is atoms clauses D n \<equiv> (\<forall>k. n \<le> k \<longleftrightarrow> cut_exists atoms clauses D k)"

lemma solve_cases:
  assumes "built_table atoms"
  obtains "mc_status (min_cardinality clauses atoms b excluded) = BUDGET_EXHAUSTED"
  | n where "mc_status (min_cardinality clauses atoms b excluded) = EXACT"
      "mc_value (min_cardinality clauses atoms b excluded) = Some n"
      "optimum_is atoms clauses (set (controls atoms) - set excluded) n"
  | "mc_status (min_cardinality clauses atoms b excluded) = INFEASIBLE"
      "\<And>k. \<not> cut_exists atoms clauses (set (controls atoms) - set excluded) k"
  using min_cardinality_solves [OF assms, of clauses excluded b]
  by (cases "mc_status (min_cardinality clauses atoms b excluded)")
    (auto simp: solves_def split: option.splits)

lemma necessary_loop_spec:
  assumes "built_table atoms" and "distinct (found @ rest)"
    and "necessary_loop clauses atoms budget (Some n) rest found spent count = Inr s"
    and "\<not> so_exhausted s"
  shows "so_controls s = sort (found @
    filter (\<lambda>c. \<not> cut_exists atoms clauses (set (controls atoms) - {c}) n) rest)"
  using assms(2-)
proof (induction rest arbitrary: found spent count)
  case Nil
  then show ?case by (auto simp: finished_solves_ok)
next
  case (Cons c rest)
  let ?D = "set (controls atoms) - {c}"
  have d: "distinct ((found @ [c]) @ rest)" "distinct (found @ rest)" using Cons.prems(1) by auto
  note run = Cons.prems(2) [unfolded necessary_loop.simps Let_def]
  from assms(1) show ?case
  proof (cases rule: solve_cases [where clauses = clauses and b = "budget - int spent" and excluded = "[c]"])
    case 1
    with run Cons.prems(3) show ?thesis by (auto simp: exhausted_solves_def)
  next
    case (2 v)
    then have opt: "optimum_is atoms clauses ?D v" by simp
    then have nv: "n < v \<longleftrightarrow> \<not> cut_exists atoms clauses ?D n" using not_le by blast
    show ?thesis
    proof (cases "n < v")
      case True
      with 2 run Cons.IH [OF d(1) _ Cons.prems(3)] nv show ?thesis by simp
    next
      case False
      with 2 run Cons.IH [OF d(2) _ Cons.prems(3)] nv show ?thesis by simp
    qed
  next
    case 3
    with run Cons.IH [OF d(1) _ Cons.prems(3)] show ?thesis by simp
  qed
qed

lemma necessary_controls_spec:
  assumes "built_table atoms" and "necessary_controls db atoms budget = Inr s" and "\<not> so_exhausted s"
  shows "strictly_ascending (so_controls s) \<and>
    (\<exists>C. minimum_controls atoms (clauses_of db) C) \<and>
    set (so_controls s) = {c \<in> set (controls atoms).
      \<forall>C. minimum_controls atoms (clauses_of db) C \<longrightarrow> c \<in> C}"
  using assms(1)
proof (cases rule: solve_cases [where clauses = "clauses_of db" and b = budget and excluded = "[]"])
  case 1
  with assms(2,3) show ?thesis by (auto simp: necessary_controls_def exhausted_solves_def Let_def)
next
  case (2 n)
  then have opt: "optimum_is atoms (clauses_of db) (set (controls atoms)) n" by simp
  have dist: "distinct ([] @ controls atoms)" using distinct_controls [OF assms(1)] by simp
  from assms(2) 2 have "necessary_loop (clauses_of db) atoms budget (Some n) (controls atoms) []
      (mc_nodes (min_cardinality (clauses_of db) atoms budget [])) 1 = Inr s"
    by (simp add: necessary_controls_def Let_def)
  from necessary_loop_spec [OF assms(1) dist this assms(3)]
  have s: "so_controls s = sort (filter (\<lambda>c. \<not> cut_exists atoms (clauses_of db)
      (set (controls atoms) - {c}) n) (controls atoms))" by simp
  have "strictly_ascending (so_controls s)"
    unfolding s using distinct_controls [OF assms(1)] by (simp add: strictly_ascending_iff)
  moreover have "\<exists>C. minimum_controls atoms (clauses_of db) C"
    using opt unfolding minimum_controls_card [OF opt] cut_exists_def by (meson le_antisym le_refl)
  moreover have "set (so_controls s) = {c \<in> set (controls atoms).
      \<forall>C. minimum_controls atoms (clauses_of db) C \<longrightarrow> c \<in> C}"
    unfolding necessary_iff [OF opt] s by (simp del: set_controls)
  ultimately show ?thesis by blast
next
  case 3
  with assms(2) show ?thesis by (simp add: necessary_controls_def Let_def)
qed

lemma mapM_literal_at:
  assumes "built_table atoms" and "c \<in> set (controls atoms)" and "level \<le> max_level atoms c"
  shows "\<exists>ls. mapM (literal_at atoms c) [1..<level + 1] = Inr ls \<and>
    (\<forall>cl. cl \<inter> tl_rank ` set ls = {} \<longleftrightarrow>
      \<not> (\<exists>a \<in> set atoms. tl_control_id a = c \<and> tl_level a \<le> level \<and> tl_rank a \<in> cl))"
proof -
  have at: "\<exists>a. literal_at atoms c l = Inr a \<and> a \<in> set atoms \<and> tl_control_id a = c \<and> tl_level a = l"
    if l: "1 \<le> l" "l \<le> max_level atoms c" for l
  proof -
    have "map tl_level (levels_of atoms c) = [1..<max_level atoms c + 1]"
      by (rule levels_of_levels [OF assms(1)])
    then have "l \<in> tl_level ` set (levels_of atoms c)" using l by (metis (no_types) list.set_map atLeastLessThan_iff
        less_add_one add_less_mono1 le_less_trans set_upt less_Suc_eq_le Suc_eq_plus1)
    then obtain a where a: "a \<in> set atoms" "tl_control_id a = c" "tl_level a = l"
      by (auto simp: levels_of_def)
    then have "find (\<lambda>a. tl_control_id a = c \<and> tl_level a = l) atoms \<noteq> None"
      unfolding find_None_iff by blast
    then obtain b where b: "find (\<lambda>a. tl_control_id a = c \<and> tl_level a = l) atoms = Some b" by blast
    then have "b \<in> set atoms" "tl_control_id b = c" "tl_level b = l"
      by (auto simp: find_Some_iff)
    with b show ?thesis by (simp add: literal_at_def)
  qed
  define pick where "pick l = (SOME a. literal_at atoms c l = Inr a)" for l
  have pick: "literal_at atoms c l = Inr (pick l) \<and> pick l \<in> set atoms \<and> tl_control_id (pick l) = c
      \<and> tl_level (pick l) = l" if "1 \<le> l" "l \<le> max_level atoms c" for l
    using at [OF that] unfolding pick_def by auto
  have m: "mapM (literal_at atoms c) [1..<level + 1] = Inr (map pick [1..<level + 1])"
    using pick assms(3) by (intro mapM_Inr) auto
  have uniq: "a = pick (tl_level a)" if "a \<in> set atoms" "tl_control_id a = c" for a
    using that pick [of "tl_level a"] built_order_key_inj [OF assms(1)] built_literal(1) [OF assms(1)]
      level_le_max [OF assms(1)]
    by (metis literal_order_key_def)
  have set: "set (map pick [1..<level + 1]) = {a \<in> set atoms. tl_control_id a = c \<and> tl_level a \<le> level}"
    (is "?L = ?R")
  proof
    show "?L \<subseteq> ?R" using pick assms(3) by fastforce
    show "?R \<subseteq> ?L"
    proof
      fix a assume "a \<in> ?R"
      with uniq [of a] built_literal(1) [OF assms(1), of a]
      show "a \<in> ?L" by (metis (mono_tags, lifting) mem_Collect_eq image_eqI list.set_map set_upt
          atLeastLessThan_iff less_Suc_eq_le Suc_eq_plus1)
    qed
  qed
  have "cl \<inter> tl_rank ` set (map pick [1..<level + 1]) = {} \<longleftrightarrow>
      \<not> (\<exists>a \<in> set atoms. tl_control_id a = c \<and> tl_level a \<le> level \<and> tl_rank a \<in> cl)" for cl
    unfolding set by blast
  with m show ?thesis by blast
qed

lemma level_pays_step:
  assumes "built_table atoms" and "c \<in> set (controls atoms)" and "level \<le> max_level atoms c"
  shows "level_pays clauses atoms budget n c (level # levels) spent count =
    (let probe = min_cardinality (missed_by atoms c level clauses) atoms (budget - int spent) [c];
         spent' = spent + mc_nodes probe in
     case mc_status probe of
       BUDGET_EXHAUSTED \<Rightarrow> Inr (None, spent', count + 1)
     | INFEASIBLE \<Rightarrow> level_pays clauses atoms budget n c levels spent' (count + 1)
     | EXACT \<Rightarrow>
         (case mc_value probe of
            None \<Rightarrow> raises AssertionError
          | Some value \<Rightarrow> if 1 + value = n then Inr (Some True, spent', count + 1)
              else level_pays clauses atoms budget n c levels spent' (count + 1)))"
proof -
  from mapM_literal_at [OF assms] obtain ls where ls: "mapM (literal_at atoms c) [1..<level + 1] = Inr ls"
    "\<And>cl. cl \<inter> tl_rank ` set ls = {} \<longleftrightarrow>
      \<not> (\<exists>a \<in> set atoms. tl_control_id a = c \<and> tl_level a \<le> level \<and> tl_rank a \<in> cl)" by blast
  show ?thesis
    unfolding level_pays.simps ls(1) andThen_simps list.set_map ls(2) missed_by_def Let_def ..
qed

lemma level_pays_spec:
  assumes "built_table atoms" and "c \<in> set (controls atoms)"
    and opt: "optimum_is atoms clauses (set (controls atoms)) n"
    and "\<forall>l \<in> set levels. l \<le> max_level atoms c"
    and "level_pays clauses atoms budget n c levels spent count = Inr (Some b, spent', count')"
  shows "(b \<longrightarrow> (\<exists>C. minimum_controls atoms clauses C \<and> c \<in> C)) \<and>
    (\<not> b \<longrightarrow> max_level atoms c \<in> set levels \<longrightarrow>
       (\<forall>C. minimum_controls atoms clauses C \<longrightarrow> c \<notin> C))"
  using assms(4,5)
proof (induction levels arbitrary: spent count)
  case Nil
  then show ?case by simp
next
  case (Cons level levels)
  let ?kept = "missed_by atoms c level clauses" and ?D = "set (controls atoms) - {c}"
  let ?r = "min_cardinality ?kept atoms (budget - int spent) [c]"
  have le: "level \<le> max_level atoms c" "\<forall>l \<in> set levels. l \<le> max_level atoms c" using Cons.prems(1) by auto
  note run = Cons.prems(2) [unfolded level_pays_step [OF assms(1,2) le(1)] Let_def]
  have at_max: "c \<notin> C" if "minimum_controls atoms clauses C" "level = max_level atoms c"
    "\<not> (cut_exists atoms ?kept ?D (n - 1) \<and> 1 \<le> n)" for C
    using occurring_pays_at_max [OF assms(1) opt that(1), of c] that(2,3) by blast
  from assms(1) show ?case
  proof (cases rule: solve_cases [where clauses = ?kept and b = "budget - int spent" and excluded = "[c]"])
    case 1
    with run show ?thesis by simp
  next
    case (2 v)
    then have v: "optimum_is atoms ?kept ?D v" by simp
    then have pays: "cut_exists atoms ?kept ?D v" by blast
    show ?thesis
    proof (cases "1 + v = n")
      case True
      with 2 run have b by simp
      with paying_level_occurs(2) [OF opt assms(2) pays] True show ?thesis by simp
    next
      case False
      with 2 run Cons.IH [OF le(2)]
      have IH: "(b \<longrightarrow> (\<exists>C. minimum_controls atoms clauses C \<and> c \<in> C)) \<and>
        (\<not> b \<longrightarrow> max_level atoms c \<in> set levels \<longrightarrow>
           (\<forall>C. minimum_controls atoms clauses C \<longrightarrow> c \<notin> C))" by simp
      from False paying_level_occurs(1) [OF opt assms(2) pays]
      have "\<not> (v \<le> n - 1 \<and> 1 \<le> n)" by arith
      with v have "\<not> (cut_exists atoms ?kept ?D (n - 1) \<and> 1 \<le> n)" by blast
      with IH at_max show ?thesis by auto
    qed
  next
    case 3
    with run Cons.IH [OF le(2)]
    have IH: "(b \<longrightarrow> (\<exists>C. minimum_controls atoms clauses C \<and> c \<in> C)) \<and>
      (\<not> b \<longrightarrow> max_level atoms c \<in> set levels \<longrightarrow>
         (\<forall>C. minimum_controls atoms clauses C \<longrightarrow> c \<notin> C))" by simp
    from 3(2) have "\<not> cut_exists atoms ?kept ?D (n - 1)" by simp
    with IH at_max show ?thesis by auto
  qed
qed

lemma occurring_loop_spec:
  assumes "built_table atoms" and opt: "optimum_is atoms clauses (set (controls atoms)) n"
    and "distinct (found @ rest)" and "set rest \<subseteq> set (controls atoms)"
    and "occurring_loop clauses atoms budget n rest found spent count = Inr s"
    and "\<not> so_exhausted s"
  shows "so_controls s = sort (found @
    filter (\<lambda>c. \<exists>C. minimum_controls atoms clauses C \<and> c \<in> C) rest)"
  using assms(3-)
proof (induction rest arbitrary: found spent count)
  case Nil
  then show ?case by (auto simp: finished_solves_ok)
next
  case (Cons c rest)
  let ?occ = "\<exists>C. minimum_controls atoms clauses C \<and> c \<in> C"
  have d: "distinct ((found @ [c]) @ rest)" "distinct (found @ rest)" "set rest \<subseteq> set (controls atoms)"
    and c: "c \<in> set (controls atoms)" using Cons.prems(1,2) by auto
  from Cons.prems(3) obtain occurs spent' count' where
    pays: "level_pays clauses atoms budget n c [1..<max_level atoms c + 1] spent count
      = Inr (occurs, spent', count')"
    and run: "(case occurs of None \<Rightarrow> Inr (exhausted_solves spent' count')
       | Some b \<Rightarrow> occurring_loop clauses atoms budget n rest
           (if b then found @ [c] else found) spent' count') = Inr s"
    by (auto simp: andThen_eq_Inr)
  show ?case
  proof (cases occurs)
    case None
    with run Cons.prems(4) show ?thesis by (auto simp: exhausted_solves_def)
  next
    case (Some b)
    have "max_level atoms c \<in> set [1..<max_level atoms c + 1]"
      using max_level_pos [OF c] by simp
    with level_pays_spec [OF assms(1) c opt _ pays [unfolded Some]]
    have b: "b \<longleftrightarrow> ?occ" by (cases b) auto
    show ?thesis
    proof (cases b)
      case True
      with Some run have r: "occurring_loop clauses atoms budget n rest (found @ [c]) spent' count' = Inr s"
        by simp
      from True b Cons.IH [OF d(1,3) r Cons.prems(4)] show ?thesis by simp
    next
      case False
      with Some run have r: "occurring_loop clauses atoms budget n rest found spent' count' = Inr s"
        by simp
      from False b Cons.IH [OF d(2,3) r Cons.prems(4)] show ?thesis by auto
    qed
  qed
qed

lemma occurring_controls_spec:
  assumes "built_table atoms" and "occurring_controls db atoms budget = Inr s" and "\<not> so_exhausted s"
  shows "strictly_ascending (so_controls s) \<and>
    (\<exists>C. minimum_controls atoms (clauses_of db) C) \<and>
    set (so_controls s) = {c \<in> set (controls atoms).
      \<exists>C. minimum_controls atoms (clauses_of db) C \<and> c \<in> C}"
  using assms(1)
proof (cases rule: solve_cases [where clauses = "clauses_of db" and b = budget and excluded = "[]"])
  case 1
  with assms(2,3) show ?thesis by (auto simp: occurring_controls_def exhausted_solves_def Let_def)
next
  case (2 n)
  then have opt: "optimum_is atoms (clauses_of db) (set (controls atoms)) n" by simp
  have dist: "distinct ([] @ controls atoms)" using distinct_controls [OF assms(1)] by simp
  from assms(2) 2 have "occurring_loop (clauses_of db) atoms budget n (controls atoms) []
      (mc_nodes (min_cardinality (clauses_of db) atoms budget [])) 1 = Inr s"
    by (simp add: occurring_controls_def Let_def)
  from occurring_loop_spec [OF assms(1) opt dist subset_refl this assms(3)]
  have s: "so_controls s = sort (filter (\<lambda>c. \<exists>C. minimum_controls atoms (clauses_of db) C \<and> c \<in> C)
      (controls atoms))" by simp
  have "strictly_ascending (so_controls s)"
    unfolding s using distinct_controls [OF assms(1)] by (simp add: strictly_ascending_iff)
  moreover have "\<exists>C. minimum_controls atoms (clauses_of db) C"
    using opt unfolding minimum_controls_card [OF opt] cut_exists_def by (meson le_antisym le_refl)
  moreover have "set (so_controls s) = {c \<in> set (controls atoms).
      \<exists>C. minimum_controls atoms (clauses_of db) C \<and> c \<in> C}"
    unfolding s by simp
  ultimately show ?thesis by blast
next
  case 3
  with assms(2) show ?thesis by (simp add: occurring_controls_def Let_def)
qed

section \<open>The budget that is always enough\<close>

lemma solve_enough:
  assumes "built_table atoms" and "int spent + int (Suc k) * 2 ^ length (controls atoms) \<le> budget"
  shows "mc_status (min_cardinality clauses atoms (budget - int spent) excluded) \<noteq> BUDGET_EXHAUSTED"
    and "int (spent + mc_nodes (min_cardinality clauses atoms (budget - int spent) excluded))
      + int k * 2 ^ length (controls atoms) \<le> budget"
    and "mc_nodes (min_cardinality clauses atoms (budget - int spent) excluded) \<le> 2 ^ length (controls atoms)"
proof -
  let ?p = "2 ^ length (controls atoms) :: int"
  have "int (Suc k) * ?p = ?p + int k * ?p" by (simp add: distrib_right)
  moreover have "0 \<le> int k * ?p" by simp
  ultimately have "?p \<le> budget - int spent" using assms(2) by linarith
  note enough = min_cardinality_enough [OF this, of clauses excluded]
  show "mc_status (min_cardinality clauses atoms (budget - int spent) excluded) \<noteq> BUDGET_EXHAUSTED"
    by (rule enough(1))
  have "int (mc_nodes (min_cardinality clauses atoms (budget - int spent) excluded)) \<le> ?p"
    using of_nat_mono [OF enough(2), where 'a = int] by (simp only: of_nat_power of_nat_numeral)
  then show "int (spent + mc_nodes (min_cardinality clauses atoms (budget - int spent) excluded))
      + int k * 2 ^ length (controls atoms) \<le> budget"
    using assms(2) \<open>int (Suc k) * ?p = ?p + int k * ?p\<close> by linarith
  show "mc_nodes (min_cardinality clauses atoms (budget - int spent) excluded) \<le> 2 ^ length (controls atoms)"
    by (rule enough(2))
qed

lemma necessary_loop_enough:
  assumes "built_table atoms"
    and "distinct (found @ rest)"
    and "int spent + int (length rest + k) * 2 ^ length (controls atoms) \<le> budget"
  shows "\<exists>s. necessary_loop clauses atoms budget (Some n) rest found spent count = Inr s \<and>
    \<not> so_exhausted s \<and> int (so_nodes s) + int k * 2 ^ length (controls atoms) \<le> budget"
  using assms(2,3)
proof (induction rest arbitrary: found spent count)
  case Nil
  then show ?case by (simp add: finished_solves_ok)
next
  case (Cons c rest)
  have d: "distinct ((found @ [c]) @ rest)" "distinct (found @ rest)" using Cons.prems(1) by auto
  from Cons.prems(2) have "int spent + int (Suc (length rest + k)) * 2 ^ length (controls atoms) \<le> budget"
    by simp
  note solve = solve_enough [OF assms(1) this, of clauses "[c]"]
  from assms(1) show ?case
  proof (cases rule: solve_cases [where clauses = clauses and b = "budget - int spent" and excluded = "[c]"])
    case 1
    with solve(1) show ?thesis by simp
  next
    case (2 v)
    then show ?thesis
      using Cons.IH [OF d(1) solve(2)] Cons.IH [OF d(2) solve(2)] by (simp add: Let_def)
  next
    case 3
    then show ?thesis using Cons.IH [OF d(1) solve(2)] by (simp add: Let_def)
  qed
qed

lemma level_pays_enough:
  assumes "built_table atoms" and "c \<in> set (controls atoms)"
    and "\<forall>l \<in> set levels. l \<le> max_level atoms c"
    and "int spent + int (length levels + k) * 2 ^ length (controls atoms) \<le> budget"
  shows "\<exists>b spent' count'. level_pays clauses atoms budget n c levels spent count = Inr (Some b, spent', count')
    \<and> int spent' + int k * 2 ^ length (controls atoms) \<le> budget"
  using assms(3,4)
proof (induction levels arbitrary: spent count)
  case Nil
  then show ?case by (intro exI [of _ False]) simp
next
  case (Cons level levels)
  let ?kept = "missed_by atoms c level clauses" and ?p = "2 ^ length (controls atoms) :: int"
  let ?r = "min_cardinality ?kept atoms (budget - int spent) [c]"
  have le: "level \<le> max_level atoms c" "\<forall>l \<in> set levels. l \<le> max_level atoms c" using Cons.prems(1) by auto
  from Cons.prems(2) have "int spent + int (Suc (length levels + k)) * ?p \<le> budget" by simp
  note solve = solve_enough [OF assms(1) this, of ?kept "[c]"]
  have slack: "int k * ?p \<le> int (length levels + k) * ?p" by (simp add: mult_right_mono)
  note step = level_pays_step [OF assms(1,2) le(1), of clauses budget n levels spent count]
  from assms(1) show ?case
  proof (cases rule: solve_cases [where clauses = ?kept and b = "budget - int spent" and excluded = "[c]"])
    case 1
    with solve(1) show ?thesis by simp
  next
    case (2 v)
    show ?thesis
    proof (cases "1 + v = n")
      case True
      have "int (spent + mc_nodes ?r) + int k * ?p \<le> budget" using solve(2) slack by linarith
      moreover have "level_pays clauses atoms budget n c (level # levels) spent count =
          Inr (Some True, spent + mc_nodes ?r, count + 1)"
        using 2 True by (simp add: step Let_def del: level_pays.simps)
      ultimately show ?thesis by blast
    next
      case False
      with 2 Cons.IH [OF le(2) solve(2)] show ?thesis by (simp add: step Let_def del: level_pays.simps)
    qed
  next
    case 3
    with Cons.IH [OF le(2) solve(2)] show ?thesis by (simp add: step Let_def del: level_pays.simps)
  qed
qed

lemma occurring_loop_enough:
  assumes "built_table atoms" and "distinct (found @ rest)" and "set rest \<subseteq> set (controls atoms)"
    and "int spent + int (sum_list (map (max_level atoms) rest) + k) * 2 ^ length (controls atoms) \<le> budget"
  shows "\<exists>s. occurring_loop clauses atoms budget n rest found spent count = Inr s \<and> \<not> so_exhausted s"
  using assms(2-)
proof (induction rest arbitrary: found spent count)
  case Nil
  then show ?case by (simp add: finished_solves_ok)
next
  case (Cons c rest)
  have d: "distinct ((found @ [c]) @ rest)" "distinct (found @ rest)" "set rest \<subseteq> set (controls atoms)"
    and c: "c \<in> set (controls atoms)" using Cons.prems(1,2) by auto
  let ?ls = "[1..<max_level atoms c + 1]"
  have "int spent + int (length ?ls + (sum_list (map (max_level atoms) rest) + k))
      * 2 ^ length (controls atoms) \<le> budget"
    using Cons.prems(3) max_level_pos [OF c] by (simp add: add.assoc)
  moreover have "\<forall>l \<in> set ?ls. l \<le> max_level atoms c" by auto
  ultimately obtain b spent' count' where
    pays: "level_pays clauses atoms budget n c ?ls spent count = Inr (Some b, spent', count')"
    and left: "int spent' + int (sum_list (map (max_level atoms) rest) + k) * 2 ^ length (controls atoms) \<le> budget"
    using level_pays_enough [OF assms(1) c, of ?ls spent] by blast
  have "occurring_loop clauses atoms budget n (c # rest) found spent count =
      occurring_loop clauses atoms budget n rest (if b then found @ [c] else found) spent' count'"
    by (simp only: occurring_loop.simps pays andThen_simps prod.case option.case)
  with Cons.IH [OF d(1,3) left] Cons.IH [OF d(2,3) left] show ?case by simp
qed

lemma sum_max_level: "built_table atoms \<Longrightarrow> (\<Sum>c\<leftarrow>controls atoms. max_level atoms c) = length atoms"
  unfolding max_level_def levels_of_def
  by (rule sum_length_filter [OF distinct_controls]) (simp_all add: set_controls)

text \<open>A database every clause of which the whole universe hits.\<close>

definition hittable :: "atom_table \<Rightarrow> psi \<Rightarrow> bool" where
  "hittable atoms db \<longleftrightarrow> (\<forall>cl \<in> set (clauses_of db). cl \<inter> tl_rank ` set atoms \<noteq> {})"

lemma hittable_exact:
  assumes "built_table atoms" and "hittable atoms db" and "2 ^ length (controls atoms) \<le> budget"
  shows "\<exists>n. mc_status (min_cardinality (clauses_of db) atoms budget []) = EXACT \<and>
    mc_value (min_cardinality (clauses_of db) atoms budget []) = Some n"
  using assms(1)
proof (cases rule: solve_cases [where clauses = "clauses_of db" and b = budget and excluded = "[]"])
  case 1
  with min_cardinality_enough(1) [OF assms(3)] show ?thesis by simp
next
  case (2 n)
  then show ?thesis by simp
next
  case 3
  have "controls_hit atoms (clauses_of db) (set (controls atoms))"
    using assms(2) by (auto simp: controls_hit_def hittable_def set_controls)
  with 3(2) show ?thesis by (auto simp: cut_exists_def)
qed

lemma necessary_controls_enough:
  assumes "built_table atoms" and "hittable atoms db"
    and "int (1 + length (controls atoms) + k) * 2 ^ length (controls atoms) \<le> budget"
  shows "\<exists>s. necessary_controls db atoms budget = Inr s \<and> \<not> so_exhausted s \<and>
    int (so_nodes s) + int k * 2 ^ length (controls atoms) \<le> budget"
proof -
  have "int 0 + int (Suc (length (controls atoms) + k)) * 2 ^ length (controls atoms) \<le> budget"
    using assms(3) by simp
  note solve = solve_enough [OF assms(1) this, of "clauses_of db" "[]"]
  have dist: "distinct ([] @ controls atoms)" using distinct_controls [OF assms(1)] by simp
  from assms(1) show ?thesis
  proof (cases rule: solve_cases [where clauses = "clauses_of db" and b = budget and excluded = "[]"])
    case 1
    with solve(1) show ?thesis by simp
  next
    case (2 n)
    have "int (mc_nodes (min_cardinality (clauses_of db) atoms budget []))
        + int (length (controls atoms) + k) * 2 ^ length (controls atoms) \<le> budget"
      using solve(2) by simp
    from necessary_loop_enough [OF assms(1) dist this] 2 show ?thesis
      by (simp add: necessary_controls_def Let_def)
  next
    case 3
    have "controls_hit atoms (clauses_of db) (set (controls atoms))"
      using assms(2) by (auto simp: controls_hit_def hittable_def set_controls)
    with 3(2) show ?thesis by (auto simp: cut_exists_def)
  qed
qed

lemma occurring_controls_enough:
  assumes "built_table atoms" and "hittable atoms db"
    and "int (1 + length atoms) * 2 ^ length (controls atoms) \<le> budget"
  shows "\<exists>s. occurring_controls db atoms budget = Inr s \<and> \<not> so_exhausted s"
proof -
  have "int 0 + int (Suc (length atoms)) * 2 ^ length (controls atoms) \<le> budget"
    using assms(3) by simp
  note solve = solve_enough [OF assms(1) this, of "clauses_of db" "[]"]
  have dist: "distinct ([] @ controls atoms)" using distinct_controls [OF assms(1)] by simp
  from assms(1) show ?thesis
  proof (cases rule: solve_cases [where clauses = "clauses_of db" and b = budget and excluded = "[]"])
    case 1
    with solve(1) show ?thesis by simp
  next
    case (2 n)
    have "int (mc_nodes (min_cardinality (clauses_of db) atoms budget []))
        + int (sum_list (map (max_level atoms) (controls atoms)) + 0) * 2 ^ length (controls atoms) \<le> budget"
      using solve(2) by (simp add: sum_max_level [OF assms(1)])
    from occurring_loop_enough [OF assms(1) dist subset_refl this] 2 show ?thesis
      by (simp add: occurring_controls_def Let_def)
  next
    case 3
    have "controls_hit atoms (clauses_of db) (set (controls atoms))"
      using assms(2) by (auto simp: controls_hit_def hittable_def set_controls)
    with 3(2) show ?thesis by (auto simp: cut_exists_def)
  qed
qed

section \<open>Properties\<close>

lemma every_minimum_cut:
  assumes "built_table atoms" and "c \<in> set (controls atoms)"
  shows "(\<forall>C. minimum_controls atoms clauses C \<longrightarrow> c \<in> C) \<longleftrightarrow>
    (\<forall>levels. minimum_cut atoms clauses levels \<longrightarrow> 1 \<le> level_at levels c)"
  using minimum_controls_cut [OF assms(1)] minimum_cut_controls [OF assms(1)] assms(2)
  by (fastforce simp: raised_controls_def)

lemma some_minimum_cut:
  assumes "built_table atoms" and "c \<in> set (controls atoms)"
  shows "(\<exists>C. minimum_controls atoms clauses C \<and> c \<in> C) \<longleftrightarrow>
    (\<exists>levels. minimum_cut atoms clauses levels \<and> 1 \<le> level_at levels c)"
  using minimum_controls_cut [OF assms(1)] minimum_cut_controls [OF assms(1)] assms(2)
  by (fastforce simp: raised_controls_def)

lemma blindness_premium_cases:
  assumes "blindness_premium psi_min psi_max atoms budget gc be ht er = Inr r"
  obtains reason nodes n where "r = suppressed reason nodes n"
  | nec occ where "\<not> gc" "\<not> be" "\<not> ht" "\<not> er" "psi_complete psi_min" "psi_complete psi_max"
      "psi_program psi_min = P_MIN" "psi_program psi_max = P_MAX"
      "necessary_controls psi_max atoms budget = Inr nec" "\<not> so_exhausted nec"
      "occurring_controls psi_min atoms (budget - int (so_nodes nec)) = Inr occ" "\<not> so_exhausted occ"
      "r = \<lparr>pm_published = True, pm_suppressed_reason = None,
           pm_nec_max = so_controls nec, pm_occ_min = so_controls occ,
           pm_blindness_premium = filter (\<lambda>c. c \<notin> set (so_controls occ)) (so_controls nec),
           pm_solves = so_solves nec + so_solves occ,
           pm_bb_nodes = so_nodes nec + so_nodes occ\<rparr>"
  using assms unfolding blindness_premium_def
  by (simp add: andThen_eq_Inr Let_def check_strictly_ascending_eq_Inr split: if_splits; blast)

text \<open>C4. The premium is a property of the two clause databases. When it is published, no
  precondition failed, NEC are exactly the controls that every minimum cut of the upper
  database raises, OCC those that some minimum cut of the lower database raises, both
  databases have a minimum cut, and the premium, listed in ascending order, holds exactly
  the controls that every minimum cut of the upper database raises and none of the lower
  one does. When it is not published, a reason is given and every list is empty.\<close>

theorem blindness_premium_exact:
  assumes "built_table atoms"
    and "blindness_premium psi_min psi_max atoms budget gc be ht er = Inr r"
  shows "if pm_published r then
      pm_suppressed_reason r = None \<and> \<not> gc \<and> \<not> be \<and> \<not> ht \<and> \<not> er \<and>
      psi_complete psi_min \<and> psi_complete psi_max \<and>
      (\<exists>levels. minimum_cut atoms (clauses_of psi_max) levels) \<and>
      (\<exists>levels. minimum_cut atoms (clauses_of psi_min) levels) \<and>
      strictly_ascending (pm_blindness_premium r) \<and>
      set (pm_nec_max r) = {c \<in> set (controls atoms).
        \<forall>levels. minimum_cut atoms (clauses_of psi_max) levels \<longrightarrow> 1 \<le> level_at levels c} \<and>
      set (pm_occ_min r) = {c \<in> set (controls atoms).
        \<exists>levels. minimum_cut atoms (clauses_of psi_min) levels \<and> 1 \<le> level_at levels c} \<and>
      set (pm_blindness_premium r) = {c \<in> set (controls atoms).
        (\<forall>levels. minimum_cut atoms (clauses_of psi_max) levels \<longrightarrow> 1 \<le> level_at levels c) \<and>
        (\<forall>levels. minimum_cut atoms (clauses_of psi_min) levels \<longrightarrow> level_at levels c = 0)}
    else pm_suppressed_reason r \<noteq> None \<and>
      pm_nec_max r = [] \<and> pm_occ_min r = [] \<and> pm_blindness_premium r = []"
  using assms(2)
proof (cases rule: blindness_premium_cases)
  case (1 reason nodes n)
  then show ?thesis by (simp add: suppressed_def)
next
  case (2 nec occ)
  note N = necessary_controls_spec [OF assms(1) 2(9,10)] and O = occurring_controls_spec [OF assms(1) 2(11,12)]
  have nec: "set (so_controls nec) = {c \<in> set (controls atoms).
      \<forall>levels. minimum_cut atoms (clauses_of psi_max) levels \<longrightarrow> 1 \<le> level_at levels c}"
    using N every_minimum_cut [OF assms(1)] by blast
  have occ: "set (so_controls occ) = {c \<in> set (controls atoms).
      \<exists>levels. minimum_cut atoms (clauses_of psi_min) levels \<and> 1 \<le> level_at levels c}"
    using O some_minimum_cut [OF assms(1)] by blast
  have ex: "\<exists>levels. minimum_cut atoms (clauses_of psi_max) levels"
    "\<exists>levels. minimum_cut atoms (clauses_of psi_min) levels"
    using N O minimum_controls_cut [OF assms(1)] by blast+
  have asc: "strictly_ascending (filter (\<lambda>c. c \<notin> set (so_controls occ)) (so_controls nec))"
    using N by (auto simp: strictly_ascending_iff intro: sorted_wrt_filter)
  have prem: "set (filter (\<lambda>c. c \<notin> set (so_controls occ)) (so_controls nec)) = {c \<in> set (controls atoms).
        (\<forall>levels. minimum_cut atoms (clauses_of psi_max) levels \<longrightarrow> 1 \<le> level_at levels c) \<and>
        (\<forall>levels. minimum_cut atoms (clauses_of psi_min) levels \<longrightarrow> level_at levels c = 0)}"
    unfolding set_filter nec occ by (auto simp: not_le)
  show ?thesis using 2(1-6) ex asc nec occ prem by (simp add: 2(13))
qed

text \<open>A lower database without corridors and an upper one with a single corridor.\<close>

definition arm :: "program_kind \<Rightarrow> nat list list \<Rightarrow> psi" where
  "arm kind rankss = \<lparr>psi_program = kind, psi_complete = True,
     psi_corridors = map (\<lambda>ranks. \<lparr>cor_id = [], cor_atom_ranks = ranks, cor_mask = 0\<rparr>) rankss,
     psi_corridor_cap = 10, psi_bb_nodes = 0\<rparr>"

lemma arm_premium:
  "blindness_premium (arm P_MIN [[0, 1]]) (arm P_MAX [[0, 1], [2]]) sample_atoms 1000 False False False False =
   Inr \<lparr>pm_published = True, pm_suppressed_reason = None, pm_nec_max = [''ctl:c''],
        pm_occ_min = [''ctl:a'', ''ctl:b''], pm_blindness_premium = [''ctl:c''],
        pm_solves = 8, pm_bb_nodes = 24\<rparr>"
  by code_simp

theorem blindness_premium_exact_witness:
  "{''ctl:c''} = {c \<in> set (controls sample_atoms).
      (\<forall>levels. minimum_cut sample_atoms (clauses_of (arm P_MAX [[0, 1], [2]])) levels \<longrightarrow>
         1 \<le> level_at levels c) \<and>
      (\<forall>levels. minimum_cut sample_atoms (clauses_of (arm P_MIN [[0, 1]])) levels \<longrightarrow>
         level_at levels c = 0)}"
  using blindness_premium_exact [OF sample_built arm_premium]
  unfolding premium_result.simps if_True list.set by (elim conjE) assumption

text \<open>An empty premium is the control arm. When both sides enumerated the same corridors and
  the premium is published, it is empty, whatever the table: a control that every minimum
  cut raises is raised by some minimum cut.\<close>

theorem control_arm_premium_empty:
  assumes "built_table atoms"
    and "set (clauses_of psi_min) = set (clauses_of psi_max)"
    and "blindness_premium psi_min psi_max atoms budget gc be ht er = Inr r"
  shows "pm_blindness_premium r = []"
  using assms(3)
proof (cases rule: blindness_premium_cases)
  case (1 reason nodes n)
  then show ?thesis by (simp add: suppressed_def)
next
  case (2 nec occ)
  have same: "minimum_controls atoms (clauses_of psi_min) C \<longleftrightarrow> minimum_controls atoms (clauses_of psi_max) C" for C
    by (simp add: minimum_controls_def controls_hit_def assms(2))
  from necessary_controls_spec [OF assms(1) 2(9,10)] occurring_controls_spec [OF assms(1) 2(11,12)]
  have "set (so_controls nec) \<subseteq> set (so_controls occ)" unfolding same by blast
  then show ?thesis by (auto simp: 2(13) filter_empty_conv)
qed

theorem control_arm_premium_empty_witness:
  "map_sum id pm_blindness_premium (blindness_premium (arm P_MIN [[2], [0, 1]]) (arm P_MAX [[0, 1], [2]])
     sample_atoms 1000 False False False False) = Inr []"
proof (cases "blindness_premium (arm P_MIN [[2], [0, 1]]) (arm P_MAX [[0, 1], [2]])
     sample_atoms 1000 False False False False")
  case (Inl e)
  moreover have "\<not> isl (blindness_premium (arm P_MIN [[2], [0, 1]]) (arm P_MAX [[0, 1], [2]])
     sample_atoms 1000 False False False False)" by code_simp
  ultimately show ?thesis by simp
next
  case (Inr r)
  have "set (clauses_of (arm P_MIN [[2], [0, 1]])) = set (clauses_of (arm P_MAX [[0, 1], [2]]))"
    by (auto simp: arm_def clauses_of_def)
  from control_arm_premium_empty [OF sample_built this Inr] Inr show ?thesis by simp
qed

text \<open>C19. The premium is always computable. On two complete databases of the right sides, every
  clause of which the table can hit, \<open>(2 + controls + literals) * 2 ^ controls\<close> nodes of
  budget are enough for the premium to be published: no solve is cut short, no assertion
  fails and no order check raises.\<close>

theorem blindness_premium_published:
  assumes "built_table atoms" and "hittable atoms psi_min" and "hittable atoms psi_max"
    and "psi_complete psi_min" and "psi_complete psi_max"
    and "psi_program psi_min = P_MIN" and "psi_program psi_max = P_MAX"
    and "int (2 + length (controls atoms) + length atoms) * 2 ^ length (controls atoms) \<le> budget"
  shows "\<exists>r. blindness_premium psi_min psi_max atoms budget False False False False = Inr r \<and> pm_published r"
proof -
  from assms(8) have "int (1 + length (controls atoms) + (1 + length atoms)) * 2 ^ length (controls atoms) \<le> budget"
    by simp
  from necessary_controls_enough [OF assms(1,3) this] obtain nec where
    nec: "necessary_controls psi_max atoms budget = Inr nec" "\<not> so_exhausted nec"
    and left: "int (1 + length atoms) * 2 ^ length (controls atoms) \<le> budget - int (so_nodes nec)"
    by (auto simp: algebra_simps)
  from occurring_controls_enough [OF assms(1,2) left] obtain occ where
    occ: "occurring_controls psi_min atoms (budget - int (so_nodes nec)) = Inr occ" "\<not> so_exhausted occ"
    by blast
  have "strictly_ascending (filter (\<lambda>c. c \<notin> set (so_controls occ)) (so_controls nec))"
    using necessary_controls_spec [OF assms(1) nec]
    by (auto simp: strictly_ascending_iff intro: sorted_wrt_filter)
  with nec occ assms(4-7) show ?thesis
    by (simp add: blindness_premium_def check_strictly_ascending_def Let_def)
qed

theorem blindness_premium_published_witness:
  "\<exists>r. blindness_premium (arm P_MIN []) (arm P_MAX [[2]]) sample_atoms 64 False False False False = Inr r \<and>
     pm_published r"
proof (rule blindness_premium_published [OF sample_built])
  have "length (controls sample_atoms) = 3" "length sample_atoms = 3" by code_simp+
  then show "int (2 + length (controls sample_atoms) + length sample_atoms) * 2 ^ length (controls sample_atoms) \<le> 64"
    by simp
  show "hittable sample_atoms (arm P_MIN [])" "hittable sample_atoms (arm P_MAX [[2]])"
    by (auto simp: hittable_def clauses_of_def arm_def sample_atoms_def sample_literal_def)
qed (simp_all add: arm_def)

section \<open>The bracket is ordered\<close>

lemma derives_mono_program:
  assumes "derives insts axs S f" and "set insts \<subseteq> set insts'" and "set axs \<subseteq> set axs'"
  shows "derives insts' axs' S f"
  using assms(1)
proof induction
  case (seed f)
  with assms(3) show ?case by (blast intro: derives.seed)
next
  case (fire i)
  with assms(2) show ?case by (blast intro: derives.fire)
qed

text \<open>C5. The bracket is ordered. When the upper program contains the lower one, as P_max
  contains P_min, an upper cut that severs also severs the lower side; when the lower side
  cannot be cut neither can the upper one; and when both sides are exact, the lower cut
  raises no more controls than the upper cut.\<close>

theorem bracket_ordered:
  assumes "build P_MIN insts axs goal evid goals = Inr p"
    and "build P_MAX insts' axs' goal' evid' goals' = Inr q"
    and "set insts \<subseteq> set insts'" and "set axs \<subseteq> set axs'" and "set (rp_goals p) \<subseteq> set (rp_goals q)"
    and "built_table atoms"
    and "two_sided_bracket raw_digest p q atoms budget cap = Inr b"
  shows "(cse_severs (br_upper b) \<longrightarrow>
       (\<forall>g \<in> set (rp_goals p). \<not> derives insts axs (ct_mask (cse_cut (br_upper b))) g)) \<and>
    (cse_minimality (br_lower b) = UNVERIFIED \<longrightarrow> \<not> cse_severs (br_upper b)) \<and>
    (cse_minimality (br_lower b) = EXACT_PSI_RELATIVE \<longrightarrow> cse_severs (br_upper b) \<longrightarrow>
       ct_cardinality (cse_cut (br_lower b)) \<le> ct_cardinality (cse_cut (br_upper b)))"
proof -
  note P = build_indexed [OF assms(1)] and Q = build_indexed [OF assms(2)]
  obtain cap' where lo: "psi_loop raw_digest p atoms budget cap' [] 0 0 = Inr (br_lower b)"
    and up: "psi_loop raw_digest q atoms budget cap' [] 0 0 = Inr (br_upper b)"
    using assms(7) by (auto simp: two_sided_bracket_def enumerate_psi_def andThen_eq_Inr Let_def)
  have L: "psi_contract p atoms (br_lower b)"
    by (rule psi_loop_contract [OF P(1) assms(6) _ lo]) simp
  have U: "psi_contract q atoms (br_upper b)"
    by (rule psi_loop_contract [OF Q(1) assms(6) _ up]) simp
  have sev: "severed p S" if "severed q S" for S
    using that assms(5) derives_mono_program [OF _ assms(3,4)]
    unfolding severed_def P(2,3) Q(2,3) by blast
  from U obtain levels where l: "ct_mask (cse_cut (br_upper b)) = mask_of_levels atoms levels"
      "ct_cardinality (cse_cut (br_upper b)) = cut_cost atoms levels"
    and us: "cse_severs (br_upper b) \<longleftrightarrow> severed q (ct_mask (cse_cut (br_upper b)))"
    unfolding psi_contract_def by blast
  have "severed p (mask_of_levels atoms levels)" if "cse_severs (br_upper b)"
    using sev us that l(1) by simp
  moreover have "ct_cardinality (cse_cut (br_lower b)) \<le> cut_cost atoms levels"
    if "cse_minimality (br_lower b) = EXACT_PSI_RELATIVE" "severed p (mask_of_levels atoms levels)"
    using L that by (simp add: psi_contract_def)
  moreover have "\<not> severed p (mask_of_levels atoms levels)"
    if "cse_minimality (br_lower b) = UNVERIFIED"
    using L that by (simp add: psi_contract_def)
  ultimately show ?thesis unfolding l severed_def P(2,3) by blast
qed

definition observed_instances :: "rule_instance list" where
  "observed_instances =
     [sample_instance ''i1'' ''F'' [''E''] [1], sample_instance ''i3'' ''G'' [''E''] [4]]"

lemma blind_bracket:
  "\<exists>p q b. build P_MIN observed_instances [''E''] ''G'' [] None = Inr p \<and>
     build P_MAX sample_instances [''E''] ''G'' [] None = Inr q \<and>
     two_sided_bracket sample_digest p q sample_atoms 1000 (Some 10) = Inr b \<and>
     set (rp_goals p) \<subseteq> set (rp_goals q) \<and>
     cse_minimality (br_lower b) = EXACT_PSI_RELATIVE \<and> cse_severs (br_upper b) \<and>
     ct_cardinality (cse_cut (br_upper b)) = 2"
proof -
  let ?p = "build P_MIN observed_instances [''E''] ''G'' [] None"
  let ?q = "build P_MAX sample_instances [''E''] ''G'' [] None"
  let ?run = "andThen ?p (\<lambda>p. andThen ?q (\<lambda>q.
    andThen (two_sided_bracket sample_digest p q sample_atoms 1000 (Some 10)) (\<lambda>b.
      if set (rp_goals p) \<subseteq> set (rp_goals q) \<and>
        cse_minimality (br_lower b) = EXACT_PSI_RELATIVE \<and> cse_severs (br_upper b) \<and>
        ct_cardinality (cse_cut (br_upper b)) = 2 then Inr () else raises SchemaError)))"
  have "?run = Inr ()" by code_simp
  then show ?thesis by (auto simp: andThen_eq_Inr split: if_splits)
qed

theorem bracket_ordered_witness:
  "\<exists>p q b. two_sided_bracket sample_digest p q sample_atoms 1000 (Some 10) = Inr b \<and>
     ct_cardinality (cse_cut (br_lower b)) \<le> 2"
proof -
  from blind_bracket obtain p q b where run:
    "build P_MIN observed_instances [''E''] ''G'' [] None = Inr p"
    "build P_MAX sample_instances [''E''] ''G'' [] None = Inr q"
    "two_sided_bracket sample_digest p q sample_atoms 1000 (Some 10) = Inr b"
    "set (rp_goals p) \<subseteq> set (rp_goals q)"
    and out: "cse_minimality (br_lower b) = EXACT_PSI_RELATIVE" "cse_severs (br_upper b)"
      "ct_cardinality (cse_cut (br_upper b)) = 2" by blast
  have "set observed_instances \<subseteq> set sample_instances"
    by (auto simp: observed_instances_def sample_instances_def)
  from bracket_ordered [OF run(1,2) this subset_refl run(4) sample_built run(3)] run(3) out
  show ?thesis by auto
qed

text \<open>The difference of the two canonical representatives is a set of controls of the upper cut.\<close>

lemma set_cut_delta:
  "set (cut_delta_canonical lower upper) =
     tl_control_id ` set (ct_atoms upper) - tl_control_id ` set (ct_atoms lower)"
  by (auto simp: cut_delta_canonical_def)

end
