(* ===== verification/Temporal.thy ===== *)
theory Temporal
  imports Tables Model
begin

text \<open>
  \<^verbatim>\<open>spectra_vs/temporal.py\<close>: the temporal-consistency pass over a system of difference
  constraints. The mapping from event ids to recorded timestamps is a map, a \<open>seq\<close> operator
  of the rule table a record, the dictionary of distances of the relaxation a function (every
  node has one from the start). Sequence numbers are natural numbers, as the record model
  requires of an event.
\<close>

section \<open>Events, constraints and violations\<close>

record event =
  ev_event_id :: string
  ev_source_id :: string
  ev_seq :: nat
  ev_t_evt_ns :: int

record constraint =
  co_u :: string
  co_v :: string
  co_weight :: int
  co_kind :: string
  co_detail :: string
  co_event_id :: "string option"

record violation =
  vi_constraint :: constraint
  vi_excess_ns :: int
  vi_pins :: "constraint \<times> constraint"

record seq_operator =
  sq_op :: string
  sq_left :: string
  sq_right :: string
  sq_within_ns :: int

record temporal_result =
  tr_constraints :: "constraint list"
  tr_violations :: "violation list"
  tr_correction_set :: "string list"
  tr_greedy :: bool
  tr_disputed_sources :: "string list"
  tr_budget_exhausted :: bool

definition ZERO_NODE :: string where "ZERO_NODE = ''t:zero''"
definition KIND_PIN :: string where "KIND_PIN = ''PIN''"
definition KIND_SEQ_MONOTONIC :: string where "KIND_SEQ_MONOTONIC = ''SEQ_MONOTONIC''"
definition KIND_RULE_SEQ :: string where "KIND_RULE_SEQ = ''RULE_SEQ''"

definition constraint_sort_key :: "constraint \<Rightarrow> string \<times> string \<times> string \<times> int" where
  "constraint_sort_key c = (co_kind c, co_u c, co_v c, co_weight c)"

definition violation_events :: "violation \<Rightarrow> string \<times> string" where
  "violation_events v = (co_u (vi_constraint v), co_v (vi_constraint v))"

definition violation_cycle :: "violation \<Rightarrow> constraint list" where
  "violation_cycle v = [vi_constraint v, fst (vi_pins v), snd (vi_pins v)]"

definition consistent :: "temporal_result \<Rightarrow> bool" where
  "consistent r = (tr_violations r = [])"

section \<open>Building the system\<close>

definition pins :: "event \<Rightarrow> constraint list" where
  "pins e =
     [\<lparr>co_u = ZERO_NODE, co_v = ev_event_id e, co_weight = ev_t_evt_ns e, co_kind = KIND_PIN,
       co_detail = ''recorded timestamp, upper'', co_event_id = Some (ev_event_id e)\<rparr>,
      \<lparr>co_u = ev_event_id e, co_v = ZERO_NODE, co_weight = - ev_t_evt_ns e, co_kind = KIND_PIN,
       co_detail = ''recorded timestamp, lower'', co_event_id = Some (ev_event_id e)\<rparr>]"

definition seq_order :: "event list \<Rightarrow> event list" where
  "seq_order records = sort_key (\<lambda>e. (ev_seq e, ev_event_id e)) records"

definition monotonic_step :: "string \<Rightarrow> event \<times> event \<Rightarrow> constraint" where
  "monotonic_step source_id = (\<lambda>(previous, following).
     \<lparr>co_u = ev_event_id following, co_v = ev_event_id previous, co_weight = 0,
      co_kind = KIND_SEQ_MONOTONIC,
      co_detail = source_id @ '' seq '' @ decimal (ev_seq previous) @ '' -> '' @ decimal (ev_seq following),
      co_event_id = None\<rparr>)"

definition monotonic_steps :: "string \<times> event list \<Rightarrow> constraint list" where
  "monotonic_steps = (\<lambda>(source_id, records).
     let ordered = seq_order records
     in map (monotonic_step source_id) (zip ordered (tl ordered)))"

definition rule_steps :: "(string \<Rightarrow> seq_operator option) \<Rightarrow> rule_instance \<Rightarrow> constraint list" where
  "rule_steps rule_seq i =
     (case rule_seq (ri_rule_id i) of
        None \<Rightarrow> []
      | Some operator \<Rightarrow>
          if sq_op operator \<noteq> ''seq'' then []
          else
            let bound = map_of (rev (map (\<lambda>ref. (er_binding ref, er_event_id ref)) (ri_evidence i))) in
            (case (bound (sq_left operator), bound (sq_right operator)) of
               (Some left, Some right) \<Rightarrow>
                 [\<lparr>co_u = left, co_v = right, co_weight = sq_within_ns operator,
                   co_kind = KIND_RULE_SEQ, co_detail = ri_rule_id i @ '' within'', co_event_id = None\<rparr>,
                  \<lparr>co_u = right, co_v = left, co_weight = - 1, co_kind = KIND_RULE_SEQ,
                   co_detail = ri_rule_id i @ '' strict order'', co_event_id = None\<rparr>]
             | _ \<Rightarrow> []))"

definition build_constraints ::
    "event list \<Rightarrow> rule_instance list \<Rightarrow> (string \<Rightarrow> seq_operator option) \<Rightarrow> constraint list" where
  "build_constraints events instances rule_seq =
     sort_key constraint_sort_key (from_keys
       (concat (map pins events)
        @ concat (map monotonic_steps (group_by ev_source_id events))
        @ concat (map (rule_steps rule_seq) instances)))"

section \<open>Violations\<close>

text \<open>The dictionaries \<open>lower\<close> and \<open>upper\<close>: the last pin of an event in constraint order wins.\<close>

definition pin_of :: "(constraint \<Rightarrow> bool) \<Rightarrow> constraint list \<Rightarrow> string \<Rightarrow> constraint option" where
  "pin_of side constraints e =
     find (\<lambda>c. co_kind c = KIND_PIN \<and> co_event_id c = Some e \<and> side c) (rev constraints)"

definition violation_of ::
    "constraint list \<Rightarrow> (string \<Rightarrow> int option) \<Rightarrow> constraint \<Rightarrow> violation option" where
  "violation_of constraints recorded c =
     (if co_kind c = KIND_PIN then None
      else case (recorded (co_u c), recorded (co_v c)) of
        (Some tu, Some tv) \<Rightarrow>
          let excess = (tv - tu) - co_weight c in
          if excess \<le> 0 then None
          else (case (pin_of (\<lambda>p. co_v p = ZERO_NODE) constraints (co_v c),
                      pin_of (\<lambda>p. co_v p \<noteq> ZERO_NODE) constraints (co_u c)) of
                  (Some lo, Some up) \<Rightarrow>
                    Some \<lparr>vi_constraint = c, vi_excess_ns = excess, vi_pins = (lo, up)\<rparr>
                | _ \<Rightarrow> None)
      | _ \<Rightarrow> None)"

definition find_violations :: "constraint list \<Rightarrow> (string \<Rightarrow> int option) \<Rightarrow> violation list" where
  "find_violations constraints recorded = List.map_filter (violation_of constraints recorded) constraints"

section \<open>The longest non-decreasing subsequence\<close>

text \<open>\<open>bisect_right\<close> on a sorted list.\<close>

definition bisect_right :: "int list \<Rightarrow> int \<Rightarrow> nat" where
  "bisect_right xs v = length (takeWhile (\<lambda>x. x \<le> v) xs)"

fun patience :: "int list \<Rightarrow> nat list \<Rightarrow> nat list \<Rightarrow> nat option list \<Rightarrow> nat list \<times> nat option list" where
  "patience vals [] tails parent = (tails, parent)"
| "patience vals (index # rest) tails parent =
     (let position = bisect_right (map ((!) vals) tails) (vals ! index);
          parent' = (if 0 < position then parent[index := Some (tails ! (position - 1))] else parent);
          tails' = (if position = length tails then tails @ [index] else tails[position := index])
      in patience vals rest tails' parent')"

text \<open>The walk over the parents; the fuel is the number of values, which the walk cannot exceed.\<close>

fun parents :: "nat \<Rightarrow> nat option list \<Rightarrow> nat option \<Rightarrow> nat list" where
  "parents fuel parent None = []"
| "parents 0 parent (Some cursor) = []"
| "parents (Suc fuel) parent (Some cursor) = cursor # parents fuel parent (parent ! cursor)"

definition longest_non_decreasing :: "int list \<Rightarrow> nat list" where
  "longest_non_decreasing vals =
     (let (tails, parent) = patience vals [0..<length vals] [] (replicate (length vals) None)
      in rev (parents (length vals) parent (if tails = [] then None else Some (last tails))))"

section \<open>Corrections\<close>

definition source_corrections :: "event list \<Rightarrow> string list" where
  "source_corrections records =
     (let ordered = seq_order records;
          keep = set (longest_non_decreasing (map ev_t_evt_ns ordered))
      in map (\<lambda>(i, e). ev_event_id e) (filter (\<lambda>(i, e). i \<notin> keep) (enumerate 0 ordered)))"

definition monotonic_corrections :: "event list \<Rightarrow> string list" where
  "monotonic_corrections events =
     sort (concat (map (\<lambda>(_, records). source_corrections records)
       (sort_key fst (group_by ev_source_id events))))"

text \<open>\<open>itertools.combinations(xs, n)\<close>, in its order.\<close>

fun combinations :: "'a list \<Rightarrow> nat \<Rightarrow> 'a list list" where
  "combinations xs 0 = [[]]"
| "combinations [] (Suc n) = []"
| "combinations (x # xs) (Suc n) = map ((#) x) (combinations xs n) @ combinations xs (Suc n)"

definition pair_set :: "violation \<Rightarrow> string set" where
  "pair_set v = {fst (violation_events v), snd (violation_events v)}"

text \<open>The greedy cover: the event of most remaining pairs, ties to the least id.\<close>

function greedy_cover :: "string list \<Rightarrow> string set list \<Rightarrow> string list \<Rightarrow> string list outcome" where
  "greedy_cover candidates remaining cover =
     (if remaining = [] then Inr cover
      else
        let counts = (\<lambda>e. length (filter (\<lambda>pair. e \<in> pair) remaining)) in
        case sort_key (\<lambda>e. (- int (counts e), e)) (filter (\<lambda>e. counts e \<noteq> 0) candidates) of
          [] \<Rightarrow> raises ValueError
        | best # _ \<Rightarrow>
            greedy_cover candidates (filter (\<lambda>pair. best \<notin> pair) remaining) (cover @ [best]))"
  by pat_completeness auto
termination
proof (relation "measure (\<lambda>(_, remaining, _). length remaining)", goal_cases)
  case (2 candidates remaining cover counts best rest)
  then have "best \<in> set (sort_key (\<lambda>e. (- int (counts e), e)) (filter (\<lambda>e. counts e \<noteq> 0) candidates))"
    by simp
  then have "filter (\<lambda>pair. best \<in> pair) remaining \<noteq> []" using 2(2) by auto
  then obtain pair where "pair \<in> set remaining" "best \<in> pair" by (auto simp: filter_empty_conv)
  then show ?case by (simp add: length_filter_less [of pair])
qed simp

declare greedy_cover.simps [simp del]

definition correction_set ::
    "violation list \<Rightarrow> nat \<Rightarrow> string list \<Rightarrow> (string list \<times> bool) outcome" where
  "correction_set violations cap already =
     (let pairs = filter (\<lambda>p. p \<inter> set already = {}) (map pair_set violations) in
      if pairs = [] then Inr ([], False)
      else
        let candidates = sorted_dedup (concat (map (\<lambda>v. [fst (violation_events v), snd (violation_events v)])
              (filter (\<lambda>v. pair_set v \<inter> set already = {}) violations)));
            exact = (if length candidates \<le> cap
              then find (\<lambda>chosen. \<forall>pair \<in> set pairs. pair \<inter> set chosen \<noteq> {})
                     (concat (map (combinations candidates) [1..<length candidates + 1]))
              else None)
        in case exact of
             Some combination \<Rightarrow> Inr (combination, False)
           | None \<Rightarrow> andThen (greedy_cover candidates pairs []) (\<lambda>cover. Inr (sort cover, True)))"

section \<open>Feasibility\<close>

definition relax :: "constraint list \<Rightarrow> (string \<Rightarrow> int) \<Rightarrow> (string \<Rightarrow> int) \<times> bool" where
  "relax kept distance =
     foldl (\<lambda>(d, changed) c.
         let candidate = d (co_u c) + co_weight c in
         if candidate < d (co_v c) then (d(co_v c := candidate), True) else (d, changed))
       (distance, False) kept"

text \<open>The loop over the rounds; it hands back the distances unless a round changed nothing.\<close>

fun rounds :: "nat \<Rightarrow> constraint list \<Rightarrow> (string \<Rightarrow> int) \<Rightarrow> (string \<Rightarrow> int) option" where
  "rounds 0 kept distance = Some distance"
| "rounds (Suc n) kept distance =
     (let (distance', changed) = relax kept distance
      in if \<not> changed then None else rounds n kept distance')"

definition BUDGET_FACTOR :: nat where "BUDGET_FACTOR = 4"

definition kept_constraints :: "constraint list \<Rightarrow> string set \<Rightarrow> constraint list" where
  "kept_constraints constraints removed =
     filter (\<lambda>c. \<not> (co_kind c = KIND_PIN \<and>
        (case co_event_id c of None \<Rightarrow> False | Some e \<Rightarrow> e \<in> removed))) constraints"

definition graph_nodes :: "constraint list \<Rightarrow> string list" where
  "graph_nodes kept = sorted_dedup (map co_u kept @ map co_v kept @ [ZERO_NODE])"

definition feasible :: "constraint list \<Rightarrow> string set \<Rightarrow> bool" where
  "feasible constraints removed =
     (let kept = kept_constraints constraints removed;
          n = length (graph_nodes kept);
          budget = BUDGET_FACTOR * max n 1
      in case rounds (min n budget) kept (\<lambda>_. 0) of
           None \<Rightarrow> True
         | Some distance \<Rightarrow>
             \<not> (\<exists>c \<in> set kept. distance (co_u c) + co_weight c < distance (co_v c)))"

section \<open>The pass\<close>

definition recorded_times :: "event list \<Rightarrow> string \<Rightarrow> int option" where
  "recorded_times events = map_of (rev (map (\<lambda>e. (ev_event_id e, ev_t_evt_ns e)) events))"

definition source_of :: "event list \<Rightarrow> string \<Rightarrow> string option" where
  "source_of events = map_of (rev (map (\<lambda>e. (ev_event_id e, ev_source_id e)) events))"

definition run_pass ::
    "event list \<Rightarrow> rule_instance list \<Rightarrow> (string \<Rightarrow> seq_operator option) \<Rightarrow> nat
     \<Rightarrow> temporal_result outcome" where
  "run_pass events instances rule_seq cap =
     (let constraints = build_constraints events instances rule_seq;
          violations = find_violations constraints (recorded_times events);
          monotonic = monotonic_corrections events;
          rule_violations = filter (\<lambda>v. co_kind (vi_constraint v) \<noteq> KIND_SEQ_MONOTONIC) violations
      in andThen (correction_set rule_violations cap monotonic) (\<lambda>(extra, greedy).
         let chosen = sorted_dedup (monotonic @ extra);
             disputed = sorted_dedup (List.map_filter (source_of events) chosen)
         in Inr \<lparr>tr_constraints = constraints, tr_violations = violations,
                 tr_correction_set = chosen, tr_greedy = greedy, tr_disputed_sources = disputed,
                 tr_budget_exhausted = chosen \<noteq> [] \<and> \<not> feasible constraints (set chosen)\<rparr>))"

end
