(* ===== verification/Relaxation.thy ===== *)
theory Relaxation
  imports Temporal
begin

text \<open>
  Why \<open>feasible\<close> decides the system it is given: the relaxation of \<^verbatim>\<open>temporal.py\<close> keeps
  every distance the weight of a walk and, after \<open>k\<close> rounds, below the weight of every walk of
  at most \<open>k\<close> edges; a system with a solution has no walk that gains from a cycle.
\<close>

section \<open>Solutions and walks\<close>

definition solution :: "(string \<Rightarrow> int) \<Rightarrow> constraint list \<Rightarrow> bool" where
  "solution t cs \<longleftrightarrow> (\<forall>c \<in> set cs. t (co_v c) - t (co_u c) \<le> co_weight c)"

fun walk :: "constraint list \<Rightarrow> string \<Rightarrow> string \<Rightarrow> bool" where
  "walk [] a b = (a = b)"
| "walk (e # es) a b = (co_u e = a \<and> walk es (co_v e) b)"

definition weight :: "constraint list \<Rightarrow> int" where
  "weight es = sum_list (map co_weight es)"

lemma weight_simps [simp]:
  "weight [] = 0" "weight (e # es) = co_weight e + weight es" "weight (xs @ ys) = weight xs + weight ys"
  by (simp_all add: weight_def)

lemma walk_append: "walk (xs @ ys) a b \<longleftrightarrow> (\<exists>c. walk xs a c \<and> walk ys c b)"
  by (induction xs arbitrary: a) auto

lemma solution_walk: "solution t cs \<Longrightarrow> walk es a b \<Longrightarrow> set es \<subseteq> set cs \<Longrightarrow> t b - t a \<le> weight es"
  by (induction es arbitrary: a) (fastforce simp: solution_def)+

lemma shorten_walk:
  assumes "solution t cs" and "finite V" and "co_v ` set cs \<subseteq> V"
  shows "walk es a b \<Longrightarrow> set es \<subseteq> set cs \<Longrightarrow>
    \<exists>es'. walk es' a b \<and> set es' \<subseteq> set cs \<and> length es' \<le> card V \<and> weight es' \<le> weight es"
proof (induction "length es" arbitrary: es rule: less_induct)
  case less
  show ?case
  proof (cases "length es \<le> card V")
    case True
    with less.prems show ?thesis by blast
  next
    case False
    have "card (set (map co_v es)) \<le> card V"
      using less.prems(2) assms(2,3) by (intro card_mono) auto
    with False have "\<not> distinct (map co_v es)" using distinct_card [of "map co_v es"] by auto
    then obtain xs ys zs y where "map co_v es = xs @ [y] @ ys @ [y] @ zs"
      using not_distinct_decomp by blast
    then obtain A e1 B e2 C where es: "es = A @ [e1] @ B @ [e2] @ C" and y: "co_v e1 = y" "co_v e2 = y"
      by (auto simp: map_eq_append_conv map_eq_Cons_conv append_eq_map_conv Cons_eq_map_conv)
    from less.prems(1) y have w: "walk (A @ [e1]) a y" "walk (B @ [e2]) y y" "walk C y b"
      unfolding es by (auto simp: walk_append)
    have "0 \<le> weight (B @ [e2])"
      using solution_walk [OF assms(1) w(2)] less.prems(2) by (auto simp: es)
    then have le: "weight (A @ [e1] @ C) \<le> weight es" by (simp add: es)
    have "length (A @ [e1] @ C) < length es" "walk (A @ [e1] @ C) a b" "set (A @ [e1] @ C) \<subseteq> set cs"
      using less.prems(2) w(1,3) by (auto simp: es walk_append)
    from less.hyps [OF this] le show ?thesis by (meson order_trans)
  qed
qed

section \<open>One round\<close>

definition attained :: "constraint list \<Rightarrow> (string \<Rightarrow> int) \<Rightarrow> bool" where
  "attained cs d \<longleftrightarrow> (\<forall>x. \<exists>a es. walk es a x \<and> set es \<subseteq> set cs \<and> weight es = d x)"

definition short :: "constraint list \<Rightarrow> nat \<Rightarrow> (string \<Rightarrow> int) \<Rightarrow> bool" where
  "short cs k d \<longleftrightarrow>
     (\<forall>a es x. walk es a x \<longrightarrow> set es \<subseteq> set cs \<longrightarrow> length es \<le> k \<longrightarrow> d x \<le> weight es)"

abbreviation relax_step :: "(string \<Rightarrow> int) \<times> bool \<Rightarrow> constraint \<Rightarrow> (string \<Rightarrow> int) \<times> bool" where
  "relax_step \<equiv> (\<lambda>(d, changed) c.
     let candidate = d (co_u c) + co_weight c in
     if candidate < d (co_v c) then (d(co_v c := candidate), True) else (d, changed))"

lemma relax_fold:
  assumes "foldl relax_step (d, b) es = (d', b')"
  shows "(\<forall>x. d' x \<le> d x) \<and> (\<forall>c \<in> set es. d' (co_v c) \<le> d (co_u c) + co_weight c) \<and>
    (\<not> b' \<longrightarrow> \<not> b \<and> d' = d)"
  using assms
proof (induction es arbitrary: d b)
  case Nil
  then show ?case by simp
next
  case (Cons c es)
  define d1 b1 where "d1 = fst (relax_step (d, b) c)" and "b1 = snd (relax_step (d, b) c)"
  have step: "\<forall>x. d1 x \<le> d x" "d1 (co_v c) \<le> d (co_u c) + co_weight c" "\<not> b1 \<longrightarrow> \<not> b \<and> d1 = d"
    by (auto simp: d1_def b1_def Let_def)
  have "foldl relax_step (d1, b1) es = (d', b')"
    using Cons.prems by (simp add: d1_def b1_def)
  note IH = Cons.IH [OF this]
  have "d' (co_v e) \<le> d (co_u e) + co_weight e" if "e \<in> set es" for e
    using IH that step(1) by (meson add_right_mono order_trans)
  moreover have "d' (co_v c) \<le> d (co_u c) + co_weight c" using IH step(2) by (meson order_trans)
  moreover have "\<forall>x. d' x \<le> d x" using IH step(1) by (meson order_trans)
  ultimately show ?case using IH step(3) by auto
qed

lemma relax_props:
  assumes "relax cs d = (d', changed)"
  shows "d' x \<le> d x" and "c \<in> set cs \<Longrightarrow> d' (co_v c) \<le> d (co_u c) + co_weight c"
    and "\<not> changed \<Longrightarrow> d' = d"
  using relax_fold [OF assms [unfolded relax_def]] by auto

lemma relax_attained:
  assumes "relax cs d = (d', changed)" and "attained cs d"
  shows "attained cs d'"
proof -
  have "attained cs d'" if "foldl relax_step (d, b) es = (d', b')" "set es \<subseteq> set cs" "attained cs d" for es d b b' d'
    using that
  proof (induction es arbitrary: d b)
    case (Cons c es)
    define d1 b1 where "d1 = fst (relax_step (d, b) c)" and "b1 = snd (relax_step (d, b) c)"
    have "attained cs d1"
    proof (cases "d (co_u c) + co_weight c < d (co_v c)")
      case True
      obtain a ws where ws: "walk ws a (co_u c)" "set ws \<subseteq> set cs" "weight ws = d (co_u c)"
        using Cons.prems(3) unfolding attained_def by blast
      with Cons.prems(2) have "walk (ws @ [c]) a (co_v c)" "set (ws @ [c]) \<subseteq> set cs"
        "weight (ws @ [c]) = d (co_u c) + co_weight c" by (auto simp: walk_append)
      then show ?thesis
        using Cons.prems(3) True unfolding attained_def d1_def Let_def by fastforce
    next
      case False
      with Cons.prems(3) show ?thesis by (simp add: d1_def)
    qed
    moreover have "foldl relax_step (d1, b1) es = (d', b')"
      using Cons.prems(1) by (simp add: d1_def b1_def)
    ultimately show ?case using Cons.IH Cons.prems(2) by simp
  qed simp
  from this [OF assms(1) [unfolded relax_def] subset_refl assms(2)] show ?thesis .
qed

lemma relax_short:
  assumes "relax cs d = (d', changed)" and "short cs k d"
  shows "short cs (Suc k) d'"
  unfolding short_def
proof (intro allI impI)
  fix a es x assume es: "walk es a x" "set es \<subseteq> set cs" "length es \<le> Suc k"
  show "d' x \<le> weight es"
  proof (cases "length es \<le> k")
    case True
    then have "d x \<le> weight es" using assms(2) es by (auto simp: short_def)
    with relax_props(1) [OF assms(1), of x] show ?thesis by linarith
  next
    case False
    with es(3) obtain fs e where f: "es = fs @ [e]" "length fs \<le> k" by (cases es rule: rev_cases) auto
    with es have "walk fs a (co_u e)" "set fs \<subseteq> set cs" "x = co_v e" "e \<in> set cs"
      by (auto simp: walk_append)
    moreover from this f have "d (co_u e) \<le> weight fs" using assms(2) by (auto simp: short_def)
    ultimately show ?thesis using relax_props(2) [OF assms(1), of e] f by simp
  qed
qed

section \<open>The rounds\<close>

lemma rounds_spec:
  assumes "attained cs d" and "short cs k d"
  shows "case rounds n cs d of None \<Rightarrow> \<exists>t. solution t cs
    | Some d' \<Rightarrow> attained cs d' \<and> short cs (n + k) d'"
  using assms
proof (induction n arbitrary: d k)
  case 0
  then show ?case by simp
next
  case (Suc n)
  obtain d1 ch where r: "relax cs d = (d1, ch)" by (cases "relax cs d")
  show ?case
  proof (cases ch)
    case True
    with r Suc.IH [OF relax_attained [OF r Suc.prems(1)] relax_short [OF r Suc.prems(2)]]
    show ?thesis by (simp split: option.splits)
  next
    case False
    with relax_props(2,3) [OF r] have "solution d cs" by (fastforce simp: solution_def)
    with False r show ?thesis by auto
  qed
qed

lemma graph_nodes_card: "co_v ` set cs \<subseteq> set (graph_nodes cs)" "length (graph_nodes cs) = card (set (graph_nodes cs))"
  by (auto simp: graph_nodes_def length_sorted_dedup)

text \<open>\<open>min(len(nodes), budget)\<close> is the number of nodes: the budget never bites.\<close>

lemma rounds_bound: "min (length (graph_nodes cs)) (BUDGET_FACTOR * max (length (graph_nodes cs)) 1)
    = length (graph_nodes cs)"
  by (simp add: BUDGET_FACTOR_def)

lemma feasible_solution:
  "feasible constraints removed \<longleftrightarrow> (\<exists>t. solution t (kept_constraints constraints removed))"
proof -
  define cs where "cs = kept_constraints constraints removed"
  define n where "n = length (graph_nodes cs)"
  have "walk [] x x \<and> set [] \<subseteq> set cs \<and> weight [] = 0" for x by simp
  then have start: "attained cs (\<lambda>_. 0)" "short cs 0 (\<lambda>_. 0)"
    unfolding attained_def short_def by (blast, simp)
  have run: "feasible constraints removed \<longleftrightarrow> (case rounds n cs (\<lambda>_. 0) of None \<Rightarrow> True
      | Some d \<Rightarrow> \<not> (\<exists>c \<in> set cs. d (co_u c) + co_weight c < d (co_v c)))"
    unfolding feasible_def Let_def cs_def [symmetric] rounds_bound n_def [symmetric] ..
  show ?thesis
  proof (cases "rounds n cs (\<lambda>_. 0)")
    case None
    with rounds_spec [OF start, of n] run show ?thesis by (simp add: cs_def)
  next
    case (Some d)
    with rounds_spec [OF start, of n] have d: "attained cs d" "short cs n d" by simp_all
    have no_solution: "\<not> solution t cs" if c: "c \<in> set cs" "d (co_u c) + co_weight c < d (co_v c)" for t c
    proof
      assume t: "solution t cs"
      obtain a es where es: "walk es a (co_u c)" "set es \<subseteq> set cs" "weight es = d (co_u c)"
        using d(1) unfolding attained_def by blast
      with c have "walk (es @ [c]) a (co_v c)" "set (es @ [c]) \<subseteq> set cs" by (auto simp: walk_append)
      from shorten_walk [OF t finite_set graph_nodes_card(1) this] obtain fs where
        "walk fs a (co_v c)" "set fs \<subseteq> set cs" "length fs \<le> n" "weight fs \<le> weight (es @ [c])"
        unfolding n_def graph_nodes_card(2) by blast
      with d(2) have "d (co_v c) \<le> weight (es @ [c])" unfolding short_def by (meson order_trans)
      with c(2) es(3) show False by simp
    qed
    have "solution d cs" if "\<not> (\<exists>c \<in> set cs. d (co_u c) + co_weight c < d (co_v c))"
      using that by (force simp: solution_def)
    with no_solution Some run show ?thesis unfolding cs_def by auto
  qed
qed

end
