(* ===== verification/Patience.thy ===== *)
theory Patience
  imports Temporal
begin

text \<open>
  \<open>longest_non_decreasing\<close> of \<^verbatim>\<open>temporal.py\<close> finds a longest non-decreasing subsequence.
  The invariant of the patience scan carries a depth for every value seen: the length of the
  longest subsequence that ends there, which the parents spell out.
\<close>

section \<open>Subsequences by their indices\<close>

definition non_decreasing_at :: "int list \<Rightarrow> nat list \<Rightarrow> bool" where
  "non_decreasing_at vals js \<longleftrightarrow>
     sorted_wrt (<) js \<and> (\<forall>j \<in> set js. j < length vals) \<and> sorted (map ((!) vals) js)"

lemma non_decreasing_at_snoc:
  "non_decreasing_at vals (js @ [j]) \<longleftrightarrow> non_decreasing_at vals js \<and> j < length vals \<and>
     (\<forall>i \<in> set js. i < j \<and> vals ! i \<le> vals ! j)"
  by (auto simp: non_decreasing_at_def sorted_wrt_append sorted_append)

lemma non_decreasing_at_last:
  "non_decreasing_at vals js \<Longrightarrow> i \<in> set js \<Longrightarrow> i \<le> last js \<and> vals ! i \<le> vals ! last js"
  by (cases js rule: rev_cases) (auto simp: non_decreasing_at_snoc)

section \<open>The invariant of the scan\<close>

definition scan_inv :: "int list \<Rightarrow> nat \<Rightarrow> (nat \<Rightarrow> nat) \<Rightarrow> nat list \<Rightarrow> nat option list \<Rightarrow> bool" where
  "scan_inv vals k depth tails parent \<longleftrightarrow>
     length parent = length vals \<and> k \<le> length vals \<and>
     (\<forall>i < k. case parent ! i of None \<Rightarrow> depth i = 1
        | Some j \<Rightarrow> j < i \<and> vals ! j \<le> vals ! i \<and> depth i = depth j + 1) \<and>
     (\<forall>i \<ge> k. i < length vals \<longrightarrow> parent ! i = None) \<and>
     (\<forall>p < length tails. tails ! p < k \<and> depth (tails ! p) = p + 1) \<and>
     (\<forall>i < k. 1 \<le> depth i \<and> depth i \<le> length tails \<and> vals ! (tails ! (depth i - 1)) \<le> vals ! i) \<and>
     sorted (map ((!) vals) tails) \<and>
     (\<forall>js. non_decreasing_at vals js \<longrightarrow> js \<noteq> [] \<longrightarrow> last js < k \<longrightarrow> length js \<le> depth (last js))"

lemma bisect_right_props:
  assumes "sorted xs"
  shows "bisect_right xs v \<le> length xs"
    and "p < bisect_right xs v \<Longrightarrow> xs ! p \<le> v"
    and "p < length xs \<Longrightarrow> xs ! p \<le> v \<Longrightarrow> p < bisect_right xs v"
    and "bisect_right xs v < length xs \<Longrightarrow> v < xs ! bisect_right xs v"
proof -
  show le: "bisect_right xs v \<le> length xs" unfolding bisect_right_def by (rule length_takeWhile_le)
  show "p < bisect_right xs v \<Longrightarrow> xs ! p \<le> v"
    unfolding bisect_right_def by (metis nth_mem set_takeWhileD takeWhile_nth)
  show gt: "bisect_right xs v < length xs \<Longrightarrow> v < xs ! bisect_right xs v"
    unfolding bisect_right_def using nth_length_takeWhile [of "\<lambda>x. x \<le> v" xs] by simp
  show "p < length xs \<Longrightarrow> xs ! p \<le> v \<Longrightarrow> p < bisect_right xs v"
    using gt sorted_nth_mono [OF assms, of "bisect_right xs v" p] by (meson leD le_less_trans not_le order_trans)
qed

lemma sorted_map_upd:
  assumes "sorted (map ((!) vals) tails)" and "p < length tails"
    and "\<And>q. q < p \<Longrightarrow> vals ! (tails ! q) \<le> vals ! k" and "vals ! k \<le> vals ! (tails ! p)"
  shows "sorted (map ((!) vals) (tails[p := k]))"
  unfolding sorted_iff_nth_mono
proof (intro allI impI)
  fix i j assume ij: "i \<le> j" "j < length (map ((!) vals) (tails[p := k]))"
  have mono: "vals ! (tails ! a) \<le> vals ! (tails ! b)" if "a \<le> b" "b < length tails" for a b
    using sorted_nth_mono [OF assms(1) that(1)] that by simp
  show "map ((!) vals) (tails[p := k]) ! i \<le> map ((!) vals) (tails[p := k]) ! j"
    using ij assms(2-4) mono [of i j] mono [of p j]
    by (cases "i = p"; cases "j = p") (auto simp: nth_list_update intro: order_trans)
qed

lemma patience_step:
  assumes inv: "scan_inv vals k depth tails parent" and k: "k < length vals"
    and pos: "pos = bisect_right (map ((!) vals) tails) (vals ! k)"
  shows "scan_inv vals (Suc k) (depth(k := pos + 1))
    (if pos = length tails then tails @ [k] else tails[pos := k])
    (if 0 < pos then parent[k := Some (tails ! (pos - 1))] else parent)"
    (is "scan_inv vals (Suc k) ?d ?t ?p")
proof -
  note I = inv [unfolded scan_inv_def]
  have sorted: "sorted (map ((!) vals) tails)" and len: "length parent = length vals" using I by blast+
  have tails: "tails ! q < k" "depth (tails ! q) = q + 1" if "q < length tails" for q
    using I that by blast+
  note B = bisect_right_props [OF sorted, where v = "vals ! k", folded pos]
  have pos_le: "pos \<le> length tails" using B(1) by simp
  have small: "vals ! (tails ! q) \<le> vals ! k" if "q < pos" for q using B(2) [OF that] that pos_le by simp
  have big: "vals ! k \<le> vals ! (tails ! pos)" if "pos < length tails" using B(4) that by fastforce
  have lens: "length ?t = (if pos = length tails then Suc (length tails) else length tails)" by simp
  have nth_t: "?t ! q = (if q = pos then k else tails ! q)" if "q < length ?t" for q
    using that pos_le by (auto simp: nth_append nth_list_update)
  have t_le: "length tails \<le> length ?t" by simp
  have parents: "case ?p ! i of None \<Rightarrow> ?d i = 1
      | Some j \<Rightarrow> j < i \<and> vals ! j \<le> vals ! i \<and> ?d i = ?d j + 1" if "i < Suc k" for i
  proof (cases "i = k")
    case True
    show ?thesis
    proof (cases "0 < pos")
      case True
      then have "pos - 1 < length tails" "pos - 1 < pos" using pos_le by auto
      with tails [of "pos - 1"] small [of "pos - 1"] \<open>i = k\<close> True k len show ?thesis by auto
    next
      case False
      have "parent ! k = None" using I k by blast
      with False \<open>i = k\<close> show ?thesis by simp
    qed
  next
    case False
    with that have "i < k" by simp
    moreover have "?p ! i = parent ! i" using False by simp
    moreover have "case parent ! i of None \<Rightarrow> depth i = 1
        | Some j \<Rightarrow> j < i \<and> vals ! j \<le> vals ! i \<and> depth i = depth j + 1"
      using I \<open>i < k\<close> by blast
    ultimately show ?thesis using False by (auto split: option.splits)
  qed
  have ends: "?t ! q < Suc k \<and> ?d (?t ! q) = q + 1" if "q < length ?t" for q
    using that tails [of q] pos_le unfolding nth_t [OF that] lens by (auto split: if_splits)
  have depths: "1 \<le> ?d i \<and> ?d i \<le> length ?t \<and> vals ! (?t ! (?d i - 1)) \<le> vals ! i" if "i < Suc k" for i
  proof (cases "i = k")
    case True
    have "pos < length ?t" using pos_le by (simp add: lens)
    with True nth_t [OF this] show ?thesis by simp
  next
    case False
    with that I have i: "1 \<le> depth i" "depth i \<le> length tails" "vals ! (tails ! (depth i - 1)) \<le> vals ! i"
      by auto
    then have q: "depth i - 1 < length tails" "depth i - 1 < length ?t" using t_le by linarith+
    have "vals ! (?t ! (depth i - 1)) \<le> vals ! (tails ! (depth i - 1))"
      using q(1) big unfolding nth_t [OF q(2)] by auto
    with False i t_le show ?thesis by simp
  qed
  have sorted': "sorted (map ((!) vals) ?t)"
  proof (cases "pos = length tails")
    case True
    with sorted small show ?thesis by (auto simp: sorted_append in_set_conv_nth)
  next
    case False
    with pos_le have "pos < length tails" by simp
    from sorted_map_upd [OF sorted this small big [OF this]] False show ?thesis by simp
  qed
  have longest: "length js \<le> ?d (last js)" if js: "non_decreasing_at vals js" "js \<noteq> []" "last js < Suc k" for js
  proof (cases "last js = k")
    case False
    with js I show ?thesis by auto
  next
    case True
    obtain pre where eq: "js = pre @ [k]" using js(2) True by (metis append_butlast_last_id)
    show ?thesis
    proof (cases "pre = []")
      case True
      then show ?thesis by (simp add: eq)
    next
      case False
      have nd: "non_decreasing_at vals pre" and l: "last pre < k" "vals ! last pre \<le> vals ! k"
        using js(1) False unfolding eq by (auto simp: non_decreasing_at_snoc)
      then have "length pre \<le> depth (last pre)" using I False by blast
      moreover have d: "1 \<le> depth (last pre)" "depth (last pre) \<le> length tails"
        "vals ! (tails ! (depth (last pre) - 1)) \<le> vals ! last pre" using I l(1) by blast+
      then have "depth (last pre) - 1 < pos" using B(3) [of "depth (last pre) - 1"] l(2) by auto
      ultimately show ?thesis by (simp add: eq)
    qed
  qed
  have rest: "\<forall>i \<ge> Suc k. i < length vals \<longrightarrow> ?p ! i = None" using I by auto
  show ?thesis
    unfolding scan_inv_def using len k parents rest ends depths sorted' longest by simp
qed

lemma patience_inv:
  assumes "scan_inv vals k depth tails parent"
    and "patience vals [k..<length vals] tails parent = (tails', parent')"
  shows "\<exists>depth'. scan_inv vals (length vals) depth' tails' parent'"
  using assms
proof (induction "length vals - k" arbitrary: k depth tails parent)
  case 0
  then have "k = length vals" by (simp add: scan_inv_def)
  with 0 show ?case by auto
next
  case (Suc m)
  then have k: "k < length vals" by simp
  let ?pos = "bisect_right (map ((!) vals) tails) (vals ! k)"
  have "[k..<length vals] = k # [Suc k..<length vals]" using k by (rule upt_conv_Cons)
  with Suc.prems(2) have "patience vals [Suc k..<length vals]
      (if ?pos = length tails then tails @ [k] else tails[?pos := k])
      (if 0 < ?pos then parent[k := Some (tails ! (?pos - 1))] else parent) = (tails', parent')"
    by (simp add: Let_def)
  with Suc.hyps(1) [OF _ patience_step [OF Suc.prems(1) k refl]] Suc.hyps(2) show ?case by simp
qed

section \<open>The walk over the parents\<close>

lemma parents_spec:
  assumes inv: "scan_inv vals (length vals) depth tails parent"
  shows "i < length vals \<Longrightarrow> i < fuel \<Longrightarrow>
    non_decreasing_at vals (rev (parents fuel parent (Some i))) \<and>
    length (parents fuel parent (Some i)) = depth i \<and> last (rev (parents fuel parent (Some i))) = i"
proof (induction fuel arbitrary: i)
  case 0
  then show ?case by simp
next
  case (Suc fuel)
  have p: "case parent ! i of None \<Rightarrow> depth i = 1
      | Some j \<Rightarrow> j < i \<and> vals ! j \<le> vals ! i \<and> depth i = depth j + 1"
    using inv Suc.prems(1) unfolding scan_inv_def by blast
  show ?case
  proof (cases "parent ! i")
    case None
    with p Suc.prems show ?thesis by (simp add: non_decreasing_at_def)
  next
    case (Some j)
    with p have j: "j < i" "vals ! j \<le> vals ! i" "depth i = depth j + 1" by auto
    with Suc.prems have IH: "non_decreasing_at vals (rev (parents fuel parent (Some j)))"
      "length (parents fuel parent (Some j)) = depth j" "last (rev (parents fuel parent (Some j))) = j"
      using Suc.IH [of j] by auto
    have "x < i \<and> vals ! x \<le> vals ! i" if "x \<in> set (parents fuel parent (Some j))" for x
      using non_decreasing_at_last [OF IH(1), of x] that IH(3) j by auto
    with IH Some j Suc.prems(1) show ?thesis by (simp add: non_decreasing_at_snoc)
  qed
qed

lemma longest_non_decreasing_spec:
  "non_decreasing_at vals (longest_non_decreasing vals) \<and>
   (\<forall>js. non_decreasing_at vals js \<longrightarrow> length js \<le> length (longest_non_decreasing vals))"
proof -
  obtain tails parent where run:
    "patience vals [0..<length vals] [] (replicate (length vals) None) = (tails, parent)"
    by (cases "patience vals [0..<length vals] [] (replicate (length vals) None)")
  have "scan_inv vals 0 (\<lambda>_. 0) [] (replicate (length vals) None)" by (simp add: scan_inv_def)
  from patience_inv [OF this run] obtain depth where
    inv: "scan_inv vals (length vals) depth tails parent" by blast
  have result: "longest_non_decreasing vals =
      rev (parents (length vals) parent (if tails = [] then None else Some (last tails)))"
    by (simp add: longest_non_decreasing_def run)
  have top: "length js \<le> length tails" if "non_decreasing_at vals js" for js
  proof (cases "js = []")
    case False
    with that have "last js < length vals" by (auto simp: non_decreasing_at_def)
    with inv that False have "length js \<le> depth (last js)" "depth (last js) \<le> length tails"
      unfolding scan_inv_def by blast+
    then show ?thesis by (rule le_trans)
  qed simp
  show ?thesis
  proof (cases "tails = []")
    case True
    with result top show ?thesis by (auto simp: non_decreasing_at_def)
  next
    case False
    let ?i = "tails ! (length tails - 1)"
    have "?i < length vals \<and> depth ?i = length tails"
      using inv False unfolding scan_inv_def by (metis One_nat_def Suc_pred diff_less length_greater_0_conv
          less_one add.commute plus_1_eq_Suc)
    with parents_spec [OF inv, of ?i "length vals"] False top result show ?thesis
      by (simp add: last_conv_nth)
  qed
qed

end
