(* ===== verification/TemporalPass.thy ===== *)
theory TemporalPass
  imports Relaxation Patience "HOL-Library.Multiset"
begin

text \<open>
  What the temporal pass promises: every violation it reports is a negative cycle and none is
  missed, the monotonicity corrections are the fewest that order every source, the cover of the
  rule violations is minimum below the cap, and the pass is quiet exactly on consistent records.
\<close>

section \<open>The constraints that are built\<close>

lemma set_build_constraints:
  "set (build_constraints events instances rule_seq) =
     (\<Union>e \<in> set events. set (pins e)) \<union>
     (\<Union>s \<in> ev_source_id ` set events.
        set (monotonic_steps (s, filter (\<lambda>e. ev_source_id e = s) events))) \<union>
     (\<Union>i \<in> set instances. set (rule_steps rule_seq i))"
  by (auto simp: build_constraints_def mem_group_by group_by_eq)

lemma kinds_differ [simp]:
  "KIND_PIN \<noteq> KIND_SEQ_MONOTONIC" "KIND_SEQ_MONOTONIC \<noteq> KIND_PIN" "KIND_PIN \<noteq> KIND_RULE_SEQ"
  "KIND_RULE_SEQ \<noteq> KIND_PIN" "KIND_RULE_SEQ \<noteq> KIND_SEQ_MONOTONIC" "KIND_SEQ_MONOTONIC \<noteq> KIND_RULE_SEQ"
  by (simp_all add: KIND_PIN_def KIND_SEQ_MONOTONIC_def KIND_RULE_SEQ_def)

lemma monotonic_steps_kind: "c \<in> set (monotonic_steps sr) \<Longrightarrow> co_kind c = KIND_SEQ_MONOTONIC \<and> co_weight c = 0"
  by (auto simp: monotonic_steps_def monotonic_step_def Let_def split: prod.splits)

lemma rule_steps_kind: "c \<in> set (rule_steps rule_seq i) \<Longrightarrow> co_kind c = KIND_RULE_SEQ"
  by (auto simp: rule_steps_def Let_def split: option.splits if_splits)

lemma built_pin:
  assumes "c \<in> set (build_constraints events instances rule_seq)" and "co_kind c = KIND_PIN"
  shows "\<exists>e \<in> set events. c \<in> set (pins e)"
  using assms by (auto simp: set_build_constraints dest: monotonic_steps_kind rule_steps_kind)

lemma find_rev_unique:
  assumes "x \<in> set xs" and "P x" and "\<And>y. y \<in> set xs \<Longrightarrow> P y \<Longrightarrow> y = x"
  shows "find P (rev xs) = Some x"
proof (cases "find P (rev xs)")
  case None
  with assms(1,2) show ?thesis by (auto simp: find_None_iff)
next
  case (Some y)
  then have "y \<in> set xs" "P y" by (auto simp: find_Some_iff in_set_conv_nth rev_nth)
      (metis diff_Suc_less length_greater_0_conv less_nat_zero_code list.size(3) nth_mem set_rev rev_nth length_rev)
  with assms(3) Some show ?thesis by simp
qed

definition lower_pin :: "event \<Rightarrow> constraint" where "lower_pin e = pins e ! 1"
definition upper_pin :: "event \<Rightarrow> constraint" where "upper_pin e = pins e ! 0"

lemma set_pins: "set (pins e) = {upper_pin e, lower_pin e}"
  by (simp add: pins_def lower_pin_def upper_pin_def)

lemma pin_simps [simp]:
  "co_u (lower_pin e) = ev_event_id e" "co_v (lower_pin e) = ZERO_NODE"
  "co_weight (lower_pin e) = - ev_t_evt_ns e" "co_kind (lower_pin e) = KIND_PIN"
  "co_event_id (lower_pin e) = Some (ev_event_id e)"
  "co_u (upper_pin e) = ZERO_NODE" "co_v (upper_pin e) = ev_event_id e"
  "co_weight (upper_pin e) = ev_t_evt_ns e" "co_kind (upper_pin e) = KIND_PIN"
  "co_event_id (upper_pin e) = Some (ev_event_id e)"
  by (simp_all add: pins_def lower_pin_def upper_pin_def)

text \<open>What the record model guarantees of a bundle: ids are unique and never the zero node.\<close>

definition proper_events :: "event list \<Rightarrow> bool" where
  "proper_events events \<longleftrightarrow>
     distinct (map ev_event_id events) \<and> ZERO_NODE \<notin> ev_event_id ` set events"

lemma proper_inj:
  "proper_events events \<Longrightarrow> e \<in> set events \<Longrightarrow> e' \<in> set events \<Longrightarrow> ev_event_id e = ev_event_id e' \<Longrightarrow> e = e'"
  by (auto simp: proper_events_def distinct_map inj_on_def)

lemma pin_of_built:
  assumes "proper_events events" and "e \<in> set events"
  shows "pin_of (\<lambda>p. co_v p = ZERO_NODE) (build_constraints events instances rule_seq) (ev_event_id e)
      = Some (lower_pin e)"
    and "pin_of (\<lambda>p. co_v p \<noteq> ZERO_NODE) (build_constraints events instances rule_seq) (ev_event_id e)
      = Some (upper_pin e)"
proof -
  let ?cs = "build_constraints events instances rule_seq"
  have mem: "lower_pin e \<in> set ?cs" "upper_pin e \<in> set ?cs"
    using assms(2) set_pins [of e] by (auto simp: set_build_constraints)
  have zero: "ev_event_id x \<noteq> ZERO_NODE" if "x \<in> set events" for x
    using assms(1) that unfolding proper_events_def by (metis imageI)
  have uniq: "y = (if co_v y = ZERO_NODE then lower_pin e else upper_pin e)"
    if y: "y \<in> set ?cs" "co_kind y = KIND_PIN" "co_event_id y = Some (ev_event_id e)" for y
  proof -
    from built_pin [OF y(1,2)] obtain x where "x \<in> set events" "y \<in> {upper_pin x, lower_pin x}"
      by (auto simp: set_pins)
    with y(3) proper_inj [OF assms(1) this(1) assms(2)] zero [OF this(1)] show ?thesis by auto
  qed
  show "pin_of (\<lambda>p. co_v p = ZERO_NODE) ?cs (ev_event_id e) = Some (lower_pin e)"
    unfolding pin_of_def
  proof (rule find_rev_unique [OF mem(1)])
    show "y = lower_pin e" if "y \<in> set ?cs"
      "co_kind y = KIND_PIN \<and> co_event_id y = Some (ev_event_id e) \<and> co_v y = ZERO_NODE" for y
      using uniq [of y] that by simp
  qed simp
  show "pin_of (\<lambda>p. co_v p \<noteq> ZERO_NODE) ?cs (ev_event_id e) = Some (upper_pin e)"
    unfolding pin_of_def
  proof (rule find_rev_unique [OF mem(2)])
    show "y = upper_pin e" if "y \<in> set ?cs"
      "co_kind y = KIND_PIN \<and> co_event_id y = Some (ev_event_id e) \<and> co_v y \<noteq> ZERO_NODE" for y
      using uniq [of y] that by simp
  qed (simp add: zero [OF assms(2)])
qed

lemma recorded_times_Some:
  assumes "proper_events events"
  shows "recorded_times events x = Some t \<longleftrightarrow> (\<exists>e \<in> set events. ev_event_id e = x \<and> ev_t_evt_ns e = t)"
proof -
  have "distinct (map fst (rev (map (\<lambda>e. (ev_event_id e, ev_t_evt_ns e)) events)))"
    using assms by (simp add: proper_events_def rev_map [symmetric] o_def)
  from map_of_eq_Some_iff [OF this, of x t] show ?thesis by (auto simp: recorded_times_def)
qed

section \<open>Violations\<close>

text \<open>The recorded timestamps satisfy a structural constraint, where both ends have one.\<close>

definition holds :: "event list \<Rightarrow> constraint \<Rightarrow> bool" where
  "holds events c \<longleftrightarrow>
     (\<forall>a \<in> set events. \<forall>b \<in> set events. ev_event_id a = co_u c \<longrightarrow> ev_event_id b = co_v c \<longrightarrow>
        ev_t_evt_ns b - ev_t_evt_ns a \<le> co_weight c)"

lemma violation_of_Some:
  assumes "proper_events events"
  shows "violation_of (build_constraints events instances rule_seq) (recorded_times events) c = Some v \<longleftrightarrow>
    co_kind c \<noteq> KIND_PIN \<and>
    (\<exists>a \<in> set events. \<exists>b \<in> set events. ev_event_id a = co_u c \<and> ev_event_id b = co_v c \<and>
       co_weight c < ev_t_evt_ns b - ev_t_evt_ns a \<and>
       v = \<lparr>vi_constraint = c, vi_excess_ns = ev_t_evt_ns b - ev_t_evt_ns a - co_weight c,
            vi_pins = (lower_pin b, upper_pin a)\<rparr>)"
    (is "?l \<longleftrightarrow> ?r")
proof -
  have none: "recorded_times events x = None \<longleftrightarrow> (\<forall>e \<in> set events. ev_event_id e \<noteq> x)" for x
    using recorded_times_Some [OF assms, of x] by (metis not_None_eq)
  show ?thesis
  proof (cases "\<exists>a \<in> set events. \<exists>b \<in> set events. ev_event_id a = co_u c \<and> ev_event_id b = co_v c")
    case True
    then obtain a b where ab: "a \<in> set events" "b \<in> set events" "ev_event_id a = co_u c" "ev_event_id b = co_v c"
      by blast
    then have t: "recorded_times events (co_u c) = Some (ev_t_evt_ns a)"
      "recorded_times events (co_v c) = Some (ev_t_evt_ns b)"
      using recorded_times_Some [OF assms] by blast+
    note pins = pin_of_built(1) [OF assms ab(2), of instances rule_seq, unfolded ab(4)]
      pin_of_built(2) [OF assms ab(1), of instances rule_seq, unfolded ab(3)]
    have uniq: "x = a" "y = b" if "x \<in> set events" "y \<in> set events" "ev_event_id x = co_u c" "ev_event_id y = co_v c" for x y
      using that ab proper_inj [OF assms] by metis+
    have "?l \<longleftrightarrow> co_kind c \<noteq> KIND_PIN \<and> co_weight c < ev_t_evt_ns b - ev_t_evt_ns a \<and>
       v = \<lparr>vi_constraint = c, vi_excess_ns = ev_t_evt_ns b - ev_t_evt_ns a - co_weight c,
            vi_pins = (lower_pin b, upper_pin a)\<rparr>"
      by (auto simp: violation_of_def t pins Let_def)
    with ab uniq show ?thesis by blast
  next
    case False
    then have "recorded_times events (co_u c) = None \<or> recorded_times events (co_v c) = None"
      unfolding none by blast
    with False show ?thesis by (auto simp: violation_of_def split: option.splits)
  qed
qed

lemma set_find_violations:
  "set (find_violations cs recorded) = {v. \<exists>c \<in> set cs. violation_of cs recorded c = Some v}"
  by (auto simp: find_violations_def List.map_filter_def image_iff) force

lemma violation_cycle_negative:
  assumes "proper_events events"
    and "v \<in> set (find_violations (build_constraints events instances rule_seq) (recorded_times events))"
  shows "walk (violation_cycle v) (fst (violation_events v)) (fst (violation_events v)) \<and>
    set (violation_cycle v) \<subseteq> set (build_constraints events instances rule_seq) \<and>
    weight (violation_cycle v) = - vi_excess_ns v \<and> 0 < vi_excess_ns v"
proof -
  from assms(2) obtain c where c: "c \<in> set (build_constraints events instances rule_seq)"
    "violation_of (build_constraints events instances rule_seq) (recorded_times events) c = Some v"
    by (auto simp: set_find_violations)
  then obtain a b where ab: "a \<in> set events" "b \<in> set events" "ev_event_id a = co_u c" "ev_event_id b = co_v c"
      "co_weight c < ev_t_evt_ns b - ev_t_evt_ns a"
    and v: "v = \<lparr>vi_constraint = c, vi_excess_ns = ev_t_evt_ns b - ev_t_evt_ns a - co_weight c,
            vi_pins = (lower_pin b, upper_pin a)\<rparr>"
    by (auto simp: violation_of_Some [OF assms(1)])
  have "lower_pin b \<in> set (build_constraints events instances rule_seq)"
    "upper_pin a \<in> set (build_constraints events instances rule_seq)"
    using ab(1,2) set_pins by (fastforce simp: set_build_constraints)+
  with ab c(1) show ?thesis by (simp add: v violation_cycle_def violation_events_def)
qed

lemma find_violations_empty:
  assumes "proper_events events"
  shows "find_violations (build_constraints events instances rule_seq) (recorded_times events) = [] \<longleftrightarrow>
    (\<forall>c \<in> set (build_constraints events instances rule_seq). co_kind c \<noteq> KIND_PIN \<longrightarrow> holds events c)"
proof -
  have "find_violations (build_constraints events instances rule_seq) (recorded_times events) = [] \<longleftrightarrow>
      (\<forall>c \<in> set (build_constraints events instances rule_seq). \<forall>v.
        violation_of (build_constraints events instances rule_seq) (recorded_times events) c \<noteq> Some v)"
    unfolding set_empty [symmetric] set_find_violations by auto (metis not_None_eq)
  also have "\<dots> \<longleftrightarrow> (\<forall>c \<in> set (build_constraints events instances rule_seq).
      co_kind c \<noteq> KIND_PIN \<longrightarrow> holds events c)"
    unfolding violation_of_Some [OF assms] holds_def not_less [symmetric] by blast
  finally show ?thesis .
qed

text \<open>Every end of a structural constraint is an event of the bundle.\<close>

definition closed_evidence :: "event list \<Rightarrow> rule_instance list \<Rightarrow> bool" where
  "closed_evidence events instances \<longleftrightarrow>
     (\<forall>i \<in> set instances. \<forall>r \<in> set (ri_evidence i). er_event_id r \<in> ev_event_id ` set events)"

lemma set_zip_tl: "(a, b) \<in> set (zip xs (tl xs)) \<Longrightarrow> a \<in> set xs \<and> b \<in> set xs"
  by (cases xs) (auto dest: set_zip_leftD set_zip_rightD)

lemma set_seq_order [simp]: "set (seq_order rs) = set rs"
  by (simp add: seq_order_def)

lemma structural_ends:
  assumes "closed_evidence events instances"
    and "c \<in> set (build_constraints events instances rule_seq)" and "co_kind c \<noteq> KIND_PIN"
  shows "co_u c \<in> ev_event_id ` set events \<and> co_v c \<in> ev_event_id ` set events"
proof -
  from assms(2,3) consider s where "c \<in> set (monotonic_steps (s, filter (\<lambda>e. ev_source_id e = s) events))"
    | i where "i \<in> set instances" "c \<in> set (rule_steps rule_seq i)"
    by (auto simp: set_build_constraints set_pins)
  then show ?thesis
  proof cases
    case 1
    then obtain a b where ab: "(a, b) \<in> set (zip (seq_order (filter (\<lambda>e. ev_source_id e = s) events))
          (tl (seq_order (filter (\<lambda>e. ev_source_id e = s) events))))"
      and c: "c = monotonic_step s (a, b)"
      by (auto simp: monotonic_steps_def Let_def)
    from set_zip_tl [OF ab] c show ?thesis by (simp add: monotonic_step_def)
  next
    case 2
    have mem: "e \<in> ev_event_id ` set events"
      if "map_of (rev (map (\<lambda>ref. (er_binding ref, er_event_id ref)) (ri_evidence i))) k = Some e" for k e
      using map_of_SomeD [OF that] assms(1) 2(1) by (auto simp: closed_evidence_def)
    from 2(2) mem show ?thesis
      by (auto simp: rule_steps_def Let_def split: option.splits if_splits)
  qed
qed

lemma kept_constraints_eq:
  "kept_constraints cs D = filter (\<lambda>c. \<not> (co_kind c = KIND_PIN \<and> (\<exists>e. co_event_id c = Some e \<and> e \<in> D))) cs"
  unfolding kept_constraints_def by (intro filter_cong) (auto split: option.splits)

lemma kept_nothing_removed [simp]: "kept_constraints cs {} = cs"
  by (simp add: kept_constraints_eq)

section \<open>Ordering every source\<close>

definition timeline :: "event list \<Rightarrow> string \<Rightarrow> event list" where
  "timeline events s = seq_order (filter (\<lambda>e. ev_source_id e = s) events)"

definition ordered_without :: "string set \<Rightarrow> event list \<Rightarrow> bool" where
  "ordered_without D events \<longleftrightarrow>
     (\<forall>s. sorted (map ev_t_evt_ns (filter (\<lambda>e. ev_event_id e \<notin> D) (timeline events s))))"

lemma filter_nth_upt: "filter P xs = map ((!) xs) (filter (\<lambda>i. P (xs ! i)) [0..<length xs])"
proof -
  have "filter P xs = filter P (map ((!) xs) [0..<length xs])" by (simp add: map_nth)
  then show ?thesis by (simp add: filter_map o_def)
qed

lemma enumerate_filter_map:
  "map (\<lambda>(i, e). f e) (filter (\<lambda>(i, e). P i) (enumerate 0 xs)) = map (\<lambda>i. f (xs ! i)) (filter P [0..<length xs])"
proof -
  have "enumerate 0 xs = map (\<lambda>i. (i, xs ! i)) [0..<length xs]"
    by (rule nth_equalityI) (simp_all add: nth_enumerate_eq)
  then show ?thesis by (simp add: filter_map o_def)
qed

lemma source_corrections_spec:
  assumes "distinct (map ev_event_id records)"
  shows "distinct (source_corrections records)"
    and "set (source_corrections records) \<subseteq> ev_event_id ` set records"
    and "sorted (map ev_t_evt_ns (filter (\<lambda>e. ev_event_id e \<notin> set (source_corrections records)) (seq_order records)))"
    and "sorted (map ev_t_evt_ns (filter (\<lambda>e. ev_event_id e \<notin> D) (seq_order records))) \<Longrightarrow>
      length (source_corrections records) \<le> length (filter (\<lambda>e. ev_event_id e \<in> D) records)"
proof -
  define ys where "ys = seq_order records"
  define vals where "vals = map ev_t_evt_ns ys"
  define ks where "ks = longest_non_decreasing vals"
  let ?n = "length ys"
  note L = longest_non_decreasing_spec [of vals, folded ks_def]
  have ids: "distinct (map ev_event_id ys)" "set ys = set records"
    using assms by (auto simp: ys_def seq_order_def distinct_map)
  have inj: "i = j" if "i < ?n" "j < ?n" "ev_event_id (ys ! i) = ev_event_id (ys ! j)" for i j
    using ids(1) that nth_eq_iff_index_eq [of "map ev_event_id ys" i j] by simp
  have ks: "sorted_wrt (<) ks" "\<forall>i \<in> set ks. i < ?n" "sorted (map ((!) vals) ks)"
    using L by (auto simp: non_decreasing_at_def vals_def)
  have corr: "source_corrections records = map (\<lambda>i. ev_event_id (ys ! i)) (filter (\<lambda>i. i \<notin> set ks) [0..<?n])"
    unfolding source_corrections_def Let_def ys_def [symmetric] vals_def [symmetric] ks_def [symmetric]
    by (rule enumerate_filter_map)
  show "distinct (source_corrections records)"
    unfolding corr using inj by (auto simp: distinct_map inj_on_def)
  show "set (source_corrections records) \<subseteq> ev_event_id ` set records"
    unfolding corr ids(2) [symmetric] by auto
  have kept: "ev_event_id (ys ! i) \<notin> set (source_corrections records) \<longleftrightarrow> i \<in> set ks" if "i < ?n" for i
    unfolding corr using inj that by auto
  have eq: "filter (\<lambda>i. i \<in> set ks) [0..<?n] = ks"
    using ks(1,2) by (intro sorted_distinct_set_unique) (auto simp: strict_sorted_iff intro: sorted_wrt_filter)
  have "filter (\<lambda>e. ev_event_id e \<notin> set (source_corrections records)) ys =
      map ((!) ys) (filter (\<lambda>i. i \<in> set ks) [0..<?n])"
    unfolding filter_nth_upt [of _ ys] using kept by (intro arg_cong [where f = "map ((!) ys)"] filter_cong) auto
  then have "map ev_t_evt_ns (filter (\<lambda>e. ev_event_id e \<notin> set (source_corrections records)) ys) = map ((!) vals) ks"
    unfolding eq using ks(2) by (simp add: vals_def)
  then show "sorted (map ev_t_evt_ns (filter (\<lambda>e. ev_event_id e \<notin> set (source_corrections records)) (seq_order records)))"
    using ks(3) by (simp add: ys_def)
  assume D: "sorted (map ev_t_evt_ns (filter (\<lambda>e. ev_event_id e \<notin> D) (seq_order records)))"
  let ?js = "filter (\<lambda>i. ev_event_id (ys ! i) \<notin> D) [0..<?n]"
  have "map ((!) vals) ?js = map ev_t_evt_ns (filter (\<lambda>e. ev_event_id e \<notin> D) ys)"
    by (simp add: filter_nth_upt [of _ ys] vals_def)
  with D have "sorted (map ((!) vals) ?js)" by (simp add: ys_def)
  then have "non_decreasing_at vals ?js"
    by (auto simp: non_decreasing_at_def vals_def intro: sorted_wrt_filter)
  with L have "length ?js \<le> length ks" by blast
  moreover have "length (filter (\<lambda>i. i \<in> set ks) [0..<?n]) + length (filter (\<lambda>i. i \<notin> set ks) [0..<?n]) = ?n"
    using sum_length_filter_compl [of "\<lambda>i. i \<in> set ks" "[0..<?n]"] by simp
  moreover have "length (filter (\<lambda>e. ev_event_id e \<in> D) ys) + length ?js = ?n"
    using sum_length_filter_compl [of "\<lambda>i. ev_event_id (ys ! i) \<in> D" "[0..<?n]"]
    by (simp add: filter_nth_upt [of "\<lambda>e. ev_event_id e \<in> D" ys])
  moreover have "length (filter (\<lambda>e. ev_event_id e \<in> D) ys) = length (filter (\<lambda>e. ev_event_id e \<in> D) records)"
    by (simp add: ys_def seq_order_def filter_sort)
  ultimately show "length (source_corrections records) \<le> length (filter (\<lambda>e. ev_event_id e \<in> D) records)"
    unfolding corr eq by simp
qed

lemma distinct_ids_source:
  "distinct (map ev_event_id events) \<Longrightarrow> distinct (map ev_event_id (filter (\<lambda>e. ev_source_id e = s) events))"
  by (simp add: distinct_map_filter)

lemma set_monotonic_corrections:
  "set (monotonic_corrections events) = (\<Union>s \<in> ev_source_id ` set events.
     set (source_corrections (filter (\<lambda>e. ev_source_id e = s) events)))"
  by (auto simp: monotonic_corrections_def group_by_eq)

lemma length_monotonic_corrections:
  "length (monotonic_corrections events) = (\<Sum>s\<leftarrow>from_keys (map ev_source_id events).
     length (source_corrections (filter (\<lambda>e. ev_source_id e = s) events)))"
proof -
  let ?f = "\<lambda>p. length (source_corrections (snd p))"
  have "length (monotonic_corrections events) = sum_list (map ?f (sort_key fst (group_by ev_source_id events)))"
    by (simp add: monotonic_corrections_def length_concat o_def case_prod_beta)
  also have "\<dots> = sum_list (map ?f (group_by ev_source_id events))"
    by (simp only: sum_mset_sum_list [symmetric] mset_map mset_sort)
  finally show ?thesis by (simp add: group_by_eq o_def)
qed

lemma corrections_of_source:
  assumes "proper_events events" and "e \<in> set events"
  shows "ev_event_id e \<in> set (monotonic_corrections events) \<longleftrightarrow>
    ev_event_id e \<in> set (source_corrections (filter (\<lambda>x. ev_source_id x = ev_source_id e) events))"
proof -
  have "ev_source_id e = s"
    if "ev_event_id e \<in> set (source_corrections (filter (\<lambda>x. ev_source_id x = s) events))" for s
  proof -
    have "distinct (map ev_event_id (filter (\<lambda>x. ev_source_id x = s) events))"
      using assms(1) distinct_ids_source by (auto simp: proper_events_def)
    from source_corrections_spec(2) [OF this] that obtain x where
      "x \<in> set events" "ev_source_id x = s" "ev_event_id x = ev_event_id e" by auto
    with proper_inj [OF assms(1) this(1) assms(2)] show ?thesis by simp
  qed
  with assms(2) show ?thesis by (auto simp: set_monotonic_corrections)
qed

lemma length_filter_ids:
  assumes "distinct (map ev_event_id events)"
  shows "length (filter (\<lambda>e. ev_event_id e \<in> D) events) = card (D \<inter> ev_event_id ` set events)"
proof -
  have "length (filter (\<lambda>e. ev_event_id e \<in> D) events) = card (set (filter (\<lambda>e. ev_event_id e \<in> D) events))"
    using assms by (metis distinct_card distinct_filter distinct_map)
  also have "\<dots> = card (ev_event_id ` set (filter (\<lambda>e. ev_event_id e \<in> D) events))"
    using assms by (subst card_image) (auto simp: distinct_map inj_on_def)
  also have "ev_event_id ` set (filter (\<lambda>e. ev_event_id e \<in> D) events) = D \<inter> ev_event_id ` set events" by auto
  finally show ?thesis .
qed

lemma monotonic_corrections_spec:
  assumes "proper_events events"
  shows "ordered_without (set (monotonic_corrections events)) events"
    and "ordered_without D events \<Longrightarrow>
      length (monotonic_corrections events) \<le> card (D \<inter> ev_event_id ` set events)"
proof -
  have dist: "distinct (map ev_event_id events)" using assms by (simp add: proper_events_def)
  note spec = source_corrections_spec [OF distinct_ids_source [OF dist]]
  show "ordered_without (set (monotonic_corrections events)) events"
    unfolding ordered_without_def
  proof
    fix s
    have "filter (\<lambda>e. ev_event_id e \<notin> set (monotonic_corrections events)) (timeline events s) =
        filter (\<lambda>e. ev_event_id e \<notin> set (source_corrections (filter (\<lambda>x. ev_source_id x = s) events)))
          (seq_order (filter (\<lambda>e. ev_source_id e = s) events))"
      unfolding timeline_def by (intro filter_cong) (auto simp: corrections_of_source [OF assms])
    with spec(3) show "sorted (map ev_t_evt_ns (filter
        (\<lambda>e. ev_event_id e \<notin> set (monotonic_corrections events)) (timeline events s)))" by simp
  qed
  assume "ordered_without D events"
  then have le: "length (source_corrections (filter (\<lambda>e. ev_source_id e = s) events))
      \<le> length (filter (\<lambda>e. ev_event_id e \<in> D) (filter (\<lambda>e. ev_source_id e = s) events))" for s
    using source_corrections_spec(4) [OF distinct_ids_source [OF dist, of s], of D]
    by (simp add: ordered_without_def timeline_def)
  have "length (monotonic_corrections events) \<le> (\<Sum>s\<leftarrow>from_keys (map ev_source_id events).
      length (filter (\<lambda>e. ev_source_id e = s) (filter (\<lambda>e. ev_event_id e \<in> D) events)))"
    unfolding length_monotonic_corrections
    using le by (intro sum_list_mono) (simp add: filter_filter conj_commute)
  also have "\<dots> = length (filter (\<lambda>e. ev_event_id e \<in> D) events)"
    by (intro sum_length_filter) auto
  finally show "length (monotonic_corrections events) \<le> card (D \<inter> ev_event_id ` set events)"
    using length_filter_ids [OF dist] by simp
qed

section \<open>The corrections make the system feasible\<close>

text \<open>A freed timestamp is placed at the last kept one before it, or at the first kept one.\<close>

definition placed :: "int list \<Rightarrow> nat set \<Rightarrow> nat \<Rightarrow> int" where
  "placed vals K i = (if \<exists>k \<in> K. k \<le> i then vals ! Max {k \<in> K. k \<le> i} else vals ! Min K)"

lemma placed_kept: "i \<in> K \<Longrightarrow> finite K \<Longrightarrow> placed vals K i = vals ! i"
proof -
  assume "i \<in> K" "finite K"
  then have "Max {k \<in> K. k \<le> i} = i" by (intro Max_eqI) auto
  with \<open>i \<in> K\<close> show ?thesis by (auto simp: placed_def)
qed

lemma placed_mono:
  assumes "finite K" and "i \<le> j"
    and "\<And>a b. a \<in> K \<Longrightarrow> b \<in> K \<Longrightarrow> a \<le> b \<Longrightarrow> vals ! a \<le> vals ! b"
  shows "placed vals K i \<le> placed vals K j"
proof (cases "\<exists>k \<in> K. k \<le> j")
  case True
  let ?J = "{k \<in> K. k \<le> j}"
  have J: "finite ?J" "?J \<noteq> {}" using True assms(1) by auto
  then have maxJ: "Max ?J \<in> K" using Max_in [OF J] by blast
  show ?thesis
  proof (cases "\<exists>k \<in> K. k \<le> i")
    case True
    let ?I = "{k \<in> K. k \<le> i}"
    have I: "finite ?I" "?I \<noteq> {}" using True assms(1) by auto
    then have "Max ?I \<in> K" using Max_in [OF I] by blast
    moreover have "?I \<subseteq> ?J" using assms(2) by auto
    then have "Max ?I \<le> Max ?J" using I J by (intro Max_mono) auto
    ultimately show ?thesis using assms(3) maxJ True \<open>\<exists>k \<in> K. k \<le> j\<close> by (simp add: placed_def)
  next
    case False
    have "Min K \<in> K" "Min K \<le> Max ?J" using assms(1) maxJ by (auto intro!: Min_in)
    with False assms(3) maxJ True show ?thesis by (simp add: placed_def)
  qed
next
  case False
  then have "\<not> (\<exists>k \<in> K. k \<le> i)" using assms(2) le_trans by blast
  with False show ?thesis by (simp add: placed_def)
qed

definition kept_positions :: "string set \<Rightarrow> event list \<Rightarrow> nat set" where
  "kept_positions D ys = {i. i < length ys \<and> ev_event_id (ys ! i) \<notin> D}"

lemma kept_positions_sorted:
  assumes "sorted (map ev_t_evt_ns (filter (\<lambda>e. ev_event_id e \<notin> D) ys))"
    and "a \<in> kept_positions D ys" and "b \<in> kept_positions D ys" and "a \<le> b"
  shows "map ev_t_evt_ns ys ! a \<le> map ev_t_evt_ns ys ! b"
proof -
  let ?js = "filter (\<lambda>i. ev_event_id (ys ! i) \<notin> D) [0..<length ys]"
  have "sorted_wrt (\<lambda>i j. ev_t_evt_ns (ys ! i) \<le> ev_t_evt_ns (ys ! j)) ?js"
    using assms(1) by (simp add: filter_nth_upt [of _ ys] sorted_map sorted_wrt_map)
  moreover have "sorted_wrt (<) ?js" by (rule sorted_wrt_filter) simp
  moreover have "a \<in> set ?js" "b \<in> set ?js" using assms(2,3) by (auto simp: kept_positions_def)
  then obtain p q where pq: "p < length ?js" "a = ?js ! p" "q < length ?js" "b = ?js ! q"
    unfolding in_set_conv_nth by metis
  ultimately have "a = b \<or> ev_t_evt_ns (ys ! a) \<le> ev_t_evt_ns (ys ! b)"
    using assms(4) sorted_wrt_nth_less [of _ ?js p q] sorted_wrt_nth_less [of "(<)" ?js q p]
    by (cases p q rule: linorder_cases) auto
  with assms(2,3) show ?thesis by (auto simp: kept_positions_def)
qed

lemma zip_tl_nth:
  "(a, b) \<in> set (zip xs (tl xs)) \<longleftrightarrow> (\<exists>i. Suc i < length xs \<and> a = xs ! i \<and> b = xs ! Suc i)"
proof
  assume "(a, b) \<in> set (zip xs (tl xs))"
  then obtain n where "a = xs ! n" "b = tl xs ! n" "n < length (tl xs)"
    by (auto simp: in_set_zip)
  then have "Suc n < length xs \<and> a = xs ! n \<and> b = xs ! Suc n" by (cases xs) auto
  then show "\<exists>i. Suc i < length xs \<and> a = xs ! i \<and> b = xs ! Suc i" by blast
next
  assume "\<exists>i. Suc i < length xs \<and> a = xs ! i \<and> b = xs ! Suc i"
  then obtain i where "Suc i < length xs" "a = xs ! i" "b = xs ! Suc i" by blast
  then have "i < length (tl xs) \<and> a = xs ! i \<and> b = tl xs ! i" by (cases xs) auto
  then show "(a, b) \<in> set (zip xs (tl xs))" by (auto simp: in_set_zip)
qed

lemma timeline_event:
  "e \<in> set (timeline events s) \<longleftrightarrow> e \<in> set events \<and> ev_source_id e = s"
  by (auto simp: timeline_def)

lemma timeline_distinct: "proper_events events \<Longrightarrow> distinct (map ev_event_id (timeline events s))"
  using distinct_ids_source [of events s]
  by (auto simp: proper_events_def timeline_def seq_order_def distinct_map)

lemma kept_cases:
  "c \<in> set (kept_constraints (build_constraints events [] rule_seq) D) \<longleftrightarrow>
     (\<exists>e \<in> set events. ev_event_id e \<notin> D \<and> (c = upper_pin e \<or> c = lower_pin e)) \<or>
     (\<exists>s i. s \<in> ev_source_id ` set events \<and> Suc i < length (timeline events s) \<and>
        c = monotonic_step s (timeline events s ! i, timeline events s ! Suc i))"
proof -
  have steps: "c \<in> set (monotonic_steps (s, filter (\<lambda>e. ev_source_id e = s) events)) \<longleftrightarrow>
      (\<exists>i. Suc i < length (timeline events s) \<and>
        c = monotonic_step s (timeline events s ! i, timeline events s ! Suc i))" for s
  proof -
    have "c \<in> set (monotonic_steps (s, filter (\<lambda>e. ev_source_id e = s) events)) \<longleftrightarrow>
        (\<exists>a b. (a, b) \<in> set (zip (timeline events s) (tl (timeline events s))) \<and> c = monotonic_step s (a, b))"
      by (auto simp: monotonic_steps_def Let_def timeline_def)
    then show ?thesis unfolding zip_tl_nth by blast
  qed
  have pin: "co_kind (monotonic_step s p) \<noteq> KIND_PIN" for s p
    by (cases p) (simp add: monotonic_step_def)
  show ?thesis
    unfolding kept_constraints_eq set_filter set_build_constraints mem_Collect_eq Un_iff UN_iff steps set_pins
    using pin by auto
qed

text \<open>The timestamp that a freed or kept event is given.\<close>

definition repaired :: "event list \<Rightarrow> string set \<Rightarrow> string \<Rightarrow> int" where
  "repaired events D x =
     (case find (\<lambda>e. ev_event_id e = x) events of
        None \<Rightarrow> 0
      | Some e \<Rightarrow>
          let ys = timeline events (ev_source_id e) in
          (case position_of (map ev_event_id ys) x of
             None \<Rightarrow> 0
           | Some i \<Rightarrow> placed (map ev_t_evt_ns ys) (kept_positions D ys) i))"

lemma repaired_at:
  assumes "proper_events events" and "i < length (timeline events s)"
  shows "repaired events D (ev_event_id (timeline events s ! i)) =
    placed (map ev_t_evt_ns (timeline events s)) (kept_positions D (timeline events s)) i"
proof -
  let ?ys = "timeline events s"
  have e: "?ys ! i \<in> set events" "ev_source_id (?ys ! i) = s"
    using timeline_event [of "?ys ! i" events s] assms(2) by simp_all
  have "find (\<lambda>e. ev_event_id e = ev_event_id (?ys ! i)) events \<noteq> None"
    using e(1) by (auto simp: find_None_iff)
  then obtain x where x: "find (\<lambda>e. ev_event_id e = ev_event_id (?ys ! i)) events = Some x" by blast
  then have "x \<in> set events" "ev_event_id x = ev_event_id (?ys ! i)" by (auto simp: find_Some_iff)
  with proper_inj [OF assms(1) this(1) e(1)] e(2) have "ev_source_id x = s" by simp
  moreover have "position_of (map ev_event_id ?ys) (ev_event_id (?ys ! i)) = Some i"
    using position_of_nth [OF timeline_distinct [OF assms(1)], of i s] assms(2) by simp
  ultimately show ?thesis by (simp add: repaired_def x Let_def)
qed

lemma repaired_zero: "proper_events events \<Longrightarrow> repaired events D ZERO_NODE = 0"
proof -
  assume "proper_events events"
  then have "find (\<lambda>e. ev_event_id e = ZERO_NODE) events = None"
    unfolding find_None_iff proper_events_def by (metis imageI)
  then show ?thesis by (simp add: repaired_def)
qed

lemma timeline_position:
  assumes "e \<in> set events"
  obtains i where "i < length (timeline events (ev_source_id e))" "timeline events (ev_source_id e) ! i = e"
  using timeline_event [of e events "ev_source_id e"] assms by (auto simp: in_set_conv_nth)

lemma ordered_feasible:
  assumes "proper_events events" and "ordered_without D events"
  shows "solution (repaired events D) (kept_constraints (build_constraints events [] rule_seq) D)"
  unfolding solution_def
proof
  have fin: "finite (kept_positions D ys)" for ys by (simp add: kept_positions_def)
  fix c assume "c \<in> set (kept_constraints (build_constraints events [] rule_seq) D)"
  then consider e where "e \<in> set events" "ev_event_id e \<notin> D" "c = upper_pin e \<or> c = lower_pin e"
    | s i where "Suc i < length (timeline events s)"
        "c = monotonic_step s (timeline events s ! i, timeline events s ! Suc i)"
    unfolding kept_cases by blast
  then show "repaired events D (co_v c) - repaired events D (co_u c) \<le> co_weight c"
  proof cases
    case 1
    obtain i where i: "i < length (timeline events (ev_source_id e))" "timeline events (ev_source_id e) ! i = e"
      by (rule timeline_position [OF 1(1)])
    have "i \<in> kept_positions D (timeline events (ev_source_id e))"
      using i 1(2) by (simp add: kept_positions_def)
    then have "repaired events D (ev_event_id e) = ev_t_evt_ns e"
      using repaired_at [OF assms(1) i(1), of D] i by (simp add: placed_kept fin)
    with 1(3) repaired_zero [OF assms(1), of D] show ?thesis by auto
  next
    case 2
    let ?ys = "timeline events s"
    have "placed (map ev_t_evt_ns ?ys) (kept_positions D ?ys) i
        \<le> placed (map ev_t_evt_ns ?ys) (kept_positions D ?ys) (Suc i)"
      using assms(2) by (intro placed_mono fin kept_positions_sorted) (simp_all add: ordered_without_def)
    with repaired_at [OF assms(1), of i s D] repaired_at [OF assms(1), of "Suc i" s D] 2 show ?thesis
      by (simp add: monotonic_step_def)
  qed
qed

lemma feasible_ordered:
  assumes "solution t (kept_constraints (build_constraints events [] rule_seq) D)"
  shows "ordered_without D events"
  unfolding ordered_without_def
proof
  fix s
  let ?ys = "timeline events s"
  have step: "t (ev_event_id (?ys ! i)) \<le> t (ev_event_id (?ys ! Suc i))" if "Suc i < length ?ys" for i
  proof -
    have "s \<in> ev_source_id ` set events"
      using timeline_event [of "?ys ! i" events s] that by force
    with that have "monotonic_step s (?ys ! i, ?ys ! Suc i) \<in>
        set (kept_constraints (build_constraints events [] rule_seq) D)" unfolding kept_cases by blast
    with assms show ?thesis by (fastforce simp: solution_def monotonic_step_def)
  qed
  have sorted: "sorted (map (\<lambda>e. t (ev_event_id e)) (filter (\<lambda>e. ev_event_id e \<notin> D) ?ys))"
    by (rule sorted_filter) (simp add: sorted_iff_nth_Suc step)
  have recorded: "ev_t_evt_ns e = t (ev_event_id e) - t ZERO_NODE"
    if "e \<in> set (filter (\<lambda>e. ev_event_id e \<notin> D) ?ys)" for e
  proof -
    from that have "upper_pin e \<in> set (kept_constraints (build_constraints events [] rule_seq) D)"
      "lower_pin e \<in> set (kept_constraints (build_constraints events [] rule_seq) D)"
      unfolding kept_cases using timeline_event by auto
    with assms have "t (ev_event_id e) - t ZERO_NODE \<le> ev_t_evt_ns e"
      "t ZERO_NODE - t (ev_event_id e) \<le> - ev_t_evt_ns e" by (fastforce simp: solution_def)+
    then show ?thesis by simp
  qed
  show "sorted (map ev_t_evt_ns (filter (\<lambda>e. ev_event_id e \<notin> D) ?ys))"
    using sorted unfolding sorted_map by (rule sorted_wrt_mono_rel [rotated]) (use recorded in fastforce)
qed

section \<open>Covering the rule violations\<close>

lemma set_combinations: "set (combinations xs n) = {ys. subseq ys xs \<and> length ys = n}"
proof (induction xs n rule: combinations.induct)
  case (3 x xs n)
  show ?case
  proof (rule set_eqI)
    fix ys
    show "ys \<in> set (combinations (x # xs) (Suc n)) \<longleftrightarrow> ys \<in> {ys. subseq ys (x # xs) \<and> length ys = Suc n}"
    proof (cases ys)
      case (Cons y zs)
      have "subseq (y # zs) (x # xs) \<longleftrightarrow> (y = x \<and> subseq zs xs) \<or> subseq (y # zs) xs"
        by (metis subseq_Cons2_iff subseq_Cons2_neq subseq_Cons')
      with Cons 3 show ?thesis by auto
    qed (use 3 in auto)
  qed
qed auto

lemma combinations_ascending: "sorted_wrt (<) xs \<Longrightarrow> sorted_wrt (<) (combinations xs n)"
  for xs :: "'a::linorder list"
proof (induction xs n rule: combinations.induct)
  case (3 x xs n)
  have "x # a < b" if "b \<in> set (combinations xs (Suc n))" for a b
  proof -
    from that obtain y bs where b: "b = y # bs" "subseq b xs"
      unfolding set_combinations by (cases b) auto
    then have "y \<in> set xs" by (metis list.set_intros(1) subseq_set subsetD)
    with 3(3) b show ?thesis by auto
  qed
  with 3 show ?case by (auto simp: sorted_wrt_append sorted_wrt_map)
qed auto

lemma find_ascending_least:
  "find P xs = Some c \<Longrightarrow> sorted_wrt (<) xs \<Longrightarrow> x \<in> set xs \<Longrightarrow> P x \<Longrightarrow> c \<le> (x::'a::linorder)"
  by (induction xs) (auto split: if_splits)

lemma find_concat_Some:
  "find P (concat (map f ns)) = Some c \<Longrightarrow> sorted_wrt (<) ns \<Longrightarrow>
    \<exists>n \<in> set ns. find P (f n) = Some c \<and> (\<forall>m \<in> set ns. m < n \<longrightarrow> (\<forall>x \<in> set (f m). \<not> P x))"
  for ns :: "nat list"
proof (induction ns)
  case (Cons n ns)
  have app: "find P (xs @ ys) = (case find P xs of None \<Rightarrow> find P ys | Some x \<Rightarrow> Some x)" for xs ys
    by (induction xs) auto
  show ?case
  proof (cases "find P (f n)")
    case None
    then have none: "\<forall>x \<in> set (f n). \<not> P x" by (simp add: find_None_iff)
    from None Cons.prems Cons.IH obtain m where "m \<in> set ns" "find P (f m) = Some c"
      "\<forall>k \<in> set ns. k < m \<longrightarrow> (\<forall>x \<in> set (f k). \<not> P x)" by (auto simp: app)
    with none show ?thesis by auto
  next
    case (Some x)
    with Cons.prems show ?thesis by (intro bexI [of _ n]) (auto simp: app)
  qed
qed simp

lemma greedy_cover_spec:
  assumes "\<forall>p \<in> set remaining. p \<noteq> {} \<and> p \<subseteq> set candidates \<and> p \<inter> set cover = {}" and "distinct cover"
  shows "\<exists>c. greedy_cover candidates remaining cover = Inr c \<and> distinct c \<and> set cover \<subseteq> set c \<and>
    set c \<subseteq> set cover \<union> set candidates \<and> (\<forall>p \<in> set remaining. p \<inter> set c \<noteq> {})"
  using assms
proof (induction candidates remaining cover rule: greedy_cover.induct)
  case (1 candidates remaining cover)
  show ?case
  proof (cases "remaining = []")
    case True
    with 1 show ?thesis by (simp add: greedy_cover.simps)
  next
    case False
    let ?counts = "\<lambda>e. length (filter (\<lambda>pair. e \<in> pair) remaining)"
    let ?sorted = "sort_key (\<lambda>e. (- int (?counts e), e)) (filter (\<lambda>e. ?counts e \<noteq> 0) candidates)"
    have set: "e \<in> set ?sorted \<longleftrightarrow> e \<in> set candidates \<and> (\<exists>p \<in> set remaining. e \<in> p)" for e
      by (auto simp: filter_empty_conv)
    from False obtain p where "p \<in> set remaining" by (cases remaining) auto
    with "1.prems"(1) obtain e where "e \<in> p" "e \<in> set candidates" by blast
    with \<open>p \<in> set remaining\<close> have "e \<in> set ?sorted" unfolding set by blast
    then have "?sorted \<noteq> []" by (metis empty_iff list.set(1))
    then obtain best rest where best: "?sorted = best # rest" unfolding neq_Nil_conv by blast
    then have "best \<in> set ?sorted" by simp
    then have b: "best \<in> set candidates" "\<exists>p \<in> set remaining. best \<in> p" unfolding set by blast+
    have pre: "\<forall>p \<in> set (filter (\<lambda>pair. best \<notin> pair) remaining).
        p \<noteq> {} \<and> p \<subseteq> set candidates \<and> p \<inter> set (cover @ [best]) = {}"
    proof
      fix p assume "p \<in> set (filter (\<lambda>pair. best \<notin> pair) remaining)"
      then have "p \<in> set remaining" "best \<notin> p" by simp_all
      with "1.prems"(1) show "p \<noteq> {} \<and> p \<subseteq> set candidates \<and> p \<inter> set (cover @ [best]) = {}" by simp
    qed
    have "best \<notin> set cover" using b(2) "1.prems"(1) by blast
    with "1.prems"(2) have dist: "distinct (cover @ [best])" by simp
    from "1.IH" [OF False refl best pre dist] obtain c where
      c: "greedy_cover candidates (filter (\<lambda>pair. best \<notin> pair) remaining) (cover @ [best]) = Inr c"
      "distinct c" "set (cover @ [best]) \<subseteq> set c" "set c \<subseteq> set (cover @ [best]) \<union> set candidates"
      "\<forall>p \<in> set (filter (\<lambda>pair. best \<notin> pair) remaining). p \<inter> set c \<noteq> {}" by blast
    have "greedy_cover candidates remaining cover = Inr c"
      using False best c(1) by (simp add: greedy_cover.simps [of candidates remaining] Let_def)
    moreover have "p \<inter> set c \<noteq> {}" if "p \<in> set remaining" for p
    proof (cases "best \<in> p")
      case True
      with c(3) show ?thesis by auto
    next
      case False
      with c(5) that show ?thesis by simp
    qed
    moreover have "set cover \<subseteq> set c" "set c \<subseteq> set cover \<union> set candidates" using c(3,4) b(1) by auto
    ultimately show ?thesis using c(2) by blast
  qed
qed

definition open_pairs :: "violation list \<Rightarrow> string list \<Rightarrow> string set set" where
  "open_pairs violations already = {p \<in> pair_set ` set violations. p \<inter> set already = {}}"

lemma correction_set_spec:
  "\<exists>cover greedy. correction_set violations cap already = Inr (cover, greedy) \<and>
     strictly_ascending cover \<and> set cover \<subseteq> \<Union> (pair_set ` set violations) \<and>
     (\<forall>p \<in> open_pairs violations already. p \<inter> set cover \<noteq> {}) \<and>
     (open_pairs violations already = {} \<longrightarrow> cover = [] \<and> \<not> greedy) \<and>
     (greedy \<longrightarrow> cap < card (\<Union> (open_pairs violations already))) \<and>
     (\<not> greedy \<longrightarrow> (\<forall>C. finite C \<longrightarrow> (\<forall>p \<in> open_pairs violations already. p \<inter> C \<noteq> {}) \<longrightarrow>
        length cover \<le> card C \<and> (card C = length cover \<longrightarrow> cover \<le> sorted_list_of_set C)))"
proof -
  define pairs where "pairs = filter (\<lambda>p. p \<inter> set already = {}) (map pair_set violations)"
  define candidates where "candidates = sorted_dedup (concat (map (\<lambda>v. [fst (violation_events v),
    snd (violation_events v)]) (filter (\<lambda>v. pair_set v \<inter> set already = {}) violations)))"
  have open_eq: "open_pairs violations already = set pairs" by (auto simp: open_pairs_def pairs_def)
  have cand: "set candidates = \<Union> (set pairs)"
    by (auto simp: candidates_def pairs_def pair_set_def)
  have asc: "sorted_wrt (<) candidates" by (simp add: candidates_def strict_sorted_iff)
  have nonempty: "\<forall>p \<in> set pairs. p \<noteq> {}" by (auto simp: pairs_def pair_set_def)
  have sub: "set candidates \<subseteq> \<Union> (pair_set ` set violations)" unfolding cand by (auto simp: pairs_def)
  show ?thesis
  proof (cases "pairs = []")
    case True
    then show ?thesis
      by (intro exI [of _ "[]"] exI [of _ False]) (simp add: correction_set_def pairs_def [symmetric] open_eq)
  next
    case False
    define P where "P chosen \<longleftrightarrow> (\<forall>pair \<in> set pairs. pair \<inter> set chosen \<noteq> {})" for chosen
    let ?ns = "[1..<length candidates + 1]"
    let ?all = "concat (map (combinations candidates) ?ns)"
    have unfold: "correction_set violations cap already =
        (case (if length candidates \<le> cap then find P ?all else None) of
           Some combination \<Rightarrow> Inr (combination, False)
         | None \<Rightarrow> andThen (greedy_cover candidates pairs []) (\<lambda>cover. Inr (sort cover, True)))"
      using False unfolding correction_set_def Let_def pairs_def [symmetric] candidates_def [symmetric] P_def
      by simp
    have ne: "candidates \<noteq> []" using cand nonempty False by (cases pairs) auto
    have whole: "candidates \<in> set ?all \<and> P candidates"
    proof
      show "candidates \<in> set ?all" using ne by (auto simp: set_combinations Suc_le_eq)
      show "P candidates" unfolding P_def cand using nonempty by blast
    qed
    show ?thesis
    proof (cases "length candidates \<le> cap")
      case True
      have "find P ?all \<noteq> None" unfolding find_None_iff using whole by blast
      then obtain c where c: "find P ?all = Some c" by blast
      from find_concat_Some [OF this sorted_wrt_upt] obtain n where n: "n \<in> set ?ns" "find P (combinations candidates n) = Some c"
        "\<forall>m \<in> set ?ns. m < n \<longrightarrow> (\<forall>x \<in> set (combinations candidates m). \<not> P x)" by blast
      then have mem: "c \<in> set (combinations candidates n)" "P c"
        by (auto simp: find_Some_iff in_set_conv_nth)
      then have cs: "subseq c candidates" "length c = n" by (auto simp: set_combinations)
      have c_asc: "sorted_wrt (<) c" using cs(1) asc by (metis subseq_sorted_wrt)
      have least: "length c \<le> card C \<and> (card C = length c \<longrightarrow> c \<le> sorted_list_of_set C)"
        if C: "finite C" "\<forall>p \<in> set pairs. p \<inter> C \<noteq> {}" for C
      proof -
        define d where "d = filter (\<lambda>x. x \<in> C) candidates"
        have d: "subseq d candidates" "set d = C \<inter> set candidates" by (auto simp: d_def)
        have dist: "distinct d" using asc by (auto simp: d_def strict_sorted_iff)
        have "P d" using C(2) cand unfolding P_def d(2) by blast
        moreover have "d \<noteq> []" using \<open>P d\<close> False by (cases pairs) (auto simp: P_def)
        moreover have "length d \<le> length candidates" using d(1) by (rule list_emb_length)
        ultimately have d_in: "length d \<in> set ?ns" "d \<in> set (combinations candidates (length d))" "P d"
          using d(1) by (auto simp: set_combinations Suc_le_eq)
        have len: "length d = card (C \<inter> set candidates)" using dist d(2) by (metis distinct_card)
        then have d_le: "length d \<le> card C" using C(1) by (metis card_mono inf_le1)
        have n_le: "n \<le> length d" using n(3) d_in by (meson not_le)
        moreover have "c \<le> sorted_list_of_set C" if "card C = length c"
        proof -
          have "length d = n" using n_le d_le that cs(2) by simp
          then have "card (C \<inter> set candidates) = card C" using len that cs(2) by simp
          then have "C \<inter> set candidates = C" using C(1) by (metis card_subset_eq inf_le1)
          then have "sorted_list_of_set C = d"
            using d(2) dist asc by (metis d_def sorted_list_of_set.idem_if_sorted_distinct sorted_wrt_filter strict_sorted_iff)
          moreover have "c \<le> d"
            using find_ascending_least [OF n(2) combinations_ascending [OF asc]] d_in \<open>length d = n\<close> by blast
          ultimately show ?thesis by simp
        qed
        ultimately show ?thesis using d_le cs(2) by simp
      qed
      have "set c \<subseteq> \<Union> (pair_set ` set violations)" using subseq_set [OF cs(1)] sub by blast
      with True c c_asc mem(2) least False show ?thesis
        by (intro exI [of _ c] exI [of _ False])
          (simp add: unfold open_eq P_def strictly_ascending_sorted_wrt)
    next
      case big: False
      from greedy_cover_spec [of pairs candidates "[]"] nonempty cand obtain c where
        c: "greedy_cover candidates pairs [] = Inr c" "distinct c" "set c \<subseteq> set candidates"
          "\<forall>p \<in> set pairs. p \<inter> set c \<noteq> {}" by auto
      have "card (\<Union> (set pairs)) = length candidates"
        unfolding cand [symmetric] using asc by (simp add: distinct_card strict_sorted_iff)
      moreover have "set c \<subseteq> \<Union> (pair_set ` set violations)" using c(3) sub by blast
      ultimately show ?thesis using big c False
        by (intro exI [of _ "sort c"] exI [of _ True]) (simp add: unfold open_eq strictly_ascending_iff)
    qed
  qed
qed

section \<open>The whole pass\<close>

lemma run_pass_eq:
  obtains extra greedy where
    "correction_set (filter (\<lambda>v. co_kind (vi_constraint v) \<noteq> KIND_SEQ_MONOTONIC)
       (find_violations (build_constraints events instances rule_seq) (recorded_times events))) cap
       (monotonic_corrections events) = Inr (extra, greedy)"
    "run_pass events instances rule_seq cap = Inr
       \<lparr>tr_constraints = build_constraints events instances rule_seq,
        tr_violations = find_violations (build_constraints events instances rule_seq) (recorded_times events),
        tr_correction_set = sorted_dedup (monotonic_corrections events @ extra), tr_greedy = greedy,
        tr_disputed_sources = sorted_dedup (List.map_filter (source_of events)
          (sorted_dedup (monotonic_corrections events @ extra))),
        tr_budget_exhausted = sorted_dedup (monotonic_corrections events @ extra) \<noteq> [] \<and>
          \<not> feasible (build_constraints events instances rule_seq)
            (set (sorted_dedup (monotonic_corrections events @ extra)))\<rparr>"
proof -
  let ?vs = "filter (\<lambda>v. co_kind (vi_constraint v) \<noteq> KIND_SEQ_MONOTONIC)
    (find_violations (build_constraints events instances rule_seq) (recorded_times events))"
  from correction_set_spec [of ?vs cap "monotonic_corrections events"] obtain extra greedy where
    "correction_set ?vs cap (monotonic_corrections events) = Inr (extra, greedy)" by blast
  from that [OF this] this show thesis by (simp add: run_pass_def Let_def)
qed

lemma violation_built:
  assumes "proper_events events"
    and "v \<in> set (find_violations (build_constraints events instances rule_seq) (recorded_times events))"
  shows "vi_constraint v \<in> set (build_constraints events instances rule_seq) \<and>
    co_kind (vi_constraint v) \<noteq> KIND_PIN \<and>
    (\<exists>a \<in> set events. \<exists>b \<in> set events. violation_events v = (ev_event_id a, ev_event_id b) \<and>
       co_weight (vi_constraint v) < ev_t_evt_ns b - ev_t_evt_ns a)"
  using assms(2) by (auto simp: set_find_violations violation_of_Some [OF assms(1)] violation_events_def) metis+

lemma monotonic_violation_covered:
  assumes "proper_events events" and "ordered_without D events"
    and "v \<in> set (find_violations (build_constraints events instances rule_seq) (recorded_times events))"
    and "co_kind (vi_constraint v) = KIND_SEQ_MONOTONIC"
  shows "pair_set v \<inter> D \<noteq> {}"
proof
  assume none: "pair_set v \<inter> D = {}"
  from violation_built [OF assms(1,3)] obtain a b where
    c: "vi_constraint v \<in> set (build_constraints events instances rule_seq)"
    and ab: "a \<in> set events" "b \<in> set events" "violation_events v = (ev_event_id a, ev_event_id b)"
      "co_weight (vi_constraint v) < ev_t_evt_ns b - ev_t_evt_ns a" by blast
  from c assms(4) obtain s where "vi_constraint v \<in> set (monotonic_steps (s, filter (\<lambda>e. ev_source_id e = s) events))"
    by (auto simp: set_build_constraints set_pins dest: rule_steps_kind)
  then obtain x y where "(x, y) \<in> set (zip (timeline events s) (tl (timeline events s)))"
    and step: "vi_constraint v = monotonic_step s (x, y)"
    by (auto simp: monotonic_steps_def Let_def timeline_def)
  then obtain i where i: "Suc i < length (timeline events s)" "x = timeline events s ! i" "y = timeline events s ! Suc i"
    unfolding zip_tl_nth by blast
  have "x \<in> set events" "y \<in> set events"
    using i timeline_event [of x events s] timeline_event [of y events s] by auto
  moreover have "ev_event_id y = ev_event_id a" "ev_event_id x = ev_event_id b"
    using ab(3) step by (auto simp: violation_events_def monotonic_step_def)
  ultimately have xy: "y = a" "x = b" using ab proper_inj [OF assms(1)] by blast+
  have w: "ev_t_evt_ns y < ev_t_evt_ns x" using ab(4) step xy by (simp add: monotonic_step_def)
  have "i \<in> kept_positions D (timeline events s)" "Suc i \<in> kept_positions D (timeline events s)"
    using none i ab(3) xy by (auto simp: kept_positions_def pair_set_def)
  from kept_positions_sorted [OF _ this] assms(2) i w show False by (simp add: ordered_without_def)
qed

lemma no_violation_ordered:
  assumes "proper_events events"
    and "find_violations (build_constraints events instances rule_seq) (recorded_times events) = []"
  shows "ordered_without {} events"
  unfolding ordered_without_def
proof
  fix s
  let ?ys = "timeline events s"
  have "ev_t_evt_ns (?ys ! i) \<le> ev_t_evt_ns (?ys ! Suc i)" if i: "Suc i < length ?ys" for i
  proof -
    have mem: "?ys ! i \<in> set events" "?ys ! Suc i \<in> set events" "ev_source_id (?ys ! i) = s"
      using i timeline_event [of _ events s] by (metis Suc_lessD nth_mem)+
    have "(?ys ! i, ?ys ! Suc i) \<in> set (zip ?ys (tl ?ys))" unfolding zip_tl_nth using i by blast
    then have "monotonic_step s (?ys ! i, ?ys ! Suc i) \<in>
        set (monotonic_steps (s, filter (\<lambda>e. ev_source_id e = s) events))"
      by (auto simp: monotonic_steps_def Let_def timeline_def)
    moreover have "s \<in> ev_source_id ` set events" using mem(1,3) by force
    ultimately have "monotonic_step s (?ys ! i, ?ys ! Suc i) \<in> set (build_constraints events instances rule_seq)"
      unfolding set_build_constraints by blast
    with assms(2) mem show ?thesis
      unfolding find_violations_empty [OF assms(1)] holds_def by (fastforce simp: monotonic_step_def)
  qed
  then show "sorted (map ev_t_evt_ns (filter (\<lambda>e. ev_event_id e \<notin> {}) ?ys))"
    by (simp add: sorted_iff_nth_Suc)
qed

section \<open>A bundle for the witnesses\<close>

definition record_of :: "string \<Rightarrow> nat \<Rightarrow> int \<Rightarrow> event" where
  "record_of e n t = \<lparr>ev_event_id = e, ev_source_id = ''src:a'', ev_seq = n, ev_t_evt_ns = t\<rparr>"

text \<open>The third record was moved far back: it contradicts only its neighbour.\<close>

definition backdated :: "event list" where
  "backdated = [record_of ''ev:1'' 1 10, record_of ''ev:2'' 2 20, record_of ''ev:3'' 3 5, record_of ''ev:4'' 4 30]"

lemma backdated_proper: "proper_events backdated"
  by (simp add: proper_events_def backdated_def record_of_def ZERO_NODE_def)

lemma backdated_corrections: "monotonic_corrections backdated = [''ev:3'']"
  by code_simp

section \<open>Properties\<close>

text \<open>C20. \<open>feasible\<close> decides satisfiability. For every list of constraints and every set of
  removed pins, it answers True exactly when some assignment of timestamps satisfies every
  constraint that remains; the bound on the rounds, the number of nodes, is enough, and the
  step budget never bites.\<close>

theorem feasible_decides:
  "feasible constraints removed \<longleftrightarrow> (\<exists>t. \<forall>c \<in> set (kept_constraints constraints removed).
     t (co_v c) - t (co_u c) \<le> co_weight c)"
  by (simp only: feasible_solution solution_def)

theorem feasible_decides_witness:
  "feasible (build_constraints backdated [] (\<lambda>_. None)) {''ev:3''} \<and>
   \<not> (\<exists>t. \<forall>c \<in> set (kept_constraints (build_constraints backdated [] (\<lambda>_. None)) {}).
     t (co_v c) - t (co_u c) \<le> co_weight c)"
proof
  show "feasible (build_constraints backdated [] (\<lambda>_. None)) {''ev:3''}" by code_simp
  have "\<not> feasible (build_constraints backdated [] (\<lambda>_. None)) {}" by code_simp
  then show "\<not> (\<exists>t. \<forall>c \<in> set (kept_constraints (build_constraints backdated [] (\<lambda>_. None)) {}).
     t (co_v c) - t (co_u c) \<le> co_weight c)" unfolding feasible_decides .
qed

text \<open>One pass over the recorded timestamps decides the whole system. With every timestamp
  pinned, no violation is reported exactly when the system has a solution; and every
  reported violation is a closed walk of constraints of the system whose weight is the
  negated excess, which is positive: a negative cycle.\<close>

theorem one_pass_decides:
  assumes "proper_events events" and "closed_evidence events instances"
  shows "(find_violations (build_constraints events instances rule_seq) (recorded_times events) = [] \<longleftrightarrow>
      feasible (build_constraints events instances rule_seq) {}) \<and>
    (\<forall>v \<in> set (find_violations (build_constraints events instances rule_seq) (recorded_times events)).
       walk (violation_cycle v) (fst (violation_events v)) (fst (violation_events v)) \<and>
       set (violation_cycle v) \<subseteq> set (build_constraints events instances rule_seq) \<and>
       weight (violation_cycle v) = - vi_excess_ns v \<and> 0 < vi_excess_ns v)"
proof (intro conjI ballI)
  let ?cs = "build_constraints events instances rule_seq"
  let ?t = "\<lambda>x. case recorded_times events x of None \<Rightarrow> 0 | Some t \<Rightarrow> t"
  show "find_violations ?cs (recorded_times events) = [] \<longleftrightarrow> feasible ?cs {}"
  proof
    assume none: "find_violations ?cs (recorded_times events) = []"
    have t: "?t (ev_event_id e) = ev_t_evt_ns e" if "e \<in> set events" for e
      using recorded_times_Some [OF assms(1), of "ev_event_id e" "ev_t_evt_ns e"] that by auto
    have "recorded_times events ZERO_NODE = None"
      using recorded_times_Some [OF assms(1), of ZERO_NODE] assms(1)
      by (metis imageI not_None_eq proper_events_def)
    then have zero: "?t ZERO_NODE = 0" by simp
    have "?t (co_v c) - ?t (co_u c) \<le> co_weight c" if c: "c \<in> set ?cs" for c
    proof (cases "co_kind c = KIND_PIN")
      case True
      with built_pin [OF c] obtain e where "e \<in> set events" "c \<in> {upper_pin e, lower_pin e}"
        by (auto simp: set_pins)
      with t zero show ?thesis by auto
    next
      case False
      from structural_ends [OF assms(2) c False] obtain a b where
        "a \<in> set events" "b \<in> set events" "ev_event_id a = co_u c" "ev_event_id b = co_v c" by fastforce
      moreover have "holds events c" using none c False by (simp add: find_violations_empty [OF assms(1)])
      ultimately show ?thesis using t by (metis holds_def)
    qed
    then show "feasible ?cs {}"
      unfolding feasible_solution solution_def kept_nothing_removed by (intro exI [of _ ?t] ballI)
  next
    assume "feasible ?cs {}"
    then obtain t where t: "solution t ?cs" unfolding feasible_solution by auto
    show "find_violations ?cs (recorded_times events) = []"
    proof (rule ccontr)
      assume "find_violations ?cs (recorded_times events) \<noteq> []"
      then obtain v where "v \<in> set (find_violations ?cs (recorded_times events))"
        by (cases "find_violations ?cs (recorded_times events)") auto
      from violation_cycle_negative [OF assms(1) this] solution_walk [OF t] show False by fastforce
    qed
  qed
qed (use violation_cycle_negative [OF assms(1)] in blast)+

theorem one_pass_decides_witness:
  "\<exists>v \<in> set (find_violations (build_constraints backdated [] (\<lambda>_. None)) (recorded_times backdated)).
     weight (violation_cycle v) < 0"
proof -
  have "\<not> feasible (build_constraints backdated [] (\<lambda>_. None)) {}" by code_simp
  moreover have "closed_evidence backdated []" by (simp add: closed_evidence_def)
  note one_pass_decides [OF backdated_proper this, of "\<lambda>_. None"]
  ultimately show ?thesis
    by (cases "find_violations (build_constraints backdated [] (\<lambda>_. None)) (recorded_times backdated)") auto
qed



text \<open>C22. The correction of the rule violations is a minimum cover below the cap. It always
  returns; the events it names, in ascending order, hit every violated pair that no earlier
  correction hits; unless the greedy flag is set, no set of events that does so is smaller
  and none of the same size comes before it; and the flag is set only when the candidates
  are more than the cap.\<close>

theorem correction_set_minimum:
  "\<exists>cover greedy. correction_set violations cap already = Inr (cover, greedy) \<and>
     strictly_ascending cover \<and>
     (\<forall>v \<in> set violations. pair_set v \<inter> (set already \<union> set cover) \<noteq> {}) \<and>
     (\<not> greedy \<longrightarrow> (\<forall>C. finite C \<longrightarrow>
        (\<forall>v \<in> set violations. pair_set v \<inter> (set already \<union> C) \<noteq> {}) \<longrightarrow>
        length cover \<le> card C \<and> (card C = length cover \<longrightarrow> cover \<le> sorted_list_of_set C))) \<and>
     (greedy \<longrightarrow> cap < card (\<Union> {p \<in> pair_set ` set violations. p \<inter> set already = {}}))"
proof -
  obtain cover greedy where c: "correction_set violations cap already = Inr (cover, greedy)"
    "strictly_ascending cover" "\<forall>p \<in> open_pairs violations already. p \<inter> set cover \<noteq> {}"
    "greedy \<longrightarrow> cap < card (\<Union> (open_pairs violations already))"
    "\<not> greedy \<longrightarrow> (\<forall>C. finite C \<longrightarrow> (\<forall>p \<in> open_pairs violations already. p \<inter> C \<noteq> {}) \<longrightarrow>
        length cover \<le> card C \<and> (card C = length cover \<longrightarrow> cover \<le> sorted_list_of_set C))"
    using correction_set_spec [of violations cap already] by blast
  have covers: "(\<forall>v \<in> set violations. pair_set v \<inter> (set already \<union> C) \<noteq> {}) \<longleftrightarrow>
      (\<forall>p \<in> open_pairs violations already. p \<inter> C \<noteq> {})" for C
    unfolding open_pairs_def by blast
  show ?thesis
    using c unfolding covers by (intro exI [of _ cover] exI [of _ greedy]) (simp add: open_pairs_def)
qed

lemma backdated_cover:
  "map_sum id id (correction_set (find_violations (build_constraints backdated [] (\<lambda>_. None))
     (recorded_times backdated)) 3 []) = Inr ([''ev:2''], False)"
  by code_simp

lemma correction_set_minimum_witness:
  "\<not> (\<exists>C. finite C \<and> card C < 1 \<and>
     (\<forall>v \<in> set (find_violations (build_constraints backdated [] (\<lambda>_. None)) (recorded_times backdated)).
        pair_set v \<inter> C \<noteq> {}))"
proof -
  let ?vs = "find_violations (build_constraints backdated [] (\<lambda>_. None)) (recorded_times backdated)"
  have one: "correction_set ?vs 3 [] = Inr ([''ev:2''], False)"
    using backdated_cover by (simp add: sum.map_id0)
  show ?thesis
    using correction_set_minimum [of ?vs 3 "[]"] unfolding one by (auto simp: not_less)
qed

text \<open>C23. The pass is quiet exactly on consistent records. On every bundle with unique ids it
  returns; its correction set is empty exactly when no violation is reported, names only
  events of the bundle, and hits both kinds of violation: every reported violation has one of
  its two events in it; and a bundle without rule constraints never raises the flag of an
  infeasible remainder.\<close>

theorem run_pass_covers:
  assumes "proper_events events"
  shows "\<exists>r. run_pass events instances rule_seq cap = Inr r \<and>
    (consistent r \<longleftrightarrow> tr_correction_set r = []) \<and>
    strictly_ascending (tr_correction_set r) \<and>
    set (tr_correction_set r) \<subseteq> ev_event_id ` set events \<and>
    (\<forall>v \<in> set (tr_violations r). pair_set v \<inter> set (tr_correction_set r) \<noteq> {}) \<and>
    (instances = [] \<longrightarrow> \<not> tr_budget_exhausted r)"
proof -
  let ?cs = "build_constraints events instances rule_seq"
  let ?vs = "find_violations ?cs (recorded_times events)" and ?mono = "monotonic_corrections events"
  let ?rules = "filter (\<lambda>v. co_kind (vi_constraint v) \<noteq> KIND_SEQ_MONOTONIC) ?vs"
  obtain extra greedy where cover: "correction_set ?rules cap ?mono = Inr (extra, greedy)"
    and run: "run_pass events instances rule_seq cap = Inr
       \<lparr>tr_constraints = ?cs, tr_violations = ?vs,
        tr_correction_set = sorted_dedup (?mono @ extra), tr_greedy = greedy,
        tr_disputed_sources = sorted_dedup (List.map_filter (source_of events) (sorted_dedup (?mono @ extra))),
        tr_budget_exhausted = sorted_dedup (?mono @ extra) \<noteq> [] \<and>
          \<not> feasible ?cs (set (sorted_dedup (?mono @ extra)))\<rparr>"
    by (rule run_pass_eq [of events instances rule_seq cap]) blast
  from correction_set_spec [of ?rules cap ?mono] cover
  have extra: "\<forall>p \<in> open_pairs ?rules ?mono. p \<inter> set extra \<noteq> {}" "set extra \<subseteq> \<Union> (pair_set ` set ?rules)"
    "open_pairs ?rules ?mono = {} \<longrightarrow> extra = []" by auto
  have ids: "\<Union> (pair_set ` set ?rules) \<subseteq> ev_event_id ` set events"
    using violation_built [OF assms] by (fastforce simp: pair_set_def)
  have dist: "distinct (map ev_event_id events)" using assms by (simp add: proper_events_def)
  have mono_ids: "set ?mono \<subseteq> ev_event_id ` set events"
    using source_corrections_spec(2) [OF distinct_ids_source [OF dist]] by (fastforce simp: set_monotonic_corrections)
  have covered: "pair_set v \<inter> (set ?mono \<union> set extra) \<noteq> {}" if v: "v \<in> set ?vs" for v
  proof (cases "co_kind (vi_constraint v) = KIND_SEQ_MONOTONIC")
    case True
    from monotonic_violation_covered [OF assms monotonic_corrections_spec(1) [OF assms] v True] show ?thesis by blast
  next
    case False
    with v have "pair_set v \<in> pair_set ` set ?rules" by auto
    with extra(1) show ?thesis unfolding open_pairs_def by blast
  qed
  have quiet: "?mono @ extra = []" if "?vs = []"
  proof -
    from monotonic_corrections_spec(2) [OF assms no_violation_ordered [OF assms that]] have "?mono = []" by simp
    with that extra(3) show ?thesis by (simp add: open_pairs_def)
  qed
  have loud: "?vs = []" if "?mono @ extra = []" using covered that by (cases ?vs) auto
  have calm: "feasible ?cs (set ?mono \<union> set extra)" if "instances = []"
  proof -
    have "?rules = []"
    proof -
      have "co_kind (vi_constraint v) = KIND_SEQ_MONOTONIC" if v: "v \<in> set ?vs" for v
        using violation_built [OF assms v] \<open>instances = []\<close>
        by (auto simp: set_build_constraints set_pins dest: monotonic_steps_kind)
      then show ?thesis by (simp add: filter_empty_conv)
    qed
    with extra(3) have "extra = []" by (simp add: open_pairs_def)
    with ordered_feasible [OF assms monotonic_corrections_spec(1) [OF assms]] that show ?thesis
      unfolding feasible_solution by auto
  qed
  have empty: "sorted_dedup (?mono @ extra) = [] \<longleftrightarrow> ?mono @ extra = []"
    by (metis set_empty set_sorted_dedup)
  have set: "set (sorted_dedup (?mono @ extra)) = set ?mono \<union> set extra" by simp
  have sub: "set ?mono \<union> set extra \<subseteq> ev_event_id ` set events" using extra(2) ids mono_ids by blast
  have iff: "?vs = [] \<longleftrightarrow> sorted_dedup (?mono @ extra) = []" unfolding empty using quiet loud by blast
  have asc: "strictly_ascending (sorted_dedup (?mono @ extra))" by (simp add: strictly_ascending_iff)
  show ?thesis
    by (intro exI conjI, rule run, simp_all only: consistent_def temporal_result.simps set)
      (use iff asc sub covered calm in blast)+
qed

theorem run_pass_covers_witness:
  "\<exists>r. run_pass backdated [] (\<lambda>_. None) 8 = Inr r \<and> \<not> tr_budget_exhausted r"
  using run_pass_covers [OF backdated_proper, of "[]" "\<lambda>_. None" 8] by blast

end
