(* ===== verification/Timelines.thy ===== *)
theory Timelines
  imports Main
begin

text \<open>
  Two loops that several stages write out over a timeline, as interfaces. \<open>sweep\<close> is the
  cursor that walks the intervals and stops at the first instant nothing covers;
  \<open>coalesce\<close> is the run-length merge that extends the last run or appends a new one. Each
  loop of the code that has this shape interprets the locale and inherits its lemmas.
\<close>

section \<open>Tiled sequences of half-open intervals\<close>

definition tiled :: "('a \<Rightarrow> int) \<Rightarrow> ('a \<Rightarrow> int) \<Rightarrow> 'a list \<Rightarrow> bool" where
  "tiled lo hi xs \<longleftrightarrow> sorted_wrt (\<lambda>a b. hi a \<le> lo b) xs \<and> (\<forall>x \<in> set xs. lo x \<le> hi x)"

lemma tiled_Nil [simp]: "tiled lo hi []"
  by (simp add: tiled_def)

lemma tiled_Cons:
  "tiled lo hi (x # xs) \<longleftrightarrow> lo x \<le> hi x \<and> (\<forall>y \<in> set xs. hi x \<le> lo y) \<and> tiled lo hi xs"
  by (auto simp: tiled_def)

lemma tiled_snoc:
  "tiled lo hi (xs @ [x]) \<longleftrightarrow> tiled lo hi xs \<and> (\<forall>y \<in> set xs. hi y \<le> lo x) \<and> lo x \<le> hi x"
  by (auto simp: tiled_def sorted_wrt_append)

lemma tiled_filter: "tiled lo hi xs \<Longrightarrow> tiled lo hi (filter p xs)"
  by (auto simp: tiled_def sorted_wrt_filter)

lemma tiled_disjoint:
  assumes "tiled lo hi xs" "x \<in> set xs" "y \<in> set xs" "lo x \<le> t" "t < hi x" "lo y \<le> t" "t < hi y"
  shows "x = y"
  using assms
proof (induction xs)
  case (Cons z zs)
  then show ?case by (cases "x = z"; cases "y = z") (force simp: tiled_Cons)+
qed simp

text \<open>Tiled, proper and with no two neighbours that touch: separated.\<close>

lemma separated:
  assumes "tiled lo hi xs" "\<forall>x \<in> set xs. lo x < hi x"
    and "\<And>us r r' vs. xs = us @ r # r' # vs \<Longrightarrow> hi r \<noteq> lo r'"
  shows "sorted_wrt (\<lambda>a b. hi a < lo b) xs"
  using assms
proof (induction xs rule: induct_list012)
  case (3 x y zs)
  have "hi r \<noteq> lo r'" if "y # zs = us @ r # r' # vs" for us r r' vs
    using "3.prems"(3) [of "x # us"] that by simp
  with 3 have "sorted_wrt (\<lambda>a b. hi a < lo b) (y # zs)" by (simp add: tiled_Cons)
  moreover have "hi x < lo y"
    using "3.prems"(1) "3.prems"(3) [of "[]" x y zs] by (simp add: tiled_Cons)
  ultimately show ?case using "3.prems"(1,2) by (auto simp: tiled_Cons)
qed simp_all

text \<open>An instant that some interval with a property covers.\<close>

definition covered :: "('a \<Rightarrow> int) \<Rightarrow> ('a \<Rightarrow> int) \<Rightarrow> ('a \<Rightarrow> bool) \<Rightarrow> 'a list \<Rightarrow> int \<Rightarrow> bool" where
  "covered lo hi P xs t \<longleftrightarrow> (\<exists>x \<in> set xs. P x \<and> lo x \<le> t \<and> t < hi x)"

lemma covered_Nil [simp]: "\<not> covered lo hi P [] t"
  by (simp add: covered_def)

lemma covered_append [simp]:
  "covered lo hi P (xs @ ys) t \<longleftrightarrow> covered lo hi P xs t \<or> covered lo hi P ys t"
  by (auto simp: covered_def)

lemma covered_Cons [simp]:
  "covered lo hi P (x # xs) t \<longleftrightarrow> P x \<and> lo x \<le> t \<and> t < hi x \<or> covered lo hi P xs t"
  by (auto simp: covered_def)

lemma covered_filter:
  "covered lo hi P (filter Q xs) t \<longleftrightarrow> covered lo hi (\<lambda>x. Q x \<and> P x) xs t"
  by (auto simp: covered_def)

lemma covered_conflict:
  "tiled lo hi xs \<Longrightarrow> covered lo hi P xs t \<Longrightarrow> \<not> covered lo hi (\<lambda>x. \<not> P x) xs t"
  unfolding covered_def by (metis tiled_disjoint)

section \<open>The cursor sweep\<close>

locale sweep =
  fixes lo hi :: "'a \<Rightarrow> int"
    and good :: "'a \<Rightarrow> bool"
    and swept :: "'a list \<Rightarrow> int \<Rightarrow> int \<Rightarrow> bool"
  assumes swept_Nil: "\<not> swept [] c e"
    and swept_Cons: "swept (x # xs) c e \<longleftrightarrow>
      (if hi x \<le> c then swept xs c e
       else if c < lo x then False
       else if \<not> good x then False
       else if e \<le> hi x then True
       else swept xs (hi x) e)"
begin

lemma sound: "swept xs c e \<Longrightarrow> c \<le> t \<Longrightarrow> t < e \<Longrightarrow> covered lo hi good xs t"
proof (induction xs arbitrary: c)
  case Nil
  then show ?case by (simp add: swept_Nil)
next
  case (Cons x xs)
  then show ?case by (cases "t < hi x") (auto simp: swept_Cons split: if_splits)
qed

lemma complete:
  assumes "tiled lo hi xs" and "c < e"
    and "\<And>t. c \<le> t \<Longrightarrow> t < e \<Longrightarrow> covered lo hi good xs t"
  shows "swept xs c e"
  using assms
proof (induction xs arbitrary: c)
  case Nil
  then show ?case by (meson covered_Nil order_refl)
next
  case (Cons x xs)
  show ?case
  proof (cases "hi x \<le> c")
    case True
    then have "covered lo hi good xs t" if "c \<le> t" "t < e" for t
      using Cons.prems(3) [OF that] that by simp
    with True Cons show ?thesis by (simp add: swept_Cons tiled_Cons)
  next
    case False
    have "\<not> covered lo hi good xs c"
      using Cons.prems(1) False by (force simp: tiled_Cons covered_def)
    with Cons.prems(3) [of c] Cons.prems(2) have x: "good x" "lo x \<le> c" by simp_all
    have "swept xs (hi x) e" if "hi x < e"
    proof (rule Cons.IH)
      show "covered lo hi good xs t" if "hi x \<le> t" "t < e" for t
        using Cons.prems(3) [of t] that False by simp
    qed (use Cons.prems that in \<open>simp_all add: tiled_Cons\<close>)
    with x False show ?thesis by (auto simp: swept_Cons)
  qed
qed

lemma decides:
  "tiled lo hi xs \<Longrightarrow> c < e \<Longrightarrow> swept xs c e \<longleftrightarrow> (\<forall>t \<in> {c..<e}. covered lo hi good xs t)"
  by (intro iffI ballI) (auto intro: sound complete)

end

section \<open>The run-length merge\<close>

locale coalesce =
  fixes keep :: "'a \<Rightarrow> bool"
    and lo hi :: "'a \<Rightarrow> int" and tag :: "'a \<Rightarrow> 'k"
    and lo' hi' :: "'b \<Rightarrow> int" and tag' :: "'b \<Rightarrow> 'k"
    and merged :: "'a list \<Rightarrow> 'b list"
    and grow :: "'b \<Rightarrow> 'a \<Rightarrow> 'b" and make :: "'a \<Rightarrow> 'b"
  assumes merged_Nil: "merged [] = []"
    and merged_snoc: "merged (xs @ [x]) =
      (if \<not> keep x then merged xs
       else if merged xs \<noteq> [] \<and> hi' (last (merged xs)) = lo x \<and> tag' (last (merged xs)) = tag x
       then butlast (merged xs) @ [grow (last (merged xs)) x]
       else merged xs @ [make x])"
    and lo_make: "lo' (make x) = lo x" and hi_make: "hi' (make x) = hi x"
    and tag_make: "tag' (make x) = tag x"
    and lo_grow: "lo' (grow r x) = lo' r" and hi_grow: "hi' (grow r x) = hi x"
    and tag_grow: "tag' (grow r x) = tag' r"
begin

lemma merged_cases:
  obtains (skipped) "\<not> keep x" "merged (xs @ [x]) = merged xs"
  | (grown) ys r where "keep x" "merged xs = ys @ [r]" "hi' r = lo x" "tag' r = tag x"
    "merged (xs @ [x]) = ys @ [grow r x]"
  | (fresh) "keep x" "merged (xs @ [x]) = merged xs @ [make x]"
    "\<And>ys r. merged xs = ys @ [r] \<Longrightarrow> \<not> (hi' r = lo x \<and> tag' r = tag x)"
proof (cases "keep x")
  case kept: True
  show ?thesis
  proof (cases "merged xs \<noteq> [] \<and> hi' (last (merged xs)) = lo x \<and> tag' (last (merged xs)) = tag x")
    case True
    with kept show ?thesis
      by (intro grown [of "butlast (merged xs)" "last (merged xs)"]) (simp_all add: merged_snoc)
  next
    case False
    with kept show ?thesis by (intro fresh) (auto simp: merged_snoc)
  qed
next
  case False
  then show ?thesis by (intro skipped) (simp_all add: merged_snoc)
qed

text \<open>No run reaches past the last interval, and the runs are tiled.\<close>

lemma merged_tiled:
  "tiled lo hi xs \<Longrightarrow> tiled lo' hi' (merged xs) \<and>
     (\<forall>r \<in> set (merged xs). \<forall>b. (\<forall>x \<in> set xs. hi x \<le> b) \<longrightarrow> hi' r \<le> b)"
proof (induction xs rule: rev_induct)
  case Nil
  then show ?case by (simp add: merged_Nil)
next
  case (snoc x xs)
  then have IH: "tiled lo' hi' (merged xs)"
    "\<And>r b. r \<in> set (merged xs) \<Longrightarrow> (\<forall>x \<in> set xs. hi x \<le> b) \<Longrightarrow> hi' r \<le> b"
    and x: "\<forall>y \<in> set xs. hi y \<le> lo x" "lo x \<le> hi x"
    by (auto simp: tiled_snoc)
  show ?case
  proof (cases rule: merged_cases [of x xs])
    case skipped
    with IH x show ?thesis by simp
  next
    case (grown ys r)
    have "lo' r \<le> hi' r" using IH(1) grown(2) by (simp add: tiled_snoc)
    with IH grown x show ?thesis
      by (auto simp: tiled_snoc lo_grow hi_grow)
  next
    case fresh
    with IH x show ?thesis by (auto simp: tiled_snoc lo_make hi_make)
  qed
qed

lemma tiled_merged: "tiled lo hi xs \<Longrightarrow> tiled lo' hi' (merged xs)"
  using merged_tiled by blast

text \<open>The merge changes no instant: what a tag covers, it covered before.\<close>

lemma merged_covered:
  "tiled lo hi xs \<Longrightarrow>
     covered lo' hi' (\<lambda>r. tag' r = k) (merged xs) t \<longleftrightarrow>
     covered lo hi (\<lambda>x. keep x \<and> tag x = k) xs t"
proof (induction xs rule: rev_induct)
  case Nil
  then show ?case by (simp add: merged_Nil)
next
  case (snoc x xs)
  then have IH: "covered lo' hi' (\<lambda>r. tag' r = k) (merged xs) t =
      covered lo hi (\<lambda>x. keep x \<and> tag x = k) xs t"
    and t: "tiled lo' hi' (merged xs)" and x: "lo x \<le> hi x"
    by (auto simp: tiled_snoc tiled_merged)
  show ?case
  proof (cases rule: merged_cases [of x xs])
    case skipped
    with IH show ?thesis by simp
  next
    case (grown ys r)
    have "lo' r \<le> hi' r" using t grown(2) by (simp add: tiled_snoc)
    moreover have "covered lo hi (\<lambda>x. keep x \<and> tag x = k) xs t \<longleftrightarrow>
        covered lo' hi' (\<lambda>r. tag' r = k) ys t \<or> tag' r = k \<and> lo' r \<le> t \<and> t < hi' r"
      using IH grown(2) by simp
    ultimately show ?thesis using grown x by (auto simp: lo_grow hi_grow tag_grow)
  next
    case fresh
    with IH show ?thesis by (simp add: lo_make hi_make tag_make)
  qed
qed

lemma merged_covered_any:
  assumes "tiled lo hi xs"
  shows "covered lo' hi' (\<lambda>r. P (tag' r)) (merged xs) t \<longleftrightarrow>
     covered lo hi (\<lambda>x. keep x \<and> P (tag x)) xs t"
proof -
  have "covered lo' hi' (\<lambda>r. P (tag' r)) (merged xs) t \<longleftrightarrow>
      (\<exists>k. P k \<and> covered lo' hi' (\<lambda>r. tag' r = k) (merged xs) t)"
    by (auto simp: covered_def)
  also have "\<dots> \<longleftrightarrow> covered lo hi (\<lambda>x. keep x \<and> P (tag x)) xs t"
    unfolding merged_covered [OF assms] by (auto simp: covered_def)
  finally show ?thesis .
qed

text \<open>The merge is maximal: neighbours that touch carry different tags.\<close>

lemma merged_maximal:
  "merged xs = us @ r # r' # vs \<Longrightarrow> hi' r = lo' r' \<Longrightarrow> tag' r \<noteq> tag' r'"
proof (induction xs arbitrary: us r r' vs rule: rev_induct)
  case Nil
  then show ?case by (simp add: merged_Nil)
next
  case (snoc x xs)
  show ?case
  proof (cases rule: merged_cases [of x xs])
    case skipped
    with snoc show ?thesis by simp
  next
    case (grown ys q)
    show ?thesis
    proof (cases vs rule: rev_cases)
      case Nil
      with grown snoc.prems(1) have "ys = us @ [r]" "r' = grow q x" by simp_all
      with grown(2) have "merged xs = us @ r # q # []" by simp
      with snoc.IH snoc.prems(2) \<open>r' = _\<close> show ?thesis by (simp add: lo_grow tag_grow)
    next
      case (snoc vs' v)
      with grown snoc.prems(1) have "ys = us @ r # r' # vs'" by simp
      with grown(2) have "merged xs = us @ r # r' # (vs' @ [q])" by simp
      with snoc.IH snoc.prems(2) show ?thesis by blast
    qed
  next
    case fresh
    show ?thesis
    proof (cases vs rule: rev_cases)
      case Nil
      with fresh snoc.prems(1) have "merged xs = us @ [r]" "r' = make x" by simp_all
      with fresh(3) [of us r] snoc.prems(2) show ?thesis by (auto simp: lo_make tag_make)
    next
      case (snoc vs' v)
      with fresh snoc.prems(1) have "merged xs = us @ r # r' # vs'" by simp
      with snoc.IH snoc.prems(2) show ?thesis by blast
    qed
  qed
qed

end

section \<open>Neighbouring points\<close>

text \<open>\<open>zip(points, points[1:])\<close> over ascending points.\<close>

lemma neighbours_Cons: "zip (x # y # ys) (tl (x # y # ys)) = (x, y) # zip (y # ys) (tl (y # ys))"
  by simp

lemma neighbours_gap:
  "sorted_wrt (<) xs \<Longrightarrow> (a, b) \<in> set (zip xs (tl xs)) \<Longrightarrow>
     a < b \<and> a \<in> set xs \<and> b \<in> set xs \<and> (\<forall>x \<in> set xs. x \<le> a \<or> b \<le> (x::int))"
proof (induction xs rule: induct_list012)
  case (3 x y zs)
  then show ?case by (auto simp: less_imp_le)
qed simp_all

lemma neighbours_cover:
  "sorted_wrt (<) xs \<Longrightarrow> p \<in> set xs \<Longrightarrow> q \<in> set xs \<Longrightarrow> p \<le> t \<Longrightarrow> t < q \<Longrightarrow>
     \<exists>a b. (a, b) \<in> set (zip xs (tl xs)) \<and> a \<le> t \<and> t < (b::int)"
proof (induction xs arbitrary: p rule: induct_list012)
  case (3 x y zs)
  show ?case
  proof (cases "t < y")
    case True
    with "3.prems" have "x \<le> t" by auto
    with True show ?thesis by auto
  next
    case False
    with 3 have "\<exists>a b. (a, b) \<in> set (zip (y # zs) (tl (y # zs))) \<and> a \<le> t \<and> t < b"
      by (intro "3.IH"(2) [of y]) auto
    then show ?thesis by auto
  qed
qed auto

lemma neighbours_tiled:
  "sorted_wrt (<) (xs::int list) \<Longrightarrow> tiled fst snd (zip xs (tl xs))"
proof (induction xs rule: induct_list012)
  case (3 x y zs)
  have "y \<le> a" if "(a, b) \<in> set (zip (y # zs) zs)" for a b
    using neighbours_gap [of "y # zs" a b] that "3.prems" by (auto simp: less_imp_le)
  with 3 show ?case by (auto simp: tiled_Cons less_imp_le)
qed simp_all

end
