(* ===== verification/Records.thy ===== *)
theory Records
  imports Model
begin

text \<open>
  The remaining frozen records of \<^verbatim>\<open>spectra_core/model.py\<close>: telemetry records, canonical
  events, entities, sources, rules and the encodings of facts and licences, with their byte
  encodings and identifier preimages. Unicode normalisation \<open>nform\<close> and the hash
  \<open>raw_digest\<close> are parameters, as in \<^theory_text>\<open>Canon\<close>.
\<close>

section \<open>Optional members and attributes\<close>

definition optional :: "('a \<Rightarrow> octets outcome) \<Rightarrow> 'a option \<Rightarrow> octets outcome" where
  "optional encode value =
     (case value of
        None \<Rightarrow> Inr (boolean False)
      | Some v \<Rightarrow> andThen (encode v) (\<lambda>b. Inr (boolean True @ b)))"

definition require_sorted_ids :: "string list \<Rightarrow> string list outcome" where
  "require_sorted_ids values = check_strictly_ascending values id"

definition check_attrs :: "(string \<times> string) list \<Rightarrow> string list outcome" where
  "check_attrs attrs = check_strictly_ascending (map fst attrs) id"

section \<open>Telemetry records\<close>

record telemetry_record =
  rc_record_id :: string
  rc_source_id :: string
  rc_raw_bytes :: octets

definition mint_record :: "(octets \<Rightarrow> octets) \<Rightarrow> string \<Rightarrow> octets \<Rightarrow> telemetry_record outcome" where
  "mint_record raw_digest source_id raw_bytes =
     andThen (mint raw_digest RecordId raw_bytes) (\<lambda>rid.
       Inr \<lparr>rc_record_id = rid, rc_source_id = source_id, rc_raw_bytes = raw_bytes\<rparr>)"

definition record_canonical_bytes :: "telemetry_record \<Rightarrow> octets outcome" where
  "record_canonical_bytes r = join_parts [ascii_text (rc_source_id r), blob (rc_raw_bytes r)]"

definition record_verify_id :: "(octets \<Rightarrow> octets) \<Rightarrow> telemetry_record \<Rightarrow> bool outcome" where
  "record_verify_id raw_digest r =
     andThen (mint raw_digest RecordId (rc_raw_bytes r)) (\<lambda>rid. Inr (rc_record_id r = rid))"

section \<open>Canonical events\<close>

record canonical_event =
  ce_event_id :: string
  ce_record_id :: string
  ce_source_id :: string
  ce_seq :: int
  ce_event_type :: string
  ce_t_evt_ns :: nanos
  ce_t_ing_ns :: nanos
  ce_attrs :: "(string \<times> string) list"
  ce_chain_hash :: "string option"
  ce_chain_prev :: "string option"

definition check_chain_ref :: "string option \<Rightarrow> unit outcome" where
  "check_chain_ref value =
     (case value of None \<Rightarrow> Inr () | Some v \<Rightarrow> andThen (parse_hash_ref v) (\<lambda>_. Inr ()))"

definition check_canonical_event :: "canonical_event \<Rightarrow> canonical_event outcome" where
  "check_canonical_event e =
     andThen (u32 (ce_seq e)) (\<lambda>_.
     andThen (check_nanos (ce_t_evt_ns e)) (\<lambda>_.
     andThen (check_nanos (ce_t_ing_ns e)) (\<lambda>_.
     andThen (check_attrs (ce_attrs e)) (\<lambda>_.
     andThen (guard ((ce_chain_hash e = None) = (ce_chain_prev e = None)) SchemaError) (\<lambda>_.
     andThen (check_chain_ref (ce_chain_hash e)) (\<lambda>_.
     andThen (check_chain_ref (ce_chain_prev e)) (\<lambda>_. Inr e)))))))"

definition event_tick :: "canonical_event \<Rightarrow> int outcome" where
  "event_tick e = tick_of (ce_t_evt_ns e)"

definition event_identity_bytes :: "(string \<Rightarrow> string) \<Rightarrow> canonical_event \<Rightarrow> octets outcome" where
  "event_identity_bytes nform e =
     join_parts [pairs nform (ce_attrs e), utf8_text nform (ce_event_type e), u32 (ce_seq e),
       ascii_text (ce_source_id e), i64 (ce_t_evt_ns e)]"

definition event_canonical_bytes :: "(string \<Rightarrow> string) \<Rightarrow> canonical_event \<Rightarrow> octets outcome" where
  "event_canonical_bytes nform e =
     join_parts [pairs nform (ce_attrs e), optional ascii_text (ce_chain_hash e),
       optional ascii_text (ce_chain_prev e), ascii_text (ce_event_id e),
       utf8_text nform (ce_event_type e), ascii_text (ce_record_id e), u32 (ce_seq e),
       ascii_text (ce_source_id e), i64 (ce_t_evt_ns e), i64 (ce_t_ing_ns e)]"

definition event_verify_id ::
    "(octets \<Rightarrow> octets) \<Rightarrow> (string \<Rightarrow> string) \<Rightarrow> canonical_event \<Rightarrow> bool outcome" where
  "event_verify_id raw_digest nform e =
     andThen (event_identity_bytes nform e) (\<lambda>payload.
     andThen (mint raw_digest EventId payload) (\<lambda>eid. Inr (ce_event_id e = eid)))"

definition event_sort_key :: "canonical_event \<Rightarrow> int \<times> string \<times> int \<times> string" where
  "event_sort_key e = (ce_t_evt_ns e, ce_source_id e, ce_seq e, ce_event_id e)"

section \<open>Entities\<close>

record entity =
  en_entity_id :: string
  en_kind :: string
  en_canonical_name :: string
  en_join_rule_id :: string
  en_resolved_from :: "string list"

text \<open>The kind spelled in an entity identifier.\<close>

definition entity_id_kind :: "string \<Rightarrow> string" where
  "entity_id_kind value = fst (partition_at (CHR '':'') (snake_of EntityId value))"

definition check_entity :: "entity \<Rightarrow> entity outcome" where
  "check_entity e =
     andThen (guard (entity_id_kind (en_entity_id e) = en_kind e) SchemaError) (\<lambda>_.
     andThen (require_sorted_ids (en_resolved_from e)) (\<lambda>_. Inr e))"

definition entity_identity_bytes :: "(string \<Rightarrow> string) \<Rightarrow> string \<Rightarrow> string \<Rightarrow> octets outcome" where
  "entity_identity_bytes nform canonical_name kind =
     join_parts [utf8_text nform canonical_name, ascii_text kind]"

definition mint_entity_record ::
    "(octets \<Rightarrow> octets) \<Rightarrow> (string \<Rightarrow> string) \<Rightarrow> string \<Rightarrow> string \<Rightarrow> string \<Rightarrow> string list
     \<Rightarrow> entity outcome" where
  "mint_entity_record raw_digest nform kind canonical_name join_rule_id resolved_from =
     andThen (entity_identity_bytes nform canonical_name kind) (\<lambda>payload.
     andThen (mint_entity raw_digest kind payload) (\<lambda>eid.
       check_entity \<lparr>en_entity_id = eid, en_kind = kind, en_canonical_name = canonical_name,
         en_join_rule_id = join_rule_id, en_resolved_from = sort resolved_from\<rparr>))"

definition entity_canonical_bytes :: "(string \<Rightarrow> string) \<Rightarrow> entity \<Rightarrow> octets outcome" where
  "entity_canonical_bytes nform e =
     join_parts [utf8_text nform (en_canonical_name e), ascii_text (en_entity_id e),
       utf8_text nform (en_join_rule_id e), ascii_text (en_kind e), id_seq (en_resolved_from e)]"

section \<open>Sources\<close>

record source =
  so_source_id :: string
  so_integrity_class :: integrity_class
  so_source_rank :: int
  so_emits_event_types :: "string list"
  so_nominal_period_ns :: "nanos option"

fun integrity_text :: "integrity_class \<Rightarrow> string" where
  "integrity_text CHAINED = ''chained''"
| "integrity_text SEQUENCED = ''sequenced''"
| "integrity_text NONE = ''none''"

definition check_source :: "source \<Rightarrow> source outcome" where
  "check_source s =
     andThen (u8 (so_source_rank s)) (\<lambda>_.
     andThen (check_strictly_ascending (so_emits_event_types s) id) (\<lambda>_.
       case so_nominal_period_ns s of
         None \<Rightarrow> Inr s
       | Some period \<Rightarrow> andThen (check_nanos period) (\<lambda>v.
           if v \<le> 0 then raises SchemaError else Inr s)))"

definition source_canonical_bytes :: "(string \<Rightarrow> string) \<Rightarrow> source \<Rightarrow> octets outcome" where
  "source_canonical_bytes nform s =
     join_parts [text_seq nform (so_emits_event_types s),
       ascii_text (integrity_text (so_integrity_class s)),
       optional i64 (so_nominal_period_ns s), ascii_text (so_source_id s), u8 (so_source_rank s)]"

section \<open>Facts and licences\<close>

definition fact_canonical_bytes :: "(string \<Rightarrow> string) \<Rightarrow> fact \<Rightarrow> octets outcome" where
  "fact_canonical_bytes nform f =
     join_parts [ascii_text (f_key f), fact_payload nform (f_predicate f) (f_args f) (f_tick f)]"

definition fact_verify_id ::
    "(octets \<Rightarrow> octets) \<Rightarrow> (string \<Rightarrow> string) \<Rightarrow> fact \<Rightarrow> bool outcome" where
  "fact_verify_id raw_digest nform f =
     andThen (fact_payload nform (f_predicate f) (f_args f) (f_tick f)) (\<lambda>payload.
     andThen (mint raw_digest FactHash payload) (\<lambda>key. Inr (f_key f = key)))"

definition licence_canonical_bytes :: "(string \<Rightarrow> string) \<Rightarrow> licence \<Rightarrow> octets outcome" where
  "licence_canonical_bytes nform l =
     join_parts [ascii_text (basis_text (lic_basis l)), ascii_text (lic_id l),
       utf8_text nform (lic_reason l), ascii_text (lic_source_id l), i64 (lic_t0_ns l),
       i64 (lic_t1_ns l), id_seq (lic_witness l)]"

definition licence_verify_id ::
    "(octets \<Rightarrow> octets) \<Rightarrow> (string \<Rightarrow> string) \<Rightarrow> licence \<Rightarrow> bool outcome" where
  "licence_verify_id raw_digest nform l =
     andThen (Interval (lic_t0_ns l) (lic_t1_ns l)) (\<lambda>w.
     andThen (licence_payload nform (lic_basis l) (lic_reason l) (lic_source_id l) w) (\<lambda>payload.
     andThen (mint raw_digest LicenseId payload) (\<lambda>lid. Inr (lic_id l = lid))))"

section \<open>Rules\<close>

record rule_record =
  rl_rule_id :: string
  rl_rule_version :: string
  rl_dimension :: string
  rl_kind :: rule_kind
  rl_head :: string
  rl_body :: "string list"
  rl_producing_sources :: "string list"
  rl_silent_possible :: bool
  rl_when :: string
  rl_blocked_when :: string
  rl_temporal :: "(string \<times> string) list"
  rl_persistence :: string
  rl_evidence :: "string list"
  rl_causal_relation :: string
  rl_attck :: "string list"
  rl_note :: string

fun rule_kind_text :: "rule_kind \<Rightarrow> string" where
  "rule_kind_text DETECT = ''detect''"
| "rule_kind_text OBLIGATION = ''obligation''"

text \<open>The pattern \<^verbatim>\<open>\A\d+\.\d+\.\d+\Z\<close>, on the decimal digits of ASCII.\<close>

definition is_number :: "string \<Rightarrow> bool" where
  "is_number s = (s \<noteq> [] \<and> list_all is_digit s)"

definition is_semantic_version :: "string \<Rightarrow> bool" where
  "is_semantic_version v =
     (case partition_at (CHR ''.'') v of
        (a, Some r) \<Rightarrow> is_number a \<and>
          (case partition_at (CHR ''.'') r of
             (b, Some c) \<Rightarrow> is_number b \<and> is_number c
           | _ \<Rightarrow> False)
      | _ \<Rightarrow> False)"

definition MAX_BODY :: nat where "MAX_BODY = 4"

definition check_rule :: "rule_record \<Rightarrow> rule_record outcome" where
  "check_rule r =
     andThen (guard (is_semantic_version (rl_rule_version r)) SchemaError) (\<lambda>_.
     andThen (guard (\<not> MAX_BODY < length (rl_body r)) SchemaError) (\<lambda>_.
     andThen (require_sorted_ids (rl_producing_sources r)) (\<lambda>_.
     andThen (check_attrs (rl_temporal r)) (\<lambda>_. Inr r))))"

definition metadata_bytes :: "(string \<Rightarrow> string) \<Rightarrow> rule_record \<Rightarrow> octets outcome" where
  "metadata_bytes nform r =
     join_parts [andThen (mapM (utf8_text nform) (rl_attck r)) sorted_set,
       andThen (mapM (utf8_text nform) (rl_body r)) sorted_set,
       utf8_text nform (rl_head r),
       andThen (mapM ascii_text (rl_producing_sources r)) sorted_set,
       ascii_text (rl_rule_id r), Inr (boolean (rl_silent_possible r))]"

definition rule_canonical_bytes :: "(string \<Rightarrow> string) \<Rightarrow> rule_record \<Rightarrow> octets outcome" where
  "rule_canonical_bytes nform r =
     join_parts [andThen (mapM (utf8_text nform) (rl_attck r)) sorted_set,
       utf8_text nform (rl_blocked_when r), text_seq nform (rl_body r),
       utf8_text nform (rl_causal_relation r), ascii_text (rl_dimension r),
       text_seq nform (rl_evidence r), utf8_text nform (rl_head r),
       ascii_text (rule_kind_text (rl_kind r)), utf8_text nform (rl_persistence r),
       id_seq (rl_producing_sources r), ascii_text (rl_rule_id r), ascii_text (rl_rule_version r),
       Inr (boolean (rl_silent_possible r)), pairs nform (rl_temporal r),
       utf8_text nform (rl_when r)]"

section \<open>Blind windows\<close>

record blind_window =
  bw_window_id :: string
  bw_source_id :: string
  bw_t0_ns :: nanos
  bw_t1_ns :: nanos
  bw_verdict :: liveness_verdict
  bw_reason :: string

fun verdict_text :: "liveness_verdict \<Rightarrow> string" where
  "verdict_text LIVE = ''LIVE''"
| "verdict_text BLIND = ''BLIND''"
| "verdict_text SUPPRESSED = ''SUPPRESSED''"

definition check_blind_window :: "blind_window \<Rightarrow> blind_window outcome" where
  "check_blind_window w =
     andThen (Interval (bw_t0_ns w) (bw_t1_ns w)) (\<lambda>_.
     andThen (guard (bw_verdict w \<noteq> LIVE) SchemaError) (\<lambda>_.
     andThen (guard (bw_reason w \<noteq> []) SchemaError) (\<lambda>_. Inr w)))"

definition mint_blind_window ::
    "(octets \<Rightarrow> octets) \<Rightarrow> (string \<Rightarrow> string) \<Rightarrow> string \<Rightarrow> interval \<Rightarrow> liveness_verdict \<Rightarrow> string
     \<Rightarrow> blind_window outcome" where
  "mint_blind_window raw_digest nform source_id w verdict reason =
     andThen (join_parts [utf8_text nform reason, ascii_text source_id, i64 (iv_t0 w),
       i64 (iv_t1 w), ascii_text (verdict_text verdict)]) (\<lambda>payload.
     andThen (mint raw_digest WindowId payload) (\<lambda>wid.
       check_blind_window \<lparr>bw_window_id = wid, bw_source_id = source_id, bw_t0_ns = iv_t0 w,
         bw_t1_ns = iv_t1 w, bw_verdict = verdict, bw_reason = reason\<rparr>))"

definition blind_window_canonical_bytes :: "(string \<Rightarrow> string) \<Rightarrow> blind_window \<Rightarrow> octets outcome" where
  "blind_window_canonical_bytes nform w =
     join_parts [utf8_text nform (bw_reason w), ascii_text (bw_source_id w), i64 (bw_t0_ns w),
       i64 (bw_t1_ns w), ascii_text (verdict_text (bw_verdict w)), ascii_text (bw_window_id w)]"

definition blind_window_sort_key :: "blind_window \<Rightarrow> string \<times> nanos \<times> nanos" where
  "blind_window_sort_key w = (bw_source_id w, bw_t0_ns w, bw_t1_ns w)"

section \<open>Encodings of instances, literals, corridors and cuts\<close>

definition evidence_canonical_bytes :: "(string \<Rightarrow> string) \<Rightarrow> evidence_ref \<Rightarrow> octets outcome" where
  "evidence_canonical_bytes nform e =
     join_parts [utf8_text nform (er_binding e), ascii_text (er_event_id e),
       ascii_text (er_source_id e), i64 (er_t_evt_ns e)]"

fun observation_text :: "observation \<Rightarrow> string" where
  "observation_text OBSERVED = ''OBSERVED''"
| "observation_text LICENSED = ''LICENSED''"

definition instance_canonical_bytes :: "(string \<Rightarrow> string) \<Rightarrow> rule_instance \<Rightarrow> octets outcome" where
  "instance_canonical_bytes nform i =
     join_parts [andThen (mapM (\<lambda>m. u64 (int m)) (ri_blockers i)) ordered_seq,
       id_seq (ri_body i),
       andThen (mapM (evidence_canonical_bytes nform) (ri_evidence i)) ordered_seq,
       Inr (boolean (ri_ghost i)), ascii_text (ri_head i), ascii_text (ri_instance_id i),
       id_seq (ri_license_ids i), ascii_text (observation_text (ri_observed i)),
       ascii_text (ri_rule_id i), ascii_text (ri_rule_version i), u32 (ri_tick i)]"

definition instance_verify_id :: "(octets \<Rightarrow> octets) \<Rightarrow> rule_instance \<Rightarrow> bool outcome" where
  "instance_verify_id raw_digest i =
     andThen (instance_payload (ri_rule_id i) (ri_head i) (ri_body i) (ri_evidence i)
                (ri_license_ids i)) (\<lambda>payload.
     andThen (mint raw_digest InstanceId payload) (\<lambda>iid. Inr (ri_instance_id i = iid)))"

definition literal_id :: "threshold_literal \<Rightarrow> string outcome" where
  "literal_id a = of_literal (tl_control_id a) (int (tl_level a))"

definition literal_canonical_bytes :: "threshold_literal \<Rightarrow> octets outcome" where
  "literal_canonical_bytes a =
     join_parts [u8 (int (tl_bit a)), ascii_text (tl_control_id a), u8 (int (tl_level a)),
       u16 (int (tl_rank a))]"

definition corridor_canonical_bytes :: "corridor \<Rightarrow> octets outcome" where
  "corridor_canonical_bytes c =
     join_parts [andThen (mapM (\<lambda>r. u16 (int r)) (cor_atom_ranks c)) ordered_seq,
       ascii_text (cor_id c), u64 (int (cor_mask c))]"

definition corridor_verify_id :: "(octets \<Rightarrow> octets) \<Rightarrow> corridor \<Rightarrow> bool outcome" where
  "corridor_verify_id raw_digest c =
     andThen (leb128_seq (map int (cor_atom_ranks c))) (\<lambda>payload.
     andThen (mint raw_digest CorridorId payload) (\<lambda>cid. Inr (cor_id c = cid)))"

fun minimality_text :: "minimality \<Rightarrow> string" where
  "minimality_text EXACT_EXHAUSTIVE = ''EXACT_EXHAUSTIVE''"
| "minimality_text EXACT_PSI_RELATIVE = ''EXACT_PSI_RELATIVE''"
| "minimality_text SUBSET = ''SUBSET''"
| "minimality_text UNVERIFIED = ''UNVERIFIED''"

definition cut_identity_bytes :: "cut \<Rightarrow> octets outcome" where
  "cut_identity_bytes c =
     andThen (mapM (\<lambda>a. andThen (literal_id a) ascii_text) (ct_atoms c)) ordered_seq"

definition cut_id :: "(octets \<Rightarrow> octets) \<Rightarrow> cut \<Rightarrow> string outcome" where
  "cut_id raw_digest c = andThen (cut_identity_bytes c) (mint raw_digest CutId)"

definition cut_canonical_bytes :: "cut \<Rightarrow> octets outcome" where
  "cut_canonical_bytes c =
     join_parts [andThen (mapM literal_canonical_bytes (ct_atoms c)) ordered_seq,
       u8 (int (ct_cardinality c)), u64 (int (ct_mask c)),
       ascii_text (minimality_text (ct_minimality c))]"

section \<open>The frame of a certificate\<close>

record certificate =
  cf_schema_v :: string
  cf_min_checker :: string
  cf_profile :: string
  cf_scope :: "(string \<times> string) list"
  cf_inputs :: "(string \<times> string) list"
  cf_body_sections :: "(string \<times> octets) list"
  cf_hash_algorithm :: string
  cf_hash_substitution_note :: string

definition CERT_SCOPE_MEMBERS :: "string list" where
  "CERT_SCOPE_MEMBERS = [''attacker'', ''bundle'', ''controls'', ''er'', ''goal'', ''liveness'', ''rules'']"

text \<open>The two strings of \<^verbatim>\<open>canon.py\<close> that name the digest are arguments.\<close>

definition check_certificate :: "string \<Rightarrow> string \<Rightarrow> certificate \<Rightarrow> certificate outcome" where
  "check_certificate algorithm note c =
     andThen (guard_code (cf_hash_algorithm c = algorithm) SchemaError ''E-HASH-ALGO'') (\<lambda>_.
     andThen (guard_code (cf_hash_substitution_note c = note) SchemaError ''E-HASH-ALGO'') (\<lambda>_.
     andThen (check_attrs (cf_scope c)) (\<lambda>_.
     andThen (check_attrs (cf_inputs c)) (\<lambda>_.
     andThen (guard_code (map fst (cf_scope c) = CERT_SCOPE_MEMBERS) SchemaError ''VRD-005'') (\<lambda>_.
     andThen (guard_code (map_of (cf_scope c) ''attacker'' = Some ''non-adaptive'')
                SchemaError ''VRD-005'') (\<lambda>_.
     andThen (check_strictly_ascending (map fst (cf_body_sections c)) id) (\<lambda>_. Inr c)))))))"

definition certificate_canonical_bytes :: "(string \<Rightarrow> string) \<Rightarrow> certificate \<Rightarrow> octets outcome" where
  "certificate_canonical_bytes nform c =
     join_parts [andThen (mapM (\<lambda>(name, value). join_parts [ascii_text name, blob value])
         (cf_body_sections c)) ordered_seq,
       ascii_text (cf_hash_algorithm c), utf8_text nform (cf_hash_substitution_note c),
       pairs nform (cf_inputs c), ascii_text (cf_min_checker c), ascii_text (cf_profile c),
       ascii_text (cf_schema_v c), pairs nform (cf_scope c)]"

definition cert_id ::
    "(octets \<Rightarrow> octets) \<Rightarrow> (string \<Rightarrow> string) \<Rightarrow> certificate \<Rightarrow> string outcome" where
  "cert_id raw_digest nform c =
     andThen (certificate_canonical_bytes nform c) (mint raw_digest CertId)"

definition cert_hash ::
    "(octets \<Rightarrow> octets) \<Rightarrow> (string \<Rightarrow> string) \<Rightarrow> certificate \<Rightarrow> string outcome" where
  "cert_hash raw_digest nform c =
     andThen (certificate_canonical_bytes nform c) (hash_ref raw_digest ''cert'')"

section \<open>Ground truth\<close>

datatype truth_kind = BENIGN | ATTACK_STEP | ATTACK_UNOBSERVED | NOISE_LOOKALIKE

datatype truth_origin = POPULATION | SCENARIO | DEGRADATION

fun truth_kind_text :: "truth_kind \<Rightarrow> string" where
  "truth_kind_text BENIGN = ''benign''"
| "truth_kind_text ATTACK_STEP = ''attack_step''"
| "truth_kind_text ATTACK_UNOBSERVED = ''attack_unobserved''"
| "truth_kind_text NOISE_LOOKALIKE = ''noise_lookalike''"

fun truth_origin_text :: "truth_origin \<Rightarrow> string" where
  "truth_origin_text POPULATION = ''population''"
| "truth_origin_text SCENARIO = ''scenario''"
| "truth_origin_text DEGRADATION = ''degradation''"

record ground_truth =
  gt_truth_id :: string
  gt_sim_tick :: int
  gt_kind :: truth_kind
  gt_origin :: truth_origin
  gt_actor_ref :: string
  gt_observable :: bool
  gt_producing_sources :: "string list"
  gt_event_id :: "string option"
  gt_chain_id :: "string option"
  gt_step_k :: "int option"
  gt_step_action :: "string option"
  gt_subject_ref :: "string option"
  gt_true_transition :: "(string \<times> string) list"
  gt_suppressed_by :: "string option"

definition is_truth_id :: "string \<Rightarrow> bool" where
  "is_truth_id v = (take 3 v = ''tr_'' \<and> is_hex 16 (drop 3 v))"

definition check_ground_truth :: "ground_truth \<Rightarrow> ground_truth outcome" where
  "check_ground_truth g =
     andThen (guard (is_truth_id (gt_truth_id g)) SchemaError) (\<lambda>_.
     andThen (check_tick (gt_sim_tick g)) (\<lambda>_.
     andThen (require_sorted_ids (gt_producing_sources g)) (\<lambda>_.
     andThen (case gt_step_k g of None \<Rightarrow> Inr [] | Some k \<Rightarrow> u16 k) (\<lambda>_.
     andThen (check_attrs (gt_true_transition g)) (\<lambda>_.
     andThen (guard (\<not> (gt_kind g = ATTACK_UNOBSERVED
         \<and> (gt_event_id g \<noteq> None \<or> gt_producing_sources g \<noteq> []))) SchemaError) (\<lambda>_.
     andThen (guard (\<not> (gt_kind g \<noteq> ATTACK_UNOBSERVED \<and> gt_event_id g = None)) SchemaError) (\<lambda>_.
       Inr g)))))))"

definition mint_truth_id :: "(octets \<Rightarrow> octets) \<Rightarrow> octets \<Rightarrow> string outcome" where
  "mint_truth_id raw_digest payload =
     andThen (digest_hex raw_digest ''truth'' payload 16) (\<lambda>h. Inr (''tr_'' @ take 16 h))"

definition truth_canonical_bytes :: "(string \<Rightarrow> string) \<Rightarrow> ground_truth \<Rightarrow> octets outcome" where
  "truth_canonical_bytes nform g =
     join_parts [utf8_text nform (gt_actor_ref g), optional (utf8_text nform) (gt_chain_id g),
       optional ascii_text (gt_event_id g), ascii_text (truth_kind_text (gt_kind g)),
       Inr (boolean (gt_observable g)), ascii_text (truth_origin_text (gt_origin g)),
       id_seq (gt_producing_sources g), u32 (gt_sim_tick g),
       optional (utf8_text nform) (gt_step_action g), optional u16 (gt_step_k g),
       optional (utf8_text nform) (gt_subject_ref g),
       optional (utf8_text nform) (gt_suppressed_by g), pairs nform (gt_true_transition g),
       ascii_text (gt_truth_id g)]"

section \<open>Unambiguous encoders\<close>

text \<open>
  The contract of an encoder: two encodings that start the same octet string come from
  values with the same \<open>view\<close> (the value itself, or its normalised form) and leave the same
  rest. Fixed-width integers, length-prefixed texts and counted sequences all satisfy it, and
  records that concatenate such parts inherit it.
\<close>

definition agree :: "octets outcome list \<Rightarrow> octets outcome list \<Rightarrow> octets \<Rightarrow> octets \<Rightarrow> bool" where
  "agree ps qs x y \<longleftrightarrow> (\<exists>a b. join_parts ps = Inr a \<and> join_parts qs = Inr b \<and> a @ x = b @ y)"

lemma join_parts_Cons:
  "join_parts (p # ps) = Inr c \<longleftrightarrow> (\<exists>a b. p = Inr a \<and> join_parts ps = Inr b \<and> c = a @ b)"
  by (auto simp: join_parts_def andThen_eq_Inr)

lemma agree_same: "join_parts ps = Inr a \<Longrightarrow> join_parts qs = Inr a \<Longrightarrow> agree ps qs [] []"
  by (auto simp: agree_def)

locale codec =
  fixes enc :: "'a \<Rightarrow> octets outcome" and view :: "'a \<Rightarrow> 'b"
  assumes unambiguous: "enc v = Inr a \<Longrightarrow> enc w = Inr b \<Longrightarrow> a @ x = b @ y \<Longrightarrow> view v = view w \<and> x = y"
begin

lemma injective: "enc v = Inr a \<Longrightarrow> enc w = Inr a \<Longrightarrow> view v = view w"
  using unambiguous [of v a w a "[]" "[]"] by simp

lemma part:
  "agree (enc v # ps) (enc w # qs) x y \<Longrightarrow> view v = view w \<and> agree ps qs x y"
proof -
  assume "agree (enc v # ps) (enc w # qs) x y"
  then obtain a b a' b' where enc: "enc v = Inr a" "enc w = Inr b"
    and rest: "join_parts ps = Inr a'" "join_parts qs = Inr b'" and eq: "a @ (a' @ x) = b @ (b' @ y)"
    by (auto simp: agree_def join_parts_Cons)
  from unambiguous [OF enc eq] rest show ?thesis unfolding agree_def by blast
qed

lemma optional:
  assumes "Records.optional enc v = Inr a" "Records.optional enc w = Inr b" "a @ x = b @ y"
  shows "map_option view v = map_option view w \<and> x = y"
proof (cases v)
  case None
  with assms show ?thesis
    by (cases w) (auto simp: optional_def boolean_def result_simps)
next
  case (Some v')
  with assms obtain w' where w: "w = Some w'"
    by (cases w) (auto simp: optional_def boolean_def result_simps)
  with assms Some obtain a' b' where "enc v' = Inr a'" "enc w' = Inr b'" "a' @ x = b' @ y"
    by (auto simp: optional_def boolean_def result_simps)
  from unambiguous [OF this] Some w show ?thesis by simp
qed

lemma items:
  "mapM enc vs = Inr as \<Longrightarrow> mapM enc ws = Inr bs \<Longrightarrow> length vs = length ws \<Longrightarrow>
     concat as @ x = concat bs @ y \<Longrightarrow> map view vs = map view ws \<and> x = y"
proof (induction vs arbitrary: ws as bs)
  case (Cons v vs)
  then obtain w ws' where ws: "ws = w # ws'" by (cases ws) auto
  with Cons.prems obtain a as' b bs' where enc: "enc v = Inr a" "enc w = Inr b"
    and rest: "mapM enc vs = Inr as'" "mapM enc ws' = Inr bs'" "as = a # as'" "bs = b # bs'"
    by (auto simp: result_simps)
  from Cons.prems(4) rest have "a @ (concat as' @ x) = b @ (concat bs' @ y)" by simp
  from unambiguous [OF enc this] Cons.IH [OF rest(1,2)] ws Cons.prems(3) show ?case by simp
qed auto

lemma counted:
  assumes "andThen (mapM enc vs) ordered_seq = Inr a" "andThen (mapM enc ws) ordered_seq = Inr b"
    and "a @ x = b @ y"
  shows "map view vs = map view ws \<and> x = y"
proof -
  obtain as bs n m where as: "mapM enc vs = Inr as" and bs: "mapM enc ws = Inr bs"
    and n: "u32 (int (length as)) = Inr n" and m: "u32 (int (length bs)) = Inr m"
    and eq: "n @ (concat as @ x) = m @ (concat bs @ y)"
    using assms by (auto simp: andThen_eq_Inr ordered_seq_eq_Inr)
  from u32_append_inj [OF n m eq] mapM_eq_Inr_length [OF as] mapM_eq_Inr_length [OF bs]
  have "length vs = length ws" "concat as @ x = concat bs @ y" by simp_all
  from items [OF as bs this] show ?thesis .
qed

end

lemma uint_unambiguous:
  assumes "uint v k = Inr a" "uint w k = Inr b" "a @ x = b @ y"
  shows "v = w \<and> x = y"
proof -
  from assms have "length a = length b" by (auto simp: uint_eq_Inr)
  with assms(3) have "a = b" "x = y" by auto
  with assms(1,2) nat_less_256_power [of v k] nat_less_256_power [of w k]
    to_bytes_big_inj [of "nat v" k "nat w"]
  show ?thesis by (auto simp: uint_eq_Inr)
qed

interpretation c8: codec u8 id
  by unfold_locales (auto simp: u8_def dest: uint_unambiguous)

interpretation c16: codec u16 id
  by unfold_locales (auto simp: u16_def dest: uint_unambiguous)

interpretation c32: codec u32 id
  by unfold_locales (auto simp: u32_def dest: uint_unambiguous)

interpretation c64: codec u64 id
  by unfold_locales (auto simp: u64_def dest: uint_unambiguous)

lemma i64_eq_Inr: "i64 v = Inr a \<longleftrightarrow>
    - (2 ^ 63) \<le> v \<and> v < 2 ^ 63 \<and> a = to_bytes_big 8 (nat (v mod 2 ^ 64))"
  by (auto simp: i64_def)

lemma i64_residue:
  assumes "- (2 ^ 63) \<le> v" "v < 2 ^ 63"
  shows "v mod 2 ^ 64 = (if v < 0 then v + 2 ^ 64 else (v::int))"
proof (cases "v < 0")
  case True
  have "v mod 2 ^ 64 = (v + 2 ^ 64) mod 2 ^ 64" by simp
  also have "\<dots> = v + 2 ^ 64" using assms True by (intro mod_pos_pos_trivial) simp_all
  finally show ?thesis using True by simp
qed (use assms in simp)

interpretation ci: codec i64 id
proof
  fix v w :: int and a b x y :: octets
  assume e: "i64 v = Inr a" "i64 w = Inr b" "a @ x = b @ y"
  then have "length a = length b" by (auto simp: i64_eq_Inr)
  with e(3) have ab: "a = b" "x = y" by auto
  have "nat (v mod 2 ^ 64) = nat (w mod 2 ^ 64)"
    using e(1,2) ab(1) by (intro to_bytes_big_inj [of _ 8]) (simp_all add: i64_eq_Inr)
  then have "v mod 2 ^ 64 = w mod 2 ^ 64"
    by (simp add: eq_nat_nat_iff)
  moreover have "v mod 2 ^ 64 = (if v < 0 then v + 2 ^ 64 else v)"
    "w mod 2 ^ 64 = (if w < 0 then w + 2 ^ 64 else w)"
    using e(1,2) by (auto simp only: i64_eq_Inr i64_residue)
  ultimately have "v = w"
    using e(1,2) unfolding i64_eq_Inr by (auto split: if_splits)
  with ab(2) show "id v = id w \<and> x = y" by simp
qed

interpretation cb: codec blob id
  by unfold_locales (auto dest: blob_unambiguous)

interpretation ct: codec ascii_text id
  by unfold_locales (auto simp: ascii_text_eq_Inr dest: blob_unambiguous)

lemma utf8_text_eq_Inr: "utf8_text nform v = Inr a \<Longrightarrow> blob (nform v) = Inr a"
  by (auto simp: utf8_text_def nfc_def Let_def result_simps split: if_splits)

interpretation cu: codec "utf8_text nform" nform for nform
  by unfold_locales (auto dest!: utf8_text_eq_Inr dest: blob_unambiguous)

interpretation cl: codec id_seq id
proof
  fix v w a b x y
  assume "id_seq v = Inr a" "id_seq w = Inr b" "a @ x = b @ y"
  from ct.counted [OF this [unfolded id_seq_def]] show "id v = id w \<and> x = y" by simp
qed

interpretation cf: codec "\<lambda>v. Inr (boolean v)" id
  by unfold_locales (auto simp: boolean_def split: if_splits)

section \<open>Attributes\<close>

definition normal_key :: "(string \<Rightarrow> string) \<Rightarrow> string \<Rightarrow> string" where
  "normal_key nform k = (if is_ascii k then k else nform k)"

definition normal_attrs :: "(string \<Rightarrow> string) \<Rightarrow> (string \<times> string) list \<Rightarrow> (string \<times> string) set" where
  "normal_attrs nform attrs = (\<lambda>(k, v). (normal_key nform k, nform v)) ` set attrs"

lemma encode_pair_eq_Inr:
  "encode_pair nform (k, v) = Inr (a, b) \<Longrightarrow> blob (normal_key nform k) = Inr a \<and> blob (nform v) = Inr b"
  by (auto simp: encode_pair_def normal_key_def result_simps dest!: utf8_text_eq_Inr split: if_splits)

lemma encoded_attrs:
  assumes "mapM (encode_pair nform) attrs = Inr as"
  shows "(\<lambda>(k, v). (blob k, blob v)) ` normal_attrs nform attrs = (\<lambda>(a, b). (Inr a, Inr b)) ` set as"
  using assms
proof (induction attrs arbitrary: as)
  case (Cons kv attrs)
  then obtain a b as' where "encode_pair nform kv = Inr (a, b)" "mapM (encode_pair nform) attrs = Inr as'"
    "as = (a, b) # as'" by (auto simp: result_simps)
  moreover obtain k v where "kv = (k, v)" by (cases kv)
  ultimately show ?case
    using Cons.IH encode_pair_eq_Inr [of nform k v a b] by (simp add: normal_attrs_def)
qed (simp add: normal_attrs_def)

definition blob_pairs :: "(octets \<times> octets) set" where
  "blob_pairs = {(p, q). (\<exists>k. blob k = Inr p) \<and> (\<exists>l. blob l = Inr q)}"

definition join_pair :: "octets \<times> octets \<Rightarrow> octets outcome" where
  "join_pair kv = (if kv \<in> blob_pairs then Inr (fst kv @ snd kv) else raises CanonError)"

interpretation cj: codec join_pair id
proof
  fix u w :: "octets \<times> octets" and a b x y
  assume "join_pair u = Inr a" "join_pair w = Inr b" "a @ x = b @ y"
  then have p: "u \<in> blob_pairs" "w \<in> blob_pairs" "fst u @ (snd u @ x) = fst w @ (snd w @ y)"
    by (auto simp: join_pair_def split: if_splits)
  from p(1,2) obtain ku lu kw lw where bl: "blob ku = Inr (fst u)" "blob lu = Inr (snd u)"
    "blob kw = Inr (fst w)" "blob lw = Inr (snd w)" unfolding blob_pairs_def by auto
  from blob_unambiguous [OF bl(1,3) p(3)] have k: "ku = kw" "snd u @ x = snd w @ y" by simp_all
  from blob_unambiguous [OF bl(2,4) k(2)] have "lu = lw" "x = y" by simp_all
  with k(1) bl show "id u = id w \<and> x = y" by (simp add: prod_eq_iff)
qed

lemma encoded_blobs:
  assumes "mapM (encode_pair nform) attrs = Inr as"
  shows "set as \<subseteq> blob_pairs"
proof
  fix pq assume "pq \<in> set as"
  moreover obtain p q where pq: "pq = (p, q)" by (cases pq)
  ultimately have "(Inr p, Inr q) \<in> (\<lambda>(k, v). (blob k, blob v)) ` normal_attrs nform attrs"
    unfolding encoded_attrs [OF assms] by force
  then obtain k l where "blob k = Inr p" "blob l = Inr q" by (auto dest: sym)
  with pq show "pq \<in> blob_pairs" unfolding blob_pairs_def by blast
qed

lemma attrs_determined:
  assumes "mapM (encode_pair nform) v = Inr vs" "mapM (encode_pair nform) w = Inr ws"
    and "set vs = set ws"
  shows "normal_attrs nform v \<subseteq> normal_attrs nform w"
proof
  fix kl assume kl: "kl \<in> normal_attrs nform v"
  obtain k l where eq: "kl = (k, l)" by (cases kl)
  have images: "(\<lambda>(k, v). (blob k, blob v)) ` normal_attrs nform v =
      (\<lambda>(a, b). (Inr a, Inr b)) ` set vs"
    "(\<lambda>(k, v). (blob k, blob v)) ` normal_attrs nform w = (\<lambda>(a, b). (Inr a, Inr b)) ` set vs"
    using encoded_attrs [OF assms(1)] encoded_attrs [OF assms(2)] assms(3) by simp_all
  have mem: "(blob k, blob l) \<in> (\<lambda>(k, v). (blob k, blob v)) ` normal_attrs nform v"
    using kl eq by force
  obtain p q where pq: "blob k = Inr p" "blob l = Inr q"
    using mem unfolding images(1) by auto
  have "(blob k, blob l) \<in> (\<lambda>(k, v). (blob k, blob v)) ` normal_attrs nform w"
    using mem unfolding images by simp
  then obtain k' l' where kl': "(k', l') \<in> normal_attrs nform w" "blob k' = Inr p" "blob l' = Inr q"
    using pq by auto
  with cb.injective [OF pq(1) kl'(2)] cb.injective [OF pq(2) kl'(3)] eq
  show "kl \<in> normal_attrs nform w" by simp
qed

lemma pairs_eq_Inr:
  assumes "pairs nform v = Inr a"
  obtains vs n where "mapM (encode_pair nform) v = Inr vs" "u32 (int (length vs)) = Inr n"
    "a = n @ concat (map (\<lambda>kv. fst kv @ snd kv) (sort_key fst vs))"
proof -
  obtain vs where vs: "mapM (encode_pair nform) v = Inr vs"
    using assms by (auto simp: pairs_def andThen_eq_Inr)
  obtain n where "u32 (int (length vs)) = Inr n"
    "a = n @ concat (map (\<lambda>kv. fst kv @ snd kv) (sort_key fst vs))"
    using assms by (auto simp: pairs_def andThen_eq_Inr vs Let_def split: if_splits)
  with vs show thesis by (rule that)
qed

interpretation ca: codec "pairs nform" "normal_attrs nform" for nform
proof
  fix v w a b x y
  assume enc: "pairs nform v = Inr a" "pairs nform w = Inr b" and eq: "a @ x = b @ y"
  obtain vs n where vs: "mapM (encode_pair nform) v = Inr vs" "u32 (int (length vs)) = Inr n"
    "a = n @ concat (map (\<lambda>kv. fst kv @ snd kv) (sort_key fst vs))"
    using enc(1) by (rule pairs_eq_Inr)
  obtain ws m where ws: "mapM (encode_pair nform) w = Inr ws" "u32 (int (length ws)) = Inr m"
    "b = m @ concat (map (\<lambda>kv. fst kv @ snd kv) (sort_key fst ws))"
    using enc(2) by (rule pairs_eq_Inr)
  have "n @ (concat (map (\<lambda>kv. fst kv @ snd kv) (sort_key fst vs)) @ x) =
      m @ (concat (map (\<lambda>kv. fst kv @ snd kv) (sort_key fst ws)) @ y)"
    using eq vs(3) ws(3) by simp
  note rest = u32_append_inj [OF vs(2) ws(2) this]
  have joined: "mapM join_pair (sort_key fst us) = Inr (map (\<lambda>kv. fst kv @ snd kv) (sort_key fst us))"
    if "mapM (encode_pair nform) u = Inr us" for u us
    using encoded_blobs [OF that] by (intro mapM_Inr) (auto simp: join_pair_def)
  have "length (sort_key fst vs) = length (sort_key fst ws)" using rest by simp
  from cj.items [OF joined [OF vs(1)] joined [OF ws(1)] this conjunct2 [OF rest]]
  have "sort_key fst vs = sort_key fst ws \<and> x = y" by simp
  moreover from this have "set vs = set ws" by (metis set_sort)
  ultimately show "normal_attrs nform v = normal_attrs nform w \<and> x = y"
    using attrs_determined [OF vs(1) ws(1)] attrs_determined [OF ws(1) vs(1)] by blast
qed

interpretation co: codec "optional ascii_text" id
proof
  fix v w a b x y
  assume "optional ascii_text v = Inr a" "optional ascii_text w = Inr b" "a @ x = b @ y"
  from ct.optional [OF this] show "id v = id w \<and> x = y" by (simp add: option.map_id)
qed

lemma basis_text_inj: "basis_text a = basis_text b \<longleftrightarrow> a = b"
  by (cases a; cases b) simp_all

lemma event_preimage:
  assumes "event_identity_bytes nform e = Inr a" "event_identity_bytes nform e' = Inr a"
  shows "ce_seq e = ce_seq e' \<and> ce_source_id e = ce_source_id e' \<and> ce_t_evt_ns e = ce_t_evt_ns e' \<and>
    nform (ce_event_type e) = nform (ce_event_type e') \<and>
    normal_attrs nform (ce_attrs e) = normal_attrs nform (ce_attrs e')"
proof -
  note 1 = ca.part [OF agree_same [OF assms [unfolded event_identity_bytes_def]]]
  note 2 = cu.part [OF conjunct2 [OF 1]]
  note 3 = c32.part [OF conjunct2 [OF 2]]
  note 4 = ct.part [OF conjunct2 [OF 3]]
  note 5 = ci.part [OF conjunct2 [OF 4]]
  show ?thesis
    using conjunct1 [OF 1] conjunct1 [OF 2] conjunct1 [OF 3] conjunct1 [OF 4] conjunct1 [OF 5]
    unfolding id_apply by blast
qed

lemma fact_preimage:
  assumes "fact_payload nform p args t = Inr b" "fact_payload nform p' args' t' = Inr b"
  shows "nform p = nform p' \<and> args = args' \<and> t = t'"
proof -
  note 1 = cl.part [OF agree_same [OF assms [unfolded fact_payload_def]]]
  note 2 = cu.part [OF conjunct2 [OF 1]]
  note 3 = c32.part [OF conjunct2 [OF 2]]
  show ?thesis
    using conjunct1 [OF 1] conjunct1 [OF 2] conjunct1 [OF 3] unfolding id_apply by blast
qed

lemma licence_preimage:
  assumes "licence_payload nform ba re s w = Inr c" "licence_payload nform ba' re' s' w' = Inr c"
  shows "ba = ba' \<and> nform re = nform re' \<and> s = s' \<and> iv_t0 w = iv_t0 w' \<and> iv_t1 w = iv_t1 w'"
proof -
  note 1 = ct.part [OF agree_same [OF assms [unfolded licence_payload_def]]]
  note 2 = cu.part [OF conjunct2 [OF 1]]
  note 3 = ct.part [OF conjunct2 [OF 2]]
  note 4 = ci.part [OF conjunct2 [OF 3]]
  note 5 = ci.part [OF conjunct2 [OF 4]]
  show ?thesis
    using conjunct1 [OF 1] conjunct1 [OF 2] conjunct1 [OF 3] conjunct1 [OF 4] conjunct1 [OF 5]
    unfolding id_apply basis_text_inj by blast
qed

lemma instance_preimage:
  assumes "instance_payload r h bo ev li = Inr d" "instance_payload r' h' bo' ev' li' = Inr d"
  shows "r = r' \<and> h = h' \<and> bo = bo' \<and> map er_event_id ev = map er_event_id ev' \<and> li = li'"
proof -
  note 1 = cl.part [OF agree_same [OF assms [unfolded instance_payload_def]]]
  note 2 = cl.part [OF conjunct2 [OF 1]]
  note 3 = ct.part [OF conjunct2 [OF 2]]
  note 4 = cl.part [OF conjunct2 [OF 3]]
  note 5 = ct.part [OF conjunct2 [OF 4]]
  show ?thesis
    using conjunct1 [OF 1] conjunct1 [OF 2] conjunct1 [OF 3] conjunct1 [OF 4] conjunct1 [OF 5]
    unfolding id_apply by blast
qed

section \<open>Properties\<close>

text \<open>C25. An identifier preimage determines the content it names: equal preimages of two events
  come from the same type, sequence number, source, time and attributes (up to Unicode
  normalisation), equal preimages of facts from the same predicate, arguments and tick, of
  licences from the same basis, reason, source and interval, of rule instances from the same
  rule, head, body, evidence events and licences, so that apart from a collision of the digest
  no two different contents share an identifier.\<close>

theorem identity_preimages_faithful:
  "(event_identity_bytes nform e = Inr a \<and> event_identity_bytes nform e' = Inr a \<longrightarrow>
      ce_seq e = ce_seq e' \<and> ce_source_id e = ce_source_id e' \<and> ce_t_evt_ns e = ce_t_evt_ns e' \<and>
      nform (ce_event_type e) = nform (ce_event_type e') \<and>
      normal_attrs nform (ce_attrs e) = normal_attrs nform (ce_attrs e')) \<and>
   (fact_payload nform p args t = Inr b \<and> fact_payload nform p' args' t' = Inr b \<longrightarrow>
      nform p = nform p' \<and> args = args' \<and> t = t') \<and>
   (licence_payload nform ba re s w = Inr c \<and> licence_payload nform ba' re' s' w' = Inr c \<longrightarrow>
      ba = ba' \<and> nform re = nform re' \<and> s = s' \<and> iv_t0 w = iv_t0 w' \<and> iv_t1 w = iv_t1 w') \<and>
   (instance_payload r h bo ev li = Inr d \<and> instance_payload r' h' bo' ev' li' = Inr d \<longrightarrow>
      r = r' \<and> h = h' \<and> bo = bo' \<and> map er_event_id ev = map er_event_id ev' \<and> li = li')"
  using event_preimage [of nform e a e'] fact_preimage [of nform p args t b p' args' t']
    licence_preimage [of nform ba re s w c ba' re' s' w'] instance_preimage [of r h bo ev li d r' h' bo' ev' li']
  by blast

lemma identity_preimages_faithful_witness:
  "(case fact_payload id ''p'' [''en:user:a''] 7 of Inr b \<Rightarrow> fact_payload id ''p'' [''en:user:a''] 8 \<noteq> Inr b
    | Inl _ \<Rightarrow> False)"
proof -
  have "isl (fact_payload id ''p'' [''en:user:a''] 7) = False" by code_simp
  then obtain b where b: "fact_payload id ''p'' [''en:user:a''] 7 = Inr b"
    by (cases "fact_payload id ''p'' [''en:user:a''] 7") simp_all
  then have "fact_payload id ''p'' [''en:user:a''] 8 \<noteq> Inr b"
    using identity_preimages_faithful [of id undefined undefined undefined
        "''p''" "[''en:user:a'']" 7 b "''p''" "[''en:user:a'']" 8] by auto
  with b show ?thesis by simp
qed

end
