(* ===== verification/Scf.thy ===== *)
theory Scf
  imports Records
begin

text \<open>
  The canonical JSON of \<^verbatim>\<open>spectra_vs/scf.py\<close> and its variant in \<^verbatim>\<open>spectra_vs/calibrate.py\<close>: the
  values that may reach \<open>json.dumps\<close>, the walks that reject what the encoding law forbids, and
  the text that \<open>json.dumps\<close> produces with sorted keys, the compact separators and
  \<open>ensure_ascii=False\<close>. Texts are UTF-8 octets, so the order of the keys is the order of their
  bytes. An object is the list of its members in insertion order, without repeated keys; a
  float carries the text Python prints for it. Python values of any other type have no
  counterpart here.
\<close>

section \<open>Values\<close>

datatype json =
    JNull
  | JBool bool
  | JFloat string
  | JInt int
  | JStr string
  | JObj "(string \<times> json) list"
  | JArr "json list"

definition U32_MAX :: int where "U32_MAX = 4294967295"
definition U64_MAX :: int where "U64_MAX = 18446744073709551615"
definition SCF_MAX_DEPTH :: nat where "SCF_MAX_DEPTH = 8"

text \<open>\<^verbatim>\<open>[a-z0-9_]+\<close> and \<^verbatim>\<open>[A-Za-z0-9_/]+\<close>.\<close>

definition is_scf_key :: "string \<Rightarrow> bool" where
  "is_scf_key k = (k \<noteq> [] \<and> list_all (\<lambda>c. is_lower c \<or> is_digit c \<or> c = CHR ''_'') k)"

definition is_upper :: "char \<Rightarrow> bool" where
  "is_upper c = (CHR ''A'' \<le> c \<and> c \<le> CHR ''Z'')"

definition is_scf_map_key :: "string \<Rightarrow> bool" where
  "is_scf_map_key k = (k \<noteq> [] \<and>
     list_all (\<lambda>c. is_upper c \<or> is_lower c \<or> is_digit c \<or> c = CHR ''_'' \<or> c = CHR ''/'') k)"

section \<open>The encoding law\<close>

text \<open>\<open>validate_scf\<close> of \<^verbatim>\<open>scf.py\<close>: the walk over a value, over the members of an object in their
  order, and over the items of a list.\<close>

fun validate_scf :: "json \<Rightarrow> unit outcome"
  and validate_members :: "(string \<times> json) list \<Rightarrow> unit outcome"
  and validate_items :: "json list \<Rightarrow> unit outcome" where
  "validate_scf JNull = raises SchemaError"
| "validate_scf (JBool b) = Inr ()"
| "validate_scf (JFloat f) = raises_code CanonError ''E-CANON-FLOAT''"
| "validate_scf (JInt v) =
     (if \<not> (0 \<le> v \<and> v \<le> U32_MAX) then raises_code SchemaError ''E-CANON-WIDTH'' else Inr ())"
| "validate_scf (JStr s) = Inr ()"
| "validate_scf (JObj members) = validate_members members"
| "validate_scf (JArr items) = validate_items items"
| "validate_members [] = Inr ()"
| "validate_members ((key, member) # members) =
     (if \<not> is_scf_key key then raises SchemaError
      else andThen (validate_scf member) (\<lambda>_. validate_members members))"
| "validate_items [] = Inr ()"
| "validate_items (item # items) = andThen (validate_scf item) (\<lambda>_. validate_items items)"

definition MAP_KEYED_MEMBERS :: "string list" where
  "MAP_KEYED_MEMBERS = [''blind_volume_ns_by_reason'', ''order_statistics'']"

text \<open>\<open>_scf_check\<close> of \<^verbatim>\<open>calibrate.py\<close>, with its nesting bound and its two data-keyed members.\<close>

fun scf_check :: "(string \<Rightarrow> string) \<Rightarrow> nat \<Rightarrow> bool \<Rightarrow> json \<Rightarrow> unit outcome"
  and scf_check_members :: "(string \<Rightarrow> string) \<Rightarrow> nat \<Rightarrow> bool \<Rightarrow> (string \<times> json) list \<Rightarrow> unit outcome"
  and scf_check_items :: "(string \<Rightarrow> string) \<Rightarrow> nat \<Rightarrow> bool \<Rightarrow> json list \<Rightarrow> unit outcome" where
  "scf_check nform depth data_keyed value =
     (if SCF_MAX_DEPTH < depth then raises_code CanonError ''E-LIMIT-DEPTH''
      else case value of
        JNull \<Rightarrow> raises_code CanonError ''E-CANON-NULL''
      | JBool b \<Rightarrow> Inr ()
      | JFloat f \<Rightarrow> raises_code CanonError ''E-CANON-FLOAT''
      | JInt v \<Rightarrow>
          (if \<not> (0 \<le> v \<and> v \<le> U32_MAX) then raises_code CanonError ''E-CANON-WIDTH'' else Inr ())
      | JStr s \<Rightarrow> andThen (nfc nform s) (\<lambda>_. Inr ())
      | JObj members \<Rightarrow> scf_check_members nform depth data_keyed members
      | JArr items \<Rightarrow> scf_check_items nform (Suc depth) data_keyed items)"
| "scf_check_members nform depth data_keyed [] = Inr ()"
| "scf_check_members nform depth data_keyed ((key, member) # members) =
     (if \<not> (if data_keyed then is_scf_map_key key else is_scf_key key) then raises CanonError
      else andThen (scf_check nform (Suc depth) (key \<in> set MAP_KEYED_MEMBERS) member) (\<lambda>_.
        scf_check_members nform depth data_keyed members))"
| "scf_check_items nform depth data_keyed [] = Inr ()"
| "scf_check_items nform depth data_keyed (item # items) =
     andThen (scf_check nform depth data_keyed item) (\<lambda>_.
       scf_check_items nform depth data_keyed items)"

section \<open>The text\<close>

text \<open>The escapes of \<^verbatim>\<open>json.encoder.encode_basestring\<close>.\<close>

definition escape_char :: "char \<Rightarrow> string" where
  "escape_char c =
     (if c = CHR 0x22 then [CHR 0x5C, CHR 0x22]
      else if c = CHR 0x5C then [CHR 0x5C, CHR 0x5C]
      else if c = CHR 0x0A then [CHR 0x5C, CHR ''n'']
      else if c = CHR 0x0D then [CHR 0x5C, CHR ''r'']
      else if c = CHR 0x09 then [CHR 0x5C, CHR ''t'']
      else if c = CHR 0x0C then [CHR 0x5C, CHR ''f'']
      else if c = CHR 0x08 then [CHR 0x5C, CHR ''b'']
      else if c < CHR 0x20 then CHR 0x5C # ''u00'' @ hex_of 2 (of_char c)
      else [c])"

definition quoted :: "string \<Rightarrow> string" where
  "quoted s = CHR 0x22 # concat (map escape_char s) @ [CHR 0x22]"

definition int_text :: "int \<Rightarrow> string" where
  "int_text v = (if v < 0 then CHR ''-'' # decimal (nat (- v)) else decimal (nat v))"

fun comma_join :: "string list \<Rightarrow> string" where
  "comma_join [] = []"
| "comma_join [s] = s"
| "comma_join (s # ss) = s @ CHR '','' # comma_join ss"

fun json_text :: "json \<Rightarrow> string"
  and member_texts :: "(string \<times> json) list \<Rightarrow> (string \<times> string) list"
  and item_texts :: "json list \<Rightarrow> string list" where
  "json_text JNull = ''null''"
| "json_text (JBool b) = (if b then ''true'' else ''false'')"
| "json_text (JFloat f) = f"
| "json_text (JInt v) = int_text v"
| "json_text (JStr s) = quoted s"
| "json_text (JObj members) =
     ''{'' @ comma_join (map (\<lambda>(k, t). quoted k @ CHR '':'' # t) (sort_key fst (member_texts members)))
     @ ''}''"
| "json_text (JArr items) = ''['' @ comma_join (item_texts items) @ '']''"
| "member_texts [] = []"
| "member_texts ((k, v) # members) = (k, json_text v) # member_texts members"
| "item_texts [] = []"
| "item_texts (v # items) = json_text v # item_texts items"

definition scf_dumps :: "json \<Rightarrow> string outcome" where
  "scf_dumps value = andThen (validate_scf value) (\<lambda>_. Inr (json_text value))"

definition scf_line :: "json \<Rightarrow> string outcome" where
  "scf_line value = andThen (scf_dumps value) (\<lambda>t. Inr (t @ [CHR 0x0A]))"

definition scf_bytes :: "json \<Rightarrow> octets outcome" where
  "scf_bytes value = scf_line value"

definition render_jsonl :: "json list \<Rightarrow> octets outcome" where
  "render_jsonl values = andThen (mapM scf_line values) (\<lambda>ls. Inr (concat ls))"

definition hash_ref_of :: "(octets \<Rightarrow> octets) \<Rightarrow> string \<Rightarrow> octets \<Rightarrow> string outcome" where
  "hash_ref_of raw_digest kind payload = hash_ref raw_digest kind payload"

text \<open>The variant of \<^verbatim>\<open>calibrate.py\<close>.\<close>

definition cal_dumps :: "(string \<Rightarrow> string) \<Rightarrow> json \<Rightarrow> string outcome" where
  "cal_dumps nform obj = andThen (scf_check nform 0 False obj) (\<lambda>_. Inr (json_text obj))"

definition cal_bytes :: "(string \<Rightarrow> string) \<Rightarrow> json \<Rightarrow> octets outcome" where
  "cal_bytes nform obj = andThen (cal_dumps nform obj) (\<lambda>t. Inr (t @ [CHR 0x0A]))"

section \<open>The text determines the value\<close>

text \<open>A value with the members of every object in the order of their keys.\<close>

fun norm :: "json \<Rightarrow> json"
  and norm_members :: "(string \<times> json) list \<Rightarrow> (string \<times> json) list"
  and norm_items :: "json list \<Rightarrow> json list" where
  "norm (JObj members) = JObj (sort_key fst (norm_members members))"
| "norm (JArr items) = JArr (norm_items items)"
| "norm v = v"
| "norm_members [] = []"
| "norm_members ((k, v) # members) = (k, norm v) # norm_members members"
| "norm_items [] = []"
| "norm_items (v # items) = norm v # norm_items items"

lemma member_texts_eq: "member_texts ms = map (\<lambda>(k, v). (k, json_text v)) ms"
  by (induction ms) auto

lemma item_texts_eq: "item_texts vs = map json_text vs"
  by (induction vs) auto

lemma norm_members_eq: "norm_members ms = map (\<lambda>(k, v). (k, norm v)) ms"
  by (induction ms) auto

lemma norm_items_eq: "norm_items vs = map norm vs"
  by (induction vs) auto

lemma insort_key_values:
  "insort_key fst (k, g v) (map (\<lambda>(k, v). (k, g v)) xs) = map (\<lambda>(k, v). (k, g v)) (insort_key fst (k, v) xs)"
  by (induction xs) auto

lemma sort_key_values:
  "sort_key fst (map (\<lambda>(k, v). (k, g v)) xs) = map (\<lambda>(k, v). (k, g v)) (sort_key fst xs)"
  by (induction xs) (auto simp: insort_key_values)

definition member_text :: "string \<times> json \<Rightarrow> string" where
  "member_text kv = quoted (fst kv) @ CHR '':'' # json_text (snd kv)"

lemma json_text_JObj:
  "json_text (JObj ms) = ''{'' @ comma_join (map member_text (sort_key fst ms)) @ ''}''"
proof -
  have "map ((\<lambda>(k, t). quoted k @ CHR '':'' # t) \<circ> (\<lambda>(k, v). (k, json_text v))) xs = map member_text xs" for xs
    by (rule map_cong) (auto simp: member_text_def)
  from this [of "sort_key fst ms"] show ?thesis
    by (simp only: json_text.simps member_texts_eq sort_key_values map_map)
qed

lemma json_text_JArr: "json_text (JArr vs) = ''['' @ comma_join (map json_text vs) @ '']''"
  by (simp add: item_texts_eq)

lemma json_text_norm: "json_text (norm v) = json_text v"
proof (induction v rule: norm_norm_members_norm_items.induct(1)
    [where Q = "\<lambda>ms. \<forall>kv \<in> set ms. json_text (norm (snd kv)) = json_text (snd kv)"
      and R = "\<lambda>vs. \<forall>v \<in> set vs. json_text (norm v) = json_text v"])
  case (1 members)
  have "sort_key fst (norm_members members) = map (\<lambda>(k, v). (k, norm v)) (sort_key fst members)"
    by (simp add: norm_members_eq sort_key_values)
  moreover have "map (member_text \<circ> (\<lambda>(k, v). (k, norm v))) (sort_key fst members) =
      map member_text (sort_key fst members)"
    using 1 by (intro map_cong) (auto simp: member_text_def)
  moreover have "sort_key fst (sort_key fst (norm_members members)) = sort_key fst (norm_members members)"
    by (rule sort_key_id_if_sorted) simp
  ultimately show ?case by (simp only: norm.simps json_text_JObj map_map)
next
  case (2 items)
  then show ?case by (simp add: json_text_JArr norm_items_eq o_def del: json_text.simps(7) cong: map_cong)
qed auto
text \<open>Escapes can be undone, and no escape starts with the closing quote.\<close>

fun unescape :: "string \<Rightarrow> (char \<times> string) option" where
  "unescape [] = None"
| "unescape (c # r) =
     (if c = CHR 0x22 then None
      else if c \<noteq> CHR 0x5C then Some (c, r)
      else case r of
        [] \<Rightarrow> None
      | e # r' \<Rightarrow>
          if e = CHR ''n'' then Some (CHR 0x0A, r')
          else if e = CHR ''r'' then Some (CHR 0x0D, r')
          else if e = CHR ''t'' then Some (CHR 0x09, r')
          else if e = CHR ''f'' then Some (CHR 0x0C, r')
          else if e = CHR ''b'' then Some (CHR 0x08, r')
          else if e = CHR ''u'' then Some (hd (fromhex (take 2 (drop 2 r'))), drop 4 r')
          else Some (e, r'))"

lemma hex_value_digit: "d < 16 \<Longrightarrow> hex_value (hex_digit d) = d"
proof -
  assume "d < 16"
  then have "d = 0 \<or> d = 1 \<or> d = 2 \<or> d = 3 \<or> d = 4 \<or> d = 5 \<or> d = 6 \<or> d = 7 \<or> d = 8 \<or> d = 9
      \<or> d = 10 \<or> d = 11 \<or> d = 12 \<or> d = 13 \<or> d = 14 \<or> d = 15" by presburger
  then show ?thesis by (elim disjE) (simp_all add: hex_value_def hex_digit_def)
qed

lemma fromhex_octet: "n < 256 \<Longrightarrow> fromhex (hex_of 2 n @ r) = char_of n # fromhex r"
proof -
  assume "n < 256"
  then have "n div 16 < 16" by simp
  moreover have "hex_value (hex_digit (n div 16)) * 16 + hex_value (hex_digit (n mod 16)) = n"
    using hex_value_digit [OF \<open>n div 16 < 16\<close>] hex_value_digit [of "n mod 16"] by simp
  ultimately show ?thesis by (simp add: numeral_2_eq_2)
qed

lemma control_hex: "fromhex (hex_of 2 (of_char c)) = [c] \<and> length (hex_of 2 (of_char c)) = 2"
proof -
  have "of_char c < (256::nat)" by simp
  from fromhex_octet [OF this, of "[]"] show ?thesis by (simp add: numeral_2_eq_2)
qed

lemma unescape_escape: "unescape (escape_char c @ r) = Some (c, r)"
  using control_hex [of c] by (auto simp: escape_char_def)

lemma escape_char_nonempty: "escape_char c \<noteq> []"
  by (simp add: escape_char_def)

lemma quoted_unambiguous: "quoted k @ x = quoted l @ y \<Longrightarrow> k = l \<and> x = y"
proof -
  have "concat (map escape_char k) @ CHR 0x22 # x = concat (map escape_char l) @ CHR 0x22 # y \<Longrightarrow>
      k = l \<and> x = y"
  proof (induction k arbitrary: l)
    case Nil
    show ?case
    proof (cases l)
      case (Cons d l')
      have "unescape (CHR 0x22 # x) = Some (d, concat (map escape_char l') @ CHR 0x22 # y)"
        using Nil.prems unescape_escape [of d] by (simp add: Cons)
      then show ?thesis by simp
    qed (use Nil.prems in simp)
  next
    case (Cons c k)
    show ?case
    proof (cases l)
      case Nil
      have "unescape (CHR 0x22 # y) = Some (c, concat (map escape_char k) @ CHR 0x22 # x)"
        using Cons.prems unescape_escape [of c] by (metis Nil append_assoc append_Nil concat.simps list.simps(8,9))
      then show ?thesis by simp
    next
      case (Cons d l')
      have "Some (c, concat (map escape_char k) @ CHR 0x22 # x) =
          Some (d, concat (map escape_char l') @ CHR 0x22 # y)"
        using Cons.prems unescape_escape [of c] unescape_escape [of d]
        by (metis Cons append_assoc concat.simps(2) list.simps(9))
      with Cons.IH [of l'] show ?thesis by (simp add: Cons)
    qed
  qed
  then show "quoted k @ x = quoted l @ y \<Longrightarrow> k = l \<and> x = y" by (simp add: quoted_def)
qed

text \<open>What may follow a value inside a text: nothing that could continue a number.\<close>

definition stops :: "string \<Rightarrow> bool" where
  "stops x = (x = [] \<or> \<not> is_digit (hd x))"

lemma decimal_unambiguous:
  assumes "decimal m @ x = decimal n @ y" "stops x" "stops y"
  shows "m = n \<and> x = y"
proof -
  have pre: "takeWhile is_digit (decimal k @ z) = decimal k" if "stops z" for k z
  proof -
    have "takeWhile is_digit (decimal k @ z) = decimal k @ takeWhile is_digit z"
      using set_decimal [of _ k] by (intro takeWhile_append2) blast
    moreover have "takeWhile is_digit z = []" using that by (cases z) (auto simp: stops_def)
    ultimately show ?thesis by simp
  qed
  have "decimal m = decimal n" using pre [OF assms(2), of m] pre [OF assms(3), of n] assms(1) by simp
  then have "m = n" by (metis decimal_value_decimal)
  with assms(1) show ?thesis by simp
qed

lemma decimal_nonempty: "decimal n \<noteq> []"
  by (subst decimal.simps) simp

lemma decimal_hd: "is_digit (hd (decimal n @ x))"
  using decimal_nonempty [of n] set_decimal [of "hd (decimal n)" n] by simp

text \<open>Values that the encoding law admits.\<close>

fun lawful :: "json \<Rightarrow> bool" where
  "lawful (JInt v) = (0 \<le> v)"
| "lawful (JObj ms) = list_all (\<lambda>kv. lawful (snd kv)) ms"
| "lawful (JArr vs) = list_all lawful vs"
| "lawful (JBool b) = True"
| "lawful (JStr s) = True"
| "lawful _ = False"

lemma validate_lawful:
  "validate_scf v = Inr u \<Longrightarrow> lawful v"
  "validate_members ms = Inr u \<Longrightarrow> list_all (\<lambda>kv. lawful (snd kv)) ms"
  "validate_items vs = Inr u \<Longrightarrow> list_all lawful vs"
  by (induction v and ms and vs rule: validate_scf_validate_members_validate_items.induct)
    (auto simp: andThen_eq_Inr split: if_splits)
text \<open>The first character of a text tells which kind of value it is.\<close>

fun kind_of :: "char \<Rightarrow> nat" where
  "kind_of c =
     (if c = CHR ''t'' then 0 else if c = CHR ''f'' then 1 else if is_digit c then 2
      else if c = CHR 0x22 then 3 else if c = CHR ''{'' then 4 else if c = CHR ''['' then 5 else 6)"

fun json_kind :: "json \<Rightarrow> nat" where
  "json_kind (JBool b) = (if b then 0 else 1)"
| "json_kind (JInt v) = 2"
| "json_kind (JStr s) = 3"
| "json_kind (JObj ms) = 4"
| "json_kind (JArr vs) = 5"
| "json_kind _ = 6"

lemma kind_of_text:
  assumes "lawful v"
  shows "json_text v \<noteq> [] \<and> kind_of (hd (json_text v @ x)) = json_kind v"
proof (cases v)
  case (JInt n)
  have "\<not> is_digit (CHR ''t'')" "\<not> is_digit (CHR ''f'')"
    by (simp_all add: is_digit_def)
  with decimal_hd [of "nat n" x] decimal_nonempty [of "nat n"] JInt assms show ?thesis
    by (auto simp: int_text_def)
qed (use assms in \<open>auto simp: quoted_def is_digit_def\<close>)

lemma same_kind:
  "lawful v \<Longrightarrow> lawful w \<Longrightarrow> json_text v @ x = json_text w @ y \<Longrightarrow> json_kind v = json_kind w"
  by (metis kind_of_text)

lemma stops_simps [simp]: "stops (CHR '','' # x)" "stops (CHR ''}'' # x)" "stops (CHR '']'' # x)"
  "stops (CHR 0x0A # x)" "stops []"
  by (simp_all add: stops_def is_digit_def)

text \<open>Lists of texts between commas, closed by a bracket.\<close>

definition bracket_end :: "char \<Rightarrow> bool" where
  "bracket_end c = (c = CHR ''}'' \<or> c = CHR '']'')"

lemma comma_join_unambiguous:
  assumes "\<And>u w x y. u \<in> set us \<Longrightarrow> w \<in> set ws \<Longrightarrow> stops x \<Longrightarrow> stops y \<Longrightarrow> f u @ x = f w @ y \<Longrightarrow>
      g u = g w \<and> x = y"
    and "\<And>u. u \<in> set us \<union> set ws \<Longrightarrow> f u \<noteq> [] \<and> \<not> bracket_end (hd (f u))"
    and "bracket_end c" and "comma_join (map f us) @ c # x = comma_join (map f ws) @ c # y"
  shows "map g us = map g ws \<and> x = y"
  using assms
proof (induction us arbitrary: ws)
  case Nil
  show ?case
  proof (cases ws)
    case (Cons w ws')
    have "hd (comma_join (map f ws) @ c # y) = hd (f w)"
      using Nil.prems(2) [of w] by (cases ws') (simp_all add: Cons)
    moreover have "hd (comma_join (map f ws) @ c # y) = c"
      unfolding Nil.prems(4) [symmetric] by simp
    ultimately have "hd (f w) = c" by simp
    with Nil.prems(2) [of w] Nil.prems(3) Cons show ?thesis by simp
  qed (use Nil.prems in simp)
next
  case (Cons u us)
  show ?case
  proof (cases ws)
    case Nil
    have "hd (comma_join (map f (u # us)) @ c # x) = hd (f u)"
      using Cons.prems(2) [of u] by (cases us) simp_all
    moreover have "hd (comma_join (map f (u # us)) @ c # x) = c"
      unfolding Cons.prems(4) by (simp add: Nil)
    ultimately have "hd (f u) = c" by simp
    with Cons.prems(2) [of u] Cons.prems(3) show ?thesis by simp
  next
    case ws: (Cons w ws')
    define r where "r us x = (if us = [] then c # x else CHR '','' # comma_join (map f us) @ c # x)" for us x
    have split: "comma_join (map f (v # vs)) @ c # z = f v @ r vs z" for v vs z
      by (cases vs) (simp_all add: r_def)
    have stop: "stops (r vs z)" for vs z
      using Cons.prems(3) by (auto simp: r_def bracket_end_def)
    have head: "g u = g w \<and> r us x = r ws' y"
      using Cons.prems(1) [OF _ _ stop stop, of u w us x ws' y] Cons.prems(4) ws
      by (simp only: split) simp
    have "map g us = map g ws' \<and> x = y"
    proof (cases "us = [] \<or> ws' = []")
      case True
      with head Cons.prems(3) show ?thesis by (auto simp: r_def bracket_end_def split: if_splits)
    next
      case False
      with head have "comma_join (map f us) @ c # x = comma_join (map f ws') @ c # y"
        by (simp add: r_def)
      moreover have "g u' = g w' \<and> x' = y'"
        if "u' \<in> set us" "w' \<in> set ws'" "stops x'" "stops y'" "f u' @ x' = f w' @ y'" for u' w' x' y'
        using Cons.prems(1) [of u' w' x' y'] that ws by simp
      ultimately show ?thesis
        using Cons.IH [of ws'] Cons.prems(2,3) ws by simp
    qed
    with head ws show ?thesis by simp
  qed
qed

lemma json_text_unambiguous:
  "lawful v \<Longrightarrow> lawful w \<Longrightarrow> stops x \<Longrightarrow> stops y \<Longrightarrow> json_text v @ x = json_text w @ y \<Longrightarrow>
     norm v = norm w \<and> x = y"
proof (induction v arbitrary: w x y)
  case (JBool b)
  then show ?case
    using same_kind [OF JBool.prems(1,2,5)] by (cases w) (auto split: if_splits)
next
  case (JInt n)
  then obtain m where w: "w = JInt m" "0 \<le> m" "0 \<le> n"
    using same_kind [OF JInt.prems(1,2,5)] by (cases w) (auto split: if_splits)
  with JInt.prems(3-5) decimal_unambiguous [of "nat n" x "nat m" y] show ?case
    by (auto simp: int_text_def eq_nat_nat_iff)
next
  case (JStr s)
  then obtain t where "w = JStr t"
    using same_kind [OF JStr.prems(1,2,5)] by (cases w) (auto split: if_splits)
  with JStr.prems(5) quoted_unambiguous [of s x t y] show ?case by simp
next
  case (JObj ms)
  then obtain ns where w: "w = JObj ns"
    using same_kind [OF JObj.prems(1,2,5)] by (cases w) (auto split: if_splits)
  let ?us = "sort_key fst ms" and ?ws = "sort_key fst ns" and ?g = "\<lambda>(k, v). (k, norm v)"
  have one: "?g u = ?g u' \<and> x' = y'"
    if mem: "u \<in> set ?us" "u' \<in> set ?ws" and st: "stops x'" "stops y'"
      and eq: "member_text u @ x' = member_text u' @ y'" for u u' x' y'
  proof -
    obtain k v k' v' where kv: "u = (k, v)" "u' = (k', v')" by (cases u; cases u')
    with eq have "quoted k @ (CHR '':'' # json_text v @ x') = quoted k' @ (CHR '':'' # json_text v' @ y')"
      by (simp add: member_text_def)
    from quoted_unambiguous [OF this] have k: "k = k'" "json_text v @ x' = json_text v' @ y'" by simp_all
    have "lawful v" "lawful v'"
      using JObj.prems(1,2) w mem kv by (auto simp: list_all_iff)
    with JObj.IH [of u v v' x' y'] mem kv st k show ?thesis by (auto simp: snds.simps)
  qed
  have ne: "member_text u \<noteq> [] \<and> \<not> bracket_end (hd (member_text u))" for u
    by (simp add: member_text_def quoted_def bracket_end_def)
  have "map ?g ?us = map ?g ?ws \<and> x = y"
    using JObj.prems(5) w
    by (intro comma_join_unambiguous [where f = member_text and c = "CHR ''}''"] one ne)
      (simp_all add: bracket_end_def json_text_JObj del: json_text.simps(6))
  then show ?case
    by (simp add: w norm_members_eq sort_key_values)
next
  case (JArr vs)
  then obtain ws where w: "w = JArr ws"
    using same_kind [OF JArr.prems(1,2,5)] by (cases w) (auto split: if_splits)
  have ne: "json_text u \<noteq> [] \<and> \<not> bracket_end (hd (json_text u))" if "u \<in> set vs \<union> set ws" for u
  proof -
    have "lawful u" using that JArr.prems(1,2) w by (auto simp: list_all_iff)
    with kind_of_text [OF this, of "[]"] show ?thesis
      by (cases u) (auto simp: bracket_end_def is_digit_def split: if_splits)
  qed
  have "map norm vs = map norm ws \<and> x = y"
    using JArr.prems w
    by (intro comma_join_unambiguous [where f = json_text and c = "CHR '']''"] ne)
      (auto simp: bracket_end_def json_text_JArr list_all_iff dest: JArr.IH simp del: json_text.simps(7))
  then show ?case by (simp add: w norm_items_eq)
qed auto
section \<open>Properties\<close>

text \<open>C28. The canonical text is canonical: two artifacts that the encoding law admits have the
  same bytes exactly if they are the same value up to the order in which object members were
  inserted, in a file as well as in any sequence of lines.\<close>

theorem scf_text_canonical:
  assumes "scf_bytes v = Inr a" and "scf_bytes w = Inr b"
  shows "(a = b \<longleftrightarrow> norm v = norm w) \<and> (a @ x = b @ y \<longrightarrow> norm v = norm w \<and> x = y)"
proof -
  have v: "lawful v" "a = json_text v @ [CHR 0x0A]" and w: "lawful w" "b = json_text w @ [CHR 0x0A]"
    using assms by (auto simp: scf_bytes_def scf_line_def scf_dumps_def andThen_eq_Inr
        dest: validate_lawful)
  have "norm v = norm w \<and> CHR 0x0A # x = CHR 0x0A # y" if "a @ x = b @ y" for x y
    using json_text_unambiguous [of v w "CHR 0x0A # x" "CHR 0x0A # y"] v w that by simp
  moreover have "a = b" if "norm v = norm w"
    using v w json_text_norm [of v] json_text_norm [of w] that by simp
  ultimately show ?thesis by (metis append_Nil2 list.inject)
qed

lemma scf_text_canonical_witness:
  "(case (scf_bytes (JObj [(''b'', JInt 7), (''a'', JStr ''x'')]),
          scf_bytes (JObj [(''a'', JStr ''x''), (''b'', JInt 7)])) of
      (Inr a, Inr b) \<Rightarrow> a = b | _ \<Rightarrow> False)"
proof -
  have ok: "scf_bytes (JObj [(''b'', JInt 7), (''a'', JStr ''x'')]) =
      Inr (json_text (JObj [(''b'', JInt 7), (''a'', JStr ''x'')]) @ [CHR 0x0A])"
    "scf_bytes (JObj [(''a'', JStr ''x''), (''b'', JInt 7)]) =
      Inr (json_text (JObj [(''a'', JStr ''x''), (''b'', JInt 7)]) @ [CHR 0x0A])"
    by (simp_all add: scf_bytes_def scf_line_def scf_dumps_def U32_MAX_def is_scf_key_def is_lower_def
        del: json_text.simps)
  show ?thesis
    unfolding ok using scf_text_canonical [OF ok] by simp
qed

end
