(* ===== verification/Calibration.thy ===== *)
theory Calibration
  imports Scf Tables "HOL-Library.Multiset"
begin

text \<open>
  \<^verbatim>\<open>spectra_vs/calibrate.py\<close>: the phase timeline, the calibration gap vectors, the exact-rank
  order statistic, and the source profile with its content address. Reading a profile back
  from a file is not modelled.
\<close>

section \<open>Scenario inputs\<close>

definition PROFILE_SCHEMA :: string where "PROFILE_SCHEMA = ''spectra.source_profile/1''"
definition CALIBRATION_SEED_BAND :: "int \<times> int" where "CALIBRATION_SEED_BAND = (1000000, 1000063)"

record phase =
  ph_regime_id :: string
  ph_t0_ns :: nanos
  ph_t1_ns :: nanos

definition check_phase :: "(string \<Rightarrow> string) \<Rightarrow> phase \<Rightarrow> phase outcome" where
  "check_phase nform p =
     andThen (nfc nform (ph_regime_id p)) (\<lambda>_.
     andThen (guard (ph_regime_id p \<noteq> []) SchemaError) (\<lambda>_.
     andThen (check_nanos (ph_t0_ns p)) (\<lambda>_.
     andThen (check_nanos (ph_t1_ns p)) (\<lambda>_.
     andThen (guard (\<not> ph_t1_ns p \<le> ph_t0_ns p) SchemaError) (\<lambda>_. Inr p)))))"

definition phase_contains :: "phase \<Rightarrow> nanos \<Rightarrow> bool" where
  "phase_contains p t = (ph_t0_ns p \<le> t \<and> t < ph_t1_ns p)"

record excluded_interval =
  ex_t0_ns :: nanos
  ex_t1_ns :: nanos
  ex_reason :: string

definition check_excluded :: "(string \<Rightarrow> string) \<Rightarrow> excluded_interval \<Rightarrow> excluded_interval outcome" where
  "check_excluded nform e =
     andThen (check_nanos (ex_t0_ns e)) (\<lambda>_.
     andThen (check_nanos (ex_t1_ns e)) (\<lambda>_.
     andThen (guard (\<not> ex_t1_ns e < ex_t0_ns e) SchemaError) (\<lambda>_.
     andThen (nfc nform (ex_reason e)) (\<lambda>_.
     andThen (guard (ex_reason e \<noteq> []) SchemaError) (\<lambda>_. Inr e)))))"

definition intersects_closed :: "excluded_interval \<Rightarrow> nanos \<Rightarrow> nanos \<Rightarrow> bool" where
  "intersects_closed e a b = (ex_t0_ns e \<le> b \<and> a < ex_t1_ns e)"

fun phase_of :: "phase list \<Rightarrow> nanos \<Rightarrow> string option" where
  "phase_of [] t = None"
| "phase_of (p # phases) t = (if phase_contains p t then Some (ph_regime_id p) else phase_of phases t)"

fun first_repeat :: "string list \<Rightarrow> string list \<Rightarrow> bool" where
  "first_repeat seen [] = False"
| "first_repeat seen (r # rs) = (r \<in> set seen \<or> first_repeat (r # seen) rs)"

definition check_phases :: "phase list \<Rightarrow> phase list outcome" where
  "check_phases phases =
     andThen (check_strictly_ascending phases (\<lambda>p. (ph_t0_ns p, ph_t1_ns p))) (\<lambda>_.
     andThen (check_all (\<lambda>(l, r). guard (\<not> ph_t0_ns r < ph_t1_ns l) SchemaError)
               (zip phases (tl phases))) (\<lambda>_.
     andThen (guard (\<not> first_repeat [] (map ph_regime_id phases)) SchemaError) (\<lambda>_.
       Inr phases)))"

section \<open>Hashes of this stage\<close>

definition identity_spec_hash :: "(octets \<Rightarrow> octets) \<Rightarrow> string outcome" where
  "identity_spec_hash raw_digest =
     andThen (join_parts [ordered_seq [], u32 1, u32 1]) (hash_ref raw_digest ''degspec'')"

definition excluded_intervals_hash ::
    "(octets \<Rightarrow> octets) \<Rightarrow> (string \<Rightarrow> string) \<Rightarrow> excluded_interval list \<Rightarrow> string outcome" where
  "excluded_intervals_hash raw_digest nform excluded =
     (let ordered = sort_key (\<lambda>e. (ex_t0_ns e, ex_t1_ns e, ex_reason e)) excluded
      in andThen (mapM (\<lambda>e. join_parts [i64 (ex_t0_ns e), i64 (ex_t1_ns e),
             utf8_text nform (ex_reason e)]) ordered) (\<lambda>items.
         andThen (ordered_seq items) (hash_ref raw_digest ''excl'')))"

definition gap_digest :: "(octets \<Rightarrow> octets) \<Rightarrow> int list \<Rightarrow> string outcome" where
  "gap_digest raw_digest gaps =
     andThen (check_all (\<lambda>g. guard_code (0 \<le> g \<and> g \<le> U64_MAX) CanonError ''E-CANON-WIDTH'') gaps) (\<lambda>_.
     andThen (check_strictly_ascending (enumerate 0 gaps) (\<lambda>pair. (snd pair, fst pair))) (\<lambda>_.
     andThen (leb128_seq gaps) (hash_ref raw_digest ''gapv'')))"

section \<open>The gap vectors\<close>

definition calibration_sort_key :: "canonical_event \<Rightarrow> int \<times> int \<times> string" where
  "calibration_sort_key e = (ce_t_evt_ns e, ce_seq e, ce_event_id e)"

text \<open>One round of the loop over consecutive records.\<close>

definition gap_step ::
    "phase list \<Rightarrow> excluded_interval list \<Rightarrow> canonical_event \<times> canonical_event
     \<Rightarrow> (string \<times> int list) list \<Rightarrow> (string \<times> int list) list outcome" where
  "gap_step phases excluded pair by_regime =
     (let previous = fst pair; current = snd pair;
          span = ce_t_evt_ns current - ce_t_evt_ns previous
      in if span < 0 then raises_code ProfileError ''PROFILE_INVALID''
         else case phase_of phases (ce_t_evt_ns previous) of
           None \<Rightarrow> Inr by_regime
         | Some left \<Rightarrow>
             if phase_of phases (ce_t_evt_ns current) \<noteq> Some left then Inr by_regime
             else if list_ex (\<lambda>e. intersects_closed e (ce_t_evt_ns previous) (ce_t_evt_ns current)) excluded
             then Inr by_regime
             else Inr (push by_regime left span))"

fun gap_loop ::
    "phase list \<Rightarrow> excluded_interval list \<Rightarrow> (canonical_event \<times> canonical_event) list
     \<Rightarrow> (string \<times> int list) list \<Rightarrow> (string \<times> int list) list outcome" where
  "gap_loop phases excluded [] by_regime = Inr by_regime"
| "gap_loop phases excluded (pair # ps) by_regime =
     andThen (gap_step phases excluded pair by_regime) (gap_loop phases excluded ps)"

definition gap_vectors ::
    "canonical_event list \<Rightarrow> phase list \<Rightarrow> excluded_interval list \<Rightarrow> (string \<times> int list) list outcome" where
  "gap_vectors events phases excluded =
     (let ordered = sort_key calibration_sort_key events
      in andThen (gap_loop phases excluded (zip ordered (tl ordered)) []) (\<lambda>by_regime.
           Inr (map (\<lambda>(regime, gaps). (regime, sort gaps)) (sort_key fst by_regime))))"

section \<open>Order statistics\<close>

definition leading_zero :: "string \<Rightarrow> bool" where
  "leading_zero text = (text \<noteq> ''0'' \<and> startswith text ''0'')"

definition parse_quantile :: "string \<Rightarrow> (int \<times> int) outcome" where
  "parse_quantile text =
     (case partition_at (CHR ''/'') text of
        (p_text, Some q_text) \<Rightarrow>
          if \<not> (is_number p_text \<and> is_number q_text) then raises CanonError
          else if leading_zero p_text \<or> leading_zero q_text then raises CanonError
          else let p = int (decimal_value p_text); q = int (decimal_value q_text)
               in if q = 0 then raises CanonError
                  else if q < p then raises CanonError
                  else Inr (p, q)
      | _ \<Rightarrow> raises CanonError)"

definition q_exact :: "int list \<Rightarrow> int \<Rightarrow> int \<Rightarrow> int outcome" where
  "q_exact sorted_gaps p q =
     (let n = int (length sorted_gaps)
      in if n = 0 then raises_code ProfileError ''PROFILE_INVALID''
         else let j = (n * p + (q - 1)) div q;
                  j = (if j < 1 then 1 else j);
                  j = (if n < j then n else j)
              in Inr (sorted_gaps ! nat (j - 1)))"

definition check_calibration_seed :: "int \<Rightarrow> int outcome" where
  "check_calibration_seed seed =
     (if fst CALIBRATION_SEED_BAND \<le> seed \<and> seed \<le> snd CALIBRATION_SEED_BAND then Inr seed
      else raises_code ProfileError ''PROFILE_SEED_OVERLAP'')"

section \<open>The profile\<close>

record regime_profile =
  rp_regime_id :: string
  rp_n_gaps :: int
  rp_order_statistics :: "(string \<times> int) list"
  rp_min_gap_ns :: int
  rp_max_gap_ns :: int
  rp_gap_digest :: string

definition check_regime_profile :: "(string \<Rightarrow> string) \<Rightarrow> regime_profile \<Rightarrow> regime_profile outcome" where
  "check_regime_profile nform r =
     andThen (nfc nform (rp_regime_id r)) (\<lambda>_.
     andThen (u32 (rp_n_gaps r)) (\<lambda>_.
     andThen (guard (\<not> rp_n_gaps r < 1) SchemaError) (\<lambda>_.
     andThen (check_strictly_ascending (rp_order_statistics r) fst) (\<lambda>_.
     andThen (guard (rp_order_statistics r \<noteq> []) SchemaError) (\<lambda>_.
     andThen (check_all (\<lambda>(level, value).
         andThen (parse_quantile level) (\<lambda>_. guard (0 \<le> value \<and> value \<le> U64_MAX) CanonError))
       (rp_order_statistics r)) (\<lambda>_.
     andThen (check_all (\<lambda>value. guard (0 \<le> value \<and> value \<le> U64_MAX) CanonError)
       [rp_min_gap_ns r, rp_max_gap_ns r]) (\<lambda>_.
     andThen (guard (\<not> rp_max_gap_ns r < rp_min_gap_ns r) SchemaError) (\<lambda>_.
     andThen (parse_hash_ref (rp_gap_digest r)) (\<lambda>_. Inr r)))))))))"

definition order_statistic :: "regime_profile \<Rightarrow> string \<Rightarrow> int option" where
  "order_statistic r level = map_of (rp_order_statistics r) level"

definition regime_scf :: "regime_profile \<Rightarrow> json" where
  "regime_scf r = JObj [
     (''gap_digest'', JStr (rp_gap_digest r)),
     (''max_gap_ns'', JStr (int_text (rp_max_gap_ns r))),
     (''min_gap_ns'', JStr (int_text (rp_min_gap_ns r))),
     (''n_gaps'', JInt (rp_n_gaps r)),
     (''order_statistics'', JObj (map (\<lambda>(level, value). (level, JStr (int_text value)))
        (rp_order_statistics r))),
     (''regime_id'', JStr (rp_regime_id r))]"

record source_calibration =
  sc_source_id :: string
  sc_integrity_class :: integrity_class
  sc_regimes :: "regime_profile list"

definition check_source_calibration :: "source_calibration \<Rightarrow> source_calibration outcome" where
  "check_source_calibration s =
     andThen (check_strictly_ascending (sc_regimes s) rp_regime_id) (\<lambda>_. Inr s)"

definition calibrated_regime :: "source_calibration \<Rightarrow> string \<Rightarrow> regime_profile option" where
  "calibrated_regime s regime_id = find (\<lambda>r. rp_regime_id r = regime_id) (sc_regimes s)"

definition calibration_scf :: "source_calibration \<Rightarrow> json" where
  "calibration_scf s = JObj [
     (''integrity_class'', JStr (integrity_text (sc_integrity_class s))),
     (''regimes'', JArr (map regime_scf (sc_regimes s))),
     (''source_id'', JStr (snake_of SourceId (sc_source_id s)))]"

record source_profile =
  sp_scenario_family :: string
  sp_generator_config_hash :: string
  sp_degradation_spec_hash :: string
  sp_calibration_seed_band :: "int \<times> int"
  sp_reference_bundle_hash :: string
  sp_reference_run_manifest_hash :: string
  sp_excluded_intervals_hash :: string
  sp_regime_collapsed :: bool
  sp_sources :: "source_calibration list"
  sp_schema :: string

definition check_source_profile :: "(string \<Rightarrow> string) \<Rightarrow> source_profile \<Rightarrow> source_profile outcome" where
  "check_source_profile nform p =
     andThen (guard (sp_schema p = PROFILE_SCHEMA) SchemaError) (\<lambda>_.
     andThen (nfc nform (sp_scenario_family p)) (\<lambda>_.
     andThen (guard (sp_scenario_family p \<noteq> []) SchemaError) (\<lambda>_.
     andThen (check_all (\<lambda>h. andThen (parse_hash_ref h) (\<lambda>_. Inr ()))
       [sp_generator_config_hash p, sp_degradation_spec_hash p, sp_reference_bundle_hash p,
        sp_reference_run_manifest_hash p, sp_excluded_intervals_hash p]) (\<lambda>_.
     andThen (u32 (fst (sp_calibration_seed_band p))) (\<lambda>_.
     andThen (u32 (snd (sp_calibration_seed_band p))) (\<lambda>_.
     andThen (guard (\<not> snd (sp_calibration_seed_band p) < fst (sp_calibration_seed_band p))
       SchemaError) (\<lambda>_.
     andThen (check_strictly_ascending (sp_sources p) sc_source_id) (\<lambda>_. Inr p))))))))"

definition profile_source :: "source_profile \<Rightarrow> string \<Rightarrow> source_calibration option" where
  "profile_source p source_id =
     find (\<lambda>s. sc_source_id s = source_id \<or> snake_of SourceId (sc_source_id s) = source_id) (sp_sources p)"

definition profile_body :: "source_profile \<Rightarrow> (string \<times> json) list" where
  "profile_body p = [
     (''calibration_seed_band'', JArr [JInt (fst (sp_calibration_seed_band p)),
        JInt (snd (sp_calibration_seed_band p))]),
     (''degradation_spec_hash'', JStr (sp_degradation_spec_hash p)),
     (''excluded_intervals_hash'', JStr (sp_excluded_intervals_hash p)),
     (''generator_config_hash'', JStr (sp_generator_config_hash p)),
     (''reference_bundle_hash'', JStr (sp_reference_bundle_hash p)),
     (''reference_run_manifest_hash'', JStr (sp_reference_run_manifest_hash p)),
     (''regime_collapsed'', JBool (sp_regime_collapsed p)),
     (''scenario_family'', JStr (sp_scenario_family p)),
     (''schema'', JStr (sp_schema p)),
     (''sources'', JArr (map calibration_scf (sp_sources p)))]"

definition profile_id ::
    "(octets \<Rightarrow> octets) \<Rightarrow> (string \<Rightarrow> string) \<Rightarrow> source_profile \<Rightarrow> string outcome" where
  "profile_id raw_digest nform p =
     andThen (cal_bytes nform (JObj (profile_body p))) (hash_ref raw_digest ''prof'')"

definition profile_scf ::
    "(octets \<Rightarrow> octets) \<Rightarrow> (string \<Rightarrow> string) \<Rightarrow> source_profile \<Rightarrow> json outcome" where
  "profile_scf raw_digest nform p =
     andThen (profile_id raw_digest nform p) (\<lambda>pid.
       Inr (JObj (profile_body p @ [(''profile_id'', JStr pid)])))"

definition profile_hash ::
    "(octets \<Rightarrow> octets) \<Rightarrow> (string \<Rightarrow> string) \<Rightarrow> source_profile \<Rightarrow> string outcome" where
  "profile_hash raw_digest nform p =
     andThen (profile_scf raw_digest nform p) (\<lambda>obj.
     andThen (cal_bytes nform obj) (hash_ref raw_digest ''proffile''))"

section \<open>Building the profile\<close>

definition collapse_vectors :: "(string \<times> int list) list \<Rightarrow> (string \<times> int list) list" where
  "collapse_vectors vectors =
     (let merged = concat (map snd vectors)
      in if merged \<noteq> [] then [(''collapsed'', sort merged)] else [])"

definition build_regime ::
    "(octets \<Rightarrow> octets) \<Rightarrow> (string \<Rightarrow> string) \<Rightarrow> (string \<times> int \<times> int) list \<Rightarrow> string \<times> int list
     \<Rightarrow> regime_profile outcome" where
  "build_regime raw_digest nform parsed_levels vector =
     (let regime_id = fst vector; gaps = snd vector
      in andThen (mapM (\<lambda>(level, p, q). andThen (q_exact gaps p q) (\<lambda>v. Inr (level, v))) parsed_levels)
           (\<lambda>statistics.
         andThen (gap_digest raw_digest gaps) (\<lambda>digest.
           check_regime_profile nform
             \<lparr>rp_regime_id = regime_id, rp_n_gaps = int (length gaps),
              rp_order_statistics = statistics, rp_min_gap_ns = hd gaps, rp_max_gap_ns = last gaps,
              rp_gap_digest = digest\<rparr>)))"

definition build_calibration ::
    "(octets \<Rightarrow> octets) \<Rightarrow> (string \<Rightarrow> string) \<Rightarrow> phase list \<Rightarrow> excluded_interval list
     \<Rightarrow> (string \<times> int \<times> int) list \<Rightarrow> bool \<Rightarrow> string \<times> integrity_class \<times> canonical_event list
     \<Rightarrow> source_calibration outcome" where
  "build_calibration raw_digest nform phases excluded parsed_levels collapse_regimes entry =
     (case entry of (source_id, integrity_class, events) \<Rightarrow>
        andThen (gap_vectors events phases excluded) (\<lambda>vectors.
          let vectors = (if collapse_regimes then collapse_vectors vectors else vectors)
          in andThen (mapM (build_regime raw_digest nform parsed_levels)
                 (filter (\<lambda>v. snd v \<noteq> []) vectors)) (\<lambda>regimes.
             check_source_calibration \<lparr>sc_source_id = source_id, sc_integrity_class = integrity_class,
               sc_regimes = regimes\<rparr>)))"

definition build_profile ::
    "(octets \<Rightarrow> octets) \<Rightarrow> (string \<Rightarrow> string) \<Rightarrow> string
     \<Rightarrow> (string \<times> integrity_class \<times> canonical_event list) list \<Rightarrow> phase list \<Rightarrow> excluded_interval list
     \<Rightarrow> string list \<Rightarrow> string \<Rightarrow> string \<Rightarrow> string \<Rightarrow> int \<Rightarrow> bool \<Rightarrow> source_profile outcome" where
  "build_profile raw_digest nform scenario_family events_by_source phases excluded quantile_levels
     generator_config_hash reference_bundle_hash reference_run_manifest_hash calibration_seed
     collapse_regimes =
     andThen (check_calibration_seed calibration_seed) (\<lambda>_.
     andThen (check_phases phases) (\<lambda>_.
     andThen (guard_code (quantile_levels \<noteq> []) ProfileError ''PROFILE_INVALID'') (\<lambda>_.
     andThen (sorted_unique quantile_levels) (\<lambda>levels.
     andThen (mapM (\<lambda>level. andThen (parse_quantile level) (\<lambda>(p, q). Inr (level, p, q))) levels)
       (\<lambda>parsed_levels.
     andThen (mapM (build_calibration raw_digest nform phases excluded parsed_levels collapse_regimes)
       events_by_source) (\<lambda>calibrations.
     andThen (identity_spec_hash raw_digest) (\<lambda>identity.
     andThen (excluded_intervals_hash raw_digest nform excluded) (\<lambda>excl.
       check_source_profile nform
         \<lparr>sp_scenario_family = scenario_family, sp_generator_config_hash = generator_config_hash,
          sp_degradation_spec_hash = identity, sp_calibration_seed_band = CALIBRATION_SEED_BAND,
          sp_reference_bundle_hash = reference_bundle_hash,
          sp_reference_run_manifest_hash = reference_run_manifest_hash,
          sp_excluded_intervals_hash = excl, sp_regime_collapsed = collapse_regimes,
          sp_sources = sort_key sc_source_id calibrations, sp_schema = PROFILE_SCHEMA\<rparr>))))))))"

section \<open>The exact-rank statistic\<close>

lemma length_filter_le_index:
  assumes "\<And>i. k \<le> i \<Longrightarrow> i < length xs \<Longrightarrow> \<not> P (xs ! i)"
  shows "length (filter P xs) \<le> k"
proof -
  have "filter P (drop k xs) = []"
    using assms by (force simp: filter_empty_conv in_set_conv_nth add.commute)
  then have "filter P xs = filter P (take k xs)"
    by (metis append_Nil2 append_take_drop_id filter_append)
  then show ?thesis by (metis length_filter_le length_take min.bounded_iff)
qed

lemma length_filter_ge_index:
  assumes "\<And>i. i < k \<Longrightarrow> P (xs ! i)" and "k \<le> length xs"
  shows "k \<le> length (filter P xs)"
proof -
  have "filter P (take k xs) = take k xs"
    using assms by (force simp: filter_id_conv in_set_conv_nth)
  moreover have "filter P xs = filter P (take k xs) @ filter P (drop k xs)"
    by (metis append_take_drop_id filter_append)
  ultimately show ?thesis using assms(2) by simp
qed

lemma q_exact_rank_index:
  assumes "gaps \<noteq> []" "0 \<le> p" "p \<le> q" "0 < q"
  obtains k where "q_exact gaps p q = Inr (gaps ! k)" "k < length gaps"
    "int (length gaps) * p \<le> q * (int k + 1)" "0 < k \<Longrightarrow> q * int k < int (length gaps) * p"
proof -
  define n where "n = int (length gaps)"
  define c where "c = (n * p + (q - 1)) div q"
  have n: "0 < n" using assms(1) by (simp add: n_def)
  have c: "n * p \<le> q * c" "q * c \<le> n * p + (q - 1)"
    using assms(4) mult_div_mod_eq [of q "n * p + (q - 1)"] pos_mod_bound [of q "n * p + (q - 1)"]
      pos_mod_sign [of q "n * p + (q - 1)"] unfolding c_def by linarith+
  have "n * p \<le> n * q" using n assms(3) by simp
  then have "q * c < q * (n + 1)" using c(2) assms(4) by (simp add: algebra_simps)
  then have cn: "c \<le> n" using assms(4) by simp
  define j where "j = (if c < 1 then 1 else c)"
  have j: "1 \<le> j" "j \<le> n" using n cn by (auto simp: j_def)
  show thesis
  proof (rule that [of "nat (j - 1)"])
    show "q_exact gaps p q = Inr (gaps ! nat (j - 1))"
      using n j by (simp add: q_exact_def Let_def n_def [symmetric] c_def [symmetric] j_def [symmetric])
    show "nat (j - 1) < length gaps" using j n by (simp add: n_def)
    have "q * c \<le> q * j" using assms(4) by (simp add: j_def)
    then show "int (length gaps) * p \<le> q * (int (nat (j - 1)) + 1)"
      using c(1) j(1) by (simp add: n_def [symmetric])
    assume "0 < nat (j - 1)"
    then have "j = c" by (auto simp: j_def split: if_splits)
    then show "q * int (nat (j - 1)) < int (length gaps) * p"
      using c(2) j(1) assms(4) by (simp add: n_def [symmetric] algebra_simps)
  qed
qed

section \<open>Quantile spellings\<close>

lemma is_number_decimal: "is_number (decimal n)"
proof -
  have "decimal n \<noteq> []" by (subst decimal.simps) simp
  then show ?thesis using set_decimal [of _ n] by (auto simp: is_number_def list_all_iff)
qed

lemma zero_char: "CHR ''0'' = char_of (48::nat)"
  by (rule char_of_char [symmetric, of "CHR ''0''", where ?'a = nat, simplified])

lemma decimal_first: "0 < n \<Longrightarrow> hd (decimal n) \<noteq> CHR ''0''"
proof (induction n rule: decimal.induct)
  case (1 n)
  show ?case
  proof (cases "n < 10")
    case True
    then have "n = 1 \<or> n = 2 \<or> n = 3 \<or> n = 4 \<or> n = 5 \<or> n = 6 \<or> n = 7 \<or> n = 8 \<or> n = 9"
      using "1.prems" by presburger
    then show ?thesis by (subst decimal.simps) (elim disjE; simp add: zero_char char_of_inj)
  next
    case False
    have "decimal (n div 10) \<noteq> []" by (subst decimal.simps) simp
    with False 1 show ?thesis by (subst decimal.simps) simp
  qed
qed

lemma no_leading_zero: "\<not> leading_zero (decimal n)"
proof (cases "n = 0")
  case True
  then show ?thesis by (simp add: leading_zero_def decimal.simps zero_char)
next
  case False
  then show ?thesis
    using decimal_first [of n] by (cases "decimal n") (auto simp: leading_zero_def startswith_def)
qed

lemma digit_char: "is_digit c \<Longrightarrow> \<exists>d < 10. c = char_of (d + 48 :: nat) \<and> of_char c - 48 = d"
proof -
  assume "is_digit c"
  then have b: "48 \<le> (of_char c :: nat)" "(of_char c :: nat) \<le> 57"
    by (simp_all add: is_digit_def less_eq_char_def)
  then show ?thesis by (intro exI [of _ "of_char c - 48"]) simp
qed

lemma decimal_value_snoc: "decimal_value (s @ [c]) = decimal_value s * 10 + (of_char c - 48)"
  by (simp add: decimal_value_def decimal_value_from_append)

text \<open>A number without a superfluous zero is the decimal spelling of its value.\<close>

lemma decimal_of_value: "is_number s \<Longrightarrow> \<not> leading_zero s \<Longrightarrow> decimal (decimal_value s) = s"
proof (induction s rule: rev_induct)
  case (snoc c s)
  obtain d where d: "d < 10" "c = char_of (d + 48 :: nat)" "of_char c - 48 = d"
    using digit_char [of c] snoc.prems(1) by (auto simp: is_number_def)
  show ?case
  proof (cases "s = []")
    case True
    with d show ?thesis by (simp add: decimal_value_def decimal.simps)
  next
    case False
    have zero: "hd s \<noteq> CHR ''0''"
      using snoc.prems(2) False by (cases s) (auto simp: leading_zero_def startswith_def)
    have nz: "\<not> leading_zero s" "is_number s"
      using zero False snoc.prems(1) by (auto simp: leading_zero_def startswith_def is_number_def hd_conv_nth)
        (cases s; auto)+
    from snoc.IH [OF nz(2,1)] have IH: "decimal (decimal_value s) = s" .
    have pos: "decimal_value s \<noteq> 0"
    proof
      assume "decimal_value s = 0"
      with IH have "s = ''0''" by (simp add: decimal.simps zero_char)
      with zero show False by simp
    qed
    have "decimal (decimal_value s * 10 + d) = decimal (decimal_value s) @ [char_of (d + 48)]"
      using pos d(1) by (subst decimal.simps) simp
    then show ?thesis using IH d by (simp add: decimal_value_snoc)
  qed
qed (simp add: is_number_def)

lemma partition_at_SomeD: "partition_at c s = (p, Some r) \<Longrightarrow> s = p @ c # r"
  by (induction s arbitrary: p) (auto split: if_splits prod.splits)

lemma parse_quantile_spelling:
  assumes "p \<le> q" "0 < q"
  shows "parse_quantile (decimal p @ ''/'' @ decimal q) = Inr (int p, int q)"
proof -
  have "CHR ''/'' \<notin> set (decimal p)"
    using set_decimal [of "CHR ''/''" p] by (auto simp: is_digit_def)
  then have "partition_at (CHR ''/'') (decimal p @ ''/'' @ decimal q) = (decimal p, Some (decimal q))"
    by (simp add: partition_at_append)
  then show ?thesis
    using assms by (simp add: parse_quantile_def is_number_decimal no_leading_zero Let_def)
qed

lemma parse_quantile_eq_Inr:
  assumes "parse_quantile t = Inr (a, b)"
  shows "0 \<le> a \<and> a \<le> b \<and> 0 < b \<and> t = decimal (nat a) @ ''/'' @ decimal (nat b)"
proof -
  obtain p r where part: "partition_at (CHR ''/'') t = (p, Some r)"
    using assms by (auto simp: parse_quantile_def split: prod.splits option.splits)
  then have t: "t = p @ ''/'' @ r" by (simp add: partition_at_SomeD)
  have ok: "is_number p" "is_number r" "\<not> leading_zero p" "\<not> leading_zero r"
    "a = int (decimal_value p)" "b = int (decimal_value r)" "b \<noteq> 0" "a \<le> b"
    using assms part by (auto simp: parse_quantile_def Let_def split: if_splits)
  with t decimal_of_value [OF ok(1,3)] decimal_of_value [OF ok(2,4)] show ?thesis by simp
qed
section \<open>The gap vectors\<close>

text \<open>The regime a gap is attributed to, and the loop as a grouping by it.\<close>

definition attributed ::
    "phase list \<Rightarrow> excluded_interval list \<Rightarrow> canonical_event \<times> canonical_event \<Rightarrow> string option" where
  "attributed phases excluded pair =
     (if phase_of phases (ce_t_evt_ns (fst pair)) = phase_of phases (ce_t_evt_ns (snd pair)) \<and>
         \<not> list_ex (\<lambda>e. intersects_closed e (ce_t_evt_ns (fst pair)) (ce_t_evt_ns (snd pair))) excluded
      then phase_of phases (ce_t_evt_ns (fst pair)) else None)"

definition gap_of :: "canonical_event \<times> canonical_event \<Rightarrow> int" where
  "gap_of pair = ce_t_evt_ns (snd pair) - ce_t_evt_ns (fst pair)"

lemma gap_step_eq:
  "0 \<le> gap_of pair \<Longrightarrow> gap_step phases excluded pair d =
     Inr (case attributed phases excluded pair of None \<Rightarrow> d | Some r \<Rightarrow> push d r (gap_of pair))"
  by (auto simp: gap_step_def attributed_def gap_of_def Let_def split: option.splits)

lemma gap_loop_eq:
  "\<forall>pair \<in> set ps. 0 \<le> gap_of pair \<Longrightarrow> gap_loop phases excluded ps d =
     Inr (foldl (\<lambda>d pair. case attributed phases excluded pair of
            None \<Rightarrow> d | Some r \<Rightarrow> push d r (gap_of pair)) d ps)"
  by (induction ps arbitrary: d) (simp_all add: gap_step_eq)

lemma push_same_key:
  "map fst (push d k x) = (if k \<in> fst ` set d then map fst d else map fst d @ [k])"
  by (induction d k x rule: push.induct) auto

lemma lookup_push:
  "map_of (push d k x) r =
     (if r = k then Some ((case map_of d k of None \<Rightarrow> [] | Some xs \<Rightarrow> xs) @ [x]) else map_of d r)"
  by (induction d k x rule: push.induct) auto

text \<open>What the loop has collected for a regime.\<close>

lemma collected:
  assumes "D = (\<lambda>ps. foldl (\<lambda>d pair. case attributed phases excluded pair of
            None \<Rightarrow> d | Some r \<Rightarrow> push d r (gap_of pair)) [] ps)"
  shows "distinct (map fst (D ps)) \<and>
    map_of (D ps) r = (let gaps = map gap_of (filter (\<lambda>pair. attributed phases excluded pair = Some r) ps)
                       in if gaps = [] then None else Some gaps)"
proof (induction ps rule: rev_induct)
  case (snoc pair ps)
  have step: "D (ps @ [pair]) = (case attributed phases excluded pair of
      None \<Rightarrow> D ps | Some r \<Rightarrow> push (D ps) r (gap_of pair))" unfolding assms by simp
  show ?case
  proof (cases "attributed phases excluded pair")
    case None
    with snoc step show ?thesis by simp
  next
    case (Some k)
    have "distinct (map fst (D (ps @ [pair])))"
      using snoc step Some by (simp add: push_same_key image_set [symmetric] del: image_set)
    moreover have "map_of (D (ps @ [pair])) r = (let gaps = map gap_of (filter
        (\<lambda>pair. attributed phases excluded pair = Some r) (ps @ [pair])) in if gaps = [] then None else Some gaps)"
      using snoc step Some by (auto simp: lookup_push Let_def split: option.splits if_splits)
    ultimately show ?thesis ..
  qed
qed (simp add: assms)

lemma neighbour_gaps:
  "sorted (map ce_t_evt_ns es) \<Longrightarrow> pair \<in> set (zip es (tl es)) \<Longrightarrow> 0 \<le> gap_of pair"
proof (induction es rule: induct_list012)
  case (3 x y zs)
  then show ?case by (auto simp: gap_of_def)
qed simp_all

lemma sorted_by_time: "sorted (map ce_t_evt_ns (sort_key calibration_sort_key es))"
proof -
  have "sorted (map calibration_sort_key (sort_key calibration_sort_key es))" by simp
  then show ?thesis
    by (auto simp: sorted_map calibration_sort_key_def less_eq_prod_def elim!: sorted_wrt_mono_rel [rotated])
qed

definition consecutive :: "canonical_event list \<Rightarrow> (canonical_event \<times> canonical_event) list" where
  "consecutive events =
     (let ordered = sort_key calibration_sort_key events in zip ordered (tl ordered))"

lemma gap_vectors_eq:
  "\<exists>D. gap_vectors events phases excluded =
      Inr (map (\<lambda>(regime, gaps). (regime, sort gaps)) (sort_key fst D)) \<and> distinct (map fst D) \<and>
    (\<forall>r. map_of D r = (let gaps = map gap_of (filter (\<lambda>pair. attributed phases excluded pair = Some r)
       (consecutive events)) in if gaps = [] then None else Some gaps))"
proof -
  define F where "F ps = foldl (\<lambda>d pair. case attributed phases excluded pair of
      None \<Rightarrow> d | Some r \<Rightarrow> push d r (gap_of pair)) [] ps" for ps
  have "gap_loop phases excluded (consecutive events) [] = Inr (F (consecutive events))"
    unfolding F_def consecutive_def Let_def
    by (rule gap_loop_eq) (use neighbour_gaps [OF sorted_by_time] in blast)
  then have "gap_vectors events phases excluded =
      Inr (map (\<lambda>(regime, gaps). (regime, sort gaps)) (sort_key fst (F (consecutive events))))"
    by (simp add: gap_vectors_def consecutive_def Let_def)
  moreover have "F = (\<lambda>ps. foldl (\<lambda>d pair. case attributed phases excluded pair of
      None \<Rightarrow> d | Some r \<Rightarrow> push d r (gap_of pair)) [] ps)" by (simp add: F_def fun_eq_iff)
  ultimately show ?thesis using collected [of F phases excluded "consecutive events"] by blast
qed
section \<open>Properties\<close>

text \<open>C29. The threshold rests on an element of the sample at its exact rank. On a non-empty
  ascending gap vector \<open>q_exact\<close> returns the least gap such that at least the fraction p/q of all
  gaps is not longer: the share of gaps up to the result reaches p/q, and for every shorter
  gap of the sample it does not. On an empty vector it raises PROFILE_INVALID.\<close>

theorem q_exact_exact_rank:
  assumes "sorted gaps" and "0 \<le> p" "p \<le> q" "0 < q"
  shows "case q_exact gaps p q of
      Inl e \<Rightarrow> gaps = [] \<and> e = Raised ProfileError ''PROFILE_INVALID''
    | Inr x \<Rightarrow> x \<in> set gaps \<and>
        p * int (length gaps) \<le> q * int (length (filter (\<lambda>g. g \<le> x) gaps)) \<and>
        (\<forall>y \<in> set gaps. y < x \<longrightarrow> q * int (length (filter (\<lambda>g. g \<le> y) gaps)) < p * int (length gaps))"
proof (cases "gaps = []")
  case True
  then show ?thesis by (simp add: q_exact_def raises_code_def)
next
  case False
  obtain k where k: "q_exact gaps p q = Inr (gaps ! k)" "k < length gaps"
    "int (length gaps) * p \<le> q * (int k + 1)" "0 < k \<Longrightarrow> q * int k < int (length gaps) * p"
    using q_exact_rank_index [OF False assms(2-4)] by blast
  have "Suc k \<le> length (filter (\<lambda>g. g \<le> gaps ! k) gaps)"
    using assms(1) k(2) by (intro length_filter_ge_index) (auto intro: sorted_nth_mono)
  then have "q * (int k + 1) \<le> q * int (length (filter (\<lambda>g. g \<le> gaps ! k) gaps))"
    using assms(4) by simp
  then have "p * int (length gaps) \<le> q * int (length (filter (\<lambda>g. g \<le> gaps ! k) gaps))"
    using k(3) by (simp add: mult.commute)
  moreover have "q * int (length (filter (\<lambda>g. g \<le> y) gaps)) < p * int (length gaps)"
    if "y \<in> set gaps" "y < gaps ! k" for y
  proof -
    have "length (filter (\<lambda>g. g \<le> y) gaps) \<le> k"
      using assms(1) that(2) by (intro length_filter_le_index) (meson not_less order_less_le_trans sorted_nth_mono)
    moreover have "0 < k"
      using that assms(1) by (metis in_set_conv_nth le0 not_gr_zero not_less sorted_nth_mono)
    ultimately show ?thesis
      using k(4) assms(4) by (smt (verit) mult.commute mult_left_mono of_nat_le_iff)
  qed
  ultimately show ?thesis using k(1,2) by simp
qed

lemma q_exact_exact_rank_witness:
  "q_exact [1, 1, 4, 9] 3 4 = Inr 4 \<and> (3::int) * 4 \<le> 4 * int (length (filter (\<lambda>g. g \<le> 4) [1, 1, 4, 9 :: int]))"
proof -
  have "q_exact [1, 1, 4, 9] 3 4 = Inr 4" by code_simp
  with q_exact_exact_rank [of "[1, 1, 4, 9]" 3 4] show ?thesis by simp
qed

text \<open>The spelling of a quantile and its value determine each other: \<open>parse_quantile\<close> accepts a
  text exactly if it is the decimal spelling of some p and q > 0 with p at most q, and then
  returns those two integers.\<close>

theorem quantile_roundtrip:
  "parse_quantile t = Inr (p, q) \<longleftrightarrow>
     0 \<le> p \<and> p \<le> q \<and> 0 < q \<and> t = decimal (nat p) @ ''/'' @ decimal (nat q)"
  using parse_quantile_eq_Inr [of t p q] parse_quantile_spelling [of "nat p" "nat q"]
  by (auto simp: nat_le_iff)

text \<open>The calibration vectors hold exactly the gaps they may. \<open>gap_vectors\<close> never raises; the
  regimes it reports ascend strictly, each with a non-empty ascending vector of non-negative
  gaps; and the vector of a regime is, as a multiset, the gaps between consecutive records
  both of which lie in that regime and whose closed span meets no excluded interval.\<close>

theorem gap_vectors_exact:
  "\<exists>vectors. gap_vectors events phases excluded = Inr vectors \<and>
     sorted_wrt (<) (map fst vectors) \<and>
     (\<forall>(regime, gaps) \<in> set vectors. gaps \<noteq> [] \<and> sorted gaps \<and> (\<forall>g \<in> set gaps. 0 \<le> g)) \<and>
     (\<forall>regime. mset (case map_of vectors regime of None \<Rightarrow> [] | Some gaps \<Rightarrow> gaps) =
        mset (map gap_of (filter (\<lambda>(a, b).
          phase_of phases (ce_t_evt_ns a) = Some regime \<and> phase_of phases (ce_t_evt_ns b) = Some regime \<and>
          \<not> (\<exists>e \<in> set excluded. intersects_closed e (ce_t_evt_ns a) (ce_t_evt_ns b)))
          (consecutive events))))"
proof -
  obtain D where D: "gap_vectors events phases excluded =
      Inr (map (\<lambda>(regime, gaps). (regime, sort gaps)) (sort_key fst D))" "distinct (map fst D)"
    "\<And>r. map_of D r = (let gaps = map gap_of (filter (\<lambda>pair. attributed phases excluded pair = Some r)
       (consecutive events)) in if gaps = [] then None else Some gaps)"
    using gap_vectors_eq [of events phases excluded] by blast
  define vs where vs: "vs = map (\<lambda>(regime, gaps). (regime, sort gaps)) (sort_key fst D)"
  have keys: "map fst vs = map fst (sort_key fst D)" by (simp add: vs o_def case_prod_beta)
  have dist: "distinct (map fst (sort_key fst D))" using D(2) by (simp add: distinct_map)
  have ascend: "sorted_wrt (<) (map fst vs)"
    unfolding keys strict_sorted_iff using dist by simp
  have each: "gaps \<noteq> [] \<and> sorted gaps \<and> (\<forall>g \<in> set gaps. 0 \<le> g)" if mem: "(r, gaps) \<in> set vs" for r gaps
  proof -
    obtain raw where raw: "(r, raw) \<in> set D" "gaps = sort raw" using mem by (auto simp: vs)
    then have "map_of D r = Some raw" using D(2) by (simp add: map_of_is_SomeI)
    then have "raw \<noteq> []" "set raw \<subseteq> gap_of ` set (consecutive events)"
      unfolding D(3) by (auto simp: Let_def split: if_splits)
    moreover have "0 \<le> g" if "g \<in> gap_of ` set (consecutive events)" for g
      using that neighbour_gaps [OF sorted_by_time] by (auto simp: consecutive_def Let_def)
    ultimately show ?thesis using raw(2) by (metis set_empty set_sort sorted_sort subset_iff)
  qed
  have bags: "mset (case map_of vs r of None \<Rightarrow> [] | Some gaps \<Rightarrow> gaps) =
      mset (map gap_of (filter (\<lambda>pair. attributed phases excluded pair = Some r) (consecutive events)))" for r
  proof -
    have "map_of vs r = map_option sort (map_of (sort_key fst D) r)" by (simp add: vs map_of_map)
    also have "map_of (sort_key fst D) r = map_of D r"
      using D(2) dist by (metis map_of_eq_Some_iff not_None_eq set_sort)
    finally have "map_of vs r = map_option sort (map_of D r)" .
    then show ?thesis unfolding D(3) Let_def by (simp del: mset_map split: if_split)
  qed
  have meaning: "(\<lambda>pair. attributed phases excluded pair = Some r) = (\<lambda>(a, b).
      phase_of phases (ce_t_evt_ns a) = Some r \<and> phase_of phases (ce_t_evt_ns b) = Some r \<and>
      \<not> (\<exists>e \<in> set excluded. intersects_closed e (ce_t_evt_ns a) (ce_t_evt_ns b)))" for r
    by (auto simp: attributed_def list_ex_iff fun_eq_iff split: if_splits)
  have eq: "gap_vectors events phases excluded = Inr vs" by (simp add: D(1) vs)
  show ?thesis
    using eq ascend each bags [unfolded meaning] by blast
qed

definition sample_record :: "string \<Rightarrow> int \<Rightarrow> canonical_event" where
  "sample_record i t = \<lparr>ce_event_id = i, ce_record_id = i, ce_source_id = ''src:a'', ce_seq = 0,
     ce_event_type = ''x'', ce_t_evt_ns = t, ce_t_ing_ns = t, ce_attrs = [], ce_chain_hash = None,
     ce_chain_prev = None\<rparr>"

lemma gap_vectors_exact_witness:
  "gap_vectors (map (\<lambda>(i, t). sample_record i t) [(''a'', 9), (''b'', 2), (''c'', 5), (''d'', 12)])
     [\<lparr>ph_regime_id = ''day'', ph_t0_ns = 0, ph_t1_ns = 10\<rparr>] [] = Inr [(''day'', [3, 4])]"
proof -
  obtain vs where "gap_vectors (map (\<lambda>(i, t). sample_record i t) [(''a'', 9), (''b'', 2), (''c'', 5), (''d'', 12)])
     [\<lparr>ph_regime_id = ''day'', ph_t0_ns = 0, ph_t1_ns = 10\<rparr>] [] = Inr vs"
    using gap_vectors_exact by blast
  moreover have "gap_vectors (map (\<lambda>(i, t). sample_record i t) [(''a'', 9), (''b'', 2), (''c'', 5), (''d'', 12)])
     [\<lparr>ph_regime_id = ''day'', ph_t0_ns = 0, ph_t1_ns = 10\<rparr>] [] = Inr [(''day'', [3, 4])]"
    by code_simp
  ultimately show ?thesis by simp
qed

end
