(* ===== verification/Windows.thy ===== *)
theory Windows
  imports Timelines Model "HOL-Library.AList"
begin

text \<open>
  \<^verbatim>\<open>LivenessView\<close> of \<^verbatim>\<open>spectra_vs/envelope.py\<close>: the timelines of verdicts as the envelope stage
  reads them, the windows in which a source was live, the runs in which it was not, the
  windows in which no producing source was live, and the licences these imply. Parsing the
  JSON document into the records (\<open>from_document\<close>) is not modelled.
\<close>

section \<open>The view\<close>

record view_interval =
  vi_t0_ns :: nanos
  vi_t1_ns :: nanos
  vi_verdict :: liveness_verdict
  vi_reason :: string
  vi_witness :: "string list"

definition check_view_interval :: "view_interval \<Rightarrow> view_interval outcome" where
  "check_view_interval i =
     andThen (Interval (vi_t0_ns i) (vi_t1_ns i)) (\<lambda>_.
     andThen (guard (vi_reason i \<noteq> []) SchemaError) (\<lambda>_. Inr i))"

definition is_live :: "view_interval \<Rightarrow> bool" where
  "is_live i = (vi_verdict i = LIVE)"

record view_source =
  vs_source_id :: string
  vs_integrity_class :: integrity_class
  vs_intervals :: "view_interval list"

definition check_view_source :: "view_source \<Rightarrow> view_source outcome" where
  "check_view_source s =
     andThen (check_strictly_ascending (vs_intervals s) vi_t0_ns) (\<lambda>_. Inr s)"

record non_live_run =
  nr_source_id :: string
  nr_t0_ns :: nanos
  nr_t1_ns :: nanos
  nr_verdict :: liveness_verdict
  nr_reason :: string
  nr_witness :: "string list"

type_synonym liveness_view = "view_source list"

definition check_liveness_view :: "liveness_view \<Rightarrow> liveness_view outcome" where
  "check_liveness_view sources = check_strictly_ascending sources vs_source_id"

fun timeline :: "liveness_view \<Rightarrow> string \<Rightarrow> view_interval list" where
  "timeline [] source_id = []"
| "timeline (entry # sources) source_id =
     (if vs_source_id entry = source_id then vs_intervals entry else timeline sources source_id)"

section \<open>Live windows and runs that are not live\<close>

text \<open>The loop of \<open>live\<close>, from the interval it stands at and the cursor.\<close>

fun live_sweep :: "view_interval list \<Rightarrow> nanos \<Rightarrow> nanos \<Rightarrow> bool" where
  "live_sweep [] cursor t1 = False"
| "live_sweep (i # intervals) cursor t1 =
     (if vi_t1_ns i \<le> cursor then live_sweep intervals cursor t1
      else if cursor < vi_t0_ns i then False
      else if \<not> is_live i then False
      else if t1 \<le> vi_t1_ns i then True
      else live_sweep intervals (vi_t1_ns i) t1)"

definition view_live :: "liveness_view \<Rightarrow> string \<Rightarrow> interval \<Rightarrow> bool" where
  "view_live view source_id window =
     (if is_empty window then False
      else live_sweep (timeline view source_id) (iv_t0 window) (iv_t1 window))"

definition fresh_run :: "string \<Rightarrow> view_interval \<Rightarrow> non_live_run" where
  "fresh_run source_id i = \<lparr>nr_source_id = source_id, nr_t0_ns = vi_t0_ns i,
     nr_t1_ns = vi_t1_ns i, nr_verdict = vi_verdict i, nr_reason = vi_reason i,
     nr_witness = vi_witness i\<rparr>"

definition extend_run :: "string \<Rightarrow> non_live_run \<Rightarrow> view_interval \<Rightarrow> non_live_run" where
  "extend_run source_id previous i = \<lparr>nr_source_id = source_id, nr_t0_ns = nr_t0_ns previous,
     nr_t1_ns = vi_t1_ns i, nr_verdict = nr_verdict previous, nr_reason = nr_reason previous,
     nr_witness = sorted_dedup (nr_witness previous @ vi_witness i)\<rparr>"

definition runs_step :: "string \<Rightarrow> non_live_run list \<Rightarrow> view_interval \<Rightarrow> non_live_run list" where
  "runs_step source_id merged i =
     (if is_live i then merged
      else if merged \<noteq> [] \<and> nr_t1_ns (last merged) = vi_t0_ns i
              \<and> nr_verdict (last merged) = vi_verdict i
              \<and> nr_reason (last merged) = vi_reason i
      then butlast merged @ [extend_run source_id (last merged) i]
      else merged @ [fresh_run source_id i])"

definition non_live_runs :: "liveness_view \<Rightarrow> string \<Rightarrow> non_live_run list" where
  "non_live_runs view source_id = foldl (runs_step source_id) [] (timeline view source_id)"

text \<open>The loop of \<open>covering_runs\<close>; \<open>found\<close> accumulates as in the code.\<close>

fun covering_sweep :: "non_live_run list \<Rightarrow> nanos \<Rightarrow> nanos \<Rightarrow> non_live_run list
    \<Rightarrow> non_live_run list option" where
  "covering_sweep [] cursor t1 found = None"
| "covering_sweep (r # rs) cursor t1 found =
     (if nr_t1_ns r \<le> cursor then covering_sweep rs cursor t1 found
      else if cursor < nr_t0_ns r then None
      else if t1 \<le> nr_t1_ns r then Some (found @ [r])
      else covering_sweep rs (nr_t1_ns r) t1 (found @ [r]))"

definition covering_runs :: "liveness_view \<Rightarrow> string \<Rightarrow> interval \<Rightarrow> non_live_run list option" where
  "covering_runs view source_id window =
     (if is_empty window then None
      else covering_sweep (non_live_runs view source_id) (iv_t0 window) (iv_t1 window) [])"

section \<open>Joint windows\<close>

text \<open>
  The elementary windows are built by the record constructor without its checks here: both
  ends come from intervals that were checked, and they ascend.
\<close>

definition window_points :: "liveness_view \<Rightarrow> string list \<Rightarrow> nanos list" where
  "window_points view sources =
     sorted_dedup (concat (map (\<lambda>s. concat (map (\<lambda>i. [vi_t0_ns i, vi_t1_ns i]) (timeline view s)))
       sources))"

definition jointly_blind :: "liveness_view \<Rightarrow> string list \<Rightarrow> interval \<Rightarrow> bool" where
  "jointly_blind view sources elementary =
     (\<not> is_empty elementary \<and> list_all (\<lambda>s. covering_runs view s elementary \<noteq> None) sources)"

definition elementary_windows :: "nanos list \<Rightarrow> interval list" where
  "elementary_windows ordered =
     map (\<lambda>(low, high). \<lparr>iv_t0 = low, iv_t1 = high\<rparr>) (zip ordered (tl ordered))"

definition join_step :: "interval list \<Rightarrow> interval \<Rightarrow> interval list" where
  "join_step kept w =
     (if kept \<noteq> [] \<and> iv_t1 (last kept) = iv_t0 w
      then butlast kept @ [\<lparr>iv_t0 = iv_t0 (last kept), iv_t1 = iv_t1 w\<rparr>]
      else kept @ [w])"

definition joint_blind_windows :: "liveness_view \<Rightarrow> string list \<Rightarrow> interval list" where
  "joint_blind_windows view sources =
     (if sources = [] then []
      else foldl join_step []
        (filter (jointly_blind view sources) (elementary_windows (window_points view sources))))"

section \<open>Licences\<close>

definition run_licence ::
    "(octets \<Rightarrow> octets) \<Rightarrow> (string \<Rightarrow> string) \<Rightarrow> non_live_run \<Rightarrow> licence outcome" where
  "run_licence raw_digest nform r =
     andThen (Interval (nr_t0_ns r) (nr_t1_ns r)) (\<lambda>w.
       let basis = (if nr_verdict r = SUPPRESSED then LB_SUPPRESSED else LB_BLIND);
           witness = (if basis = LB_SUPPRESSED then nr_witness r else [])
       in mint_licence raw_digest nform (nr_source_id r) w basis (nr_reason r) (sort witness))"

fun collect_licences ::
    "(octets \<Rightarrow> octets) \<Rightarrow> (string \<Rightarrow> string) \<Rightarrow> liveness_view \<Rightarrow> string list \<Rightarrow> interval
     \<Rightarrow> licence list option outcome" where
  "collect_licences raw_digest nform view [] window = Inr (Some [])"
| "collect_licences raw_digest nform view (s # sources) window =
     (case covering_runs view s window of
        None \<Rightarrow> Inr None
      | Some runs \<Rightarrow>
          andThen (mapM (run_licence raw_digest nform) runs) (\<lambda>licences.
          andThen (collect_licences raw_digest nform view sources window) (\<lambda>rest.
            Inr (map_option ((@) licences) rest))))"

definition unique_by_id :: "licence list \<Rightarrow> licence list" where
  "unique_by_id found = map snd (foldl (\<lambda>d l. AList.update (lic_id l) l d) [] found)"

definition licences_for_window ::
    "(octets \<Rightarrow> octets) \<Rightarrow> (string \<Rightarrow> string) \<Rightarrow> liveness_view \<Rightarrow> string list \<Rightarrow> interval
     \<Rightarrow> licence list option outcome" where
  "licences_for_window raw_digest nform view sources window =
     andThen (collect_licences raw_digest nform view (sort sources) window) (\<lambda>found.
       Inr (map_option (\<lambda>ls. sort_key licence_sort_key (unique_by_id ls)) found))"

section \<open>The loops are the sweep and the merge\<close>

interpretation lv: sweep vi_t0_ns vi_t1_ns is_live live_sweep
  by unfold_locales simp_all

lemma covering_sweep_found:
  "covering_sweep rs c e found = map_option ((@) found) (covering_sweep rs c e [])"
proof (induction rs arbitrary: c found)
  case (Cons r rs)
  show ?case
    using Cons.IH [of c found] Cons.IH [of "nr_t1_ns r" "found @ [r]"] Cons.IH [of "nr_t1_ns r" "[r]"]
    by (simp add: option.map_comp o_def)
qed simp

interpretation cr: sweep nr_t0_ns nr_t1_ns "\<lambda>_. True" "\<lambda>rs c e. covering_sweep rs c e [] \<noteq> None"
  by unfold_locales (simp_all, subst covering_sweep_found, simp)

interpretation nr: coalesce "\<lambda>i. \<not> is_live i" vi_t0_ns vi_t1_ns "\<lambda>i. (vi_verdict i, vi_reason i)"
  nr_t0_ns nr_t1_ns "\<lambda>r. (nr_verdict r, nr_reason r)" "foldl (runs_step s) []" "extend_run s" "fresh_run s"
  for s
  by unfold_locales (simp_all add: runs_step_def fresh_run_def extend_run_def)

interpretation jw: coalesce "\<lambda>_. True" iv_t0 iv_t1 "\<lambda>_. ()" iv_t0 iv_t1 "\<lambda>_. ()"
  "foldl join_step []" "\<lambda>r w. \<lparr>iv_t0 = iv_t0 r, iv_t1 = iv_t1 w\<rparr>" "\<lambda>w. w"
  by unfold_locales (simp_all add: join_step_def)

section \<open>Instants\<close>

text \<open>The timelines the liveness stage writes: contiguous, hence tiled.\<close>

definition tiled_view :: "liveness_view \<Rightarrow> bool" where
  "tiled_view view = (\<forall>s \<in> set view. tiled vi_t0_ns vi_t1_ns (vs_intervals s))"

definition live_at :: "liveness_view \<Rightarrow> string \<Rightarrow> nanos \<Rightarrow> bool" where
  "live_at view s t = covered vi_t0_ns vi_t1_ns is_live (timeline view s) t"

definition dark_at :: "liveness_view \<Rightarrow> string \<Rightarrow> nanos \<Rightarrow> bool" where
  "dark_at view s t = covered vi_t0_ns vi_t1_ns (\<lambda>i. \<not> is_live i) (timeline view s) t"

lemma tiled_timeline: "tiled_view view \<Longrightarrow> tiled vi_t0_ns vi_t1_ns (timeline view s)"
  by (induction view) (auto simp: tiled_view_def)

lemma not_live_and_dark: "tiled_view view \<Longrightarrow> live_at view s t \<Longrightarrow> \<not> dark_at view s t"
  unfolding live_at_def dark_at_def by (rule covered_conflict [OF tiled_timeline])

lemma tiled_runs: "tiled_view view \<Longrightarrow> tiled nr_t0_ns nr_t1_ns (non_live_runs view s)"
  unfolding non_live_runs_def by (rule nr.tiled_merged [OF tiled_timeline])

lemma runs_covered:
  assumes "tiled_view view"
  shows "covered nr_t0_ns nr_t1_ns (\<lambda>_. True) (non_live_runs view s) t \<longleftrightarrow> dark_at view s t"
  using nr.merged_covered_any [OF tiled_timeline [OF assms], where P = "\<lambda>_. True"]
  by (simp add: non_live_runs_def dark_at_def)

lemma view_live_eq:
  assumes "tiled_view view" and "iv_t0 w \<le> iv_t1 w"
  shows "view_live view s w \<longleftrightarrow> \<not> is_empty w \<and> (\<forall>t \<in> instants w. live_at view s t)"
  using assms lv.decides [OF tiled_timeline [OF assms(1)], of "iv_t0 w" "iv_t1 w" s]
  by (auto simp: view_live_def is_empty_def instants_def live_at_def)

lemma covering_runs_eq:
  assumes "tiled_view view" and "iv_t0 w \<le> iv_t1 w"
  shows "covering_runs view s w \<noteq> None \<longleftrightarrow> \<not> is_empty w \<and> (\<forall>t \<in> instants w. dark_at view s t)"
proof (cases "is_empty w")
  case False
  then have "iv_t0 w < iv_t1 w" using assms(2) by (simp add: is_empty_def)
  from cr.decides [OF tiled_runs [OF assms(1)] this] False show ?thesis
    by (simp add: covering_runs_def instants_def runs_covered [OF assms(1)])
qed (simp add: covering_runs_def)

text \<open>What the sweep returns: some of the runs, each over an instant of the window, and
  together all of it.\<close>

lemma covering_sweep_Some:
  "covering_sweep rs c e [] = Some found \<Longrightarrow> c < e \<Longrightarrow> tiled nr_t0_ns nr_t1_ns rs \<Longrightarrow>
     set found \<subseteq> set rs \<and> (\<forall>r \<in> set found. nr_t0_ns r < e \<and> c < nr_t1_ns r)
     \<and> (\<forall>t \<in> {c..<e}. covered nr_t0_ns nr_t1_ns (\<lambda>_. True) found t)"
proof (induction rs arbitrary: c found)
  case (Cons r rs)
  consider "nr_t1_ns r \<le> c" | "c < nr_t1_ns r" "nr_t0_ns r \<le> c" "e \<le> nr_t1_ns r" "found = [r]"
    | fs where "c < nr_t1_ns r" "nr_t0_ns r \<le> c" "nr_t1_ns r < e"
        "covering_sweep rs (nr_t1_ns r) e [] = Some fs" "found = r # fs"
    using Cons.prems(1) by (auto split: if_splits simp: covering_sweep_found [of _ _ _ "[r]"])
  then show ?case
  proof cases
    case 1
    with Cons.prems have "covering_sweep rs c e [] = Some found" "tiled nr_t0_ns nr_t1_ns rs"
      by (simp_all add: tiled_Cons)
    from Cons.IH [OF this(1) Cons.prems(2) this(2)] show ?thesis by auto
  next
    case 2
    with Cons.prems(2) show ?thesis by auto
  next
    case 3
    from Cons.IH [OF 3(4,3)] Cons.prems(3)
    have IH: "set fs \<subseteq> set rs" "\<forall>r' \<in> set fs. nr_t0_ns r' < e \<and> nr_t1_ns r < nr_t1_ns r'"
      "\<forall>t \<in> {nr_t1_ns r..<e}. covered nr_t0_ns nr_t1_ns (\<lambda>_. True) fs t"
      by (simp_all add: tiled_Cons)
    have "covered nr_t0_ns nr_t1_ns (\<lambda>_. True) found t" if "t \<in> {c..<e}" for t
      using that IH(3) 3 by (cases "t < nr_t1_ns r") auto
    with 3 IH(1,2) show ?thesis by force
  qed
qed simp

lemma covering_runs_Some:
  assumes "covering_runs view s w = Some found" and "tiled_view view" and "iv_t0 w \<le> iv_t1 w"
  shows "set found \<subseteq> set (non_live_runs view s)"
    and "\<forall>r \<in> set found. nr_t0_ns r < iv_t1 w \<and> iv_t0 w < nr_t1_ns r"
    and "\<forall>t \<in> instants w. covered nr_t0_ns nr_t1_ns (\<lambda>_. True) found t"
proof -
  have "iv_t0 w < iv_t1 w" "covering_sweep (non_live_runs view s) (iv_t0 w) (iv_t1 w) [] = Some found"
    using assms(1,3) by (auto simp: covering_runs_def is_empty_def split: if_splits)
  from covering_sweep_Some [OF this(2,1) tiled_runs [OF assms(2)]]
  show "set found \<subseteq> set (non_live_runs view s)"
    "\<forall>r \<in> set found. nr_t0_ns r < iv_t1 w \<and> iv_t0 w < nr_t1_ns r"
    "\<forall>t \<in> instants w. covered nr_t0_ns nr_t1_ns (\<lambda>_. True) found t"
    by (simp_all add: instants_def)
qed

text \<open>Every run belongs to the source it was asked of.\<close>

lemma runs_source: "r \<in> set (foldl (runs_step s) [] xs) \<Longrightarrow> nr_source_id r = s"
proof (induction xs arbitrary: r rule: rev_induct)
  case (snoc x xs)
  then show ?case
    by (auto simp: runs_step_def extend_run_def fresh_run_def split: if_splits dest: in_set_butlastD)
qed simp

section \<open>Joint windows\<close>

lemma timeline_point:
  "i \<in> set (timeline view s) \<Longrightarrow> s \<in> set sources \<Longrightarrow>
     vi_t0_ns i \<in> set (window_points view sources) \<and> vi_t1_ns i \<in> set (window_points view sources)"
  by (force simp: window_points_def)

lemma points_ascend: "sorted_wrt (<) (window_points view sources)"
  by (simp add: window_points_def strict_sorted_iff)

text \<open>Between two neighbouring points nothing changes.\<close>

lemma dark_between:
  assumes ab: "(a, b) \<in> set (zip ps (tl ps))" and ps: "ps = window_points view sources"
    and s: "s \<in> set sources" and t: "dark_at view s t" "a \<le> t" "t < b" and u: "a \<le> u" "u < b"
  shows "dark_at view s u"
proof -
  have gap: "x \<le> a \<or> b \<le> x" if "x \<in> set ps" for x
    using neighbours_gap [OF _ ab] points_ascend ps that by blast
  obtain i where i: "i \<in> set (timeline view s)" "\<not> is_live i" "vi_t0_ns i \<le> t" "t < vi_t1_ns i"
    using t(1) by (auto simp: dark_at_def covered_def)
  from timeline_point [OF i(1) s] gap ps have "vi_t0_ns i \<le> a \<or> b \<le> vi_t0_ns i"
    "vi_t1_ns i \<le> a \<or> b \<le> vi_t1_ns i" by blast+
  with i t(2,3) u have "vi_t0_ns i \<le> u" "u < vi_t1_ns i" by linarith+
  with i(1,2) show ?thesis by (auto simp: dark_at_def covered_def)
qed

lemma tiled_elementary: "tiled iv_t0 iv_t1 (elementary_windows (window_points view sources))"
proof -
  have "tiled fst snd (zip ps (tl ps))" if "ps = window_points view sources" for ps
    using neighbours_tiled [OF points_ascend] that by blast
  then show ?thesis
    by (auto simp: tiled_def elementary_windows_def sorted_wrt_map case_prod_beta)
qed

lemma joint_covered:
  assumes "tiled_view view" "sources \<noteq> []"
  shows "covered iv_t0 iv_t1 (\<lambda>_. True) (joint_blind_windows view sources) t \<longleftrightarrow>
    (\<forall>s \<in> set sources. dark_at view s t)"
proof -
  define ps where "ps = window_points view sources"
  have "covered iv_t0 iv_t1 (\<lambda>_. True) (joint_blind_windows view sources) t \<longleftrightarrow>
      covered iv_t0 iv_t1 (jointly_blind view sources) (elementary_windows ps) t"
    using jw.merged_covered_any [OF tiled_filter [OF tiled_elementary], where P = "\<lambda>_. True"]
      assms(2) by (simp add: joint_blind_windows_def covered_filter ps_def)
  also have "\<dots> \<longleftrightarrow> (\<exists>a b. (a, b) \<in> set (zip ps (tl ps)) \<and>
      jointly_blind view sources \<lparr>iv_t0 = a, iv_t1 = b\<rparr> \<and> a \<le> t \<and> t < b)"
    by (force simp: covered_def elementary_windows_def)
  also have "\<dots> \<longleftrightarrow> (\<exists>a b. (a, b) \<in> set (zip ps (tl ps)) \<and> a \<le> t \<and> t < b \<and>
      (\<forall>s \<in> set sources. \<forall>u \<in> {a..<b}. dark_at view s u))"
  proof (intro ex_cong1)
    fix a b
    have "a < b" if "(a, b) \<in> set (zip ps (tl ps))"
      using neighbours_gap [OF _ that] points_ascend ps_def by blast
    then show "(a, b) \<in> set (zip ps (tl ps)) \<and> jointly_blind view sources \<lparr>iv_t0 = a, iv_t1 = b\<rparr>
        \<and> a \<le> t \<and> t < b \<longleftrightarrow> (a, b) \<in> set (zip ps (tl ps)) \<and> a \<le> t \<and> t < b \<and>
      (\<forall>s \<in> set sources. \<forall>u \<in> {a..<b}. dark_at view s u)"
      using covering_runs_eq [OF assms(1), of "\<lparr>iv_t0 = a, iv_t1 = b\<rparr>"]
      by (auto simp: jointly_blind_def list_all_iff is_empty_def instants_def less_imp_le)
  qed
  also have "\<dots> \<longleftrightarrow> (\<forall>s \<in> set sources. dark_at view s t)"
  proof
    assume dark: "\<forall>s \<in> set sources. dark_at view s t"
    obtain s where s: "s \<in> set sources" using assms(2) by (cases sources) auto
    with dark obtain i where i: "i \<in> set (timeline view s)" "vi_t0_ns i \<le> t" "t < vi_t1_ns i"
      by (auto simp: dark_at_def covered_def)
    obtain a b where ab: "(a, b) \<in> set (zip ps (tl ps))" "a \<le> t" "t < b"
      using neighbours_cover [OF _ _ _ i(2,3), of ps] timeline_point [OF i(1) s] points_ascend
      by (auto simp: ps_def)
    have "dark_at view s u" if "s \<in> set sources" "a \<le> u" "u < b" for s u
      using dark_between [OF ab(1) ps_def that(1) _ ab(2,3) that(2,3)] dark that(1) by blast
    then have "\<forall>s \<in> set sources. \<forall>u \<in> {a..<b}. dark_at view s u" by simp
    with ab show "\<exists>a b. (a, b) \<in> set (zip ps (tl ps)) \<and> a \<le> t \<and> t < b \<and>
      (\<forall>s \<in> set sources. \<forall>u \<in> {a..<b}. dark_at view s u)" by blast
  next
    assume "\<exists>a b. (a, b) \<in> set (zip ps (tl ps)) \<and> a \<le> t \<and> t < b \<and>
      (\<forall>s \<in> set sources. \<forall>u \<in> {a..<b}. dark_at view s u)"
    then show "\<forall>s \<in> set sources. dark_at view s t" by force
  qed
  finally show ?thesis .
qed

section \<open>Licences for a window\<close>

lemma mint_licence_fields:
  "mint_licence raw_digest nform s w b re wi = Inr l \<Longrightarrow>
     lic_source_id l = s \<and> lic_t0_ns l = iv_t0 w \<and> lic_t1_ns l = iv_t1 w \<and> lic_basis l = b
     \<and> lic_reason l = re \<and> lic_witness l = wi"
  by (auto simp: mint_licence_def check_licence_def result_simps)

lemma Interval_eq: "Interval a b = Inr w \<Longrightarrow> w = \<lparr>iv_t0 = a, iv_t1 = b\<rparr> \<and> a \<le> b"
  by (auto simp: Interval_def check_nanos_def result_simps split: if_splits)

lemma run_licence_fields:
  "run_licence raw_digest nform r = Inr l \<Longrightarrow>
     lic_source_id l = nr_source_id r \<and> lic_t0_ns l = nr_t0_ns r \<and> lic_t1_ns l = nr_t1_ns r"
  by (auto simp: run_licence_def result_simps Let_def dest!: Interval_eq mint_licence_fields)

lemma run_dark:
  assumes "tiled_view view" and "r \<in> set (non_live_runs view s)" and "nr_t0_ns r \<le> t" "t < nr_t1_ns r"
  shows "dark_at view s t"
  using assms runs_covered [OF assms(1), of s t] by (auto simp: covered_def)

lemma collect_licences_None:
  "collect_licences raw_digest nform view sources w = Inr None \<Longrightarrow>
     \<exists>s \<in> set sources. covering_runs view s w = None"
  by (induction sources) (auto simp: result_simps split: option.splits)

lemma collect_licences_Some:
  "collect_licences raw_digest nform view sources w = Inr (Some ls) \<Longrightarrow>
     (\<forall>s \<in> set sources. covering_runs view s w \<noteq> None) \<and>
     (\<forall>l \<in> set ls. \<exists>s \<in> set sources. \<exists>rs. covering_runs view s w = Some rs \<and>
        (\<exists>r \<in> set rs. run_licence raw_digest nform r = Inr l))"
proof (induction sources arbitrary: ls)
  case (Cons s sources)
  then obtain rs ls1 ls2 where eqs: "covering_runs view s w = Some rs"
    "mapM (run_licence raw_digest nform) rs = Inr ls1"
    "collect_licences raw_digest nform view sources w = Inr (Some ls2)" "ls = ls1 @ ls2"
    by (auto simp: result_simps split: option.splits)
  have "\<exists>r \<in> set rs. run_licence raw_digest nform r = Inr l" if "l \<in> set ls1" for l
    using that eqs(2)
    by (auto simp: mapM_eq_Inr_list_all2 list_all2_conv_all_nth in_set_conv_nth) (metis nth_mem)
  with Cons.IH [OF eqs(3)] eqs show ?case
    by (auto split: option.splits)
qed simp

lemma update_set_subset: "set (AList.update k v d) \<subseteq> insert (k, v) (set d)"
  by (induction d) auto

lemma unique_by_id_spec:
  "set (unique_by_id found) \<subseteq> set found \<and> distinct (map lic_id (unique_by_id found))"
proof -
  define D where "D xs = foldl (\<lambda>d l. AList.update (lic_id l) l d) [] xs" for xs :: "licence list"
  have "distinct (map fst (D xs)) \<and> (\<forall>(k, l) \<in> set (D xs). k = lic_id l \<and> l \<in> set xs)" for xs
  proof (induction xs rule: rev_induct)
    case (snoc x xs)
    have "set (AList.update (lic_id x) x (D xs)) \<subseteq> insert (lic_id x, x) (set (D xs))"
      by (rule update_set_subset)
    with snoc show ?case by (auto simp: D_def AList.distinct_update)
  qed (simp add: D_def)
  then have D: "distinct (map fst (D found))" "\<forall>(k, l) \<in> set (D found). k = lic_id l \<and> l \<in> set found"
    by simp_all
  have "map lic_id (map snd (D found)) = map fst (D found)"
    using D(2) by (auto intro: map_cong)
  moreover have "set (map snd (D found)) \<subseteq> set found" using D(2) by auto
  ultimately show ?thesis using D(1) unfolding unique_by_id_def D_def by metis
qed
lemma distinct_map_sort_key: "distinct (map f (sort_key k xs)) \<longleftrightarrow> distinct (map f xs)"
  by (simp add: distinct_map)

lemma licence_of_run:
  assumes "tiled_view view" "iv_t0 w \<le> iv_t1 w"
    and "s \<in> S" "covering_runs view s w = Some rs" "r \<in> set rs" "run_licence raw_digest nform r = Inr l"
  shows "lic_source_id l \<in> S \<and> lic_t0_ns l < iv_t1 w \<and> iv_t0 w < lic_t1_ns l
    \<and> (\<forall>t. lic_t0_ns l \<le> t \<and> t < lic_t1_ns l \<longrightarrow> dark_at view (lic_source_id l) t)"
proof -
  note some = covering_runs_Some [OF assms(4,1,2)]
  have r: "r \<in> set (non_live_runs view s)" using some(1) assms(5) by blast
  then have "nr_source_id r = s" unfolding non_live_runs_def by (rule runs_source)
  with run_licence_fields [OF assms(6)] some(2) assms(3,5) run_dark [OF assms(1) r]
  show ?thesis by simp
qed

lemma elementary_proper:
  "w \<in> set (elementary_windows (window_points view sources)) \<Longrightarrow> iv_t0 w < iv_t1 w"
proof -
  have "a < b" if "(a, b) \<in> set (zip ps (tl ps))" "ps = window_points view sources" for a b ps
    using neighbours_gap [OF _ that(1)] points_ascend that(2) by blast
  then show "w \<in> set (elementary_windows (window_points view sources)) \<Longrightarrow> iv_t0 w < iv_t1 w"
    by (auto simp: elementary_windows_def)
qed

lemma joined_proper:
  "tiled iv_t0 iv_t1 xs \<Longrightarrow> \<forall>w \<in> set xs. iv_t0 w < iv_t1 w \<Longrightarrow>
     \<forall>w \<in> set (foldl join_step [] xs). iv_t0 w < iv_t1 w"
proof (induction xs rule: rev_induct)
  case (snoc x xs)
  then have IH: "\<forall>w \<in> set (foldl join_step [] xs). iv_t0 w < iv_t1 w" and x: "iv_t0 x < iv_t1 x"
    by (simp_all add: tiled_snoc)
  show ?case
  proof (cases rule: jw.merged_cases [where x = x and xs = xs])
    case (grown ys r)
    with IH have "iv_t0 r < iv_t1 r" by simp
    with grown IH x show ?thesis by auto
  qed (use IH x in auto)
qed simp

lemma joint_separated:
  assumes "tiled_view view"
  shows "sorted_wrt (\<lambda>a b. iv_t1 a < iv_t0 b) (joint_blind_windows view sources) \<and>
    (\<forall>w \<in> set (joint_blind_windows view sources). iv_t0 w < iv_t1 w)"
proof (cases "sources = []")
  case False
  define xs where "xs = filter (jointly_blind view sources) (elementary_windows (window_points view sources))"
  have tiled: "tiled iv_t0 iv_t1 xs" and proper: "\<forall>w \<in> set xs. iv_t0 w < iv_t1 w"
    using tiled_filter [OF tiled_elementary] elementary_proper by (auto simp: xs_def)
  have ws: "\<forall>w \<in> set (foldl join_step [] xs). iv_t0 w < iv_t1 w"
    by (rule joined_proper [OF tiled proper])
  have "iv_t1 r \<noteq> iv_t0 r'" if "foldl join_step [] xs = us @ r # r' # vs" for us r r' vs
    using jw.merged_maximal [OF that] by auto
  from separated [OF jw.tiled_merged [OF tiled] ws this] ws False
  show ?thesis by (simp add: joint_blind_windows_def xs_def)
qed (simp add: joint_blind_windows_def)

section \<open>Properties\<close>

text \<open>On a tiled timeline the envelope's two window tests are exact and exclude each other:
  \<open>live\<close> answers True exactly for a non-empty window all of whose instants lie in LIVE
  intervals, \<open>covering_runs\<close> finds runs exactly for a non-empty window all of whose instants lie
  in intervals that are not LIVE, so no window is both live and licensable.\<close>

theorem window_tests_exact:
  assumes "tiled_view view" and "iv_t0 w \<le> iv_t1 w"
  shows "(view_live view s w \<longleftrightarrow> \<not> is_empty w \<and> (\<forall>t \<in> instants w. live_at view s t)) \<and>
    (covering_runs view s w \<noteq> None \<longleftrightarrow> \<not> is_empty w \<and> (\<forall>t \<in> instants w. dark_at view s t)) \<and>
    \<not> (view_live view s w \<and> covering_runs view s w \<noteq> None)"
proof -
  have "\<not> ((\<forall>t \<in> instants w. live_at view s t) \<and> (\<forall>t \<in> instants w. dark_at view s t))"
    if "\<not> is_empty w"
    using not_live_and_dark [OF assms(1)] that assms(2)
    by (force simp: instants_def is_empty_def)
  with view_live_eq [OF assms] covering_runs_eq [OF assms] show ?thesis by blast
qed

definition sample_view :: liveness_view where
  "sample_view =
    [\<lparr>vs_source_id = ''src:a'', vs_integrity_class = NONE, vs_intervals =
       [\<lparr>vi_t0_ns = 0, vi_t1_ns = 4, vi_verdict = LIVE, vi_reason = ''L'', vi_witness = []\<rparr>,
        \<lparr>vi_t0_ns = 4, vi_t1_ns = 6, vi_verdict = BLIND, vi_reason = ''B'', vi_witness = []\<rparr>,
        \<lparr>vi_t0_ns = 6, vi_t1_ns = 9, vi_verdict = BLIND, vi_reason = ''C'', vi_witness = []\<rparr>]\<rparr>,
     \<lparr>vs_source_id = ''src:b'', vs_integrity_class = NONE, vs_intervals =
       [\<lparr>vi_t0_ns = 0, vi_t1_ns = 8, vi_verdict = BLIND, vi_reason = ''B'', vi_witness = []\<rparr>,
        \<lparr>vi_t0_ns = 8, vi_t1_ns = 9, vi_verdict = LIVE, vi_reason = ''L'', vi_witness = []\<rparr>]\<rparr>]"

lemma tiled_sample: "tiled_view sample_view"
  by (simp add: tiled_view_def sample_view_def tiled_def)

lemma window_tests_exact_witness:
  "view_live sample_view ''src:a'' \<lparr>iv_t0 = 0, iv_t1 = 3\<rparr> \<and>
   covering_runs sample_view ''src:a'' \<lparr>iv_t0 = 0, iv_t1 = 3\<rparr> = None"
proof -
  have "view_live sample_view ''src:a'' \<lparr>iv_t0 = 0, iv_t1 = 3\<rparr>"
    by code_simp
  with window_tests_exact [OF tiled_sample, of "\<lparr>iv_t0 = 0, iv_t1 = 3\<rparr>" "''src:a''"]
  show ?thesis by simp
qed

text \<open>The joint windows are exactly the time in which every named source is not LIVE: an
  instant lies in a window exactly if all sources are dark at it, and the windows are
  non-empty, ascending and separated by instants in which some source is not dark.\<close>

theorem joint_blind_windows_exact:
  assumes "tiled_view view" and "sources \<noteq> []"
  shows "((\<exists>w \<in> set (joint_blind_windows view sources). t \<in> instants w) \<longleftrightarrow>
      (\<forall>s \<in> set sources. dark_at view s t)) \<and>
    sorted_wrt (\<lambda>a b. iv_t1 a < iv_t0 b) (joint_blind_windows view sources) \<and>
    (\<forall>w \<in> set (joint_blind_windows view sources). iv_t0 w < iv_t1 w)"
  using joint_covered [OF assms, of t] joint_separated [OF assms(1)]
  by (auto simp: covered_def instants_def)

lemma joint_blind_windows_exact_witness:
  "joint_blind_windows sample_view [''src:a'', ''src:b''] = [\<lparr>iv_t0 = 4, iv_t1 = 8\<rparr>] \<and>
   dark_at sample_view ''src:a'' 5"
proof -
  have "joint_blind_windows sample_view [''src:a'', ''src:b''] = [\<lparr>iv_t0 = 4, iv_t1 = 8\<rparr>]"
    by code_simp
  with joint_blind_windows_exact [OF tiled_sample, of "[''src:a'', ''src:b'']" 5]
  show ?thesis by (simp add: instants_def)
qed

definition echo_digest :: "octets \<Rightarrow> octets" where
  "echo_digest p = take 32 (rev p @ replicate 32 (CHR ''a''))"


end
