(* ===== verification/Liveness.thy ===== *)
theory Liveness
  imports Timelines Calibration Patience Windows
begin

text \<open>
  \<^verbatim>\<open>spectra_vs/liveness.py\<close>, first part: the configuration, the binding gates, the
  thresholds, the observation of one elementary window, the rules R1 to R11, and the document
  that \<open>build_liveness_document\<close> assembles. The text of the TOML file is not parsed here: the
  configuration starts from the members that \<^verbatim>\<open>tomllib\<close> returns. The verifier of a hash chain is
  an argument, as in the code; the link check that is its default is modelled.
\<close>

section \<open>Modes and reasons\<close>

datatype liveness_mode = F0_CALIBRATED | F1_INSUFFICIENT | F2_NO_PROFILE | F3_DECLARED

fun MODE_STRENGTH :: "liveness_mode \<Rightarrow> nat" where
  "MODE_STRENGTH F2_NO_PROFILE = 0"
| "MODE_STRENGTH F1_INSUFFICIENT = 1"
| "MODE_STRENGTH F3_DECLARED = 2"
| "MODE_STRENGTH F0_CALIBRATED = 3"

fun mode_text :: "liveness_mode \<Rightarrow> string" where
  "mode_text F0_CALIBRATED = ''F0_CALIBRATED''"
| "mode_text F1_INSUFFICIENT = ''F1_INSUFFICIENT''"
| "mode_text F2_NO_PROFILE = ''F2_NO_PROFILE''"
| "mode_text F3_DECLARED = ''F3_DECLARED''"

datatype reason =
    L_CALIBRATED_OK | B_FORCED_NO_PROFILE_MODE | B_REGIME_UNKNOWN | B_PROFILE_INSUFFICIENT
  | B_THRESHOLD_OVERFLOW | B_CHAIN_UNVERIFIED | B_UNBRACKETED | B_WINDOW_UNDERSAMPLED
  | B_GAP_EXCEEDS_THRESHOLD | S_CHAIN_SEQ_GAP | S_SEQ_GAP_UNAUTHENTICATED | B_INTERNAL_ERROR

fun reason_text :: "reason \<Rightarrow> string" where
  "reason_text L_CALIBRATED_OK = ''L_CALIBRATED_OK''"
| "reason_text B_FORCED_NO_PROFILE_MODE = ''B_FORCED_NO_PROFILE_MODE''"
| "reason_text B_REGIME_UNKNOWN = ''B_REGIME_UNKNOWN''"
| "reason_text B_PROFILE_INSUFFICIENT = ''B_PROFILE_INSUFFICIENT''"
| "reason_text B_THRESHOLD_OVERFLOW = ''B_THRESHOLD_OVERFLOW''"
| "reason_text B_CHAIN_UNVERIFIED = ''B_CHAIN_UNVERIFIED''"
| "reason_text B_UNBRACKETED = ''B_UNBRACKETED''"
| "reason_text B_WINDOW_UNDERSAMPLED = ''B_WINDOW_UNDERSAMPLED''"
| "reason_text B_GAP_EXCEEDS_THRESHOLD = ''B_GAP_EXCEEDS_THRESHOLD''"
| "reason_text S_CHAIN_SEQ_GAP = ''S_CHAIN_SEQ_GAP''"
| "reason_text S_SEQ_GAP_UNAUTHENTICATED = ''S_SEQ_GAP_UNAUTHENTICATED''"
| "reason_text B_INTERNAL_ERROR = ''B_INTERNAL_ERROR''"

definition all_reasons :: "reason list" where
  "all_reasons = [L_CALIBRATED_OK, B_FORCED_NO_PROFILE_MODE, B_REGIME_UNKNOWN,
     B_PROFILE_INSUFFICIENT, B_THRESHOLD_OVERFLOW, B_CHAIN_UNVERIFIED, B_UNBRACKETED,
     B_WINDOW_UNDERSAMPLED, B_GAP_EXCEEDS_THRESHOLD, S_CHAIN_SEQ_GAP, S_SEQ_GAP_UNAUTHENTICATED,
     B_INTERNAL_ERROR]"

text \<open>\<open>Reason(text)\<close>, None where Python raises ValueError.\<close>

definition reason_of :: "string \<Rightarrow> reason option" where
  "reason_of text = find (\<lambda>r. reason_text r = text) all_reasons"

definition CALIBRATION_DEFICIENCY_REASONS :: "reason list" where
  "CALIBRATION_DEFICIENCY_REASONS = [B_PROFILE_INSUFFICIENT, B_REGIME_UNKNOWN,
     B_FORCED_NO_PROFILE_MODE, B_THRESHOLD_OVERFLOW, B_WINDOW_UNDERSAMPLED, B_INTERNAL_ERROR]"

definition OBSERVED_GAP_REASONS :: "reason list" where
  "OBSERVED_GAP_REASONS = [B_GAP_EXCEEDS_THRESHOLD, B_UNBRACKETED, B_CHAIN_UNVERIFIED,
     S_CHAIN_SEQ_GAP, S_SEQ_GAP_UNAUTHENTICATED]"

section \<open>Configuration\<close>

definition LIVENESS_SCHEMA :: string where "LIVENESS_SCHEMA = ''spectra.liveness/3''"
definition LIVENESS_CONFIG_SCHEMA :: string where
  "LIVENESS_CONFIG_SCHEMA = ''spectra.vs.liveness_cfg/1''"

record liveness_config =
  lc_quantile_num :: int
  lc_quantile_den :: int
  lc_slack_num :: int
  lc_slack_den :: int
  lc_k_tail :: int
  lc_n_floor :: int
  lc_m_min :: int
  lc_mcs_exact_cap :: int
  lc_schema :: string

definition check_config_member :: "int \<Rightarrow> unit outcome" where
  "check_config_member value =
     (if value < 0 then raises SchemaError else andThen (u32 value) (\<lambda>_. Inr ()))"

definition check_liveness_config :: "liveness_config \<Rightarrow> liveness_config outcome" where
  "check_liveness_config c =
     andThen (guard (lc_schema c = LIVENESS_CONFIG_SCHEMA) SchemaError) (\<lambda>_.
     andThen (check_all check_config_member [lc_quantile_num c, lc_quantile_den c, lc_slack_num c,
       lc_slack_den c, lc_k_tail c, lc_n_floor c, lc_m_min c, lc_mcs_exact_cap c]) (\<lambda>_.
     andThen (guard (\<not> (lc_quantile_den c = 0 \<or> lc_slack_den c = 0)) SchemaError) (\<lambda>_.
     andThen (guard (\<not> lc_quantile_den c < lc_quantile_num c) SchemaError) (\<lambda>_.
     andThen (guard (lc_quantile_den c \<noteq> lc_quantile_num c) SchemaError) (\<lambda>_.
     andThen (guard (\<not> lc_m_min c < 1) SchemaError) (\<lambda>_. Inr c))))))"

definition config_quantile :: "liveness_config \<Rightarrow> string" where
  "config_quantile c = int_text (lc_quantile_num c) @ ''/'' @ int_text (lc_quantile_den c)"

definition config_slack :: "liveness_config \<Rightarrow> string" where
  "config_slack c = int_text (lc_slack_num c) @ ''/'' @ int_text (lc_slack_den c)"

definition ceil_ratio :: "int \<Rightarrow> int \<Rightarrow> int outcome" where
  "ceil_ratio numerator denominator =
     (if denominator \<le> 0 then raises SchemaError
      else Inr ((numerator + denominator - 1) div denominator))"

definition n_min :: "liveness_config \<Rightarrow> int outcome" where
  "n_min c =
     (let span = lc_quantile_den c - lc_quantile_num c
      in andThen (ceil_ratio (lc_k_tail c * lc_quantile_den c) span) (\<lambda>tail.
           Inr (if tail < lc_n_floor c then lc_n_floor c else tail)))"

definition CONFIG_MEMBERS :: "string list" where
  "CONFIG_MEMBERS = [''k_tail'', ''m_min'', ''mcs_exact_cap'', ''n_floor'', ''quantile'', ''schema'',
     ''slack_den'', ''slack_num'']"

text \<open>\<open>_reject_floats\<close> on the parsed members.\<close>

fun reject_floats :: "json \<Rightarrow> unit outcome"
and reject_floats_members :: "(string \<times> json) list \<Rightarrow> unit outcome"
and reject_floats_items :: "json list \<Rightarrow> unit outcome" where
  "reject_floats (JFloat f) = raises_code CanonError ''E-CANON-FLOAT''"
| "reject_floats (JObj members) = reject_floats_members members"
| "reject_floats (JArr items) = reject_floats_items items"
| "reject_floats v = Inr ()"
| "reject_floats_members [] = Inr ()"
| "reject_floats_members ((k, v) # members) =
     andThen (reject_floats v) (\<lambda>_. reject_floats_members members)"
| "reject_floats_items [] = Inr ()"
| "reject_floats_items (v # items) = andThen (reject_floats v) (\<lambda>_. reject_floats_items items)"

text \<open>A member that must be an integer: any other kind is refused by \<open>LivenessConfig\<close>.\<close>

definition int_member :: "(string \<times> json) list \<Rightarrow> string \<Rightarrow> int outcome" where
  "int_member parsed key =
     (case map_of parsed key of Some (JInt v) \<Rightarrow> Inr v | _ \<Rightarrow> raises SchemaError)"

definition config_of_members :: "(string \<times> json) list \<Rightarrow> liveness_config outcome" where
  "config_of_members parsed =
     andThen (reject_floats (JObj parsed)) (\<lambda>_.
     andThen (guard_code (set (map fst parsed) \<subseteq> set CONFIG_MEMBERS) SchemaError ''E-SCHEMA-UNKNOWN'') (\<lambda>_.
     andThen (guard_code (set CONFIG_MEMBERS \<subseteq> set (map fst parsed)) SchemaError ''E-SCHEMA-MISSING'') (\<lambda>_.
       case map_of parsed ''quantile'' of
         Some (JStr quantile) \<Rightarrow>
           andThen (parse_quantile quantile) (\<lambda>(p, q).
             case map_of parsed ''schema'' of
               Some (JStr schema) \<Rightarrow>
                 andThen (int_member parsed ''slack_num'') (\<lambda>slack_num.
                 andThen (int_member parsed ''slack_den'') (\<lambda>slack_den.
                 andThen (int_member parsed ''k_tail'') (\<lambda>k_tail.
                 andThen (int_member parsed ''n_floor'') (\<lambda>n_floor.
                 andThen (int_member parsed ''m_min'') (\<lambda>m_min.
                 andThen (int_member parsed ''mcs_exact_cap'') (\<lambda>mcs_exact_cap.
                   check_liveness_config \<lparr>lc_quantile_num = p, lc_quantile_den = q,
                     lc_slack_num = slack_num, lc_slack_den = slack_den, lc_k_tail = k_tail,
                     lc_n_floor = n_floor, lc_m_min = m_min, lc_mcs_exact_cap = mcs_exact_cap,
                     lc_schema = schema\<rparr>))))))
             | _ \<Rightarrow> raises SchemaError)
       | _ \<Rightarrow> raises SchemaError)))"

section \<open>Binding gates\<close>

record binding_context =
  bc_bundle_hash :: string
  bc_seed :: int
  bc_generator_config_hash :: string
  bc_scenario_family :: string
  bc_excluded_intervals_hash :: string

definition check_binding_context :: "(string \<Rightarrow> string) \<Rightarrow> binding_context \<Rightarrow> binding_context outcome" where
  "check_binding_context nform c =
     andThen (parse_hash_ref (bc_bundle_hash c)) (\<lambda>_.
     andThen (parse_hash_ref (bc_generator_config_hash c)) (\<lambda>_.
     andThen (parse_hash_ref (bc_excluded_intervals_hash c)) (\<lambda>_.
     andThen (guard (\<not> bc_seed c < 0) SchemaError) (\<lambda>_.
     andThen (nfc nform (bc_scenario_family c)) (\<lambda>_. Inr c)))))"

text \<open>A failure is its gate and its code; the detail is text.\<close>

definition check_binding_gates ::
    "string \<Rightarrow> source_profile \<Rightarrow> binding_context \<Rightarrow> (string \<times> string) list" where
  "check_binding_gates identity profile context =
     (if sp_reference_bundle_hash profile = bc_bundle_hash context
      then [(''B1'', ''PROFILE_SELF_CALIBRATED'')] else []) @
     (if sp_degradation_spec_hash profile \<noteq> identity
      then [(''B2'', ''PROFILE_FROM_DEGRADED_RUN'')] else []) @
     (if fst (sp_calibration_seed_band profile) \<le> bc_seed context
         \<and> bc_seed context \<le> snd (sp_calibration_seed_band profile)
      then [(''B3'', ''PROFILE_SEED_OVERLAP'')] else []) @
     (if sp_generator_config_hash profile \<noteq> bc_generator_config_hash context
      then [(''B4'', ''PROFILE_CONFIG_MISMATCH'')] else []) @
     (if sp_scenario_family profile \<noteq> bc_scenario_family context
      then [(''B5'', ''PROFILE_FAMILY_MISMATCH'')] else []) @
     (if sp_excluded_intervals_hash profile \<noteq> bc_excluded_intervals_hash context
      then [(''B6'', ''PROFILE_INTERVALS_MISMATCH'')] else [])"

definition require_binding_gates ::
    "string \<Rightarrow> source_profile \<Rightarrow> binding_context \<Rightarrow> unit outcome" where
  "require_binding_gates identity profile context =
     (case check_binding_gates identity profile context of
        [] \<Rightarrow> Inr ()
      | first # _ \<Rightarrow> raises_code ProfileError (snd first))"

section \<open>Thresholds\<close>

definition threshold_from_order_statistic :: "int \<Rightarrow> int \<Rightarrow> int \<Rightarrow> (int \<times> bool) outcome" where
  "threshold_from_order_statistic q_value slack_num slack_den =
     (if q_value < 0 then raises SchemaError
      else if slack_den \<le> 0 \<or> slack_num < 0 then raises SchemaError
      else andThen (ceil_ratio (q_value * slack_num) slack_den) (\<lambda>raw.
        if U64_MAX < raw then Inr (U64_MAX, True) else Inr (raw, False)))"

record threshold_provenance =
  tp_kind :: string
  tp_regime :: string
  tp_slack :: string
  tp_profile_id :: "string option"
  tp_n :: "int option"
  tp_p :: "string option"

definition check_threshold_provenance :: "threshold_provenance \<Rightarrow> threshold_provenance outcome" where
  "check_threshold_provenance t =
     andThen (guard (tp_kind t = ''profile'' \<or> tp_kind t = ''declared'') SchemaError) (\<lambda>_.
     andThen (guard (\<not> (tp_kind t = ''profile'' \<and>
       (tp_profile_id t = None \<or> tp_n t = None \<or> tp_p t = None))) SchemaError) (\<lambda>_.
     andThen (guard (\<not> (tp_kind t = ''declared'' \<and> tp_profile_id t \<noteq> None)) SchemaError) (\<lambda>_.
       Inr t)))"

definition optional_member :: "string \<Rightarrow> json option \<Rightarrow> (string \<times> json) list" where
  "optional_member key value = (case value of None \<Rightarrow> [] | Some v \<Rightarrow> [(key, v)])"

definition provenance_scf :: "threshold_provenance \<Rightarrow> json" where
  "provenance_scf t = JObj ([(''kind'', JStr (tp_kind t)), (''regime'', JStr (tp_regime t)),
     (''slack'', JStr (tp_slack t))] @
     optional_member ''profile_id'' (map_option JStr (tp_profile_id t)) @
     optional_member ''n'' (map_option JInt (tp_n t)) @
     optional_member ''p'' (map_option JStr (tp_p t)))"

section \<open>Chain state\<close>

datatype chain_status = CH_ABSENT | CH_UNVERIFIED | CH_VERIFIED

record chain_state =
  ch_status :: chain_status
  ch_first_bad :: "string option"
  ch_missing_seq :: "(int \<times> int) option"
  ch_witness :: "string list"

definition plain_chain :: "chain_status \<Rightarrow> chain_state" where
  "plain_chain s = \<lparr>ch_status = s, ch_first_bad = None, ch_missing_seq = None, ch_witness = []\<rparr>"

type_synonym chain_verifier = "canonical_event option \<Rightarrow> canonical_event \<Rightarrow> bool"

definition CHAIN_LINK_CONTINUITY_ONLY :: chain_verifier where
  "CHAIN_LINK_CONTINUITY_ONLY previous current =
     (if ce_chain_hash current = None \<or> ce_chain_prev current = None then False
      else case previous of
        None \<Rightarrow> True
      | Some p \<Rightarrow> (if ce_chain_hash p = None then False
                   else ce_chain_prev current = ce_chain_hash p))"

definition chain_always_unverified :: chain_verifier where
  "chain_always_unverified previous current = False"

fun first_unlinked :: "chain_verifier \<Rightarrow> canonical_event option \<Rightarrow> canonical_event list
    \<Rightarrow> canonical_event option" where
  "first_unlinked verifier previous [] = None"
| "first_unlinked verifier previous (event # span) =
     (if \<not> verifier previous event then Some event
      else first_unlinked verifier (Some event) span)"

definition seq_gap :: "canonical_event list \<Rightarrow> (canonical_event \<times> canonical_event) option" where
  "seq_gap span = find (\<lambda>(l, r). ce_seq l + 1 < ce_seq r) (zip span (tl span))"

definition chain_state_of ::
    "canonical_event list \<Rightarrow> integrity_class \<Rightarrow> chain_verifier \<Rightarrow> chain_state outcome" where
  "chain_state_of span integrity_class verifier =
     (if integrity_class = NONE then Inr (plain_chain CH_ABSENT)
      else case first_unlinked verifier None span of
        Some event \<Rightarrow> Inr ((plain_chain CH_UNVERIFIED)\<lparr>ch_first_bad := Some (ce_event_id event)\<rparr>)
      | None \<Rightarrow>
          (case seq_gap span of
             Some (l, r) \<Rightarrow>
               andThen (sorted_unique [ce_event_id l, ce_event_id r]) (\<lambda>witness.
                 Inr \<lparr>ch_status = CH_VERIFIED, ch_first_bad = None,
                   ch_missing_seq = Some (ce_seq l, ce_seq r), ch_witness = witness\<rparr>)
           | None \<Rightarrow> Inr (plain_chain CH_VERIFIED)))"

section \<open>The grid and the observation of a window\<close>

definition breakpoints :: "int list \<Rightarrow> int list \<Rightarrow> int list \<Rightarrow> nanos \<Rightarrow> nanos \<Rightarrow> int list outcome" where
  "breakpoints event_times phase_boundaries query_endpoints t0 t1 =
     andThen (check_nanos t0) (\<lambda>_.
     andThen (check_nanos t1) (\<lambda>_.
     andThen (guard (\<not> t1 < t0) SchemaError) (\<lambda>_.
     andThen (mapM check_nanos (event_times @ phase_boundaries @ query_endpoints)) (\<lambda>values.
       Inr (sorted_dedup ([t0, t1] @ filter (\<lambda>v. t0 \<le> v \<and> v \<le> t1) values))))))"

record window_observation =
  wo_regime :: "string option"
  wo_left_bracket :: "nanos option"
  wo_right_bracket :: "nanos option"
  wo_n_records_in_span :: int
  wo_max_observed_gap_ns :: int
  wo_chain :: chain_state

definition bisect_left :: "int list \<Rightarrow> int \<Rightarrow> nat" where
  "bisect_left xs v = length (takeWhile (\<lambda>x. x < v) xs)"

definition max_gap :: "canonical_event list \<Rightarrow> int" where
  "max_gap span = foldl (\<lambda>m (p, c). let delta = ce_t_evt_ns c - ce_t_evt_ns p
     in if m < delta then delta else m) 0 (zip span (tl span))"

text \<open>\<open>left_index\<close> is -1 where no record lies at or before the window's start: here the number
  of such records is 0.\<close>

definition observe_window ::
    "canonical_event list \<Rightarrow> int list \<Rightarrow> nanos \<Rightarrow> nanos \<Rightarrow> phase list \<Rightarrow> integrity_class
     \<Rightarrow> chain_verifier \<Rightarrow> window_observation outcome" where
  "observe_window events stamps a b phases integrity_class verifier =
     (let regime = phase_of phases a;
          before = bisect_right stamps a;
          right_index = bisect_left stamps b
      in if before = 0 \<or> length stamps \<le> right_index then
           Inr \<lparr>wo_regime = regime,
             wo_left_bracket = (if before = 0 then None else Some (stamps ! (before - 1))),
             wo_right_bracket = (if length stamps \<le> right_index then None else Some (stamps ! right_index)),
             wo_n_records_in_span = 0, wo_max_observed_gap_ns = 0,
             wo_chain = plain_chain (if integrity_class = NONE then CH_ABSENT else CH_VERIFIED)\<rparr>
         else
           let span = take (right_index + 1 - (before - 1)) (drop (before - 1) events)
           in andThen (chain_state_of span integrity_class verifier) (\<lambda>chain.
                Inr \<lparr>wo_regime = regime, wo_left_bracket = Some (stamps ! (before - 1)),
                  wo_right_bracket = Some (stamps ! right_index),
                  wo_n_records_in_span = int (length span), wo_max_observed_gap_ns = max_gap span,
                  wo_chain = chain\<rparr>))"

section \<open>The rules R1 to R11\<close>

record window_outcome =
  oc_verdict :: liveness_verdict
  oc_reason :: reason
  oc_missing_seq :: "(int \<times> int) option"
  oc_witness :: "string list"

definition plain_outcome :: "liveness_verdict \<Rightarrow> reason \<Rightarrow> window_outcome" where
  "plain_outcome v r = \<lparr>oc_verdict = v, oc_reason = r, oc_missing_seq = None, oc_witness = []\<rparr>"

definition suppressed_outcome :: "chain_state \<Rightarrow> reason \<Rightarrow> window_outcome" where
  "suppressed_outcome c r = \<lparr>oc_verdict = SUPPRESSED, oc_reason = r,
     oc_missing_seq = ch_missing_seq c, oc_witness = ch_witness c\<rparr>"

definition classify ::
    "window_observation \<Rightarrow> liveness_mode \<Rightarrow> int option \<Rightarrow> bool \<Rightarrow> integrity_class \<Rightarrow> int
     \<Rightarrow> window_outcome" where
  "classify observation mode threshold saturated integrity_class m_min =
     (if mode = F2_NO_PROFILE then plain_outcome BLIND B_FORCED_NO_PROFILE_MODE
      else if wo_regime observation = None then plain_outcome BLIND B_REGIME_UNKNOWN
      else case threshold of
        None \<Rightarrow> plain_outcome BLIND B_PROFILE_INSUFFICIENT
      | Some threshold_ns \<Rightarrow>
          if saturated then plain_outcome BLIND B_THRESHOLD_OVERFLOW
          else if ch_status (wo_chain observation) = CH_UNVERIFIED
          then plain_outcome BLIND B_CHAIN_UNVERIFIED
          else if ch_missing_seq (wo_chain observation) \<noteq> None \<and> integrity_class = CHAINED
          then suppressed_outcome (wo_chain observation) S_CHAIN_SEQ_GAP
          else if ch_missing_seq (wo_chain observation) \<noteq> None \<and> integrity_class = SEQUENCED
          then suppressed_outcome (wo_chain observation) S_SEQ_GAP_UNAUTHENTICATED
          else if wo_left_bracket observation = None \<or> wo_right_bracket observation = None
          then plain_outcome BLIND B_UNBRACKETED
          else if wo_n_records_in_span observation < m_min
          then plain_outcome BLIND B_WINDOW_UNDERSAMPLED
          else if threshold_ns < wo_max_observed_gap_ns observation
          then plain_outcome BLIND B_GAP_EXCEEDS_THRESHOLD
          else plain_outcome LIVE L_CALIBRATED_OK)"

section \<open>Thresholds and sample sizes\<close>

lemma ceil_ratio_Inr:
  assumes "0 < d"
  obtains r where "ceil_ratio n d = Inr r" "\<And>g. r < g \<longleftrightarrow> n \<le> (g - 1) * d" "\<And>m. r \<le> m \<longleftrightarrow> n \<le> m * d"
proof -
  define r where "r = (n + d - 1) div d"
  have "d * r + (n + d - 1) mod d = n + d - 1" by (simp add: r_def mult_div_mod_eq)
  then have r: "n \<le> r * d" "(r - 1) * d < n"
    using pos_mod_bound [OF assms, of "n + d - 1"] pos_mod_sign [OF assms, of "n + d - 1"]
    by (simp_all add: mult.commute [of d] left_diff_distrib)
  have least: "r \<le> m \<longleftrightarrow> n \<le> m * d" for m
  proof
    assume "r \<le> m"
    then have "r * d \<le> m * d" using assms by simp
    with r(1) show "n \<le> m * d" by linarith
  next
    assume "n \<le> m * d"
    with r(2) have "(r - 1) * d < m * d" by linarith
    then show "r \<le> m" using assms by simp
  qed
  have "r < g \<longleftrightarrow> n \<le> (g - 1) * d" for g using least [of "g - 1"] by (simp add: zle_diff1_eq)
  with least show thesis using assms by (intro that [of r]) (simp_all add: ceil_ratio_def r_def)
qed

lemma u32_eq_Inr: "u32 v = Inr p \<Longrightarrow> 0 \<le> v \<and> v < 2 ^ 32"
  by (auto simp: u32_def uint_def split: if_splits)

lemma check_config_member_bounds: "check_config_member v = Inr u \<Longrightarrow> 0 \<le> v \<and> v < 2 ^ 32"
  by (auto simp: check_config_member_def result_simps dest: u32_eq_Inr split: if_splits)

lemma checked_config:
  assumes "check_liveness_config c = Inr c'"
  shows "c' = c" "0 \<le> lc_quantile_num c" "lc_quantile_num c < lc_quantile_den c"
    "0 < lc_slack_den c" "0 \<le> lc_slack_num c" "0 \<le> lc_k_tail c" "0 \<le> lc_n_floor c" "1 \<le> lc_m_min c"
  using assms by (auto simp: check_liveness_config_def result_simps dest!: check_config_member_bounds)

lemma checked_config_n_min:
  assumes "check_liveness_config c = Inr c'"
  obtains n where "n_min c = Inr n"
    "\<And>m. n \<le> m \<longleftrightarrow> lc_n_floor c \<le> m \<and> lc_k_tail c * lc_quantile_den c \<le> m * (lc_quantile_den c - lc_quantile_num c)"
proof -
  note c = checked_config [OF assms]
  have "0 < lc_quantile_den c - lc_quantile_num c" using c(3) by simp
  from ceil_ratio_Inr [OF this, of "lc_k_tail c * lc_quantile_den c"] obtain r where
    r: "ceil_ratio (lc_k_tail c * lc_quantile_den c) (lc_quantile_den c - lc_quantile_num c) = Inr r"
    "\<And>m. r \<le> m \<longleftrightarrow> lc_k_tail c * lc_quantile_den c \<le> m * (lc_quantile_den c - lc_quantile_num c)"
    by metis
  show thesis
    by (rule that [of "if r < lc_n_floor c then lc_n_floor c else r"])
       (auto simp: n_min_def r(1) r(2) [symmetric])
qed

text \<open>C35. The threshold is the least integer at or above the slack times the order statistic: on
  admissible arguments \<open>threshold_from_order_statistic\<close> returns it, or 2^64 - 1 and the mark
  of saturation exactly when it does not fit 64 bits, so that a gap is longer than an unsaturated
  threshold exactly if the integer below it still reaches the scaled statistic; on a
  negative statistic or an inadmissible slack it raises a SchemaError.\<close>

theorem threshold_least:
  "threshold_from_order_statistic q_value slack_num slack_den = Inr (t, saturated) \<longleftrightarrow>
     0 \<le> q_value \<and> 0 \<le> slack_num \<and> 0 < slack_den \<and>
     (saturated \<longleftrightarrow> U64_MAX * slack_den < q_value * slack_num) \<and>
     0 \<le> t \<and> t \<le> U64_MAX \<and>
     (if saturated then t = U64_MAX
      else (\<forall>gap. t < gap \<longleftrightarrow> q_value * slack_num \<le> (gap - 1) * slack_den))"
proof (cases "0 \<le> q_value \<and> 0 \<le> slack_num \<and> 0 < slack_den")
  case False
  then show ?thesis by (auto simp: threshold_from_order_statistic_def)
next
  case True
  then have ok: "0 \<le> q_value" "0 \<le> slack_num" "0 < slack_den" by simp_all
  from ceil_ratio_Inr [OF ok(3), of "q_value * slack_num"] obtain r where
    r: "ceil_ratio (q_value * slack_num) slack_den = Inr r"
    "\<And>g. r < g \<longleftrightarrow> q_value * slack_num \<le> (g - 1) * slack_den"
    "\<And>m. r \<le> m \<longleftrightarrow> q_value * slack_num \<le> m * slack_den" by metis
  have sat: "U64_MAX < r \<longleftrightarrow> U64_MAX * slack_den < q_value * slack_num"
    using r(3) [of U64_MAX] by linarith
  have "0 \<le> q_value * slack_num" using ok by simp
  then have "\<not> r \<le> -1" using r(3) [of "-1"] ok(3) by simp
  then have pos: "0 \<le> r" by simp
  have only: "t = r" if "\<forall>gap. t < gap \<longleftrightarrow> r < gap"
    using that [rule_format, of r] that [rule_format, of t] by linarith
  have "0 \<le> U64_MAX" by (simp add: U64_MAX_def)
  with only pos sat ok r(1) show ?thesis
    unfolding r(2) [symmetric] by (auto simp: threshold_from_order_statistic_def)
qed

text \<open>The least sample size is exact and does what it is for. For every admissible configuration
  \<open>n_min\<close> returns the least size that respects the floor and keeps \<open>k_tail\<close> observations in the tail
  beyond the quantile; and in every ascending sample of at least that size and for a positive
  quantile, more than \<open>k_tail\<close> gaps reach the order statistic that \<open>q_exact\<close> returns.\<close>

theorem n_min_keeps_tail:
  assumes "check_liveness_config c = Inr c" and "0 < lc_quantile_num c"
  shows "\<exists>n. n_min c = Inr n \<and>
    (\<forall>m. n \<le> m \<longleftrightarrow> lc_n_floor c \<le> m \<and>
       lc_k_tail c * lc_quantile_den c \<le> m * (lc_quantile_den c - lc_quantile_num c)) \<and>
    (\<forall>gaps. gaps \<noteq> [] \<and> sorted gaps \<and> n \<le> int (length gaps) \<longrightarrow>
       (\<exists>v. q_exact gaps (lc_quantile_num c) (lc_quantile_den c) = Inr v \<and>
          lc_k_tail c < int (length (filter (\<lambda>g. v \<le> g) gaps))))"
proof -
  note c = checked_config [OF assms(1)]
  obtain n where n: "n_min c = Inr n" "\<And>m. n \<le> m \<longleftrightarrow> lc_n_floor c \<le> m \<and>
      lc_k_tail c * lc_quantile_den c \<le> m * (lc_quantile_den c - lc_quantile_num c)"
    using checked_config_n_min [OF assms(1)] by metis
  have tail: "\<exists>v. q_exact gaps (lc_quantile_num c) (lc_quantile_den c) = Inr v \<and>
      lc_k_tail c < int (length (filter (\<lambda>g. v \<le> g) gaps))"
    if gaps: "gaps \<noteq> []" "sorted gaps" "n \<le> int (length gaps)" for gaps
  proof -
    let ?p = "lc_quantile_num c" and ?q = "lc_quantile_den c"
    have pq: "0 \<le> ?p" "?p \<le> ?q" "0 < ?q" using c(2,3) by simp_all
    obtain k where k: "q_exact gaps ?p ?q = Inr (gaps ! k)" "k < length gaps"
      "int (length gaps) * ?p \<le> ?q * (int k + 1)" "0 < k \<Longrightarrow> ?q * int k < int (length gaps) * ?p"
      using q_exact_rank_index [OF gaps(1) pq] by blast
    have "?q * int k < int (length gaps) * ?p"
      using k(2,4) assms(2) by (cases "k = 0") simp_all
    moreover have "lc_k_tail c * ?q \<le> int (length gaps) * (?q - ?p)"
      using n(2) gaps(3) by blast
    ultimately have "?q * (lc_k_tail c + int k) < ?q * int (length gaps)"
      by (simp add: algebra_simps)
    then have "lc_k_tail c + int k < int (length gaps)" using pq(3) by simp
    moreover have "length gaps - k \<le> length (filter (\<lambda>g. gaps ! k \<le> g) gaps)"
    proof -
      have "filter (\<lambda>g. gaps ! k \<le> g) (drop k gaps) = drop k gaps"
        using gaps(2) by (auto simp: filter_id_conv in_set_conv_nth sorted_nth_mono)
      moreover have "length (filter (\<lambda>g. gaps ! k \<le> g) (take k gaps @ drop k gaps)) \<ge>
          length (filter (\<lambda>g. gaps ! k \<le> g) (drop k gaps))" by (simp only: filter_append length_append le_add2)
      ultimately show ?thesis by simp
    qed
    ultimately show ?thesis using k(1,2) by auto
  qed
  with n show ?thesis by blast
qed

definition sample_config :: liveness_config where
  "sample_config = \<lparr>lc_quantile_num = 3, lc_quantile_den = 4, lc_slack_num = 3, lc_slack_den = 2,
     lc_k_tail = 1, lc_n_floor = 2, lc_m_min = 2, lc_mcs_exact_cap = 4,
     lc_schema = LIVENESS_CONFIG_SCHEMA\<rparr>"

lemma sample_config_ok: "check_liveness_config sample_config = Inr sample_config"
  by code_simp

lemma n_min_keeps_tail_witness:
  "n_min sample_config = Inr 4 \<and>
   q_exact [1, 2, 3, 9] 3 4 = Inr 3 \<and> (1::int) < int (length (filter (\<lambda>g. 3 \<le> g) [1, 2, 3, 9 :: int]))"
proof -
  have n: "n_min sample_config = Inr 4" by code_simp
  have q: "q_exact [1, 2, 3, 9] 3 4 = Inr 3" by code_simp
  from n_min_keeps_tail [OF sample_config_ok] n
  have "\<forall>gaps. gaps \<noteq> [] \<and> sorted gaps \<and> 4 \<le> int (length gaps) \<longrightarrow>
      (\<exists>v. q_exact gaps 3 4 = Inr v \<and> 1 < int (length (filter (\<lambda>g. v \<le> g) gaps)))"
    by (simp add: sample_config_def)
  from this [rule_format, of "[1, 2, 3, 9]"] n q show ?thesis by simp
qed

section \<open>The span between the brackets\<close>

lemma bisect_left_props:
  assumes "sorted xs"
  shows "p < bisect_left xs v \<Longrightarrow> xs ! p < v"
    and "p < length xs \<Longrightarrow> xs ! p < v \<Longrightarrow> p < bisect_left xs v"
    and "bisect_left xs v \<le> length xs"
proof -
  show le: "bisect_left xs v \<le> length xs" unfolding bisect_left_def by (rule length_takeWhile_le)
  show "p < bisect_left xs v \<Longrightarrow> xs ! p < v"
    unfolding bisect_left_def by (metis nth_mem set_takeWhileD takeWhile_nth)
  show "p < bisect_left xs v" if "p < length xs" "xs ! p < v"
  proof (rule ccontr)
    assume "\<not> p < bisect_left xs v"
    then have at: "bisect_left xs v \<le> p" by simp
    then have "\<not> xs ! bisect_left xs v < v"
      using that nth_length_takeWhile [of "\<lambda>x. x < v" xs] by (simp add: bisect_left_def)
    moreover have "xs ! bisect_left xs v \<le> xs ! p"
      using assms at that(1) by (simp add: sorted_nth_mono)
    ultimately show False using that(2) by simp
  qed
qed

definition brackets :: "int list \<Rightarrow> nanos \<Rightarrow> nanos \<Rightarrow> nat \<Rightarrow> nat \<Rightarrow> bool" where
  "brackets stamps a b l r = (l < r \<and> r < length stamps \<and> stamps ! l \<le> a \<and> b \<le> stamps ! r \<and>
     (\<forall>i. l < i \<and> i < r \<longrightarrow> a < stamps ! i \<and> stamps ! i < b))"

lemma brackets_indices:
  assumes "sorted stamps" "a < b"
  shows "brackets stamps a b l r \<longleftrightarrow>
    bisect_right stamps a = Suc l \<and> bisect_left stamps b = r \<and> r < length stamps"
proof
  note R = bisect_right_props [OF assms(1), where v = a]
  note L = bisect_left_props [OF assms(1), where v = b]
  have mono: "stamps ! i \<le> stamps ! j" if "i \<le> j" "j < length stamps" for i j
    using assms(1) that by (simp add: sorted_nth_mono)
  assume br: "brackets stamps a b l r"
  then have b: "l < r" "r < length stamps" "stamps ! l \<le> a" "b \<le> stamps ! r"
    and between: "\<And>i. l < i \<Longrightarrow> i < r \<Longrightarrow> a < stamps ! i \<and> stamps ! i < b"
    by (auto simp: brackets_def)
  have "l < bisect_right stamps a" using R(3) b by simp
  moreover have "\<not> Suc l < bisect_right stamps a"
  proof
    assume "Suc l < bisect_right stamps a"
    then have "stamps ! Suc l \<le> a" by (rule R(2))
    with between [of "Suc l"] b assms(2) show False by (cases "Suc l = r") force+
  qed
  moreover have "\<not> r < bisect_left stamps b" using L(1) [of r] b by force
  moreover have "\<not> bisect_left stamps b < r"
  proof
    assume less: "bisect_left stamps b < r"
    then have "b \<le> stamps ! bisect_left stamps b" using L(2) [of "bisect_left stamps b"] b by force
    with between [of "bisect_left stamps b"] less b assms(2) mono [of "bisect_left stamps b" l]
    show False by (cases "l < bisect_left stamps b") force+
  qed
  ultimately show "bisect_right stamps a = Suc l \<and> bisect_left stamps b = r \<and> r < length stamps"
    using b by simp
next
  note R = bisect_right_props [OF assms(1), where v = a]
  note L = bisect_left_props [OF assms(1), where v = b]
  assume eqs: "bisect_right stamps a = Suc l \<and> bisect_left stamps b = r \<and> r < length stamps"
  have "stamps ! l \<le> a" using R(2) [of l] eqs by simp
  moreover have bd: "b \<le> stamps ! r" using L(2) [of r] eqs by force
  moreover have "l < r"
  proof (rule ccontr)
    assume "\<not> l < r"
    then have "stamps ! r \<le> a" using R(2) [of r] eqs by simp
    with bd assms(2) show False by simp
  qed
  moreover have "a < stamps ! i" "stamps ! i < b" if "l < i" "i < r" for i
    using R(3) [of i] L(1) [of i] eqs that by force+
  ultimately show "brackets stamps a b l r" using eqs by (simp add: brackets_def)
qed

lemma neighbour_pairs:
  "(\<forall>(p, c) \<in> set (zip xs (tl xs)). P p c) \<longleftrightarrow> (\<forall>i. Suc i < length xs \<longrightarrow> P (xs ! i) (xs ! Suc i))"
proof (induction xs rule: induct_list012)
  case (3 x y zs)
  have "(\<forall>i. Suc i < length (x # y # zs) \<longrightarrow> P ((x # y # zs) ! i) ((x # y # zs) ! Suc i)) \<longleftrightarrow>
      P x y \<and> (\<forall>i. Suc i < length (y # zs) \<longrightarrow> P ((y # zs) ! i) ((y # zs) ! Suc i))"
    using All_less_Suc2 [of "length (y # zs) - 1" "\<lambda>i. P ((x # y # zs) ! i) ((x # y # zs) ! Suc i)"]
    by simp
  with 3 show ?case by simp
qed simp_all

lemma max_gap_le:
  "max_gap span \<le> t \<longleftrightarrow> 0 \<le> t \<and>
     (\<forall>i. Suc i < length span \<longrightarrow> ce_t_evt_ns (span ! Suc i) - ce_t_evt_ns (span ! i) \<le> t)"
proof -
  have step: "(if m < d then d else m) \<le> t \<longleftrightarrow> m \<le> t \<and> d \<le> t" for m d :: int by auto
  have fold: "foldl (\<lambda>m (p, c). if m < ce_t_evt_ns c - ce_t_evt_ns p then ce_t_evt_ns c - ce_t_evt_ns p else m) m ps \<le> t
      \<longleftrightarrow> m \<le> t \<and> (\<forall>(p, c) \<in> set ps. ce_t_evt_ns c - ce_t_evt_ns p \<le> t)" for m ps
  proof (induction ps arbitrary: m)
    case (Cons pc ps)
    show ?case by (cases pc) (simp only: foldl_Cons prod.case Cons.IH step, auto)
  qed simp
  show ?thesis unfolding max_gap_def Let_def fold neighbour_pairs [where P = "\<lambda>p c. ce_t_evt_ns c - ce_t_evt_ns p \<le> t"] ..
qed

lemma first_unlinked_None:
  "first_unlinked verifier previous span = None \<longleftrightarrow>
     (\<forall>i < length span. verifier (case i of 0 \<Rightarrow> previous | Suc j \<Rightarrow> Some (span ! j)) (span ! i))"
proof (induction span arbitrary: previous)
  case (Cons e span)
  have "Some ((e # span) ! i) = (case i of 0 \<Rightarrow> Some e | Suc j \<Rightarrow> Some (span ! j))" for i
    by (cases i) simp_all
  with Cons.IH [of "Some e"] show ?case by (simp add: All_less_Suc2 del: nth_Cons_0 nth_Cons_Suc) simp
qed simp

lemma seq_gap_None:
  "seq_gap span = None \<longleftrightarrow> (\<forall>i. Suc i < length span \<longrightarrow> ce_seq (span ! Suc i) \<le> ce_seq (span ! i) + 1)"
proof -
  have "seq_gap span = None \<longleftrightarrow> (\<forall>(l, r) \<in> set (zip span (tl span)). ce_seq r \<le> ce_seq l + 1)"
    by (auto simp: seq_gap_def find_None_iff not_less)
  with neighbour_pairs [of span "\<lambda>l r. ce_seq r \<le> ce_seq l + 1"] show ?thesis by simp
qed

definition well_observed ::
    "canonical_event list \<Rightarrow> nanos \<Rightarrow> nanos \<Rightarrow> int \<Rightarrow> integrity_class \<Rightarrow> chain_verifier \<Rightarrow> int \<Rightarrow> bool" where
  "well_observed events a b t integrity_class verifier m_min =
     (\<exists>l r. brackets (map ce_t_evt_ns events) a b l r \<and> m_min \<le> int (r - l) + 1 \<and>
        (\<forall>i. l \<le> i \<and> i < r \<longrightarrow> ce_t_evt_ns (events ! Suc i) - ce_t_evt_ns (events ! i) \<le> t) \<and>
        (integrity_class \<noteq> NONE \<longrightarrow> verifier None (events ! l) \<and>
          (\<forall>i. l \<le> i \<and> i < r \<longrightarrow> verifier (Some (events ! i)) (events ! Suc i) \<and>
             ce_seq (events ! Suc i) \<le> ce_seq (events ! i) + 1)))"

lemma span_pairs:
  assumes "r < length events" "l < r"
  shows "(\<forall>i. Suc i < length (take (Suc r - l) (drop l events)) \<longrightarrow>
      P (take (Suc r - l) (drop l events) ! i) (take (Suc r - l) (drop l events) ! Suc i)) \<longleftrightarrow>
    (\<forall>i. l \<le> i \<and> i < r \<longrightarrow> P (events ! i) (events ! Suc i))"
proof -
  have "(\<forall>i. Suc i < Suc r - l \<longrightarrow> P (events ! (l + i)) (events ! Suc (l + i))) \<longleftrightarrow>
      (\<forall>i. l \<le> i \<and> i < r \<longrightarrow> P (events ! i) (events ! Suc i))"
    by (auto simp: le_iff_add less_diff_conv add.commute)
  then show ?thesis using assms by simp
qed

lemma chain_clean:
  assumes "chain_state_of span integrity_class verifier = Inr c" "span \<noteq> []"
  shows "ch_status c \<noteq> CH_UNVERIFIED \<and> (ch_missing_seq c = None \<or> integrity_class = NONE) \<longleftrightarrow>
    (integrity_class \<noteq> NONE \<longrightarrow> verifier None (span ! 0) \<and>
       (\<forall>i. Suc i < length span \<longrightarrow> verifier (Some (span ! i)) (span ! Suc i)
          \<and> ce_seq (span ! Suc i) \<le> ce_seq (span ! i) + 1))"
proof (cases "integrity_class = NONE")
  case True
  with assms show ?thesis by (auto simp: chain_state_of_def plain_chain_def)
next
  case False
  obtain n where n: "length span = Suc n" using assms(2) by (cases span) auto
  have unlinked: "first_unlinked verifier None span = None \<longleftrightarrow> verifier None (span ! 0) \<and>
      (\<forall>i. Suc i < length span \<longrightarrow> verifier (Some (span ! i)) (span ! Suc i))"
    by (simp add: first_unlinked_None n All_less_Suc2)
  have "ch_status c \<noteq> CH_UNVERIFIED \<and> ch_missing_seq c = None \<longleftrightarrow>
      first_unlinked verifier None span = None \<and> seq_gap span = None"
    using assms(1) False
    by (auto simp: chain_state_of_def plain_chain_def result_simps split: option.splits)
  with False unlinked seq_gap_None [of span] show ?thesis by auto
qed

lemma classify_live:
  "oc_verdict (classify obs mode threshold saturated integrity_class m_min) = LIVE \<longleftrightarrow>
     mode \<noteq> F2_NO_PROFILE \<and> wo_regime obs \<noteq> None \<and> \<not> saturated \<and>
     ch_status (wo_chain obs) \<noteq> CH_UNVERIFIED \<and>
     (ch_missing_seq (wo_chain obs) = None \<or> integrity_class = NONE) \<and>
     wo_left_bracket obs \<noteq> None \<and> wo_right_bracket obs \<noteq> None \<and>
     m_min \<le> wo_n_records_in_span obs \<and>
     (\<exists>t. threshold = Some t \<and> wo_max_observed_gap_ns obs \<le> t)"
  by (cases integrity_class; cases threshold; cases "ch_missing_seq (wo_chain obs)")
     (auto simp: classify_def plain_outcome_def suppressed_outcome_def)

lemma observed_live:
  assumes "sorted (map ce_t_evt_ns events)" "a < b"
    and obs: "observe_window events (map ce_t_evt_ns events) a b phases integrity_class verifier = Inr obs"
  shows "oc_verdict (classify obs mode threshold saturated integrity_class m_min) = LIVE \<longleftrightarrow>
    mode \<noteq> F2_NO_PROFILE \<and> phase_of phases a \<noteq> None \<and> \<not> saturated \<and>
    (\<exists>t. threshold = Some t \<and> 0 \<le> t \<and> well_observed events a b t integrity_class verifier m_min)"
proof -
  let ?s = "map ce_t_evt_ns events"
  note indices = brackets_indices [OF assms(1,2)]
  show ?thesis
  proof (cases "bisect_right ?s a = 0 \<or> length ?s \<le> bisect_left ?s b")
    case True
    then have "\<not> well_observed events a b t integrity_class verifier m_min" for t
      unfolding well_observed_def indices by auto
    moreover have "wo_left_bracket obs = None \<or> wo_right_bracket obs = None"
      using obs True by (auto simp: observe_window_def Let_def)
    ultimately show ?thesis unfolding classify_live by auto
  next
    case False
    define l where "l = bisect_right ?s a - 1"
    define r where "r = bisect_left ?s b"
    have lr: "brackets ?s a b l r" unfolding indices using False by (simp add: l_def r_def)
    then have only: "brackets ?s a b l' r' \<longleftrightarrow> l' = l \<and> r' = r" for l' r'
      unfolding indices by auto
    have bounds: "l < r" "r < length events" using lr by (simp_all add: brackets_def)
    define span where "span = take (Suc r - l) (drop l events)"
    have span: "length span = Suc r - l" "span \<noteq> []" "span ! 0 = events ! l"
      using bounds by (auto simp: span_def)
    from obs False obtain c where c: "chain_state_of span integrity_class verifier = Inr c"
      and eq: "obs = \<lparr>wo_regime = phase_of phases a, wo_left_bracket = Some (?s ! l),
        wo_right_bracket = Some (?s ! r), wo_n_records_in_span = int (length span),
        wo_max_observed_gap_ns = max_gap span, wo_chain = c\<rparr>"
      by (auto simp: observe_window_def Let_def result_simps span_def l_def r_def)
    note pairs = span_pairs [OF bounds(2,1), folded span_def]
    have "well_observed events a b t integrity_class verifier m_min \<longleftrightarrow>
        m_min \<le> int (length span) \<and>
        (\<forall>i. Suc i < length span \<longrightarrow> ce_t_evt_ns (span ! Suc i) - ce_t_evt_ns (span ! i) \<le> t) \<and>
        ch_status c \<noteq> CH_UNVERIFIED \<and> (ch_missing_seq c = None \<or> integrity_class = NONE)" for t
      unfolding chain_clean [OF c span(2)] well_observed_def only
        pairs [where P = "\<lambda>p q. ce_t_evt_ns q - ce_t_evt_ns p \<le> t"]
        pairs [where P = "\<lambda>p q. verifier (Some p) q \<and> ce_seq q \<le> ce_seq p + 1"]
      using bounds span by (auto simp: Suc_diff_le of_nat_diff)
    then show ?thesis unfolding classify_live by (auto simp: eq max_gap_le)
  qed
qed

text \<open>Between two instants of a sequence every instant has neighbours.\<close>

lemma step_over:
  "l < r \<Longrightarrow> f l \<le> t \<Longrightarrow> t \<le> f r \<Longrightarrow> \<exists>i. l \<le> i \<and> i < r \<and> f i \<le> t \<and> t \<le> (f (Suc i) :: int)"
proof (induction r)
  case (Suc r)
  show ?case
  proof (cases "t \<le> f r \<and> l < r")
    case True
    with Suc show ?thesis by (meson less_Suc_eq)
  next
    case False
    with Suc.prems show ?thesis by (cases "l = r") (auto intro!: exI [of _ r])
  qed
qed simp

text \<open>C30. A window is LIVE exactly when the records show it. On events in time order the rules
  R1 to R11 give LIVE exactly if a profile is in force, the window starts in a phase, the
  threshold exists and is not saturated, and the records from the last one at or before the
  window to the first one at or after it are numerous enough, nowhere further apart than
  the threshold, and, unless the source has no integrity class, link by link accepted
  by the verifier and without a gap in their sequence numbers; and then every instant of the
  window, its ends included, lies between two consecutive records that close.\<close>

theorem live_window_exact:
  assumes "sorted (map ce_t_evt_ns events)" and "a < b"
    and "observe_window events (map ce_t_evt_ns events) a b phases integrity_class verifier = Inr obs"
  shows "(oc_verdict (classify obs mode threshold saturated integrity_class m_min) = LIVE \<longleftrightarrow>
      mode \<noteq> F2_NO_PROFILE \<and> phase_of phases a \<noteq> None \<and> \<not> saturated \<and>
      (\<exists>t. threshold = Some t \<and> 0 \<le> t \<and> well_observed events a b t integrity_class verifier m_min)) \<and>
    (oc_verdict (classify obs mode threshold saturated integrity_class m_min) = LIVE \<longrightarrow>
      (\<forall>u \<in> {a..b}. \<exists>i. Suc i < length events \<and>
         ce_t_evt_ns (events ! i) \<le> u \<and> u \<le> ce_t_evt_ns (events ! Suc i) \<and>
         ce_t_evt_ns (events ! Suc i) - ce_t_evt_ns (events ! i) \<le> the threshold))"
proof -
  have "\<exists>i. Suc i < length events \<and>
         ce_t_evt_ns (events ! i) \<le> u \<and> u \<le> ce_t_evt_ns (events ! Suc i) \<and>
         ce_t_evt_ns (events ! Suc i) - ce_t_evt_ns (events ! i) \<le> t"
    if wo: "well_observed events a b t integrity_class verifier m_min" and u: "a \<le> u" "u \<le> b" for t u
  proof -
    from wo obtain l r where lr: "brackets (map ce_t_evt_ns events) a b l r"
      "\<And>i. l \<le> i \<Longrightarrow> i < r \<Longrightarrow> ce_t_evt_ns (events ! Suc i) - ce_t_evt_ns (events ! i) \<le> t"
      unfolding well_observed_def by blast
    then have "l < r" "r < length events" "ce_t_evt_ns (events ! l) \<le> u" "u \<le> ce_t_evt_ns (events ! r)"
      using u by (auto simp: brackets_def)
    then obtain i where "l \<le> i" "i < r" "ce_t_evt_ns (events ! i) \<le> u" "u \<le> ce_t_evt_ns (events ! Suc i)"
      using step_over [of l r "\<lambda>i. ce_t_evt_ns (events ! i)" u] by blast
    with lr(2) \<open>r < length events\<close> show ?thesis by (intro exI [of _ i]) auto
  qed
  with observed_live [OF assms] show ?thesis by (metis atLeastAtMost_iff option.sel)
qed

definition sample_run :: "canonical_event list" where
  "sample_run = map (\<lambda>t. sample_record ''r'' t) [0, 4, 10, 30]"

definition sample_regimes :: "phase list" where
  "sample_regimes = [\<lparr>ph_regime_id = ''day'', ph_t0_ns = 0, ph_t1_ns = 50\<rparr>]"

lemma live_window_exact_witness:
  "(case observe_window sample_run (map ce_t_evt_ns sample_run) 5 9 sample_regimes NONE CHAIN_LINK_CONTINUITY_ONLY of
      Inr obs \<Rightarrow> oc_verdict (classify obs F0_CALIBRATED (Some 6) False NONE 2) = LIVE | _ \<Rightarrow> False) \<and>
   (\<exists>i. ce_t_evt_ns (sample_run ! i) \<le> 7 \<and> 7 \<le> ce_t_evt_ns (sample_run ! Suc i) \<and>
      ce_t_evt_ns (sample_run ! Suc i) - ce_t_evt_ns (sample_run ! i) \<le> 6)"
proof -
  let ?o = "observe_window sample_run (map ce_t_evt_ns sample_run) 5 9 sample_regimes NONE CHAIN_LINK_CONTINUITY_ONLY"
  have live: "case ?o of Inr obs \<Rightarrow> oc_verdict (classify obs F0_CALIBRATED (Some 6) False NONE 2) = LIVE
    | _ \<Rightarrow> False" by code_simp
  then obtain obs where obs: "?o = Inr obs"
    "oc_verdict (classify obs F0_CALIBRATED (Some 6) False NONE 2) = LIVE"
    by (cases ?o) simp_all
  have sorted: "sorted (map ce_t_evt_ns sample_run)" by code_simp
  from conjunct2 [OF live_window_exact [OF sorted _ obs(1)], rule_format, OF _ obs(2), of 7]
  have "\<exists>i. Suc i < length sample_run \<and> ce_t_evt_ns (sample_run ! i) \<le> 7 \<and>
      7 \<le> ce_t_evt_ns (sample_run ! Suc i) \<and>
      ce_t_evt_ns (sample_run ! Suc i) - ce_t_evt_ns (sample_run ! i) \<le> 6" by simp
  with live show ?thesis by blast
qed

end
