(* ===== verification/LivenessDoc.thy ===== *)
theory LivenessDoc
  imports Liveness
begin

text \<open>
  \<^verbatim>\<open>spectra_vs/liveness.py\<close>, second part: the document \<open>build_liveness_document\<close> assembles, the
  temporal dispute, the licences the document implies, the reading of an absence and the
  accounting of calibration deficiency; and the adapter \<open>_liveness_view\<close> of
  \<^verbatim>\<open>spectra_vs/pipeline.py\<close> to the view of the envelope stage. \<open>classify\<close> is total in the model,
  so the exception handler around it has nothing to catch. Files are not written here.
\<close>

section \<open>Intervals and sources\<close>

record liveness_interval =
  li_t0_ns :: nanos
  li_t1_ns :: nanos
  li_verdict :: liveness_verdict
  li_reason :: reason
  li_missing_seq :: "(int \<times> int) option"
  li_witness :: "string list"

definition check_liveness_interval :: "liveness_interval \<Rightarrow> liveness_interval outcome" where
  "check_liveness_interval i =
     andThen (Interval (li_t0_ns i) (li_t1_ns i)) (\<lambda>_.
       if li_verdict i = SUPPRESSED then
         (if li_missing_seq i = None \<or> li_witness i = [] then raises SchemaError else Inr i)
       else if li_missing_seq i \<noteq> None \<or> li_witness i \<noteq> [] then raises SchemaError
       else Inr i)"

definition li_interval :: "liveness_interval \<Rightarrow> interval" where
  "li_interval i = \<lparr>iv_t0 = li_t0_ns i, iv_t1 = li_t1_ns i\<rparr>"

definition li_duration :: "liveness_interval \<Rightarrow> int" where
  "li_duration i = li_t1_ns i - li_t0_ns i"

definition interval_scf :: "liveness_interval \<Rightarrow> json" where
  "interval_scf i = JObj ([(''reason'', JStr (reason_text (li_reason i))),
     (''t0_ns'', JStr (int_text (li_t0_ns i))), (''t1_ns'', JStr (int_text (li_t1_ns i))),
     (''verdict'', JStr (verdict_text (li_verdict i)))] @
     optional_member ''missing_seq''
       (map_option (\<lambda>(a, b). JArr [JInt a, JInt b]) (li_missing_seq i)) @
     (if li_witness i \<noteq> [] then [(''witness'', JArr (map JStr (li_witness i)))] else []))"

record source_liveness =
  sl_source_id :: string
  sl_integrity_class :: integrity_class
  sl_mode :: liveness_mode
  sl_intervals :: "liveness_interval list"
  sl_blind_volume :: "(reason \<times> int) list"
  sl_suppressed_volume_ns :: int
  sl_threshold_ns :: "int option"
  sl_threshold_provenance :: "threshold_provenance option"
  sl_regime_thresholds :: "(string \<times> int) list"
  sl_tamper_suspected :: bool

definition check_source_liveness :: "source_liveness \<Rightarrow> source_liveness outcome" where
  "check_source_liveness s =
     andThen (check_strictly_ascending (sl_intervals s) (\<lambda>i. (li_t0_ns i, li_t1_ns i))) (\<lambda>_.
     andThen (check_all (\<lambda>(l, r). guard (li_t1_ns l = li_t0_ns r) SchemaError)
               (zip (sl_intervals s) (tl (sl_intervals s)))) (\<lambda>_.
     andThen (check_strictly_ascending (sl_blind_volume s) (\<lambda>kv. reason_text (fst kv))) (\<lambda>_.
     andThen (guard ((sl_threshold_ns s = None) = (sl_threshold_provenance s = None)) SchemaError) (\<lambda>_.
     andThen (guard (\<not> ((sl_mode s = F1_INSUFFICIENT \<or> sl_mode s = F2_NO_PROFILE)
                         \<and> sl_threshold_ns s \<noteq> None)) SchemaError) (\<lambda>_.
       Inr s)))))"

definition source_liveness_scf :: "source_liveness \<Rightarrow> json" where
  "source_liveness_scf s = JObj ([
     (''blind_volume_ns_by_reason'',
       JObj (map (\<lambda>(r, v). (reason_text r, JStr (int_text v))) (sl_blind_volume s))),
     (''integrity_class'', JStr (integrity_text (sl_integrity_class s))),
     (''intervals'', JArr (map interval_scf (sl_intervals s))),
     (''mode'', JStr (mode_text (sl_mode s))),
     (''source_id'', JStr (snake_of SourceId (sl_source_id s))),
     (''suppressed_volume_ns'', JStr (int_text (sl_suppressed_volume_ns s))),
     (''tamper_suspected'', JBool (sl_tamper_suspected s))] @
     (case (sl_threshold_ns s, sl_threshold_provenance s) of
        (Some t, Some p) \<Rightarrow> [(''threshold_ns'', JStr (int_text t)),
          (''threshold_provenance'', provenance_scf p)]
      | _ \<Rightarrow> []))"

record liveness_flags =
  lf_liveness_uncalibrated :: bool
  lf_liveness_unauthenticated :: bool
  lf_blind_by_default :: bool
  lf_profile_regime_collapsed :: bool
  lf_verdict_tamper_sensitive :: bool
  lf_mcs_greedy :: bool

definition flags_scf :: "liveness_flags \<Rightarrow> json" where
  "flags_scf f = JObj [
     (''blind_by_default'', JBool (lf_blind_by_default f)),
     (''liveness_unauthenticated'', JBool (lf_liveness_unauthenticated f)),
     (''liveness_uncalibrated'', JBool (lf_liveness_uncalibrated f)),
     (''mcs_greedy'', JBool (lf_mcs_greedy f)),
     (''profile_regime_collapsed'', JBool (lf_profile_regime_collapsed f)),
     (''verdict_tamper_sensitive'', JBool (lf_verdict_tamper_sensitive f))]"

record disputed_event =
  de_event_id :: string
  de_source_id :: string
  de_t_evt_ns :: int

text \<open>The bare spelling of a source, as the artifact carries it.\<close>

definition bare_source :: "string \<Rightarrow> string" where
  "bare_source s = (if startswith s ''src:'' then drop 4 s else s)"

definition check_disputed_event :: "disputed_event \<Rightarrow> disputed_event outcome" where
  "check_disputed_event d =
     andThen (guard (startswith (de_event_id d) ''ev:'') SchemaError) (\<lambda>_.
     andThen (u64 (de_t_evt_ns d)) (\<lambda>_.
       Inr (d\<lparr>de_source_id := bare_source (de_source_id d)\<rparr>)))"

definition disputed_scf :: "disputed_event \<Rightarrow> json" where
  "disputed_scf d = JObj [(''event_id'', JStr (de_event_id d)), (''source_id'', JStr (de_source_id d)),
     (''t_evt_ns'', JStr (int_text (de_t_evt_ns d)))]"

section \<open>The document\<close>

record liveness_document =
  ld_mode_global :: liveness_mode
  ld_quantile :: string
  ld_slack :: string
  ld_n_min :: int
  ld_m_min :: int
  ld_sources :: "source_liveness list"
  ld_flags :: liveness_flags
  ld_profile_id :: "string option"
  ld_disputed_events :: "disputed_event list"
  ld_schema :: string

definition check_liveness_document :: "liveness_document \<Rightarrow> liveness_document outcome" where
  "check_liveness_document d =
     andThen (guard (ld_schema d = LIVENESS_SCHEMA) SchemaError) (\<lambda>_.
     andThen (parse_quantile (ld_quantile d)) (\<lambda>_.
     andThen (u32 (ld_n_min d)) (\<lambda>_.
     andThen (u32 (ld_m_min d)) (\<lambda>_.
     andThen (check_strictly_ascending (ld_sources d) sl_source_id) (\<lambda>_.
     andThen (check_chain_ref (ld_profile_id d)) (\<lambda>_.
     andThen (guard (\<not> (ld_mode_global d = F2_NO_PROFILE \<and> ld_profile_id d \<noteq> None)) SchemaError) (\<lambda>_.
       Inr d)))))))"

definition document_source :: "liveness_document \<Rightarrow> string \<Rightarrow> source_liveness option" where
  "document_source d source_id =
     find (\<lambda>s. sl_source_id s = source_id \<or> snake_of SourceId (sl_source_id s) = source_id) (ld_sources d)"

definition document_scf :: "liveness_document \<Rightarrow> json" where
  "document_scf d = JObj ([
     (''flags'', flags_scf (ld_flags d)), (''m_min'', JInt (ld_m_min d)),
     (''mode_global'', JStr (mode_text (ld_mode_global d))), (''n_min'', JInt (ld_n_min d)),
     (''quantile'', JStr (ld_quantile d)), (''schema'', JStr (ld_schema d)),
     (''disputed_events'', JArr (map disputed_scf (ld_disputed_events d))),
     (''slack'', JStr (ld_slack d)), (''sources'', JArr (map source_liveness_scf (ld_sources d)))] @
     optional_member ''profile_id'' (map_option JStr (ld_profile_id d)))"

definition document_bytes :: "(string \<Rightarrow> string) \<Rightarrow> liveness_document \<Rightarrow> octets outcome" where
  "document_bytes nform d = cal_bytes nform (document_scf d)"

definition liveness_hash ::
    "(octets \<Rightarrow> octets) \<Rightarrow> (string \<Rightarrow> string) \<Rightarrow> liveness_document \<Rightarrow> string outcome" where
  "liveness_hash raw_digest nform d =
     andThen (document_bytes nform d) (hash_ref raw_digest ''live'')"

text \<open>\<open>sorted(dict.fromkeys(disputed), key=sort_key)\<close> and the flag per source.\<close>

definition apply_temporal_dispute ::
    "liveness_document \<Rightarrow> disputed_event list \<Rightarrow> liveness_document outcome" where
  "apply_temporal_dispute d disputed =
     (if disputed = [] then Inr d
      else let ordered = sort_key de_event_id (from_keys disputed);
               suspected = map de_source_id ordered
           in andThen (mapM (\<lambda>s. if sl_source_id s \<in> set suspected
                 \<or> snake_of SourceId (sl_source_id s) \<in> set suspected
                 then check_source_liveness (s\<lparr>sl_tamper_suspected := True\<rparr>) else Inr s)
               (ld_sources d)) (\<lambda>sources.
                 check_liveness_document (d\<lparr>ld_sources := sources, ld_disputed_events := ordered\<rparr>)))"

definition licence_disputed :: "liveness_document \<Rightarrow> string \<Rightarrow> int \<Rightarrow> int \<Rightarrow> bool" where
  "licence_disputed d source_id t0 t1 =
     list_ex (\<lambda>e. de_source_id e = bare_source source_id \<and> t0 \<le> de_t_evt_ns e \<and> de_t_evt_ns e \<le> t1)
       (ld_disputed_events d)"

section \<open>Building the document\<close>

record source_input =
  si_source_id :: string
  si_integrity_class :: integrity_class
  si_events :: "canonical_event list"
  si_nominal_period_ns :: "nanos option"

definition check_source_input :: "source_input \<Rightarrow> source_input outcome" where
  "check_source_input s =
     andThen (guard (\<not> (case si_nominal_period_ns s of None \<Rightarrow> False | Some p \<Rightarrow> p \<le> 0)) SchemaError)
       (\<lambda>_. Inr s)"

definition sorted_events :: "canonical_event list \<Rightarrow> canonical_event list" where
  "sorted_events events = sort_key (\<lambda>e. (ce_t_evt_ns e, ce_seq e, ce_event_id e)) events"

type_synonym regime_entry = "liveness_mode \<times> int option \<times> bool \<times> threshold_provenance option"

text \<open>The first half of \<open>_regime_threshold\<close>: a calibrated statistic, if the profile has one.\<close>

definition calibrated_statistic ::
    "source_profile option \<Rightarrow> source_input \<Rightarrow> string \<Rightarrow> liveness_config
     \<Rightarrow> (source_profile \<times> regime_profile \<times> int) option outcome" where
  "calibrated_statistic profile source regime_id config =
     (case profile of
        None \<Rightarrow> Inr None
      | Some p \<Rightarrow>
          (case Option.bind (profile_source p (snake_of SourceId (si_source_id source)))
                  (\<lambda>entry. calibrated_regime entry regime_id) of
             None \<Rightarrow> Inr None
           | Some regime \<Rightarrow>
               andThen (n_min config) (\<lambda>least.
                 if least \<le> rp_n_gaps regime
                 then Inr (map_option (\<lambda>q. (p, regime, q)) (order_statistic regime (config_quantile config)))
                 else Inr None)))"

definition regime_threshold ::
    "(octets \<Rightarrow> octets) \<Rightarrow> (string \<Rightarrow> string) \<Rightarrow> source_profile option \<Rightarrow> source_input \<Rightarrow> string
     \<Rightarrow> liveness_config \<Rightarrow> bool \<Rightarrow> regime_entry outcome" where
  "regime_threshold raw_digest nform profile source regime_id config allow_declared_profile =
     andThen (calibrated_statistic profile source regime_id config) (\<lambda>statistic.
       case statistic of
         Some (p, regime, q_value) \<Rightarrow>
           andThen (threshold_from_order_statistic q_value (lc_slack_num config) (lc_slack_den config))
             (\<lambda>(threshold, saturated).
           andThen (profile_id raw_digest nform p) (\<lambda>pid.
           andThen (check_threshold_provenance \<lparr>tp_kind = ''profile'', tp_regime = regime_id,
               tp_slack = config_slack config, tp_profile_id = Some pid, tp_n = Some (rp_n_gaps regime),
               tp_p = Some (config_quantile config)\<rparr>) (\<lambda>provenance.
             Inr (F0_CALIBRATED, Some threshold, saturated, Some provenance))))
       | None \<Rightarrow>
           (case si_nominal_period_ns source of
              Some period \<Rightarrow>
                if allow_declared_profile then
                  andThen (threshold_from_order_statistic period (lc_slack_num config) (lc_slack_den config))
                    (\<lambda>(threshold, saturated).
                  andThen (check_threshold_provenance \<lparr>tp_kind = ''declared'', tp_regime = regime_id,
                      tp_slack = config_slack config, tp_profile_id = None, tp_n = None, tp_p = None\<rparr>)
                    (\<lambda>provenance. Inr (F3_DECLARED, Some threshold, saturated, Some provenance)))
                else Inr (F1_INSUFFICIENT, None, False, None)
            | None \<Rightarrow> Inr (F1_INSUFFICIENT, None, False, None)))"

text \<open>The arguments of the classification of one source that do not change over its grid.\<close>

record source_run =
  sr_events :: "canonical_event list"
  sr_stamps :: "int list"
  sr_phases :: "phase list"
  sr_source :: source_input
  sr_profile :: "source_profile option"
  sr_config :: liveness_config
  sr_no_profile :: bool
  sr_allow_declared :: bool
  sr_verifier :: chain_verifier

type_synonym regime_cache = "(string \<times> regime_entry) list"

definition observe_and_mode ::
    "(octets \<Rightarrow> octets) \<Rightarrow> (string \<Rightarrow> string) \<Rightarrow> source_run \<Rightarrow> nanos \<Rightarrow> nanos \<Rightarrow> regime_cache
     \<Rightarrow> (window_observation \<times> liveness_mode \<times> int option \<times> bool \<times> regime_cache) outcome" where
  "observe_and_mode raw_digest nform run a b cache =
     andThen (observe_window (sr_events run) (sr_stamps run) a b (sr_phases run)
                (si_integrity_class (sr_source run)) (sr_verifier run)) (\<lambda>observation.
       if sr_no_profile run then Inr (observation, F2_NO_PROFILE, None, False, cache)
       else case wo_regime observation of
         None \<Rightarrow> Inr (observation, F1_INSUFFICIENT, None, False, cache)
       | Some regime \<Rightarrow>
           (case map_of cache regime of
              Some (mode, threshold, saturated, _) \<Rightarrow>
                Inr (observation, mode, threshold, saturated, cache)
            | None \<Rightarrow>
                andThen (regime_threshold raw_digest nform (sr_profile run) (sr_source run) regime
                           (sr_config run) (sr_allow_declared run)) (\<lambda>entry.
                  Inr (observation, fst entry, fst (snd entry), fst (snd (snd entry)),
                       cache @ [(regime, entry)]))))"

type_synonym grid_state = "regime_cache \<times> liveness_mode list \<times> (nanos \<times> nanos \<times> window_outcome) list"

fun classify_grid ::
    "(octets \<Rightarrow> octets) \<Rightarrow> (string \<Rightarrow> string) \<Rightarrow> source_run \<Rightarrow> (nanos \<times> nanos) list \<Rightarrow> grid_state
     \<Rightarrow> grid_state outcome" where
  "classify_grid raw_digest nform run [] state = Inr state"
| "classify_grid raw_digest nform run ((a, b) # grid) (cache, modes, outcomes) =
     andThen (observe_and_mode raw_digest nform run a b cache)
       (\<lambda>(observation, mode, threshold, saturated, cache').
         classify_grid raw_digest nform run grid
           (cache', (if wo_regime observation \<noteq> None then modes @ [mode] else modes),
            outcomes @ [(a, b, classify observation mode threshold saturated
              (si_integrity_class (sr_source run)) (lc_m_min (sr_config run)))]))"

section \<open>Merging\<close>

definition fresh_interval :: "nanos \<times> nanos \<times> window_outcome \<Rightarrow> liveness_interval" where
  "fresh_interval w = (case w of (t0, t1, oc) \<Rightarrow>
     \<lparr>li_t0_ns = t0, li_t1_ns = t1, li_verdict = oc_verdict oc, li_reason = oc_reason oc,
      li_missing_seq = oc_missing_seq oc, li_witness = oc_witness oc\<rparr>)"

definition grow_interval :: "liveness_interval \<Rightarrow> nanos \<times> nanos \<times> window_outcome \<Rightarrow> liveness_interval" where
  "grow_interval l w = l\<lparr>li_t1_ns := fst (snd w)\<rparr>"

definition same_statement :: "liveness_interval \<Rightarrow> window_outcome \<Rightarrow> bool" where
  "same_statement l oc = (li_verdict l = oc_verdict oc \<and> li_reason l = oc_reason oc \<and>
     li_missing_seq l = oc_missing_seq oc \<and> li_witness l = oc_witness oc)"

fun merge_outcomes ::
    "(nanos \<times> nanos \<times> window_outcome) list \<Rightarrow> liveness_interval list \<Rightarrow> liveness_interval list outcome" where
  "merge_outcomes [] merged = Inr merged"
| "merge_outcomes (w # ws) merged =
     (if merged \<noteq> [] \<and> li_t1_ns (last merged) = fst w \<and> same_statement (last merged) (snd (snd w))
      then andThen (check_liveness_interval (grow_interval (last merged) w)) (\<lambda>i.
             merge_outcomes ws (butlast merged @ [i]))
      else andThen (check_liveness_interval (fresh_interval w)) (\<lambda>i. merge_outcomes ws (merged @ [i])))"

definition blind_volumes :: "liveness_interval list \<Rightarrow> (reason \<times> int) list" where
  "blind_volumes intervals = foldl (\<lambda>volume i.
     if li_verdict i = BLIND
     then AList.update (li_reason i)
            ((case map_of volume (li_reason i) of None \<Rightarrow> 0 | Some v \<Rightarrow> v) + li_duration i) volume
     else volume) [] intervals"

definition suppressed_volume :: "liveness_interval list \<Rightarrow> int" where
  "suppressed_volume intervals =
     sum_list (map li_duration (filter (\<lambda>i. li_verdict i = SUPPRESSED) intervals))"

definition unauthenticated_gap :: "liveness_interval list \<Rightarrow> bool" where
  "unauthenticated_gap intervals =
     list_ex (\<lambda>i. li_verdict i = SUPPRESSED \<and> li_reason i = S_SEQ_GAP_UNAUTHENTICATED) intervals"

definition weakest_mode :: "liveness_mode list \<Rightarrow> bool \<Rightarrow> liveness_mode" where
  "weakest_mode modes no_profile =
     (if no_profile then F2_NO_PROFILE
      else case modes of
        [] \<Rightarrow> F1_INSUFFICIENT
      | m # ms \<Rightarrow> foldl (\<lambda>w m. if MODE_STRENGTH m < MODE_STRENGTH w then m else w) m ms)"

text \<open>\<open>sorted({(regime, threshold) ...})\<close> and the threshold a source with one regime publishes.\<close>

definition published_thresholds :: "regime_cache \<Rightarrow> (string \<times> int) list" where
  "published_thresholds cache =
     sorted_dedup (concat (map (\<lambda>(regime, (_, threshold, _, _)).
       case threshold of None \<Rightarrow> [] | Some t \<Rightarrow> [(regime, t)]) cache))"

definition published_threshold :: "regime_cache \<Rightarrow> (int \<times> threshold_provenance) option" where
  "published_threshold cache =
     (case cache of
        [(_, (_, Some threshold, False, Some provenance))] \<Rightarrow> Some (threshold, provenance)
      | _ \<Rightarrow> None)"

definition finished_source ::
    "source_run \<Rightarrow> regime_cache \<Rightarrow> liveness_mode list \<Rightarrow> liveness_interval list \<Rightarrow> source_liveness" where
  "finished_source run cache modes intervals =
     \<lparr>sl_source_id = si_source_id (sr_source run),
      sl_integrity_class = si_integrity_class (sr_source run),
      sl_mode = weakest_mode modes (sr_no_profile run), sl_intervals = intervals,
      sl_blind_volume = sort_key (\<lambda>kv. reason_text (fst kv)) (blind_volumes intervals),
      sl_suppressed_volume_ns = suppressed_volume intervals,
      sl_threshold_ns = map_option fst (published_threshold cache),
      sl_threshold_provenance = map_option snd (published_threshold cache),
      sl_regime_thresholds = published_thresholds cache,
      sl_tamper_suspected = False\<rparr>"

definition build_source ::
    "(octets \<Rightarrow> octets) \<Rightarrow> (string \<Rightarrow> string) \<Rightarrow> source_run \<Rightarrow> int list \<Rightarrow> int list \<Rightarrow> nanos \<Rightarrow> nanos
     \<Rightarrow> source_liveness outcome" where
  "build_source raw_digest nform run phase_bounds query_endpoints t0 t1 =
     andThen (breakpoints (sr_stamps run) phase_bounds query_endpoints t0 t1) (\<lambda>grid.
     andThen (classify_grid raw_digest nform run (zip grid (tl grid)) ([], [], []))
       (\<lambda>(cache, modes, outcomes).
     andThen (merge_outcomes outcomes []) (\<lambda>intervals.
       check_source_liveness (finished_source run cache modes intervals))))"

definition require_profile ::
    "(octets \<Rightarrow> octets) \<Rightarrow> source_profile option \<Rightarrow> binding_context option \<Rightarrow> bool \<Rightarrow> unit outcome" where
  "require_profile raw_digest profile binding_context no_profile =
     (case profile of
        None \<Rightarrow> if no_profile then Inr () else raises_code ProfileError ''PROFILE_INVALID''
      | Some p \<Rightarrow>
          if no_profile then raises_code ProfileError ''PROFILE_INVALID''
          else case binding_context of
            None \<Rightarrow> raises_code ProfileError ''PROFILE_INVALID''
          | Some context \<Rightarrow> andThen (identity_spec_hash raw_digest) (\<lambda>identity.
              require_binding_gates identity p context))"

definition build_liveness_document ::
    "(octets \<Rightarrow> octets) \<Rightarrow> (string \<Rightarrow> string) \<Rightarrow> liveness_config \<Rightarrow> source_input list \<Rightarrow> phase list
     \<Rightarrow> nanos \<Rightarrow> nanos \<Rightarrow> source_profile option \<Rightarrow> binding_context option \<Rightarrow> int list \<Rightarrow> bool \<Rightarrow> bool
     \<Rightarrow> chain_verifier \<Rightarrow> liveness_document outcome" where
  "build_liveness_document raw_digest nform config sources phases t0 t1 profile binding_context
     query_endpoints no_profile allow_declared_profile verifier =
     andThen (require_profile raw_digest profile binding_context no_profile) (\<lambda>_.
     andThen (check_phases phases) (\<lambda>_.
     andThen (check_nanos t0) (\<lambda>_.
     andThen (check_nanos t1) (\<lambda>_.
     andThen (guard (\<not> t1 \<le> t0) SchemaError) (\<lambda>_.
     andThen (mapM check_nanos query_endpoints) (\<lambda>_.
       let phase_bounds = sorted_dedup (map ph_t0_ns phases @ map ph_t1_ns phases)
       in andThen (mapM (\<lambda>source.
            let events = sorted_events (si_events source)
            in build_source raw_digest nform
                 \<lparr>sr_events = events, sr_stamps = map ce_t_evt_ns events, sr_phases = phases,
                  sr_source = source, sr_profile = profile, sr_config = config,
                  sr_no_profile = no_profile, sr_allow_declared = allow_declared_profile,
                  sr_verifier = verifier\<rparr>
                 phase_bounds query_endpoints t0 t1) (sort_key si_source_id sources)) (\<lambda>built.
          andThen (case profile of None \<Rightarrow> Inr None
                   | Some p \<Rightarrow> andThen (profile_id raw_digest nform p) (\<lambda>i. Inr (Some i))) (\<lambda>pid.
          andThen (n_min config) (\<lambda>least.
            check_liveness_document
              \<lparr>ld_mode_global = weakest_mode (map sl_mode built) no_profile,
               ld_quantile = config_quantile config, ld_slack = config_slack config,
               ld_n_min = least, ld_m_min = lc_m_min config, ld_sources = built,
               ld_flags = \<lparr>
                 lf_liveness_uncalibrated = list_ex (\<lambda>s. sl_mode s = F1_INSUFFICIENT \<or> sl_mode s = F3_DECLARED) built,
                 lf_liveness_unauthenticated = list_ex (\<lambda>s. unauthenticated_gap (sl_intervals s)) built,
                 lf_blind_by_default = no_profile,
                 lf_profile_regime_collapsed = (case profile of None \<Rightarrow> False | Some p \<Rightarrow> sp_regime_collapsed p),
                 lf_verdict_tamper_sensitive = False, lf_mcs_greedy = False\<rparr>,
               ld_profile_id = pid, ld_disputed_events = [], ld_schema = LIVENESS_SCHEMA\<rparr>)))))))))"

section \<open>The grid\<close>

lemma check_nanos_id: "check_nanos t = Inr u \<Longrightarrow> u = t"
  by (auto simp: check_nanos_def result_simps split: if_splits)

lemma mapM_check_nanos: "mapM check_nanos vs = Inr us \<Longrightarrow> us = vs"
  by (induction vs arbitrary: us) (auto simp: result_simps dest: check_nanos_id)

lemma breakpoints_grid:
  assumes "breakpoints es ps qs t0 t1 = Inr grid"
  shows "sorted_wrt (<) grid \<and> set grid = {t0, t1} \<union> {v \<in> set (es @ ps @ qs). t0 \<le> v \<and> v \<le> t1} \<and> t0 \<le> t1"
proof -
  from assms have "grid = sorted_dedup ([t0, t1] @ filter (\<lambda>v. t0 \<le> v \<and> v \<le> t1) (es @ ps @ qs))" "t0 \<le> t1"
    by (auto simp: breakpoints_def result_simps dest!: check_nanos_id mapM_check_nanos)
  then show ?thesis by (auto simp: strict_sorted_iff)
qed

lemma grid_ends:
  fixes grid :: "int list"
  assumes "sorted_wrt (<) grid" "t0 \<in> set grid" "t1 \<in> set grid" "\<forall>v \<in> set grid. t0 \<le> v \<and> v \<le> t1"
  shows "grid \<noteq> [] \<and> hd grid = t0 \<and> last grid = t1"
proof -
  from assms have s: "sorted grid" "grid \<noteq> []" by (auto simp: strict_sorted_iff)
  then have "hd grid \<le> t0" using assms(2) by (cases grid) auto
  moreover have "t1 \<le> last grid" using s assms(3) by (auto simp: in_set_conv_nth last_conv_nth intro: sorted_nth_mono)
  ultimately show ?thesis using s(2) assms(4) by (meson antisym hd_in_set last_in_set)
qed

lemma breakpoints_ends:
  assumes "breakpoints es ps qs t0 t1 = Inr grid" "t0 < t1"
  shows "hd grid = t0" "last grid = t1" "Suc 0 < length grid"
proof -
  note g = breakpoints_grid [OF assms(1)]
  have "t0 \<in> set grid" "t1 \<in> set grid" "\<forall>v \<in> set grid. t0 \<le> v \<and> v \<le> t1"
    unfolding conjunct1 [OF conjunct2 [OF g]] using conjunct2 [OF conjunct2 [OF g]] by blast+
  from grid_ends [OF conjunct1 [OF g] this]
  show ends: "hd grid = t0" "last grid = t1" by simp_all
  with assms(2) \<open>t0 \<in> set grid\<close> show "Suc 0 < length grid" by (cases grid) auto
qed

lemma neighbours_ends:
  "Suc 0 < length xs \<Longrightarrow> zip xs (tl xs) \<noteq> [] \<and> fst (hd (zip xs (tl xs))) = hd xs
     \<and> snd (last (zip xs (tl xs))) = last xs"
proof (induction xs rule: induct_list012)
  case (3 x y zs)
  then show ?case by (cases zs) auto
qed simp_all

section \<open>The merge\<close>

lemma check_liveness_interval_id: "check_liveness_interval i = Inr j \<Longrightarrow> j = i"
  by (auto simp: check_liveness_interval_def result_simps split: if_splits)

definition statement :: "liveness_interval \<Rightarrow> window_outcome" where
  "statement i = \<lparr>oc_verdict = li_verdict i, oc_reason = li_reason i,
     oc_missing_seq = li_missing_seq i, oc_witness = li_witness i\<rparr>"

lemma same_statement: "same_statement l oc \<longleftrightarrow> statement l = oc"
  by (cases oc) (simp add: same_statement_def statement_def)

text \<open>The loop without its checks.\<close>

definition merge_step :: "liveness_interval list \<Rightarrow> nanos \<times> nanos \<times> window_outcome \<Rightarrow> liveness_interval list" where
  "merge_step merged w =
     (if merged \<noteq> [] \<and> li_t1_ns (last merged) = fst w \<and> statement (last merged) = snd (snd w)
      then butlast merged @ [grow_interval (last merged) w] else merged @ [fresh_interval w])"

lemma merge_outcomes_fold:
  "merge_outcomes ws merged = Inr result \<Longrightarrow> result = foldl merge_step merged ws"
  by (induction ws merged rule: merge_outcomes.induct)
     (auto simp: result_simps same_statement merge_step_def split: if_splits
       dest!: check_liveness_interval_id)

interpretation lm: coalesce "\<lambda>_. True" fst "\<lambda>w. fst (snd w)" "\<lambda>w. snd (snd w)"
  li_t0_ns li_t1_ns statement "foldl merge_step []" grow_interval fresh_interval
  by unfold_locales (simp_all add: merge_step_def grow_interval_def fresh_interval_def statement_def
      split: prod.splits)

context coalesce begin

text \<open>Where everything is kept, the runs begin and end with the sequence, and a contiguous
  sequence has contiguous runs.\<close>

lemma merged_ends:
  assumes "\<And>x. keep x"
  shows "xs \<noteq> [] \<Longrightarrow> merged xs \<noteq> [] \<and> lo' (hd (merged xs)) = lo (hd xs) \<and> hi' (last (merged xs)) = hi (last xs)"
proof (induction xs rule: rev_induct)
  case (snoc x xs)
  show ?case
  proof (cases rule: merged_cases [of x xs])
    case skipped
    with assms show ?thesis by simp
  next
    case (grown ys r)
    then have "xs \<noteq> []" by (auto simp: merged_Nil)
    with grown snoc.IH show ?thesis by (cases ys) (auto simp: lo_grow hi_grow)
  next
    case fresh
    with snoc.IH show ?thesis by (cases "xs = []") (auto simp: merged_Nil lo_make hi_make)
  qed
qed simp

lemma merged_contiguous:
  assumes "\<And>x. keep x"
  shows "(\<And>us x y vs. xs = us @ x # y # vs \<Longrightarrow> hi x = lo y) \<Longrightarrow>
    merged xs = us @ r # r' # vs \<Longrightarrow> hi' r = lo' r'"
proof (induction xs arbitrary: us r r' vs rule: rev_induct)
  case Nil
  then show ?case by (simp add: merged_Nil)
next
  case (snoc x xs)
  have IH: "hi' r = lo' r'" if "merged xs = us @ r # r' # vs" for us r r' vs
    using snoc.IH snoc.prems(1) that by (metis append.assoc append_Cons)
  show ?case
  proof (cases rule: merged_cases [of x xs])
    case skipped
    with assms show ?thesis by simp
  next
    case (grown ys q)
    show ?thesis
    proof (cases vs rule: rev_cases)
      case Nil
      with grown snoc.prems(2) have "merged xs = us @ r # q # []" "r' = grow q x" by simp_all
      with IH show ?thesis by (simp add: lo_grow)
    next
      case (snoc vs' v)
      with grown snoc.prems(2) have "merged xs = us @ r # r' # (vs' @ [q])" by simp
      with IH show ?thesis by blast
    qed
  next
    case fresh
    show ?thesis
    proof (cases vs rule: rev_cases)
      case Nil
      with fresh snoc.prems(2) have m: "merged xs = us @ [r]" "r' = make x" by simp_all
      then have "xs \<noteq> []" by (auto simp: merged_Nil)
      then have "hi (last xs) = lo x"
        using snoc.prems(1) [of "butlast xs" "last xs" x "[]"] by simp
      moreover have "hi' r = hi (last xs)" using merged_ends [OF assms \<open>xs \<noteq> []\<close>] m(1) by simp
      ultimately show ?thesis using m(2) by (simp add: lo_make)
    next
      case (snoc vs' v)
      with fresh snoc.prems(2) have "merged xs = us @ r # r' # vs'" by simp
      with IH show ?thesis by blast
    qed
  qed
qed

end

section \<open>The classification of the grid\<close>

text \<open>The statement of one elementary window, with the threshold of its regime looked up anew.\<close>

definition window_statement ::
    "(octets \<Rightarrow> octets) \<Rightarrow> (string \<Rightarrow> string) \<Rightarrow> source_run \<Rightarrow> nanos \<Rightarrow> nanos \<Rightarrow> window_outcome outcome" where
  "window_statement raw_digest nform run a b =
     andThen (observe_window (sr_events run) (sr_stamps run) a b (sr_phases run)
                (si_integrity_class (sr_source run)) (sr_verifier run)) (\<lambda>observation.
     andThen (if sr_no_profile run then Inr (F2_NO_PROFILE, None, False, None)
              else case wo_regime observation of
                None \<Rightarrow> Inr (F1_INSUFFICIENT, None, False, None)
              | Some regime \<Rightarrow> regime_threshold raw_digest nform (sr_profile run) (sr_source run) regime
                  (sr_config run) (sr_allow_declared run)) (\<lambda>(mode, threshold, saturated, _).
       Inr (classify observation mode threshold saturated
              (si_integrity_class (sr_source run)) (lc_m_min (sr_config run)))))"

definition cache_sound ::
    "(octets \<Rightarrow> octets) \<Rightarrow> (string \<Rightarrow> string) \<Rightarrow> source_run \<Rightarrow> regime_cache \<Rightarrow> bool" where
  "cache_sound raw_digest nform run cache =
     (\<forall>(regime, entry) \<in> set cache. regime_threshold raw_digest nform (sr_profile run) (sr_source run) regime
        (sr_config run) (sr_allow_declared run) = Inr entry)"

lemma observe_and_mode_sound:
  assumes "observe_and_mode raw_digest nform run a b cache = Inr (observation, mode, threshold, saturated, cache')"
    and "cache_sound raw_digest nform run cache"
  shows "cache_sound raw_digest nform run cache' \<and> window_statement raw_digest nform run a b =
    Inr (classify observation mode threshold saturated (si_integrity_class (sr_source run)) (lc_m_min (sr_config run)))"
proof -
  have o: "observe_window (sr_events run) (sr_stamps run) a b (sr_phases run)
      (si_integrity_class (sr_source run)) (sr_verifier run) = Inr observation"
    using assms(1) by (auto simp: observe_and_mode_def result_simps split: if_splits option.splits)
  have known: "regime_threshold raw_digest nform (sr_profile run) (sr_source run) regime
      (sr_config run) (sr_allow_declared run) = Inr entry" if "map_of cache regime = Some entry" for regime entry
    using assms(2) map_of_SomeD [OF that] by (auto simp: cache_sound_def)
  show ?thesis
    using assms
    by (auto simp: observe_and_mode_def window_statement_def o known cache_sound_def result_simps
        split: if_splits option.splits)
qed

lemma classify_grid_sound:
  assumes "classify_grid raw_digest nform run grid (cache, modes, outcomes) = Inr (cache', modes', outcomes')"
    and "cache_sound raw_digest nform run cache"
  shows "cache_sound raw_digest nform run cache' \<and>
    (\<exists>ocs. outcomes' = outcomes @ map2 (\<lambda>(a, b) oc. (a, b, oc)) grid ocs \<and> length ocs = length grid \<and>
       (\<forall>i < length grid. window_statement raw_digest nform run (fst (grid ! i)) (snd (grid ! i)) = Inr (ocs ! i)))"
  using assms
proof (induction grid arbitrary: cache modes outcomes)
  case (Cons w grid)
  obtain a b where w: "w = (a, b)" by (cases w)
  from Cons.prems(1) obtain observation mode threshold saturated cache1 where
    o: "observe_and_mode raw_digest nform run a b cache = Inr (observation, mode, threshold, saturated, cache1)"
    and rest: "classify_grid raw_digest nform run grid
      (cache1, (if wo_regime observation \<noteq> None then modes @ [mode] else modes),
       outcomes @ [(a, b, classify observation mode threshold saturated
         (si_integrity_class (sr_source run)) (lc_m_min (sr_config run)))]) = Inr (cache', modes', outcomes')"
    by (auto simp: w result_simps)
  note sound = observe_and_mode_sound [OF o Cons.prems(2)]
  from Cons.IH [OF rest conjunct1 [OF sound]] obtain ocs where
    "cache_sound raw_digest nform run cache'" "length ocs = length grid"
    "outcomes' = (outcomes @ [(a, b, classify observation mode threshold saturated
         (si_integrity_class (sr_source run)) (lc_m_min (sr_config run)))]) @ map2 (\<lambda>(a, b) oc. (a, b, oc)) grid ocs"
    "\<forall>i < length grid. window_statement raw_digest nform run (fst (grid ! i)) (snd (grid ! i)) = Inr (ocs ! i)"
    by blast
  with sound show ?case
    by (intro conjI exI [of _ "classify observation mode threshold saturated
         (si_integrity_class (sr_source run)) (lc_m_min (sr_config run)) # ocs"])
       (auto simp: w All_less_Suc2)
qed simp

section \<open>A built source\<close>

lemma tiled_same:
  "map (\<lambda>x. (lo x, hi x)) xs = map (\<lambda>y. (lo' y, hi' y)) ys \<Longrightarrow> tiled lo hi xs = tiled lo' hi' ys"
proof (induction xs arbitrary: ys)
  case (Cons x xs)
  then obtain y ys' where ys: "ys = y # ys'" "lo x = lo' y" "hi x = hi' y"
    "map (\<lambda>x. (lo x, hi x)) xs = map (\<lambda>y. (lo' y, hi' y)) ys'" by auto
  have "(\<forall>z \<in> set xs. hi x \<le> lo z) \<longleftrightarrow> (\<forall>z \<in> set (map (\<lambda>x. (lo x, hi x)) xs). hi x \<le> fst z)" by simp
  also have "\<dots> \<longleftrightarrow> (\<forall>z \<in> set ys'. hi' y \<le> lo' z)" unfolding ys(4) by (simp add: ys(3))
  finally show ?case using Cons.IH [OF ys(4)] ys(1-3) by (simp add: tiled_Cons)
qed simp

definition pieces :: "int list \<Rightarrow> window_outcome list \<Rightarrow> (nanos \<times> nanos \<times> window_outcome) list" where
  "pieces grid ocs = map2 (\<lambda>(a, b) oc. (a, b, oc)) (zip grid (tl grid)) ocs"

lemma pieces_windows:
  "length ocs = length (zip grid (tl grid)) \<Longrightarrow> map (\<lambda>w. (fst w, fst (snd w))) (pieces grid ocs) = zip grid (tl grid)"
  unfolding pieces_def by (induction "zip grid (tl grid)" ocs rule: list_induct2') (auto simp: split_beta, auto intro!: nth_equalityI)

lemma pieces_nth:
  assumes "length ocs = length (zip grid (tl grid))" "i < length (zip grid (tl grid))"
  shows "pieces grid ocs ! i = (grid ! i, grid ! Suc i, ocs ! i)"
  using assms by (auto simp: pieces_def nth_tl)

lemma tiled_pieces:
  assumes "sorted_wrt (<) grid" "length ocs = length (zip grid (tl grid))"
  shows "tiled fst (\<lambda>w. fst (snd w)) (pieces grid ocs)"
  using neighbours_tiled [OF assms(1)] tiled_same [of fst "\<lambda>w. fst (snd w)" "pieces grid ocs" fst snd]
    pieces_windows [OF assms(2)] by simp

lemma check_source_liveness_id: "check_source_liveness s = Inr s' \<Longrightarrow> s' = s"
  unfolding check_source_liveness_def andThen_eq_Inr by blast

lemma built_source:
  assumes "build_source raw_digest nform run pb qe t0 t1 = Inr s" "t0 < t1"
  obtains grid ocs cache modes where "sorted_wrt (<) grid" "Suc 0 < length grid" "hd grid = t0" "last grid = t1"
    "set grid = {t0, t1} \<union> {v \<in> set (sr_stamps run @ pb @ qe). t0 \<le> v \<and> v \<le> t1}"
    "length ocs = length (zip grid (tl grid))" "sl_intervals s = foldl merge_step [] (pieces grid ocs)"
    "\<And>i. i < length (zip grid (tl grid)) \<Longrightarrow>
       window_statement raw_digest nform run (grid ! i) (grid ! Suc i) = Inr (ocs ! i)"
    "s = finished_source run cache modes (sl_intervals s)"
    "cache_sound raw_digest nform run cache" "check_source_liveness s = Inr s"
proof -
  from assms(1) obtain grid r where
    grid: "breakpoints (sr_stamps run) pb qe t0 t1 = Inr grid"
    and cl: "classify_grid raw_digest nform run (zip grid (tl grid)) ([], [], []) = Inr r"
    and rest: "(case r of (cache, modes, outcomes) \<Rightarrow> andThen (merge_outcomes outcomes []) (\<lambda>intervals.
       check_source_liveness (finished_source run cache modes intervals))) = Inr s"
    unfolding build_source_def andThen_eq_Inr by blast
  obtain cache modes outcomes where r: "r = (cache, modes, outcomes)" by (cases r)
  from rest obtain intervals where mg: "merge_outcomes outcomes [] = Inr intervals"
    and ck: "check_source_liveness (finished_source run cache modes intervals) = Inr s"
    unfolding r prod.case andThen_eq_Inr by blast
  have s: "s = finished_source run cache modes intervals" by (rule check_source_liveness_id [OF ck])
  have iv: "sl_intervals s = intervals" by (simp add: s finished_source_def)
  note g = breakpoints_grid [OF grid] and ends = breakpoints_ends [OF grid assms(2)]
  have "cache_sound raw_digest nform run []" by (simp add: cache_sound_def)
  from classify_grid_sound [OF cl [unfolded r] this] obtain ocs where
    sound: "cache_sound raw_digest nform run cache" and
    ocs: "outcomes = pieces grid ocs" "length ocs = length (zip grid (tl grid))"
    "\<forall>i < length (zip grid (tl grid)). window_statement raw_digest nform run
       (fst (zip grid (tl grid) ! i)) (snd (zip grid (tl grid) ! i)) = Inr (ocs ! i)"
    by (auto simp: pieces_def)
  show thesis
  proof (rule that [of grid ocs cache modes])
    show "sl_intervals s = foldl merge_step [] (pieces grid ocs)"
      using merge_outcomes_fold [OF mg] by (simp add: iv ocs(1))
    show "window_statement raw_digest nform run (grid ! i) (grid ! Suc i) = Inr (ocs ! i)"
      if "i < length (zip grid (tl grid))" for i
      using ocs(3) that by (auto simp: nth_tl)
    show "s = finished_source run cache modes (sl_intervals s)" unfolding iv by (rule s)
    show "check_source_liveness s = Inr s" using ck s by simp
  qed (use g ends ocs(2) sound in simp_all)
qed

end
