(* ===== verification/Documents.thy ===== *)
theory Documents
  imports LivenessDoc "HOL-Library.Multiset"
begin

text \<open>
  What \<open>build_liveness_document\<close> (\<^verbatim>\<open>spectra_vs/liveness.py\<close>) promises: the timelines it writes
  tile the scenario, merge without loss and account for every nanosecond; each instant carries
  the statement of its elementary window; without a profile nothing is LIVE; a profile that
  fails a binding gate yields no document.
\<close>

section \<open>The built document\<close>

definition run_of ::
    "source_profile option \<Rightarrow> liveness_config \<Rightarrow> phase list \<Rightarrow> bool \<Rightarrow> bool \<Rightarrow> chain_verifier \<Rightarrow> source_input
     \<Rightarrow> source_run" where
  "run_of profile config phases no_profile allow_declared verifier source =
     \<lparr>sr_events = sorted_events (si_events source),
      sr_stamps = map ce_t_evt_ns (sorted_events (si_events source)), sr_phases = phases,
      sr_source = source, sr_profile = profile, sr_config = config, sr_no_profile = no_profile,
      sr_allow_declared = allow_declared, sr_verifier = verifier\<rparr>"

definition boundaries :: "phase list \<Rightarrow> int list" where
  "boundaries phases = sorted_dedup (map ph_t0_ns phases @ map ph_t1_ns phases)"

lemma check_liveness_document_id: "check_liveness_document d = Inr d' \<Longrightarrow> d' = d"
  unfolding check_liveness_document_def andThen_eq_Inr by blast

lemma check_liveness_document_sources:
  "check_liveness_document d = Inr d' \<Longrightarrow> strictly_ascending (map sl_source_id (ld_sources d))"
  unfolding check_liveness_document_def andThen_eq_Inr by (auto simp: check_strictly_ascending_eq_Inr)

lemma built_document:
  assumes "build_liveness_document raw_digest nform config sources phases t0 t1 profile context
     query_endpoints no_profile allow_declared verifier = Inr d"
  shows "t0 < t1 \<and> require_profile raw_digest profile context no_profile = Inr () \<and>
    strictly_ascending (map sl_source_id (ld_sources d)) \<and>
    list_all2 (\<lambda>source s. build_source raw_digest nform
        (run_of profile config phases no_profile allow_declared verifier source)
        (boundaries phases) query_endpoints t0 t1 = Inr s)
      (sort_key si_source_id sources) (ld_sources d) \<and>
    ld_mode_global d = weakest_mode (map sl_mode (ld_sources d)) no_profile \<and>
    ld_schema d = LIVENESS_SCHEMA \<and> lf_blind_by_default (ld_flags d) = no_profile \<and>
    n_min config = Inr (ld_n_min d) \<and> ld_disputed_events d = []"
proof -
  from assms obtain u built pid least where
    p: "require_profile raw_digest profile context no_profile = Inr u" and t: "\<not> t1 \<le> t0"
    and b: "mapM (\<lambda>source.
            let events = sorted_events (si_events source)
            in build_source raw_digest nform
                 \<lparr>sr_events = events, sr_stamps = map ce_t_evt_ns events, sr_phases = phases,
                  sr_source = source, sr_profile = profile, sr_config = config,
                  sr_no_profile = no_profile, sr_allow_declared = allow_declared,
                  sr_verifier = verifier\<rparr>
                 (boundaries phases) query_endpoints t0 t1) (sort_key si_source_id sources) = Inr built"
    and n: "n_min config = Inr least"
    and d: "check_liveness_document
              \<lparr>ld_mode_global = weakest_mode (map sl_mode built) no_profile,
               ld_quantile = config_quantile config, ld_slack = config_slack config,
               ld_n_min = least, ld_m_min = lc_m_min config, ld_sources = built,
               ld_flags = \<lparr>
                 lf_liveness_uncalibrated = list_ex (\<lambda>s. sl_mode s = F1_INSUFFICIENT \<or> sl_mode s = F3_DECLARED) built,
                 lf_liveness_unauthenticated = list_ex (\<lambda>s. unauthenticated_gap (sl_intervals s)) built,
                 lf_blind_by_default = no_profile,
                 lf_profile_regime_collapsed = (case profile of None \<Rightarrow> False | Some p \<Rightarrow> sp_regime_collapsed p),
                 lf_verdict_tamper_sensitive = False, lf_mcs_greedy = False\<rparr>,
               ld_profile_id = pid, ld_disputed_events = [], ld_schema = LIVENESS_SCHEMA\<rparr> = Inr d"
    unfolding build_liveness_document_def andThen_eq_Inr Let_def boundaries_def guard_eq_Inr by blast
  from b have "list_all2 (\<lambda>source s. build_source raw_digest nform
        (run_of profile config phases no_profile allow_declared verifier source)
        (boundaries phases) query_endpoints t0 t1 = Inr s) (sort_key si_source_id sources) built"
    by (simp add: mapM_eq_Inr_list_all2 Let_def run_of_def)
  with p t n check_liveness_document_sources [OF d] show ?thesis
    unfolding check_liveness_document_id [OF d] by (simp add: not_le)
qed

lemma finished_source_simps [simp]:
  "sl_source_id (finished_source run cache modes intervals) = si_source_id (sr_source run)"
  "sl_mode (finished_source run cache modes intervals) = weakest_mode modes (sr_no_profile run)"
  "sl_intervals (finished_source run cache modes intervals) = intervals"
  "sl_blind_volume (finished_source run cache modes intervals) =
     sort_key (\<lambda>kv. reason_text (fst kv)) (blind_volumes intervals)"
  "sl_suppressed_volume_ns (finished_source run cache modes intervals) = suppressed_volume intervals"
  "sl_tamper_suspected (finished_source run cache modes intervals) = False"
  by (simp_all add: finished_source_def)

lemma run_of_simps [simp]:
  "sr_source (run_of profile config phases no_profile allow_declared verifier source) = source"
  "sr_no_profile (run_of profile config phases no_profile allow_declared verifier source) = no_profile"
  "sr_events (run_of profile config phases no_profile allow_declared verifier source) = sorted_events (si_events source)"
  "sr_stamps (run_of profile config phases no_profile allow_declared verifier source) =
     map ce_t_evt_ns (sorted_events (si_events source))"
  by (simp_all add: run_of_def)

lemma built_source_field:
  assumes "build_source raw_digest nform run pb qe t0 t1 = Inr s" "t0 < t1"
  obtains cache modes where "s = finished_source run cache modes (sl_intervals s)"
  by (rule built_source [OF assms]) (rule that)

lemma built_document_source:
  assumes "build_liveness_document raw_digest nform config sources phases t0 t1 profile context
     query_endpoints no_profile allow_declared verifier = Inr d" and "s \<in> set (ld_sources d)"
  obtains source where "source \<in> set sources" "sl_source_id s = si_source_id source"
    "build_source raw_digest nform (run_of profile config phases no_profile allow_declared verifier source)
        (boundaries phases) query_endpoints t0 t1 = Inr s" "t0 < t1"
proof -
  note b = built_document [OF assms(1)]
  have t: "t0 < t1" using b by (rule conjunct1)
  from b have all: "list_all2 (\<lambda>source s. build_source raw_digest nform
        (run_of profile config phases no_profile allow_declared verifier source)
        (boundaries phases) query_endpoints t0 t1 = Inr s)
      (sort_key si_source_id sources) (ld_sources d)" by (elim conjE)
  obtain i where i: "i < length (ld_sources d)" "s = ld_sources d ! i"
    using assms(2) by (metis in_set_conv_nth)
  define source where "source = sort_key si_source_id sources ! i"
  have "i < length (sort_key si_source_id sources)" using i(1) list_all2_lengthD [OF all] by simp
  then have "source \<in> set sources" unfolding source_def by (metis nth_mem set_sort)
  moreover have bs: "build_source raw_digest nform (run_of profile config phases no_profile allow_declared verifier source)
        (boundaries phases) query_endpoints t0 t1 = Inr s"
    using list_all2_nthD2 [OF all i(1)] by (simp add: source_def i(2))
  moreover obtain cache modes where "s = finished_source
      (run_of profile config phases no_profile allow_declared verifier source) cache modes (sl_intervals s)"
    by (rule built_source_field [OF bs t])
  from arg_cong [OF this, of sl_source_id] have "sl_source_id s = si_source_id source" by simp
  ultimately show thesis using t by (intro that)
qed

section \<open>Timelines of a built source\<close>

lemma merge_outcomes_checked:
  "merge_outcomes ws merged = Inr result \<Longrightarrow> \<forall>i \<in> set merged. check_liveness_interval i = Inr i \<Longrightarrow>
     \<forall>i \<in> set result. check_liveness_interval i = Inr i"
proof (induction ws merged rule: merge_outcomes.induct)
  case (2 w ws merged)
  show ?case
  proof (cases "merged \<noteq> [] \<and> li_t1_ns (last merged) = fst w \<and> same_statement (last merged) (snd (snd w))")
    case True
    with "2.prems" obtain i where i: "check_liveness_interval (grow_interval (last merged) w) = Inr i"
      "merge_outcomes ws (butlast merged @ [i]) = Inr result" by (auto simp: andThen_eq_Inr)
    with check_liveness_interval_id [OF i(1)] "2.IH"(1) [OF True, of i] "2.prems"(2) show ?thesis
      by (auto dest: in_set_butlastD)
  next
    case False
    with "2.prems" obtain i where i: "check_liveness_interval (fresh_interval w) = Inr i"
      "merge_outcomes ws (merged @ [i]) = Inr result" by (auto simp: andThen_eq_Inr)
    with check_liveness_interval_id [OF i(1)] "2.IH"(2) [OF False, of i] "2.prems"(2) show ?thesis by auto
  qed
qed simp

lemma built_source_checked:
  assumes "build_source raw_digest nform run pb qe t0 t1 = Inr s"
  shows "\<forall>i \<in> set (sl_intervals s). check_liveness_interval i = Inr i"
proof -
  from assms obtain r where
    rest: "(case r of (cache, modes, outcomes) \<Rightarrow> andThen (merge_outcomes outcomes []) (\<lambda>intervals.
       check_source_liveness (finished_source run cache modes intervals))) = Inr s"
    unfolding build_source_def andThen_eq_Inr by blast
  obtain cache modes outcomes where r: "r = (cache, modes, outcomes)" by (cases r)
  from rest obtain intervals where mg: "merge_outcomes outcomes [] = Inr intervals"
    and ck: "check_source_liveness (finished_source run cache modes intervals) = Inr s"
    unfolding r prod.case andThen_eq_Inr by blast
  from check_source_liveness_id [OF ck] merge_outcomes_checked [OF mg] show ?thesis by simp
qed

lemma consecutive_split:
  "(\<forall>i. Suc i < length xs \<longrightarrow> P (xs ! i) (xs ! Suc i)) \<longleftrightarrow> (\<forall>us x y vs. xs = us @ x # y # vs \<longrightarrow> P x y)"
proof safe
  fix i assume i: "\<forall>us x y vs. xs = us @ x # y # vs \<longrightarrow> P x y" "Suc i < length xs"
  then have "xs = take i xs @ xs ! i # xs ! Suc i # drop (Suc (Suc i)) xs"
    by (metis Cons_nth_drop_Suc Suc_lessD id_take_nth_drop)
  with i(1) show "P (xs ! i) (xs ! Suc i)" by blast
qed (metis nth_append_length nth_append_length_plus length_append length_Cons add_Suc_right
  add.commute less_add_same_cancel1 zero_less_Suc plus_1_eq_Suc nth_Cons_Suc nth_Cons_0 One_nat_def append_Cons)

lemma telescope:
  "xs \<noteq> [] \<Longrightarrow> \<forall>i. Suc i < length xs \<longrightarrow> hi (xs ! i) = lo (xs ! Suc i) \<Longrightarrow>
     sum_list (map (\<lambda>x. hi x - lo x) xs) = hi (last xs) - (lo (hd xs) :: int)"
proof (induction xs rule: induct_list012)
  case (3 x y zs)
  then have "\<forall>i. Suc i < length (y # zs) \<longrightarrow> hi ((y # zs) ! i) = lo ((y # zs) ! Suc i)"
    by (metis Suc_less_eq length_Cons nth_Cons_Suc)
  moreover have "hi x = lo y" using "3.prems"(2) [rule_format, of 0] by simp
  ultimately show ?case using "3.IH"(2) by simp
qed simp_all

lemma sum_update:
  "distinct (map fst d) \<Longrightarrow>
     sum_list (map snd (AList.update k ((case map_of d k of None \<Rightarrow> 0 | Some v \<Rightarrow> v) + x) d)) = sum_list (map snd d) + (x::int)"
proof (induction d)
  case (Cons kv d)
  then show ?case by (cases kv) (auto split: option.splits dest: map_of_SomeD simp: map_of_eq_None_iff)
qed simp

lemma blind_volumes_spec:
  "distinct (map fst (blind_volumes xs)) \<and>
     sum_list (map snd (blind_volumes xs)) = sum_list (map li_duration (filter (\<lambda>i. li_verdict i = BLIND) xs))"
proof (induction xs rule: rev_induct)
  case (snoc x xs)
  then show ?case
    using sum_update [of "blind_volumes xs" "li_reason x" "li_duration x"]
    by (auto simp: blind_volumes_def AList.distinct_update)
qed (simp add: blind_volumes_def)

definition live_volume :: "liveness_interval list \<Rightarrow> int" where
  "live_volume intervals = sum_list (map li_duration (filter (\<lambda>i. li_verdict i = LIVE) intervals))"

lemma volumes_total:
  "live_volume xs + sum_list (map snd (sort_key k (blind_volumes xs))) + suppressed_volume xs =
     sum_list (map li_duration xs)"
proof -
  have "sum_list (map snd (sort_key k (blind_volumes xs))) = sum_list (map snd (blind_volumes xs))"
    by (metis mset_map mset_sort sum_mset_sum_list)
  moreover have "live_volume xs + sum_list (map li_duration (filter (\<lambda>i. li_verdict i = BLIND) xs))
      + suppressed_volume xs = sum_list (map li_duration xs)"
    unfolding live_volume_def suppressed_volume_def
  proof (induction xs)
    case (Cons x xs)
    then show ?case by (cases "li_verdict x") simp_all
  qed simp
  ultimately show ?thesis using blind_volumes_spec [of xs] by simp
qed

lemma built_timeline:
  assumes "build_source raw_digest nform run pb qe t0 t1 = Inr s" "t0 < t1"
  shows "sl_intervals s \<noteq> [] \<and> li_t0_ns (hd (sl_intervals s)) = t0 \<and> li_t1_ns (last (sl_intervals s)) = t1 \<and>
    (\<forall>i. Suc i < length (sl_intervals s) \<longrightarrow>
       li_t1_ns (sl_intervals s ! i) = li_t0_ns (sl_intervals s ! Suc i) \<and>
       statement (sl_intervals s ! i) \<noteq> statement (sl_intervals s ! Suc i)) \<and>
    tiled li_t0_ns li_t1_ns (sl_intervals s)"
proof -
  obtain grid ocs where grid: "sorted_wrt (<) grid" "Suc 0 < length grid" "hd grid = t0" "last grid = t1"
    and ocs: "length ocs = length (zip grid (tl grid))" "sl_intervals s = foldl merge_step [] (pieces grid ocs)"
    by (rule built_source [OF assms]) (rule that)
  let ?p = "pieces grid ocs"
  have windows: "map (\<lambda>w. (fst w, fst (snd w))) ?p = zip grid (tl grid)" by (rule pieces_windows [OF ocs(1)])
  note ends = neighbours_ends [OF grid(2)]
  then have ne: "?p \<noteq> []" using windows by auto
  have first: "fst (hd ?p) = t0" and last: "fst (snd (last ?p)) = t1"
    using ends grid(3,4) ne by (simp_all flip: windows add: hd_map last_map)
  have len: "length ?p = length grid - 1" using arg_cong [OF windows, of length] by simp
  have "\<forall>i. Suc i < length ?p \<longrightarrow> fst (snd (?p ! i)) = fst (?p ! Suc i)"
    using ocs(1) by (auto simp: len pieces_nth)
  then have "fst (snd x) = fst y" if "?p = us @ x # y # vs" for us x y vs
    unfolding consecutive_split [of ?p "\<lambda>x y. fst (snd x) = fst y"] using that by blast
  then have "\<forall>us r r' vs. sl_intervals s = us @ r # r' # vs \<longrightarrow> li_t1_ns r = li_t0_ns r' \<and> statement r \<noteq> statement r'"
    using lm.merged_contiguous [of ?p] lm.merged_maximal [of ?p] unfolding ocs(2) by (metis (no_types, lifting))
  then have "\<forall>i. Suc i < length (sl_intervals s) \<longrightarrow>
       li_t1_ns (sl_intervals s ! i) = li_t0_ns (sl_intervals s ! Suc i) \<and>
       statement (sl_intervals s ! i) \<noteq> statement (sl_intervals s ! Suc i)"
    unfolding consecutive_split [of "sl_intervals s" "\<lambda>x y. li_t1_ns x = li_t0_ns y \<and> statement x \<noteq> statement y"] .
  moreover have "tiled li_t0_ns li_t1_ns (sl_intervals s)"
    unfolding ocs(2) by (rule lm.tiled_merged [OF tiled_pieces [OF grid(1) ocs(1)]])
  ultimately show ?thesis
    using lm.merged_ends [OF TrueI ne] first last unfolding ocs(2) by simp
qed

lemma built_proper:
  assumes "build_source raw_digest nform run pb qe t0 t1 = Inr s" "t0 < t1"
    and "i \<in> set (sl_intervals s)"
  shows "li_t0_ns i < li_t1_ns i"
proof -
  obtain grid ocs where grid: "sorted_wrt (<) grid"
    and ocs: "length ocs = length (zip grid (tl grid))" "sl_intervals s = foldl merge_step [] (pieces grid ocs)"
    by (rule built_source [OF assms(1,2)]) (rule that)
  have w: "\<forall>w \<in> set (pieces grid ocs). fst w < fst (snd w)"
  proof
    fix w assume "w \<in> set (pieces grid ocs)"
    then have "(fst w, fst (snd w)) \<in> set (map (\<lambda>w. (fst w, fst (snd w))) (pieces grid ocs))" by simp
    then have "(fst w, fst (snd w)) \<in> set (zip grid (tl grid))" unfolding pieces_windows [OF ocs(1)] .
    then show "fst w < fst (snd w)" using neighbours_gap [OF grid] by blast
  qed
  have "\<forall>r \<in> set (foldl merge_step [] ps). li_t0_ns r < li_t1_ns r"
    if "\<forall>w \<in> set ps. fst w < fst (snd w)" "tiled fst (\<lambda>w. fst (snd w)) ps" for ps
    using that
  proof (induction ps rule: rev_induct)
    case (snoc x ps)
    then have IH: "\<forall>r \<in> set (foldl merge_step [] ps). li_t0_ns r < li_t1_ns r" and x: "fst x < fst (snd x)"
      by (simp_all add: tiled_snoc)
    show ?case
    proof (cases rule: lm.merged_cases [where x = x and xs = ps])
      case (grown ys r)
      with IH have "li_t0_ns r < li_t1_ns r" by simp
      with grown IH x show ?thesis by (auto simp: grow_interval_def)
    qed (use IH x in \<open>auto simp: fresh_interval_def split: prod.splits\<close>)
  qed simp
  from this [OF w tiled_pieces [OF grid ocs(1)]] assms(3) show ?thesis by (simp add: ocs(2))
qed

lemma built_volumes:
  assumes "build_source raw_digest nform run pb qe t0 t1 = Inr s" "t0 < t1"
  shows "live_volume (sl_intervals s) + sum_list (map snd (sl_blind_volume s)) + sl_suppressed_volume_ns s = t1 - t0"
proof -
  obtain cache modes where s: "s = finished_source run cache modes (sl_intervals s)"
    by (rule built_source_field [OF assms])
  have "sl_blind_volume s = sort_key (\<lambda>kv. reason_text (fst kv)) (blind_volumes (sl_intervals s))"
    using arg_cong [OF s, of sl_blind_volume] by simp
  moreover have "sl_suppressed_volume_ns s = suppressed_volume (sl_intervals s)"
    using arg_cong [OF s, of sl_suppressed_volume_ns] by simp
  moreover note t = built_timeline [OF assms]
  moreover have "sum_list (map li_duration (sl_intervals s)) = t1 - t0"
    using telescope [of "sl_intervals s" li_t1_ns li_t0_ns] t by (simp add: li_duration_def [abs_def])
  ultimately show ?thesis
    using volumes_total [where xs = "sl_intervals s" and k = "\<lambda>kv. reason_text (fst kv)"] by simp
qed

lemma checked_interval_form:
  assumes "check_liveness_interval i = Inr i"
  shows "li_verdict i = SUPPRESSED \<longleftrightarrow> li_missing_seq i \<noteq> None"
    "li_verdict i = SUPPRESSED \<longleftrightarrow> li_witness i \<noteq> []"
  using assms by (auto simp: check_liveness_interval_def result_simps split: if_splits)

lemma built_document_ids:
  assumes "build_liveness_document raw_digest nform config sources phases t0 t1 profile context
     query_endpoints no_profile allow_declared verifier = Inr d"
  shows "map sl_source_id (ld_sources d) = map si_source_id (sort_key si_source_id sources)"
proof -
  note b = built_document [OF assms]
  from b have all: "list_all2 (\<lambda>source s. build_source raw_digest nform
        (run_of profile config phases no_profile allow_declared verifier source)
        (boundaries phases) query_endpoints t0 t1 = Inr s)
      (sort_key si_source_id sources) (ld_sources d)" by (elim conjE)
  have id: "sl_source_id s = si_source_id source" if bs: "build_source raw_digest nform
        (run_of profile config phases no_profile allow_declared verifier source)
        (boundaries phases) query_endpoints t0 t1 = Inr s" for source s
  proof -
    obtain cache modes where "s = finished_source
      (run_of profile config phases no_profile allow_declared verifier source) cache modes (sl_intervals s)"
      by (rule built_source_field [OF bs conjunct1 [OF b]])
    from arg_cong [OF this, of sl_source_id] show ?thesis by simp
  qed
  have "list_all2 (\<lambda>source s. si_source_id source = sl_source_id s) (sort_key si_source_id sources) (ld_sources d)"
    by (rule list_all2_mono [OF all]) (simp add: id)
  then show ?thesis by (simp add: list_all2_conv_all_nth list_eq_iff_nth_eq)
qed

section \<open>Properties\<close>

text \<open>C32. A document that \<open>build_liveness_document\<close> returns is well formed: it has one entry per
  input source, strictly ascending by identifier; every timeline starts and ends with the
  scenario, consists of non-empty intervals each of which begins where its predecessor ends
  and says something else, carries a sequence gap and its witnesses exactly in SUPPRESSED
  intervals, and the live, blind and suppressed volumes add up to the length of the scenario.\<close>

theorem document_well_formed:
  assumes "build_liveness_document raw_digest nform config sources phases t0 t1 profile context
     query_endpoints no_profile allow_declared verifier = Inr d"
  shows "map sl_source_id (ld_sources d) = map si_source_id (sort_key si_source_id sources) \<and>
    sorted_wrt (<) (map sl_source_id (ld_sources d)) \<and>
    (\<forall>s \<in> set (ld_sources d).
       sl_intervals s \<noteq> [] \<and> li_t0_ns (hd (sl_intervals s)) = t0 \<and> li_t1_ns (last (sl_intervals s)) = t1 \<and>
       (\<forall>i. Suc i < length (sl_intervals s) \<longrightarrow>
          li_t1_ns (sl_intervals s ! i) = li_t0_ns (sl_intervals s ! Suc i) \<and>
          statement (sl_intervals s ! i) \<noteq> statement (sl_intervals s ! Suc i)) \<and>
       (\<forall>i \<in> set (sl_intervals s). li_t0_ns i < li_t1_ns i \<and>
          (li_verdict i = SUPPRESSED \<longleftrightarrow> li_missing_seq i \<noteq> None) \<and>
          (li_verdict i = SUPPRESSED \<longleftrightarrow> li_witness i \<noteq> [])) \<and>
       live_volume (sl_intervals s) + sum_list (map snd (sl_blind_volume s)) + sl_suppressed_volume_ns s = t1 - t0)"
proof -
  have source: "sl_intervals s \<noteq> [] \<and> li_t0_ns (hd (sl_intervals s)) = t0 \<and> li_t1_ns (last (sl_intervals s)) = t1 \<and>
       (\<forall>i. Suc i < length (sl_intervals s) \<longrightarrow>
          li_t1_ns (sl_intervals s ! i) = li_t0_ns (sl_intervals s ! Suc i) \<and>
          statement (sl_intervals s ! i) \<noteq> statement (sl_intervals s ! Suc i)) \<and>
       (\<forall>i \<in> set (sl_intervals s). li_t0_ns i < li_t1_ns i \<and>
          (li_verdict i = SUPPRESSED \<longleftrightarrow> li_missing_seq i \<noteq> None) \<and>
          (li_verdict i = SUPPRESSED \<longleftrightarrow> li_witness i \<noteq> [])) \<and>
       live_volume (sl_intervals s) + sum_list (map snd (sl_blind_volume s)) + sl_suppressed_volume_ns s = t1 - t0"
    if mem: "s \<in> set (ld_sources d)" for s
  proof -
    obtain source where bs: "build_source raw_digest nform
        (run_of profile config phases no_profile allow_declared verifier source)
        (boundaries phases) query_endpoints t0 t1 = Inr s" and t: "t0 < t1"
      by (rule built_document_source [OF assms mem])
    show ?thesis
      using built_timeline [OF bs t] built_proper [OF bs t] built_volumes [OF bs t]
        built_source_checked [OF bs] checked_interval_form by blast
  qed
  have "strictly_ascending (map sl_source_id (ld_sources d))" using built_document [OF assms] by blast
  with built_document_ids [OF assms] source show ?thesis unfolding strictly_ascending_sorted_wrt by blast
qed

definition sample_inputs :: "source_input list" where
  "sample_inputs =
    [\<lparr>si_source_id = ''src:b'', si_integrity_class = CHAINED, si_events = [], si_nominal_period_ns = None\<rparr>,
     \<lparr>si_source_id = ''src:a'', si_integrity_class = NONE, si_events = rev sample_run,
      si_nominal_period_ns = Some 5\<rparr>]"

definition sample_document :: "liveness_document outcome" where
  "sample_document = build_liveness_document echo_digest id sample_config sample_inputs sample_regimes
     0 20 None None [7] True False CHAIN_LINK_CONTINUITY_ONLY"

lemma sample_document_built: "case sample_document of Inr d \<Rightarrow> length (ld_sources d) = 2 | Inl _ \<Rightarrow> False"
  by code_simp

lemma document_well_formed_witness:
  "case sample_document of
     Inr d \<Rightarrow> length (ld_sources d) = 2 \<and> map sl_source_id (ld_sources d) = [''src:a'', ''src:b''] | Inl _ \<Rightarrow> False"
proof (cases sample_document)
  case (Inl e)
  show ?thesis using sample_document_built unfolding Inl by simp
next
  case (Inr d)
  from document_well_formed [OF this [unfolded sample_document_def]]
  have "map sl_source_id (ld_sources d) = map si_source_id (sort_key si_source_id sample_inputs)" by blast
  moreover have "map si_source_id (sort_key si_source_id sample_inputs) = [''src:a'', ''src:b'']" by code_simp
  ultimately show ?thesis using sample_document_built unfolding Inr by simp
qed

text \<open>C31. The timeline says at every instant what its elementary window says. For every source of the
  document and every instant of the scenario there are two neighbouring breakpoints around
  the instant, with no record of the source, phase boundary or query endpoint strictly between
  them, such that the interval at that instant carries exactly the statement of that window,
  with the threshold of its regime looked up anew: neither the merge nor the cache changes a
  verdict.\<close>

theorem document_pointwise:
  assumes "build_liveness_document raw_digest nform config sources phases t0 t1 profile context
     query_endpoints no_profile allow_declared verifier = Inr d"
    and "s \<in> set (ld_sources d)" and "t0 \<le> t" "t < t1"
  shows "\<exists>source \<in> set sources. \<exists>a b oc. sl_source_id s = si_source_id source \<and> a \<le> t \<and> t < b \<and> t0 \<le> a \<and> b \<le> t1 \<and>
    (\<forall>v \<in> ce_t_evt_ns ` set (si_events source) \<union> ph_t0_ns ` set phases \<union> ph_t1_ns ` set phases
        \<union> set query_endpoints. v \<le> a \<or> b \<le> v) \<and>
    window_statement raw_digest nform
      (run_of profile config phases no_profile allow_declared verifier source) a b = Inr oc \<and>
    covered li_t0_ns li_t1_ns (\<lambda>i. statement i = oc) (sl_intervals s) t \<and>
    \<not> covered li_t0_ns li_t1_ns (\<lambda>i. statement i \<noteq> oc) (sl_intervals s) t"
proof -
  obtain source where source: "source \<in> set sources" "sl_source_id s = si_source_id source"
    and bs: "build_source raw_digest nform
        (run_of profile config phases no_profile allow_declared verifier source)
        (boundaries phases) query_endpoints t0 t1 = Inr s" and t01: "t0 < t1"
    by (rule built_document_source [OF assms(1,2)])
  let ?run = "run_of profile config phases no_profile allow_declared verifier source"
  obtain grid ocs where grid: "sorted_wrt (<) grid" "hd grid = t0" "last grid = t1" "Suc 0 < length grid"
    "set grid = {t0, t1} \<union> {v \<in> set (sr_stamps ?run @ boundaries phases @ query_endpoints). t0 \<le> v \<and> v \<le> t1}"
    and ocs: "length ocs = length (zip grid (tl grid))" "sl_intervals s = foldl merge_step [] (pieces grid ocs)"
    and stmt: "\<And>i. i < length (zip grid (tl grid)) \<Longrightarrow>
       window_statement raw_digest nform ?run (grid ! i) (grid ! Suc i) = Inr (ocs ! i)"
    by (rule built_source [OF bs t01]) (rule that)
  obtain a b where ab: "(a, b) \<in> set (zip grid (tl grid))" "a \<le> t" "t < b"
    using neighbours_cover [OF grid(1) _ _ assms(3,4)] unfolding grid(5) by blast
  note gap = neighbours_gap [OF grid(1) ab(1)]
  then have range: "t0 \<le> a" "b \<le> t1" unfolding grid(5) using t01 by auto
  have clear: "v \<le> a \<or> b \<le> v" if "v \<in> ce_t_evt_ns ` set (si_events source) \<union> ph_t0_ns ` set phases
      \<union> ph_t1_ns ` set phases \<union> set query_endpoints" for v
  proof (cases "t0 \<le> v \<and> v \<le> t1")
    case True
    then have "v \<in> set grid"
      unfolding grid(5) using that by (auto simp: boundaries_def sorted_events_def)
    with gap show ?thesis by blast
  qed (use range in auto)
  obtain i where i: "i < length (zip grid (tl grid))" "(a, b) = zip grid (tl grid) ! i"
    using ab(1) by (metis in_set_conv_nth)
  then have eq: "grid ! i = a" "grid ! Suc i = b" by (auto simp: nth_tl)
  have "(a, b, ocs ! i) \<in> set (pieces grid ocs)"
    using pieces_nth [OF ocs(1) i(1)] i(1) arg_cong [OF pieces_windows [OF ocs(1)], of length] eq
    by (metis length_map nth_mem)
  with ab have at: "covered fst (\<lambda>w. fst (snd w)) (\<lambda>w. True \<and> snd (snd w) = ocs ! i) (pieces grid ocs) t"
    by (force simp: covered_def)
  have "covered li_t0_ns li_t1_ns (\<lambda>i'. statement i' = ocs ! i) (sl_intervals s) t"
    unfolding ocs(2) lm.merged_covered [OF tiled_pieces [OF grid(1) ocs(1)]] by (rule at)
  moreover from covered_conflict [OF _ this] built_timeline [OF bs t01]
  have "\<not> covered li_t0_ns li_t1_ns (\<lambda>i'. statement i' \<noteq> ocs ! i) (sl_intervals s) t" by blast
  ultimately show ?thesis
    using source ab(2,3) range clear stmt [OF i(1)] eq by (intro bexI [of _ source] exI [of _ a] exI [of _ b] exI [of _ "ocs ! i"]) auto
qed

lemma document_pointwise_witness:
  "case sample_document of
     Inr d \<Rightarrow> \<not> (\<exists>s \<in> set (ld_sources d).
       \<not> (\<exists>oc. covered li_t0_ns li_t1_ns (\<lambda>i. statement i = oc) (sl_intervals s) 9)) | Inl _ \<Rightarrow> False"
proof (cases sample_document)
  case (Inl e)
  show ?thesis using sample_document_built unfolding Inl by simp
next
  case (Inr d)
  have "\<exists>oc. covered li_t0_ns li_t1_ns (\<lambda>i. statement i = oc) (sl_intervals s) 9"
    if "s \<in> set (ld_sources d)" for s
    using document_pointwise [OF Inr [unfolded sample_document_def] that, of 9] by auto
  then show ?thesis unfolding Inr by simp
qed

lemma window_statement_no_profile:
  "window_statement raw_digest nform run a b = Inr oc \<Longrightarrow> sr_no_profile run \<Longrightarrow>
     oc = plain_outcome BLIND B_FORCED_NO_PROFILE_MODE"
  by (auto simp: window_statement_def classify_def result_simps)

lemma statement_occurs:
  assumes "build_source raw_digest nform run pb qe t0 t1 = Inr s" "t0 < t1" "i \<in> set (sl_intervals s)"
  shows "\<exists>a b. window_statement raw_digest nform run a b = Inr (statement i)"
proof -
  obtain grid ocs where grid: "sorted_wrt (<) grid"
    and ocs: "length ocs = length (zip grid (tl grid))" "sl_intervals s = foldl merge_step [] (pieces grid ocs)"
    and stmt: "\<And>i. i < length (zip grid (tl grid)) \<Longrightarrow>
       window_statement raw_digest nform run (grid ! i) (grid ! Suc i) = Inr (ocs ! i)"
    by (rule built_source [OF assms(1,2)]) (rule that)
  have "covered li_t0_ns li_t1_ns (\<lambda>j. statement j = statement i) (sl_intervals s) (li_t0_ns i)"
    using assms(3) built_proper [OF assms] by (auto simp: covered_def)
  then obtain w where w: "w \<in> set (pieces grid ocs)" "snd (snd w) = statement i"
    unfolding ocs(2) lm.merged_covered [OF tiled_pieces [OF grid ocs(1)]] by (auto simp: covered_def)
  have "length (pieces grid ocs) = length (zip grid (tl grid))"
    using arg_cong [OF pieces_windows [OF ocs(1)], of length] by simp
  with w(1) obtain j where j: "j < length (zip grid (tl grid))" "w = pieces grid ocs ! j"
    by (metis in_set_conv_nth)
  with w(2) pieces_nth [OF ocs(1) j(1)] have "ocs ! j = statement i" by simp
  with stmt [OF j(1)] show ?thesis by metis
qed

lemma statement_fields:
  "statement i = plain_outcome v r \<longleftrightarrow>
     li_verdict i = v \<and> li_reason i = r \<and> li_missing_seq i = None \<and> li_witness i = []"
  by (simp add: statement_def plain_outcome_def)

text \<open>C33. Without a profile the run claims nothing. Whenever \<open>build_liveness_document\<close> returns in the
  mode without a profile, no profile was given, the mode of the document and of every source
  is F2_NO_PROFILE, and every source has the single interval of the whole scenario, BLIND
  for that reason, with its length as the only entry of the blind volume and with no
  threshold and no suppressed time.\<close>

theorem no_profile_all_blind:
  assumes "build_liveness_document raw_digest nform config sources phases t0 t1 profile context
     query_endpoints True allow_declared verifier = Inr d"
  shows "profile = None \<and> ld_mode_global d = F2_NO_PROFILE \<and> lf_blind_by_default (ld_flags d) \<and>
    (\<forall>s \<in> set (ld_sources d). sl_mode s = F2_NO_PROFILE \<and>
       sl_intervals s = [\<lparr>li_t0_ns = t0, li_t1_ns = t1, li_verdict = BLIND,
         li_reason = B_FORCED_NO_PROFILE_MODE, li_missing_seq = None, li_witness = []\<rparr>] \<and>
       sl_blind_volume s = [(B_FORCED_NO_PROFILE_MODE, t1 - t0)] \<and> sl_suppressed_volume_ns s = 0 \<and>
       sl_threshold_ns s = None)"
proof -
  note b = built_document [OF assms]
  then have none: "profile = None" and mode: "ld_mode_global d = F2_NO_PROFILE" "lf_blind_by_default (ld_flags d)"
    by (auto simp: require_profile_def weakest_mode_def split: option.splits)
  have source: "sl_mode s = F2_NO_PROFILE \<and>
       sl_intervals s = [\<lparr>li_t0_ns = t0, li_t1_ns = t1, li_verdict = BLIND,
         li_reason = B_FORCED_NO_PROFILE_MODE, li_missing_seq = None, li_witness = []\<rparr>] \<and>
       sl_blind_volume s = [(B_FORCED_NO_PROFILE_MODE, t1 - t0)] \<and> sl_suppressed_volume_ns s = 0 \<and>
       sl_threshold_ns s = None" if mem: "s \<in> set (ld_sources d)" for s
  proof -
    obtain source where bs: "build_source raw_digest nform
        (run_of profile config phases True allow_declared verifier source)
        (boundaries phases) query_endpoints t0 t1 = Inr s" and t: "t0 < t1"
      by (rule built_document_source [OF assms mem])
    obtain cache modes where s: "s = finished_source
        (run_of profile config phases True allow_declared verifier source) cache modes (sl_intervals s)"
      by (rule built_source_field [OF bs t])
    have m: "sl_mode s = F2_NO_PROFILE" using arg_cong [OF s, of sl_mode] by (simp add: weakest_mode_def)
    obtain grid where "check_source_liveness s = Inr s" by (rule built_source [OF bs t]) (rule that)
    with m have th: "sl_threshold_ns s = None" by (auto simp: check_source_liveness_def result_simps)
    have st: "statement i = plain_outcome BLIND B_FORCED_NO_PROFILE_MODE" if i: "i \<in> set (sl_intervals s)" for i
      using statement_occurs [OF bs t i] window_statement_no_profile by force
    note tl = built_timeline [OF bs t]
    have "\<not> Suc 0 < length (sl_intervals s)"
    proof
      assume l: "Suc 0 < length (sl_intervals s)"
      with tl have "statement (sl_intervals s ! 0) \<noteq> statement (sl_intervals s ! Suc 0)" by blast
      with st l show False by (metis Suc_lessD nth_mem)
    qed
    with tl obtain i where i: "sl_intervals s = [i]" by (cases "sl_intervals s") auto
    with tl st have "i = \<lparr>li_t0_ns = t0, li_t1_ns = t1, li_verdict = BLIND,
         li_reason = B_FORCED_NO_PROFILE_MODE, li_missing_seq = None, li_witness = []\<rparr>"
      by (simp add: statement_fields)
    with m th i arg_cong [OF s, of sl_blind_volume] arg_cong [OF s, of sl_suppressed_volume_ns] show ?thesis
      by (simp add: blind_volumes_def suppressed_volume_def li_duration_def)
  qed
  with none mode show ?thesis by blast
qed

lemma no_profile_all_blind_witness:
  "case sample_document of
     Inr d \<Rightarrow> length (ld_sources d) = 2 \<and> ld_mode_global d = F2_NO_PROFILE | Inl _ \<Rightarrow> False"
proof (cases sample_document)
  case (Inl e)
  show ?thesis using sample_document_built unfolding Inl by simp
next
  case (Inr d)
  from no_profile_all_blind [OF Inr [unfolded sample_document_def]]
  show ?thesis using sample_document_built unfolding Inr by simp
qed

text \<open>The code a run is refused with: no profile without the mode, both, no context, then the gates.\<close>

definition refusal_code ::
    "string \<Rightarrow> source_profile option \<Rightarrow> binding_context option \<Rightarrow> bool \<Rightarrow> string option" where
  "refusal_code identity profile context no_profile =
     (case profile of
        None \<Rightarrow> if no_profile then None else Some ''PROFILE_INVALID''
      | Some p \<Rightarrow>
          (case context of
             None \<Rightarrow> Some ''PROFILE_INVALID''
           | Some c \<Rightarrow>
               if no_profile then Some ''PROFILE_INVALID''
               else if sp_reference_bundle_hash p = bc_bundle_hash c then Some ''PROFILE_SELF_CALIBRATED''
               else if sp_degradation_spec_hash p \<noteq> identity then Some ''PROFILE_FROM_DEGRADED_RUN''
               else if bc_seed c \<in> {fst (sp_calibration_seed_band p) .. snd (sp_calibration_seed_band p)}
                 then Some ''PROFILE_SEED_OVERLAP''
               else if sp_generator_config_hash p \<noteq> bc_generator_config_hash c then Some ''PROFILE_CONFIG_MISMATCH''
               else if sp_scenario_family p \<noteq> bc_scenario_family c then Some ''PROFILE_FAMILY_MISMATCH''
               else if sp_excluded_intervals_hash p \<noteq> bc_excluded_intervals_hash c then Some ''PROFILE_INTERVALS_MISMATCH''
               else None))"

lemma require_profile_code:
  assumes "identity_spec_hash raw_digest = Inr identity"
  shows "require_profile raw_digest profile context no_profile =
    (case refusal_code identity profile context no_profile of
       None \<Rightarrow> Inr () | Some code \<Rightarrow> raises_code ProfileError code)"
proof (cases profile)
  case None
  then show ?thesis by (simp add: require_profile_def refusal_code_def)
next
  case (Some p)
  have gates: "require_binding_gates identity p c = (case refusal_code identity (Some p) (Some c) False of
       None \<Rightarrow> Inr () | Some code \<Rightarrow> raises_code ProfileError code)" for c
    by (simp add: require_binding_gates_def check_binding_gates_def refusal_code_def)
  have "require_profile raw_digest (Some p) (Some c) False = require_binding_gates identity p c" for c
    by (simp add: require_profile_def assms)
  with gates have "require_profile raw_digest (Some p) (Some c) False =
      (case refusal_code identity (Some p) (Some c) False of
         None \<Rightarrow> Inr () | Some code \<Rightarrow> raises_code ProfileError code)" for c by simp
  then show ?thesis
    by (cases "context"; cases no_profile) (simp_all add: Some, simp_all add: require_profile_def refusal_code_def)
qed

text \<open>C34. A profile that does not fit the run yields no document. Before anything is computed
  \<open>build_liveness_document\<close> raises a ProfileError unless exactly one of a profile and the mode
  without one was given, the profile comes with its binding context, and all six gates hold;
  the code it raises is PROFILE_INVALID in the first cases and otherwise that of the first
  gate, in the order B1 to B6, that does not hold; and nothing else refuses a profile.\<close>

theorem binding_gates_enforced:
  assumes "identity_spec_hash raw_digest = Inr identity"
  shows "case refusal_code identity profile context no_profile of
      None \<Rightarrow> require_profile raw_digest profile context no_profile = Inr ()
    | Some code \<Rightarrow> build_liveness_document raw_digest nform config sources phases t0 t1 profile
        context query_endpoints no_profile allow_declared verifier = raises_code ProfileError code"
  using require_profile_code [OF assms, of profile "context" no_profile]
  by (cases "refusal_code identity profile context no_profile")
     (simp_all add: build_liveness_document_def raises_code_def)

definition sample_profile :: source_profile where
  "sample_profile = \<lparr>sp_scenario_family = ''f'', sp_generator_config_hash = ''g'',
     sp_degradation_spec_hash = ''d'', sp_calibration_seed_band = (10, 20),
     sp_reference_bundle_hash = ''r'', sp_reference_run_manifest_hash = ''m'',
     sp_excluded_intervals_hash = ''x'', sp_regime_collapsed = False, sp_sources = [],
     sp_schema = PROFILE_SCHEMA\<rparr>"

definition sample_context :: binding_context where
  "sample_context = \<lparr>bc_bundle_hash = ''b'', bc_seed = 12, bc_generator_config_hash = ''g'',
     bc_scenario_family = ''f'', bc_excluded_intervals_hash = ''x''\<rparr>"

lemma binding_gates_enforced_witness:
  "build_liveness_document echo_digest id sample_config sample_inputs sample_regimes 0 20
     (Some (sample_profile\<lparr>sp_degradation_spec_hash := projr (identity_spec_hash echo_digest)\<rparr>))
     (Some sample_context) [] False False CHAIN_LINK_CONTINUITY_ONLY =
   raises_code ProfileError ''PROFILE_SEED_OVERLAP''"
proof -
  have "isl (identity_spec_hash echo_digest) = False" by code_simp
  then have "identity_spec_hash echo_digest = Inr (projr (identity_spec_hash echo_digest))"
    by (cases "identity_spec_hash echo_digest") simp_all
  from binding_gates_enforced [OF this, of
    "Some (sample_profile\<lparr>sp_degradation_spec_hash := projr (identity_spec_hash echo_digest)\<rparr>)"
    "Some sample_context" False id sample_config sample_inputs sample_regimes 0 20 "[]" False CHAIN_LINK_CONTINUITY_ONLY]
  show ?thesis by (simp add: refusal_code_def sample_profile_def sample_context_def)
qed

end
