(* ===== verification/Licences.thy ===== *)
theory Licences
  imports Documents
begin

text \<open>
  \<^verbatim>\<open>spectra_vs/liveness.py\<close>, third part: what a liveness document licenses. The test whether a
  source was live, its maximal runs that are not, the licences of a span, the grant or refusal
  of permission for a silent step, the reading of an absence, the share of licensed time that
  rests on missing calibration, the no-tamper token; and \<open>_liveness_view\<close> of
  \<^verbatim>\<open>spectra_vs/pipeline.py\<close>, which hands the document to the envelope stage. The sealed object
  in the token is a construction guard of the language and is not modelled: the token is unit.
\<close>

section \<open>Live windows and the runs that are not\<close>

definition intervals_of :: "liveness_document \<Rightarrow> string \<Rightarrow> liveness_interval list outcome" where
  "intervals_of document source_id =
     (case document_source document source_id of
        None \<Rightarrow> raises LicenceError
      | Some entry \<Rightarrow> Inr (sl_intervals entry))"

definition interval_live :: "liveness_interval \<Rightarrow> bool" where
  "interval_live i = (li_verdict i = LIVE)"

definition live_in :: "liveness_interval list \<Rightarrow> interval \<Rightarrow> bool" where
  "live_in intervals w =
     (if intervals = [] then False
      else if is_empty w then False
      else if iv_t0 w < li_t0_ns (hd intervals) \<or> li_t1_ns (last intervals) < iv_t1 w then False
      else list_all (\<lambda>entry. \<not> (overlaps (li_interval entry) w \<and> \<not> interval_live entry)) intervals)"

definition live :: "liveness_document \<Rightarrow> string \<Rightarrow> interval \<Rightarrow> bool outcome" where
  "live document source_id w =
     andThen (intervals_of document source_id) (\<lambda>intervals. Inr (live_in intervals w))"

definition run_step :: "interval list \<Rightarrow> liveness_interval \<Rightarrow> interval list" where
  "run_step runs entry =
     (if interval_live entry then runs
      else if runs \<noteq> [] \<and> iv_t1 (last runs) = li_t0_ns entry
      then butlast runs @ [\<lparr>iv_t0 = iv_t0 (last runs), iv_t1 = li_t1_ns entry\<rparr>]
      else runs @ [li_interval entry])"

definition maximal_non_live_runs :: "liveness_document \<Rightarrow> string \<Rightarrow> interval list outcome" where
  "maximal_non_live_runs document source_id =
     andThen (intervals_of document source_id) (\<lambda>intervals. Inr (foldl run_step [] intervals))"

section \<open>Licences\<close>

definition fragment_licence ::
    "(octets \<Rightarrow> octets) \<Rightarrow> (string \<Rightarrow> string) \<Rightarrow> string \<Rightarrow> liveness_interval \<Rightarrow> licence outcome" where
  "fragment_licence raw_digest nform source_id fragment =
     andThen (if startswith source_id ''src:'' then construct SourceId source_id
              else of_snake SourceId source_id) (\<lambda>sid.
     andThen (mapM (construct EventId) (li_witness fragment)) (\<lambda>witness.
       mint_licence raw_digest nform sid (li_interval fragment)
         (if li_verdict fragment = SUPPRESSED then LB_SUPPRESSED else LB_BLIND)
         (reason_text (li_reason fragment)) witness))"

definition licences_for ::
    "(octets \<Rightarrow> octets) \<Rightarrow> (string \<Rightarrow> string) \<Rightarrow> liveness_document \<Rightarrow> string \<Rightarrow> interval
     \<Rightarrow> licence list outcome" where
  "licences_for raw_digest nform document source_id w =
     andThen (intervals_of document source_id) (\<lambda>entry_list.
     andThen (guard (\<not> is_empty w) LicenceError) (\<lambda>_.
       let covering = filter (\<lambda>e. overlaps (li_interval e) w) entry_list
       in andThen (guard (covering \<noteq> []) LicenceError) (\<lambda>_.
          andThen (guard (\<not> (iv_t0 w < li_t0_ns (hd covering) \<or> li_t1_ns (last covering) < iv_t1 w))
                     LicenceError) (\<lambda>_.
          andThen (guard (\<not> list_ex interval_live covering) LicenceError) (\<lambda>_.
          andThen (mapM (fragment_licence raw_digest nform source_id) covering) (\<lambda>licences.
            Inr (sort_key licence_sort_key licences)))))))"

text \<open>\<open>all(test(s) for s in sources)\<close>: it stops at the first False and at the first failure.\<close>

fun all_sources :: "(string \<Rightarrow> bool outcome) \<Rightarrow> string list \<Rightarrow> bool outcome" where
  "all_sources test [] = Inr True"
| "all_sources test (s # sources) =
     andThen (test s) (\<lambda>b. if b then all_sources test sources else Inr False)"

definition not_live :: "liveness_document \<Rightarrow> interval \<Rightarrow> string \<Rightarrow> bool outcome" where
  "not_live document w source_id = andThen (live document source_id w) (\<lambda>b. Inr (\<not> b))"

definition licence_condition :: "liveness_document \<Rightarrow> string list \<Rightarrow> interval \<Rightarrow> bool outcome" where
  "licence_condition document producing_sources w =
     (if producing_sources = [] then Inr False
      else all_sources (not_live document w) producing_sources)"

record voided_licence =
  vo_license_id :: string
  vo_source_id :: string
  vo_t0_ns :: nanos
  vo_t1_ns :: nanos
  vo_reason :: string

record licence_issue =
  is_granted :: bool
  is_licences :: "licence list"
  is_voided :: "voided_licence list"
  is_blocked_sources :: "string list"
  is_voided_by_tampering :: bool

definition refusal :: licence_issue where
  "refusal = \<lparr>is_granted = False, is_licences = [], is_voided = [], is_blocked_sources = [],
     is_voided_by_tampering = False\<rparr>"

definition voided_of :: "licence \<Rightarrow> voided_licence" where
  "voided_of l = \<lparr>vo_license_id = lic_id l, vo_source_id = snake_of SourceId (lic_source_id l),
     vo_t0_ns = lic_t0_ns l, vo_t1_ns = lic_t1_ns l, vo_reason = lic_reason l\<rparr>"

text \<open>The loop over the sources; a LicenceError of \<open>licences_for\<close> blocks the source, any other
  failure passes through.\<close>

fun ask_sources ::
    "(octets \<Rightarrow> octets) \<Rightarrow> (string \<Rightarrow> string) \<Rightarrow> liveness_document \<Rightarrow> interval \<Rightarrow> string list
     \<Rightarrow> string list \<times> licence list \<Rightarrow> (string list \<times> licence list) outcome" where
  "ask_sources raw_digest nform document w [] state = Inr state"
| "ask_sources raw_digest nform document w (s # sources) (blocked, collected) =
     andThen (live document s w) (\<lambda>b.
       if b then ask_sources raw_digest nform document w sources (blocked @ [s], collected)
       else case licences_for raw_digest nform document s w of
         Inr licences \<Rightarrow>
           ask_sources raw_digest nform document w sources (blocked, collected @ licences)
       | Inl e \<Rightarrow>
           (if error_exn e = LicenceError
            then ask_sources raw_digest nform document w sources (blocked @ [s], collected)
            else Inl e))"

definition issue_licences ::
    "(octets \<Rightarrow> octets) \<Rightarrow> (string \<Rightarrow> string) \<Rightarrow> liveness_document \<Rightarrow> string list \<Rightarrow> interval
     \<Rightarrow> string list \<Rightarrow> licence_issue outcome" where
  "issue_licences raw_digest nform document producing_sources w voided_license_ids =
     (if producing_sources = [] then Inr refusal
      else andThen (sorted_unique producing_sources) (\<lambda>sources.
           andThen (ask_sources raw_digest nform document w sources ([], [])) (\<lambda>(blocked, collected).
             if blocked \<noteq> [] then Inr (refusal\<lparr>is_blocked_sources := blocked\<rparr>)
             else
               let voided = map voided_of (filter (\<lambda>l. lic_id l \<in> set voided_license_ids) collected)
               in if voided \<noteq> []
                  then Inr (refusal\<lparr>
                    is_voided := sort_key (\<lambda>v. (vo_source_id v, vo_t0_ns v, vo_t1_ns v)) voided,
                    is_voided_by_tampering := True\<rparr>)
                  else Inr (refusal\<lparr>is_granted := True,
                    is_licences := sort_key licence_sort_key collected\<rparr>))))"

section \<open>Absence\<close>

datatype absence_reading = AB_OBSERVED | AB_LICENSED | AB_UNDETERMINED

definition absence_status ::
    "liveness_document \<Rightarrow> string list \<Rightarrow> interval \<Rightarrow> absence_reading outcome" where
  "absence_status document producing_sources lookback =
     (if producing_sources = [] then Inr AB_UNDETERMINED
      else andThen (all_sources (\<lambda>s. live document s lookback) producing_sources) (\<lambda>all_live.
        if all_live then Inr AB_OBSERVED
        else andThen (all_sources (not_live document lookback) producing_sources) (\<lambda>none_live.
          Inr (if none_live then AB_LICENSED else AB_UNDETERMINED))))"

section \<open>Calibration deficiency\<close>

function euclid :: "int \<Rightarrow> int \<Rightarrow> int" where
  "euclid a b = (if b = 0 then a else euclid b (a mod b))"
  by pat_completeness auto
termination
  by (relation "measure (\<lambda>(a, b). nat \<bar>b\<bar>)") (auto simp: abs_mod_less)

declare euclid.simps [simp del]

definition deficient_reason :: "string \<Rightarrow> bool" where
  "deficient_reason text =
     (case reason_of text of None \<Rightarrow> False | Some r \<Rightarrow> r \<in> set CALIBRATION_DEFICIENCY_REASONS)"

definition deficiency_spans :: "licence list \<Rightarrow> int \<times> int" where
  "deficiency_spans licences = foldl (\<lambda>(deficient, total) l.
     let span = lic_t1_ns l - lic_t0_ns l
     in (if deficient_reason (lic_reason l) then deficient + span else deficient, total + span))
     (0, 0) licences"

definition calibration_deficiency :: "licence list \<Rightarrow> (int \<times> int) outcome" where
  "calibration_deficiency licences =
     (let (deficient, total) = deficiency_spans licences
      in if total = 0 then Inr (0, 1)
         else let divisor = euclid deficient total
              in if divisor = 0 then Inr (0, 1)
                 else let num = deficient div divisor; den = total div divisor
                      in if 2 ^ 32 - 1 < den \<or> 2 ^ 32 - 1 < num
                         then raises_code CanonError ''E-CANON-WIDTH'' else Inr (num, den))"

section \<open>The no-tamper token\<close>

definition no_tamper_token :: "liveness_document \<Rightarrow> unit option" where
  "no_tamper_token d =
     (if lf_verdict_tamper_sensitive (ld_flags d) then None
      else if list_ex sl_tamper_suspected (ld_sources d) then None else Some ())"

section \<open>The view of the envelope stage\<close>

definition view_interval_of :: "liveness_interval \<Rightarrow> view_interval outcome" where
  "view_interval_of i =
     andThen (mapM (construct EventId) (li_witness i)) (\<lambda>witness.
       check_view_interval \<lparr>vi_t0_ns = li_t0_ns i, vi_t1_ns = li_t1_ns i, vi_verdict = li_verdict i,
         vi_reason = reason_text (li_reason i), vi_witness = witness\<rparr>)"

definition view_source_of :: "source_liveness \<Rightarrow> view_source outcome" where
  "view_source_of s =
     andThen (mapM view_interval_of (sl_intervals s)) (\<lambda>intervals.
       check_view_source \<lparr>vs_source_id = sl_source_id s, vs_integrity_class = sl_integrity_class s,
         vs_intervals = intervals\<rparr>)"

definition liveness_view_of :: "liveness_document \<Rightarrow> liveness_view outcome" where
  "liveness_view_of d =
     andThen (mapM view_source_of (ld_sources d)) (\<lambda>sources.
       check_liveness_view (sort_key vs_source_id sources))"

section \<open>Timelines without holes\<close>

definition gapless :: "liveness_interval list \<Rightarrow> bool" where
  "gapless xs \<longleftrightarrow> xs \<noteq> [] \<and> tiled li_t0_ns li_t1_ns xs \<and> (\<forall>i \<in> set xs. li_t0_ns i < li_t1_ns i) \<and>
     (\<forall>i. Suc i < length xs \<longrightarrow> li_t1_ns (xs ! i) = li_t0_ns (xs ! Suc i))"

abbreviation covers_instant :: "(liveness_interval \<Rightarrow> bool) \<Rightarrow> liveness_interval list \<Rightarrow> nanos \<Rightarrow> bool" where
  "covers_instant P xs t \<equiv> covered li_t0_ns li_t1_ns P xs t"

lemma contiguous_covers:
  "xs \<noteq> [] \<Longrightarrow> \<forall>i. Suc i < length xs \<longrightarrow> li_t1_ns (xs ! i) = li_t0_ns (xs ! Suc i) \<Longrightarrow>
     li_t0_ns (hd xs) \<le> t \<Longrightarrow> t < li_t1_ns (last xs) \<Longrightarrow> \<exists>i \<in> set xs. li_t0_ns i \<le> t \<and> t < li_t1_ns i"
proof (induction xs rule: induct_list012)
  case (3 x y zs)
  show ?case
  proof (cases "t < li_t1_ns x")
    case False
    have "li_t1_ns x = li_t0_ns y" using "3.prems"(2) [rule_format, of 0] by simp
    moreover have "\<forall>i. Suc i < length (y # zs) \<longrightarrow> li_t1_ns ((y # zs) ! i) = li_t0_ns ((y # zs) ! Suc i)"
      using "3.prems"(2) by (metis Suc_less_eq length_Cons nth_Cons_Suc)
    ultimately show ?thesis using "3.IH"(2) "3.prems"(4) False by auto
  qed (use "3.prems" in auto)
qed auto

lemma tiled_extent:
  assumes "tiled li_t0_ns li_t1_ns xs" "i \<in> set xs"
  shows "li_t0_ns (hd xs) \<le> li_t0_ns i \<and> li_t1_ns i \<le> li_t1_ns (last xs)"
  using assms
proof (induction xs)
  case (Cons x xs)
  show ?case
  proof (cases "xs = []")
    case False
    then have "li_t1_ns x \<le> li_t0_ns (last xs)" "li_t0_ns (last xs) \<le> li_t1_ns (last xs)"
      "li_t0_ns x \<le> li_t1_ns x" "\<forall>y \<in> set xs. li_t1_ns x \<le> li_t0_ns y"
      using Cons.prems(1) by (auto simp: tiled_def)
    then have "li_t1_ns x \<le> li_t1_ns (last xs)" by linarith
    with Cons.IH Cons.prems False \<open>li_t0_ns x \<le> li_t1_ns x\<close> show ?thesis
      by (cases "i = x") (auto simp: tiled_Cons)
  qed (use Cons.prems in simp)
qed simp

lemma live_in_instants:
  assumes "gapless xs" "iv_t0 w \<le> iv_t1 w"
  shows "live_in xs w \<longleftrightarrow> \<not> is_empty w \<and> (\<forall>t \<in> instants w. covers_instant interval_live xs t)"
proof (cases "is_empty w")
  case True
  then show ?thesis by (simp add: live_in_def)
next
  case False
  have ne: "xs \<noteq> []" and tl: "tiled li_t0_ns li_t1_ns xs" and proper: "\<forall>i \<in> set xs. li_t0_ns i < li_t1_ns i"
    and contig: "\<forall>i. Suc i < length xs \<longrightarrow> li_t1_ns (xs ! i) = li_t0_ns (xs ! Suc i)"
    using assms(1) by (auto simp: gapless_def)
  have w: "iv_t0 w < iv_t1 w" using False assms(2) by (simp add: is_empty_def)
  show ?thesis
  proof
    assume l: "live_in xs w"
    have "covers_instant interval_live xs t" if t: "t \<in> instants w" for t
    proof -
      have "li_t0_ns (hd xs) \<le> t" "t < li_t1_ns (last xs)"
        using l t ne by (auto simp: live_in_def instants_def split: if_splits)
      with contiguous_covers [OF ne contig] obtain i where i: "i \<in> set xs" "li_t0_ns i \<le> t" "t < li_t1_ns i"
        by blast
      then have "overlaps (li_interval i) w" using t by (auto simp: overlaps_def li_interval_def instants_def)
      with l i(1) ne have "interval_live i" by (auto simp: live_in_def list_all_iff split: if_splits)
      with i show ?thesis by (auto simp: covered_def)
    qed
    with False show "\<not> is_empty w \<and> (\<forall>t \<in> instants w. covers_instant interval_live xs t)" by blast
  next
    assume "\<not> is_empty w \<and> (\<forall>t \<in> instants w. covers_instant interval_live xs t)"
    then have cov: "\<And>t. t \<in> instants w \<Longrightarrow> covers_instant interval_live xs t" by blast
    have "iv_t0 w \<in> instants w" "iv_t1 w - 1 \<in> instants w" using w by (auto simp: instants_def)
    then have "li_t0_ns (hd xs) \<le> iv_t0 w" "iv_t1 w \<le> li_t1_ns (last xs)"
      using cov [of "iv_t0 w"] cov [of "iv_t1 w - 1"] tiled_extent [OF tl] by (force simp: covered_def)+
    moreover have "interval_live i" if i: "i \<in> set xs" "overlaps (li_interval i) w" for i
    proof (rule ccontr)
      assume dead: "\<not> interval_live i"
      define t where "t = max (li_t0_ns i) (iv_t0 w)"
      have "t \<in> instants w" "li_t0_ns i \<le> t" "t < li_t1_ns i"
        using i proper w by (auto simp: t_def instants_def overlaps_def li_interval_def)
      with dead i(1) covered_conflict [OF tl cov [OF \<open>t \<in> instants w\<close>]] show False
        by (auto simp: covered_def)
    qed
    ultimately show "live_in xs w" using ne False by (auto simp: live_in_def list_all_iff)
  qed
qed

lemma built_gapless:
  assumes "build_source raw_digest nform run pb qe t0 t1 = Inr s" "t0 < t1"
  shows "gapless (sl_intervals s)"
  using built_timeline [OF assms] built_proper [OF assms] by (simp add: gapless_def)

definition sound_document :: "liveness_document \<Rightarrow> bool" where
  "sound_document d \<longleftrightarrow> sorted_wrt (<) (map sl_source_id (ld_sources d)) \<and>
     (\<forall>s \<in> set (ld_sources d). gapless (sl_intervals s) \<and>
        construct SourceId (sl_source_id s) = Inr (sl_source_id s))"

lemma built_sound:
  assumes "build_liveness_document raw_digest nform config sources phases t0 t1 profile context
     query_endpoints no_profile allow_declared verifier = Inr d"
    and ids: "\<forall>source \<in> set sources. construct SourceId (si_source_id source) = Inr (si_source_id source)"
  shows "sound_document d"
proof -
  have "gapless (sl_intervals s) \<and> construct SourceId (sl_source_id s) = Inr (sl_source_id s)"
    if mem: "s \<in> set (ld_sources d)" for s
  proof -
    obtain source where source: "source \<in> set sources" "sl_source_id s = si_source_id source"
      and bs: "build_source raw_digest nform
        (run_of profile config phases no_profile allow_declared verifier source)
        (boundaries phases) query_endpoints t0 t1 = Inr s" and t: "t0 < t1"
      by (rule built_document_source [OF assms(1) mem])
    show ?thesis using built_gapless [OF bs t] ids source by simp
  qed
  moreover have "strictly_ascending (map sl_source_id (ld_sources d))"
    using built_document [OF assms(1)] by blast
  ultimately show ?thesis by (simp add: sound_document_def strictly_ascending_sorted_wrt)
qed

lemma snake_no_colon: "is_snake s \<Longrightarrow> CHR '':'' \<notin> set s"
  by (auto simp: is_snake_def is_lower_def is_digit_def split: list.splits)

lemma source_id_snake:
  assumes "construct SourceId v = Inr v"
  shows "v = ''src:'' @ snake_of SourceId v \<and> CHR '':'' \<notin> set (snake_of SourceId v)"
proof -
  from assms obtain body where "v = ''src:'' @ body" "is_snake body" by (auto simp: construct_eq_Inr)
  then show ?thesis using snake_no_colon by (simp add: snake_of_def)
qed

lemma list_all2_member:
  assumes "list_all2 P xs ys"
  shows "x \<in> set xs \<Longrightarrow> \<exists>y \<in> set ys. P x y" "y \<in> set ys \<Longrightarrow> \<exists>x \<in> set xs. P x y"
  using assms by (induction rule: list_all2_induct) auto

lemma document_source_found:
  assumes "sound_document d" "s \<in> set (ld_sources d)"
  shows "document_source d (sl_source_id s) = Some s"
proof -
  have valid: "construct SourceId (sl_source_id s') = Inr (sl_source_id s')" if "s' \<in> set (ld_sources d)" for s'
    using assms(1) that by (simp add: sound_document_def)
  have only: "s' = s" if s': "s' \<in> set (ld_sources d)"
    and hit: "sl_source_id s' = sl_source_id s \<or> snake_of SourceId (sl_source_id s') = sl_source_id s" for s'
  proof -
    have "CHR '':'' \<in> set (sl_source_id s)"
      using source_id_snake [OF valid [OF assms(2)]] by (metis Un_iff insert_iff list.set(2) set_append)
    with hit source_id_snake [OF valid [OF s']] have "sl_source_id s' = sl_source_id s" by auto
    moreover have "distinct (map sl_source_id (ld_sources d))"
      using assms(1) strict_sorted_iff by (auto simp: sound_document_def)
    ultimately show ?thesis using s' assms(2) by (metis distinct_map inj_onD)
  qed
  have "document_source d (sl_source_id s) \<noteq> None"
    using assms(2) by (auto simp: document_source_def find_None_iff)
  then obtain s' where s': "document_source d (sl_source_id s) = Some s'" by blast
  then have "s' \<in> set (ld_sources d)" "sl_source_id s' = sl_source_id s \<or> snake_of SourceId (sl_source_id s') = sl_source_id s"
    by (auto simp: document_source_def find_Some_iff)
  with only s' show ?thesis by blast
qed

lemma intervals_of_found:
  "sound_document d \<Longrightarrow> s \<in> set (ld_sources d) \<Longrightarrow> intervals_of d (sl_source_id s) = Inr (sl_intervals s)"
  by (simp add: intervals_of_def document_source_found)

section \<open>The view\<close>

lemma view_interval_of_fields:
  "view_interval_of i = Inr v \<Longrightarrow> vi_t0_ns v = li_t0_ns i \<and> vi_t1_ns v = li_t1_ns i
     \<and> vi_verdict v = li_verdict i \<and> vi_reason v = reason_text (li_reason i)"
  by (auto simp: view_interval_of_def check_view_interval_def result_simps)

lemma view_source_of_fields:
  "view_source_of s = Inr v \<Longrightarrow> vs_source_id v = sl_source_id s \<and>
     mapM view_interval_of (sl_intervals s) = Inr (vs_intervals v)"
  by (auto simp: view_source_of_def check_view_source_def result_simps)

lemma covered_map:
  "list_all2 (\<lambda>x y. lo x = lo' y \<and> hi x = hi' y \<and> P x = P' y) xs ys \<Longrightarrow> covered lo hi P xs t = covered lo' hi' P' ys t"
  by (induction rule: list_all2_induct) auto

lemma timeline_find:
  "sorted_wrt (<) (map vs_source_id view) \<Longrightarrow> v \<in> set view \<Longrightarrow> timeline view (vs_source_id v) = vs_intervals v"
  by (induction view) (auto simp: image_iff)

lemma view_of_document:
  assumes "sound_document d" "liveness_view_of d = Inr view" "s \<in> set (ld_sources d)"
  shows "list_all2 (\<lambda>i v. li_t0_ns i = vi_t0_ns v \<and> li_t1_ns i = vi_t1_ns v \<and> li_verdict i = vi_verdict v)
    (sl_intervals s) (timeline view (sl_source_id s))"
proof -
  from assms(2) obtain vs where vs: "mapM view_source_of (ld_sources d) = Inr vs"
    and view: "view = sort_key vs_source_id vs"
    by (auto simp: liveness_view_of_def check_liveness_view_def result_simps)
  from vs have all: "list_all2 (\<lambda>s v. view_source_of s = Inr v) (ld_sources d) vs"
    by (simp add: mapM_eq_Inr_list_all2)
  then have "map vs_source_id vs = map sl_source_id (ld_sources d)"
    by (induction rule: list_all2_induct) (simp_all add: view_source_of_fields)
  then have asc: "sorted_wrt (<) (map vs_source_id vs)" using assms(1) by (simp add: sound_document_def)
  then have vv: "view = vs" unfolding view by (intro sort_key_id_if_sorted) (simp add: strict_sorted_iff)
  obtain v where v: "v \<in> set vs" "view_source_of s = Inr v"
    using list_all2_member(1) [OF all assms(3)] by blast
  then have "timeline view (sl_source_id s) = vs_intervals v"
    using timeline_find [OF asc v(1)] view_source_of_fields [OF v(2)] vv by simp
  moreover have "list_all2 (\<lambda>i v. view_interval_of i = Inr v) (sl_intervals s) (vs_intervals v)"
    using view_source_of_fields [OF v(2)] by (simp add: mapM_eq_Inr_list_all2)
  then have "list_all2 (\<lambda>i v. li_t0_ns i = vi_t0_ns v \<and> li_t1_ns i = vi_t1_ns v \<and> li_verdict i = vi_verdict v)
      (sl_intervals s) (vs_intervals v)"
    by (rule list_all2_mono) (simp add: view_interval_of_fields)
  ultimately show ?thesis by simp
qed

lemma view_instants:
  assumes "sound_document d" "liveness_view_of d = Inr view" "s \<in> set (ld_sources d)"
  shows "live_at view (sl_source_id s) t \<longleftrightarrow> covers_instant interval_live (sl_intervals s) t"
    and "dark_at view (sl_source_id s) t \<longleftrightarrow> covers_instant (\<lambda>i. \<not> interval_live i) (sl_intervals s) t"
proof -
  note v = view_of_document [OF assms]
  show "live_at view (sl_source_id s) t \<longleftrightarrow> covers_instant interval_live (sl_intervals s) t"
    unfolding live_at_def
    by (rule sym, rule covered_map, rule list_all2_mono [OF v]) (simp add: is_live_def interval_live_def)
  show "dark_at view (sl_source_id s) t \<longleftrightarrow> covers_instant (\<lambda>i. \<not> interval_live i) (sl_intervals s) t"
    unfolding dark_at_def
    by (rule sym, rule covered_map, rule list_all2_mono [OF v]) (simp add: is_live_def interval_live_def)
qed

lemma view_tiled:
  assumes "sound_document d" "liveness_view_of d = Inr view"
  shows "tiled_view view"
proof -
  from assms(2) obtain vs where vs: "mapM view_source_of (ld_sources d) = Inr vs"
    and view: "set view = set vs"
    by (auto simp: liveness_view_of_def check_liveness_view_def result_simps)
  have "tiled vi_t0_ns vi_t1_ns (vs_intervals v)" if mem: "v \<in> set vs" for v
  proof -
    obtain s where s: "s \<in> set (ld_sources d)" "view_source_of s = Inr v"
      using list_all2_member(2) [OF vs [unfolded mapM_eq_Inr_list_all2] mem] by blast
    have "list_all2 (\<lambda>i v. view_interval_of i = Inr v) (sl_intervals s) (vs_intervals v)"
      using view_source_of_fields [OF s(2)] by (simp add: mapM_eq_Inr_list_all2)
    then have "map (\<lambda>i. (li_t0_ns i, li_t1_ns i)) (sl_intervals s) = map (\<lambda>v. (vi_t0_ns v, vi_t1_ns v)) (vs_intervals v)"
      by (induction rule: list_all2_induct) (simp_all add: view_interval_of_fields)
    from tiled_same [OF this] assms(1) s(1) show ?thesis by (auto simp: sound_document_def gapless_def)
  qed
  with view show ?thesis by (simp add: tiled_view_def)
qed

section \<open>Which failures are licence errors\<close>

definition spares_licences :: "'a outcome \<Rightarrow> bool" where
  "spares_licences r \<longleftrightarrow> (\<forall>e. r = Inl e \<longrightarrow> error_exn e \<noteq> LicenceError)"

lemma spares_Inr [intro!]: "spares_licences (Inr x)"
  by (simp add: spares_licences_def)

lemma spares_andThen [intro!]:
  "spares_licences r \<Longrightarrow> (\<And>x. spares_licences (f x)) \<Longrightarrow> spares_licences (andThen r f)"
  by (cases r) (auto simp: spares_licences_def)

lemma spares_raises [intro!]:
  "x \<noteq> LicenceError \<Longrightarrow> spares_licences (raises x)"
  "x \<noteq> LicenceError \<Longrightarrow> spares_licences (raises_code x c)"
  "x \<noteq> LicenceError \<Longrightarrow> spares_licences (guard b x)"
  "x \<noteq> LicenceError \<Longrightarrow> spares_licences (guard_code b x c)"
  by (simp_all add: spares_licences_def raises_def raises_code_def guard_def guard_code_def require_def)

lemma spares_mapM [intro]: "(\<And>x. x \<in> set xs \<Longrightarrow> spares_licences (f x)) \<Longrightarrow> spares_licences (mapM f xs)"
  by (induction xs) auto

lemma spares_if [intro!]:
  "spares_licences a \<Longrightarrow> spares_licences b \<Longrightarrow> spares_licences (if c then a else b)"
  by simp

lemma spares_encoders [intro!]:
  "spares_licences (u32 n)" "spares_licences (blob x)" "spares_licences (i64 i)"
  "spares_licences (ascii_text x)" "spares_licences (utf8_text nform x)"
  by (auto simp: u32_def uint_def blob_def i64_def ascii_text_def utf8_text_def nfc_def Let_def)

lemma spares_join [intro!]: "(\<And>p. p \<in> set parts \<Longrightarrow> spares_licences p) \<Longrightarrow> spares_licences (join_parts parts)"
  by (auto simp: join_parts_def)

lemma spares_digest [intro!]:
  "spares_licences (digest raw_digest kind payload)" "spares_licences (digest_hex raw_digest kind payload n)"
  by (auto simp: digest_hex_def digest_def leb128_def Let_def)

lemma spares_ids [intro!]:
  "spares_licences (construct t v)" "spares_licences (of_snake t v)" "spares_licences (mint raw_digest t v)"
  by (auto simp: construct_def of_snake_def check_snake_def mint_def)

lemma spares_mint [intro!]: "spares_licences (mint_licence raw_digest nform s w b re wi)"
  by (auto simp: mint_licence_def licence_payload_def check_licence_def Interval_def check_nanos_def
      check_strictly_ascending_def)

lemma spares_fragment: "spares_licences (fragment_licence raw_digest nform s i)"
  by (auto simp: fragment_licence_def)

section \<open>Licensed spans\<close>

definition licensable :: "liveness_interval list \<Rightarrow> interval \<Rightarrow> bool" where
  "licensable xs w =
     (let covering = filter (\<lambda>e. overlaps (li_interval e) w) xs
      in \<not> is_empty w \<and> covering \<noteq> [] \<and> \<not> (iv_t0 w < li_t0_ns (hd covering) \<or> li_t1_ns (last covering) < iv_t1 w)
         \<and> \<not> list_ex interval_live covering)"

lemma licences_for_unfold:
  assumes "intervals_of d s = Inr xs"
  shows "licences_for raw_digest nform d s w =
    (if licensable xs w
     then andThen (mapM (fragment_licence raw_digest nform s) (filter (\<lambda>e. overlaps (li_interval e) w) xs))
            (\<lambda>licences. Inr (sort_key licence_sort_key licences))
     else raises LicenceError)"
  by (auto simp: licences_for_def assms licensable_def Let_def raises_def guard_def require_def)

lemma licensable_instants:
  assumes "gapless xs" "iv_t0 w \<le> iv_t1 w"
  shows "licensable xs w \<longleftrightarrow> \<not> is_empty w \<and> (\<forall>t \<in> instants w. covers_instant (\<lambda>i. \<not> interval_live i) xs t)"
proof (cases "is_empty w")
  case True
  then show ?thesis by (simp add: licensable_def)
next
  case False
  have ne: "xs \<noteq> []" and tl: "tiled li_t0_ns li_t1_ns xs" and proper: "\<forall>i \<in> set xs. li_t0_ns i < li_t1_ns i"
    and contig: "\<forall>i. Suc i < length xs \<longrightarrow> li_t1_ns (xs ! i) = li_t0_ns (xs ! Suc i)"
    using assms(1) by (auto simp: gapless_def)
  have w: "iv_t0 w < iv_t1 w" using False assms(2) by (simp add: is_empty_def)
  define cov where "cov = filter (\<lambda>e. overlaps (li_interval e) w) xs"
  have hit: "i \<in> set cov" if "i \<in> set xs" "t \<in> instants w" "li_t0_ns i \<le> t" "t < li_t1_ns i" for i t
    using that by (auto simp: cov_def overlaps_def li_interval_def instants_def)
  have tcov: "tiled li_t0_ns li_t1_ns cov" unfolding cov_def by (rule tiled_filter [OF tl])
  show ?thesis
  proof
    assume "licensable xs w"
    then have l: "cov \<noteq> []" "li_t0_ns (hd cov) \<le> iv_t0 w" "iv_t1 w \<le> li_t1_ns (last cov)" "\<not> list_ex interval_live cov"
      by (auto simp: licensable_def Let_def cov_def)
    have "hd cov \<in> set xs" "last cov \<in> set xs"
      using l(1) by (auto simp: cov_def dest: hd_in_set last_in_set)
    with l tiled_extent [OF tl] have ends: "li_t0_ns (hd xs) \<le> iv_t0 w" "iv_t1 w \<le> li_t1_ns (last xs)" by force+
    have "covers_instant (\<lambda>i. \<not> interval_live i) xs t" if t: "t \<in> instants w" for t
    proof -
      have "li_t0_ns (hd xs) \<le> t" "t < li_t1_ns (last xs)" using t ends by (auto simp: instants_def)
      with contiguous_covers [OF ne contig] obtain i where i: "i \<in> set xs" "li_t0_ns i \<le> t" "t < li_t1_ns i"
        by blast
      with hit [OF i(1) t] l(4) show ?thesis by (auto simp: covered_def list_ex_iff)
    qed
    with False show "\<not> is_empty w \<and> (\<forall>t \<in> instants w. covers_instant (\<lambda>i. \<not> interval_live i) xs t)" by blast
  next
    assume "\<not> is_empty w \<and> (\<forall>t \<in> instants w. covers_instant (\<lambda>i. \<not> interval_live i) xs t)"
    then have dark: "\<And>t. t \<in> instants w \<Longrightarrow> covers_instant (\<lambda>i. \<not> interval_live i) xs t" by blast
    have in_w: "iv_t0 w \<in> instants w" "iv_t1 w - 1 \<in> instants w" using w by (auto simp: instants_def)
    obtain i where i: "i \<in> set cov" "li_t0_ns i \<le> iv_t0 w"
      using dark [OF in_w(1)] hit in_w(1) by (auto simp: covered_def)
    obtain j where j: "j \<in> set cov" "iv_t1 w \<le> li_t1_ns j"
      using dark [OF in_w(2)] hit in_w(2) by (force simp: covered_def)
    have "\<not> interval_live k" if k: "k \<in> set cov" for k
    proof
      assume live: "interval_live k"
      define t where "t = max (li_t0_ns k) (iv_t0 w)"
      have k': "k \<in> set xs" "overlaps (li_interval k) w" using k by (simp_all add: cov_def)
      then have t: "t \<in> instants w" "li_t0_ns k \<le> t" "t < li_t1_ns k"
        using proper w by (auto simp: t_def instants_def overlaps_def li_interval_def)
      then obtain l where "l \<in> set xs" "\<not> interval_live l" "li_t0_ns l \<le> t" "t < li_t1_ns l"
        using dark by (auto simp: covered_def)
      with tiled_disjoint [OF tl k'(1), of l t] t live show False by blast
    qed
    then have "\<not> list_ex interval_live cov" by (simp add: list_ex_iff)
    moreover have "cov \<noteq> []" using i(1) by auto
    moreover have "li_t0_ns (hd cov) \<le> iv_t0 w" "iv_t1 w \<le> li_t1_ns (last cov)"
      using tiled_extent [OF tcov i(1)] tiled_extent [OF tcov j(1)] i(2) j(2) by simp_all
    ultimately show "licensable xs w" using False by (simp add: licensable_def cov_def)
  qed
qed

section \<open>Properties\<close>

text \<open>C36. The liveness stage and the envelope stage read one document the same way. For a document
  that was built from sources with proper identifiers, and the view that \<open>_liveness_view\<close> makes
  of it: a window is live on a source by the document exactly if it is by the view, namely
  if it is not empty and every instant of it lies in a LIVE interval; and a window has licences on a
  source exactly if the view finds covering runs, namely if it is not empty and no instant of it
  lies in a LIVE interval or outside the timeline; otherwise \<open>licences_for\<close> raises a LicenceError.\<close>

theorem stages_agree:
  assumes "build_liveness_document raw_digest nform config sources phases t0 t1 profile context
     query_endpoints no_profile allow_declared verifier = Inr d"
    and "\<forall>source \<in> set sources. construct SourceId (si_source_id source) = Inr (si_source_id source)"
    and "liveness_view_of d = Inr view" and "s \<in> set (ld_sources d)" and "iv_t0 w \<le> iv_t1 w"
  shows "live d (sl_source_id s) w = Inr (view_live view (sl_source_id s) w) \<and>
    (view_live view (sl_source_id s) w \<longleftrightarrow>
       \<not> is_empty w \<and> (\<forall>t \<in> instants w. covered li_t0_ns li_t1_ns interval_live (sl_intervals s) t)) \<and>
    licences_for raw_digest nform d (sl_source_id s) w =
      (if covering_runs view (sl_source_id s) w = None then raises LicenceError
       else andThen (mapM (fragment_licence raw_digest nform (sl_source_id s))
                (filter (\<lambda>e. overlaps (li_interval e) w) (sl_intervals s)))
              (\<lambda>licences. Inr (sort_key licence_sort_key licences))) \<and>
    (covering_runs view (sl_source_id s) w \<noteq> None \<longleftrightarrow>
       \<not> is_empty w \<and> (\<forall>t \<in> instants w. covered li_t0_ns li_t1_ns (\<lambda>i. \<not> interval_live i) (sl_intervals s) t))"
proof -
  note sound = built_sound [OF assms(1,2)]
  note found = intervals_of_found [OF sound assms(4)]
  have gl: "gapless (sl_intervals s)" using sound assms(4) by (simp add: sound_document_def)
  note tiled = view_tiled [OF sound assms(3)]
  note at = view_instants [OF sound assms(3,4)]
  have v: "view_live view (sl_source_id s) w \<longleftrightarrow>
       \<not> is_empty w \<and> (\<forall>t \<in> instants w. covers_instant interval_live (sl_intervals s) t)"
    unfolding view_live_eq [OF tiled assms(5)] at ..
  have c: "covering_runs view (sl_source_id s) w \<noteq> None \<longleftrightarrow>
       \<not> is_empty w \<and> (\<forall>t \<in> instants w. covers_instant (\<lambda>i. \<not> interval_live i) (sl_intervals s) t)"
    unfolding covering_runs_eq [OF tiled assms(5)] at ..
  have "live d (sl_source_id s) w = Inr (view_live view (sl_source_id s) w)"
    unfolding v by (simp add: live_def found live_in_instants [OF gl assms(5)])
  moreover have "covering_runs view (sl_source_id s) w = None \<longleftrightarrow> \<not> licensable (sl_intervals s) w"
    using c licensable_instants [OF gl assms(5)] by blast
  ultimately show ?thesis using v c by (simp add: licences_for_unfold [OF found])
qed

definition sample_window :: interval where
  "sample_window = \<lparr>iv_t0 = 5, iv_t1 = 9\<rparr>"

lemma sample_view_built:
  "case sample_document of Inr d \<Rightarrow>
     (case liveness_view_of d of Inr view \<Rightarrow> ld_sources d \<noteq> [] \<and> sl_source_id (hd (ld_sources d)) = ''src:a''
        \<and> covering_runs view ''src:a'' sample_window \<noteq> None | Inl _ \<Rightarrow> False) | Inl _ \<Rightarrow> False"
  by code_simp

lemma sample_ids_ok: "\<forall>source \<in> set sample_inputs. construct SourceId (si_source_id source) = Inr (si_source_id source)"
  by code_simp

lemma sample_view_obtained:
  obtains d view where "sample_document = Inr d" "liveness_view_of d = Inr view"
    "hd (ld_sources d) \<in> set (ld_sources d)" "sl_source_id (hd (ld_sources d)) = ''src:a''"
    "covering_runs view ''src:a'' sample_window \<noteq> None"
proof (cases sample_document)
  case (Inl e)
  show ?thesis using sample_view_built unfolding Inl by simp
next
  case (Inr d)
  show ?thesis
  proof (cases "liveness_view_of d")
    case (Inl e)
    show ?thesis using sample_view_built unfolding Inr sum.case Inl by simp
  next
    case view: (Inr view)
    have "ld_sources d \<noteq> [] \<and> sl_source_id (hd (ld_sources d)) = ''src:a''
        \<and> covering_runs view ''src:a'' sample_window \<noteq> None"
      using sample_view_built unfolding Inr sum.case view .
    with that [OF Inr view] show ?thesis by simp
  qed
qed

lemma stages_agree_witness:
  "\<not> (\<forall>d view. sample_document = Inr d \<longrightarrow> liveness_view_of d = Inr view \<longrightarrow>
     live d ''src:a'' sample_window \<noteq> Inr False)"
proof -
  obtain d view where dv: "sample_document = Inr d" "liveness_view_of d = Inr view"
    "hd (ld_sources d) \<in> set (ld_sources d)" "sl_source_id (hd (ld_sources d)) = ''src:a''"
    "covering_runs view ''src:a'' sample_window \<noteq> None"
    by (rule sample_view_obtained)
  have le: "iv_t0 sample_window \<le> iv_t1 sample_window" by (simp add: sample_window_def)
  note agree = stages_agree [OF dv(1) [unfolded sample_document_def] sample_ids_ok dv(2,3) le, unfolded dv(4)]
  from agree dv(5) have dark: "\<not> is_empty sample_window"
    "\<forall>t \<in> instants sample_window. covered li_t0_ns li_t1_ns (\<lambda>i. \<not> interval_live i) (sl_intervals (hd (ld_sources d))) t"
    by blast+
  have five: "(5::int) \<in> instants sample_window" by (simp add: instants_def sample_window_def)
  have "gapless (sl_intervals (hd (ld_sources d)))"
    using built_sound [OF dv(1) [unfolded sample_document_def] sample_ids_ok] dv(3)
    by (simp add: sound_document_def)
  then have "\<not> covered li_t0_ns li_t1_ns interval_live (sl_intervals (hd (ld_sources d))) 5"
    using covered_conflict [of li_t0_ns li_t1_ns _ interval_live 5] dark(2) five
    by (auto simp: gapless_def)
  with five agree have "\<not> view_live view ''src:a'' sample_window" by blast
  with conjunct1 [OF agree] have "live d ''src:a'' sample_window = Inr False" by simp
  with dv(1,2) show ?thesis by blast
qed

section \<open>Granting and refusing\<close>

lemma fragment_licence_fields:
  assumes "fragment_licence raw_digest nform s i = Inr l" "construct SourceId s = Inr s"
  shows "lic_source_id l = s \<and> lic_t0_ns l = li_t0_ns i \<and> lic_t1_ns l = li_t1_ns i"
proof -
  have "startswith s ''src:''" using source_id_snake [OF assms(2)] by (metis append_eq_conv_conj startswith_def)
  with assms(1) assms(2) show ?thesis
    by (auto simp: fragment_licence_def result_simps li_interval_def dest!: mint_licence_fields)
qed

lemma licences_for_granted:
  assumes "intervals_of d s = Inr xs" "gapless xs" "construct SourceId s = Inr s" "iv_t0 w \<le> iv_t1 w"
    and "licences_for raw_digest nform d s w = Inr ls"
  shows "licensable xs w \<and> (\<forall>l \<in> set ls. lic_source_id l = s) \<and>
    (\<forall>t \<in> instants w. \<exists>l \<in> set ls. lic_source_id l = s \<and> lic_t0_ns l \<le> t \<and> t < lic_t1_ns l)"
proof -
  define cov where "cov = filter (\<lambda>e. overlaps (li_interval e) w) xs"
  from assms(5) obtain ls' where lic: "licensable xs w" and m: "mapM (fragment_licence raw_digest nform s) cov = Inr ls'"
    and ls: "set ls = set ls'"
    by (auto simp: licences_for_unfold [OF assms(1)] cov_def result_simps split: if_splits)
  note all = m [unfolded mapM_eq_Inr_list_all2]
  have "\<exists>l \<in> set ls'. lic_source_id l = s \<and> lic_t0_ns l \<le> t \<and> t < lic_t1_ns l" if t: "t \<in> instants w" for t
  proof -
    have "covers_instant (\<lambda>i. \<not> interval_live i) xs t"
      using lic licensable_instants [OF assms(2,4)] t by blast
    then obtain i where i: "i \<in> set xs" "li_t0_ns i \<le> t" "t < li_t1_ns i" by (auto simp: covered_def)
    then have "i \<in> set cov" using t by (auto simp: cov_def overlaps_def li_interval_def instants_def)
    from list_all2_member(1) [OF all this] obtain l where "l \<in> set ls'" "fragment_licence raw_digest nform s i = Inr l"
      by blast
    with fragment_licence_fields [OF _ assms(3), of raw_digest nform i l] i show ?thesis by auto
  qed
  moreover have "lic_source_id l = s" if l: "l \<in> set ls'" for l
    using list_all2_member(2) [OF all l] fragment_licence_fields [OF _ assms(3)] by blast
  ultimately show ?thesis using lic ls by blast
qed

lemma live_not_licensable:
  assumes "gapless xs" "iv_t0 w \<le> iv_t1 w" "live_in xs w"
  shows "\<not> licensable xs w"
proof
  assume lic: "licensable xs w"
  have "\<not> is_empty w" using assms(3) by (auto simp: live_in_def split: if_splits)
  then have "iv_t0 w \<in> instants w" using assms(2) by (simp add: instants_def is_empty_def)
  with lic assms(3) have "covers_instant interval_live xs (iv_t0 w)" "covers_instant (\<lambda>i. \<not> interval_live i) xs (iv_t0 w)"
    unfolding live_in_instants [OF assms(1,2)] licensable_instants [OF assms(1,2)] by blast+
  with covered_conflict assms(1) show False by (metis gapless_def)
qed

text \<open>One source asked: it is blocked exactly if the window is not licensable on it.\<close>

lemma ask_one:
  assumes "sound_document d" "e \<in> set (ld_sources d)" "iv_t0 w \<le> iv_t1 w"
    and "ask_sources raw_digest nform d w (sl_source_id e # rest) (b, c) = Inr r"
  shows "if licensable (sl_intervals e) w
    then \<exists>ls. licences_for raw_digest nform d (sl_source_id e) w = Inr ls \<and>
      ask_sources raw_digest nform d w rest (b, c @ ls) = Inr r
    else ask_sources raw_digest nform d w rest (b @ [sl_source_id e], c) = Inr r"
proof -
  note found = intervals_of_found [OF assms(1,2)]
  have gl: "gapless (sl_intervals e)" using assms(1,2) by (simp add: sound_document_def)
  note lf = licences_for_unfold [OF found]
  show ?thesis
  proof (cases "live_in (sl_intervals e) w")
    case True
    with live_not_licensable [OF gl assms(3)] assms(4) show ?thesis by (simp add: live_def found)
  next
    case False
    then have step: "(case licences_for raw_digest nform d (sl_source_id e) w of
         Inr licences \<Rightarrow> ask_sources raw_digest nform d w rest (b, c @ licences)
       | Inl x \<Rightarrow> (if error_exn x = LicenceError
            then ask_sources raw_digest nform d w rest (b @ [sl_source_id e], c) else Inl x)) = Inr r"
      using assms(4) by (simp add: live_def found)
    show ?thesis
    proof (cases "licensable (sl_intervals e) w")
      case True
      have "spares_licences (licences_for raw_digest nform d (sl_source_id e) w)"
        using True by (auto simp: lf intro: spares_fragment)
      with step True show ?thesis
        by (auto simp: spares_licences_def split: sum.splits)
    next
      case False
      with step show ?thesis by (simp add: lf raises_def)
    qed
  qed
qed

definition licensed_source :: "liveness_document \<Rightarrow> interval \<Rightarrow> string \<Rightarrow> bool" where
  "licensed_source d w s = (case document_source d s of None \<Rightarrow> False | Some e \<Rightarrow> licensable (sl_intervals e) w)"

lemma ask_all:
  assumes "sound_document d" "iv_t0 w \<le> iv_t1 w"
  shows "set srcs \<subseteq> sl_source_id ` set (ld_sources d) \<Longrightarrow>
    ask_sources raw_digest nform d w srcs (b, c) = Inr (b', c') \<Longrightarrow>
    b' = b @ filter (\<lambda>s. \<not> licensed_source d w s) srcs \<and>
    (\<forall>s \<in> set srcs. licensed_source d w s \<longrightarrow> licences_for raw_digest nform d s w = Inr (projr (licences_for raw_digest nform d s w))) \<and>
    c' = c @ concat (map (\<lambda>s. projr (licences_for raw_digest nform d s w)) (filter (licensed_source d w) srcs))"
proof (induction srcs arbitrary: b c)
  case (Cons s srcs)
  obtain e where e: "e \<in> set (ld_sources d)" "s = sl_source_id e" using Cons.prems(1) by auto
  have lic: "licensed_source d w s \<longleftrightarrow> licensable (sl_intervals e) w"
    by (simp add: licensed_source_def e(2) document_source_found [OF assms(1) e(1)])
  have sub: "set srcs \<subseteq> sl_source_id ` set (ld_sources d)" using Cons.prems(1) by simp
  note one = ask_one [OF assms(1) e(1) assms(2) Cons.prems(2) [unfolded e(2)], folded e(2) lic]
  show ?case
  proof (cases "licensed_source d w s")
    case True
    with one obtain ls where ls: "licences_for raw_digest nform d s w = Inr ls"
      "ask_sources raw_digest nform d w srcs (b, c @ ls) = Inr (b', c')" by auto
    with Cons.IH [OF sub ls(2)] True show ?thesis by simp
  next
    case False
    with one have rest: "ask_sources raw_digest nform d w srcs (b @ [s], c) = Inr (b', c')" by simp
    with Cons.IH [OF sub rest] False show ?thesis by simp
  qed
qed simp

lemma issue_cases:
  assumes "issue_licences raw_digest nform d producing w voided_ids = Inr r" "producing \<noteq> []"
  obtains blocked collected where "distinct producing"
    "ask_sources raw_digest nform d w (sort producing) ([], []) = Inr (blocked, collected)"
    "is_granted r \<longleftrightarrow> blocked = [] \<and> (\<forall>l \<in> set collected. lic_id l \<notin> set voided_ids)"
    "set (is_licences r) = (if is_granted r then set collected else {})"
    "is_blocked_sources r = blocked"
    "\<not> is_granted r \<Longrightarrow> blocked = [] \<Longrightarrow> is_voided r \<noteq> [] \<and> is_voided_by_tampering r"
proof -
  define finish where "finish = (\<lambda>(blocked, collected). if blocked \<noteq> [] then Inr (refusal\<lparr>is_blocked_sources := blocked\<rparr>)
             else
               let voided = map voided_of (filter (\<lambda>l. lic_id l \<in> set voided_ids) collected)
               in if voided \<noteq> []
                  then Inr (refusal\<lparr>
                    is_voided := sort_key (\<lambda>v. (vo_source_id v, vo_t0_ns v, vo_t1_ns v)) voided,
                    is_voided_by_tampering := True\<rparr>)
                  else Inr (refusal\<lparr>is_granted := True,
                    is_licences := sort_key licence_sort_key collected\<rparr>) :: licence_issue outcome)"
  have "andThen (sorted_unique producing) (\<lambda>sources.
      andThen (ask_sources raw_digest nform d w sources ([], [])) finish) = Inr r"
    using assms by (simp add: issue_licences_def finish_def)
  then obtain state where su: "distinct producing" and ask0: "ask_sources raw_digest nform d w (sort producing) ([], []) = Inr state"
    and fin: "finish state = Inr r" by (auto simp: andThen_eq_Inr sorted_unique_eq_Inr)
  obtain blocked collected where state: "state = (blocked, collected)" by (cases state)
  note ask = ask0 [unfolded state] and r = fin [unfolded state finish_def prod.case]
  consider "blocked \<noteq> []" "r = refusal\<lparr>is_blocked_sources := blocked\<rparr>"
    | "blocked = []" "\<exists>l \<in> set collected. lic_id l \<in> set voided_ids"
      "r = refusal\<lparr>is_voided := sort_key (\<lambda>v. (vo_source_id v, vo_t0_ns v, vo_t1_ns v))
          (map voided_of (filter (\<lambda>l. lic_id l \<in> set voided_ids) collected)), is_voided_by_tampering := True\<rparr>"
    | "blocked = []" "\<forall>l \<in> set collected. lic_id l \<notin> set voided_ids"
      "r = refusal\<lparr>is_granted := True, is_licences := sort_key licence_sort_key collected\<rparr>"
    using r by (auto simp: Let_def filter_empty_conv split: if_splits)
  then show thesis
  proof cases
    case 1
    show thesis
      by (rule that [OF su ask]) (use 1(1) in \<open>simp_all add: 1(2) refusal_def\<close>)
  next
    case 2
    let ?v = "map voided_of (filter (\<lambda>l. lic_id l \<in> set voided_ids) collected)"
    have "?v \<noteq> []" using 2(2) by (auto simp: filter_empty_conv)
    then have "0 < length (sort_key (\<lambda>v. (vo_source_id v, vo_t0_ns v, vo_t1_ns v)) ?v)"
      unfolding length_sort by blast
    then have "sort_key (\<lambda>v. (vo_source_id v, vo_t0_ns v, vo_t1_ns v)) ?v \<noteq> []" by blast
    then show thesis
      by (intro that [OF su ask]) (use 2(1,2) in \<open>simp_all add: 2(3) refusal_def\<close>)
  next
    case 3
    show thesis
      by (rule that [OF su ask]) (use 3(1,2) in \<open>simp_all add: 3(3) refusal_def\<close>)
  qed
qed

text \<open>C37. Permission for a silent step rests on darkness everywhere. For a built document, producing
  sources that it describes and a window: a grant means the sources are distinct, at least
  one, the window is not empty, and for every source and every instant of the window the
  source is not LIVE there and one of the licences covers the instant for that source, each
  licence belongs to a named source and none is among the voided ones. A refusal carries
  no licence; for every source it names as blocked the window is empty or some instant of it
  is LIVE or outside the timeline; and if it names none, no source was given or a licence was voided.\<close>

theorem issued_licences_sound:
  assumes "build_liveness_document raw_digest nform config sources phases t0 t1 profile context
     query_endpoints no_profile allow_declared verifier = Inr d"
    and "\<forall>source \<in> set sources. construct SourceId (si_source_id source) = Inr (si_source_id source)"
    and "set producing \<subseteq> sl_source_id ` set (ld_sources d)" and "iv_t0 w \<le> iv_t1 w"
    and "issue_licences raw_digest nform d producing w voided_ids = Inr r"
  shows "if is_granted r
    then producing \<noteq> [] \<and> distinct producing \<and> \<not> is_empty w \<and>
      (\<forall>s \<in> set (ld_sources d). sl_source_id s \<in> set producing \<longrightarrow> (\<forall>t \<in> instants w.
         \<not> covered li_t0_ns li_t1_ns interval_live (sl_intervals s) t \<and>
         (\<exists>l \<in> set (is_licences r). lic_source_id l = sl_source_id s \<and> lic_t0_ns l \<le> t \<and> t < lic_t1_ns l))) \<and>
      (\<forall>l \<in> set (is_licences r). lic_source_id l \<in> set producing \<and> lic_id l \<notin> set voided_ids)
    else is_licences r = [] \<and>
      (\<forall>s \<in> set (ld_sources d). sl_source_id s \<in> set (is_blocked_sources r) \<longrightarrow>
         is_empty w \<or> (\<exists>t \<in> instants w. \<not> covered li_t0_ns li_t1_ns (\<lambda>i. \<not> interval_live i) (sl_intervals s) t)) \<and>
      (is_blocked_sources r = [] \<longrightarrow> producing = [] \<or> is_voided r \<noteq> [] \<and> is_voided_by_tampering r)"
proof (cases "producing = []")
  case True
  then have "r = refusal" using assms(5) by (simp add: issue_licences_def)
  then show ?thesis using True by (simp add: refusal_def)
next
  case False
  note sound = built_sound [OF assms(1,2)]
  obtain blocked collected where su: "distinct producing"
    and ask: "ask_sources raw_digest nform d w (sort producing) ([], []) = Inr (blocked, collected)"
    and g: "is_granted r \<longleftrightarrow> blocked = [] \<and> (\<forall>l \<in> set collected. lic_id l \<notin> set voided_ids)"
    and ls: "set (is_licences r) = (if is_granted r then set collected else {})"
    and bl: "is_blocked_sources r = blocked"
    and vo: "\<not> is_granted r \<Longrightarrow> blocked = [] \<Longrightarrow> is_voided r \<noteq> [] \<and> is_voided_by_tampering r"
    by (rule issue_cases [OF assms(5) False]) (rule that)
  have "set (sort producing) \<subseteq> sl_source_id ` set (ld_sources d)" using assms(3) by simp
  note all = ask_all [OF sound assms(4) this ask]
  have gl: "gapless (sl_intervals e)" and id: "construct SourceId (sl_source_id e) = Inr (sl_source_id e)"
    and lic: "licensed_source d w (sl_source_id e) \<longleftrightarrow> licensable (sl_intervals e) w"
    if "e \<in> set (ld_sources d)" for e
    using sound that document_source_found [OF sound that] by (simp_all add: sound_document_def licensed_source_def)
  have blocked: "is_empty w \<or> (\<exists>t \<in> instants w. \<not> covered li_t0_ns li_t1_ns (\<lambda>i. \<not> interval_live i) (sl_intervals e) t)"
    if "e \<in> set (ld_sources d)" "sl_source_id e \<in> set blocked" for e
    using all that lic [OF that(1)] licensable_instants [OF gl [OF that(1)] assms(4)] by auto
  show ?thesis
  proof (cases "is_granted r")
    case False
    then have "is_licences r = []" using ls by simp
    with False blocked vo bl show ?thesis by simp
  next
    case True
    then have none: "blocked = []" "set (is_licences r) = set collected" "\<forall>l \<in> set collected. lic_id l \<notin> set voided_ids"
      using g ls by simp_all
    with all have granted: "licensed_source d w s" if "s \<in> set producing" for s
      using that by (metis filter_empty_conv set_sort append_Nil)
    then have coll: "set collected = (\<Union>s \<in> set producing. set (projr (licences_for raw_digest nform d s w)))"
      using all by auto
    have each: "licensable (sl_intervals e) w \<and>
        (\<forall>l \<in> set (projr (licences_for raw_digest nform d (sl_source_id e) w)). lic_source_id l = sl_source_id e) \<and>
        (\<forall>t \<in> instants w. \<exists>l \<in> set (projr (licences_for raw_digest nform d (sl_source_id e) w)).
           lic_source_id l = sl_source_id e \<and> lic_t0_ns l \<le> t \<and> t < lic_t1_ns l)"
      if e: "e \<in> set (ld_sources d)" "sl_source_id e \<in> set producing" for e
    proof -
      have "licences_for raw_digest nform d (sl_source_id e) w = Inr (projr (licences_for raw_digest nform d (sl_source_id e) w))"
        using all granted [OF e(2)] e(2) by simp
      from licences_for_granted [OF intervals_of_found [OF sound e(1)] gl [OF e(1)] id [OF e(1)] assms(4) this]
      show ?thesis .
    qed
    have dark: "\<not> covered li_t0_ns li_t1_ns interval_live (sl_intervals e) t" "\<not> is_empty w"
      if e: "e \<in> set (ld_sources d)" "sl_source_id e \<in> set producing" and t: "t \<in> instants w" for e t
      using each [OF e] licensable_instants [OF gl [OF e(1)] assms(4)] t
        covered_conflict [of li_t0_ns li_t1_ns "sl_intervals e" interval_live t] gl [OF e(1)]
      by (auto simp: gapless_def)
    obtain s0 where "s0 \<in> set producing" using \<open>producing \<noteq> []\<close> by (cases producing) auto
    with assms(3) obtain e0 where "e0 \<in> set (ld_sources d)" "sl_source_id e0 \<in> set producing" by auto
    then have "\<not> is_empty w"
      using each [of e0] by (auto simp: licensable_def Let_def)
    moreover have "lic_source_id l \<in> set producing" if l: "l \<in> set (is_licences r)" for l
    proof -
      from l none(2) coll obtain s where s: "s \<in> set producing"
        "l \<in> set (projr (licences_for raw_digest nform d s w))" by auto
      with assms(3) obtain e where "e \<in> set (ld_sources d)" "s = sl_source_id e" by auto
      with each [of e] s show ?thesis by auto
    qed
    moreover have "\<exists>l \<in> set (is_licences r). lic_source_id l = sl_source_id e \<and> lic_t0_ns l \<le> t \<and> t < lic_t1_ns l"
      if e: "e \<in> set (ld_sources d)" "sl_source_id e \<in> set producing" and t: "t \<in> instants w" for e t
      using each [OF e] t e(2) unfolding none(2) coll by blast
    ultimately show ?thesis using True \<open>producing \<noteq> []\<close> su dark none(2,3) by simp
  qed
qed

lemma sample_issue:
  "case sample_document of Inr d \<Rightarrow>
     (case issue_licences echo_digest id d [''src:b'', ''src:a''] sample_window [] of
        Inr r \<Rightarrow> is_granted r \<and> map sl_source_id (ld_sources d) = [''src:a'', ''src:b''] | Inl _ \<Rightarrow> False)
   | Inl _ \<Rightarrow> False"
  by code_simp

lemma issued_licences_sound_witness:
  "\<not> (\<forall>d r. sample_document = Inr d \<longrightarrow>
     issue_licences echo_digest id d [''src:b'', ''src:a''] sample_window [] = Inr r \<longrightarrow> is_licences r = [])"
proof (cases sample_document)
  case (Inl e)
  show ?thesis using sample_issue unfolding Inl by simp
next
  case d: (Inr d)
  show ?thesis
  proof (cases "issue_licences echo_digest id d [''src:b'', ''src:a''] sample_window []")
    case (Inl e)
    show ?thesis using sample_issue unfolding d sum.case Inl by simp
  next
    case r: (Inr r)
    have g: "is_granted r" "map sl_source_id (ld_sources d) = [''src:a'', ''src:b'']"
      using sample_issue unfolding d sum.case r by blast+
    have sub: "set [''src:b'', ''src:a''] \<subseteq> sl_source_id ` set (ld_sources d)"
      using arg_cong [OF g(2), of set] by auto
    then obtain s where s: "s \<in> set (ld_sources d)" "sl_source_id s = ''src:a''" by force
    have le: "iv_t0 sample_window \<le> iv_t1 sample_window" and five: "5 \<in> instants sample_window"
      by (simp_all add: sample_window_def instants_def)
    from issued_licences_sound [OF d [unfolded sample_document_def] sample_ids_ok sub le r] g(1)
    have "\<forall>s \<in> set (ld_sources d). sl_source_id s \<in> set [''src:b'', ''src:a''] \<longrightarrow> (\<forall>t \<in> instants sample_window.
        \<exists>l \<in> set (is_licences r). lic_source_id l = sl_source_id s \<and> lic_t0_ns l \<le> t \<and> t < lic_t1_ns l)"
      by simp
    with s five have "is_licences r \<noteq> []" by force
    with d r show ?thesis by blast
  qed
qed

lemma euclid_gcd: "0 \<le> a \<Longrightarrow> 0 \<le> b \<Longrightarrow> euclid a b = gcd a b"
proof (induction a b rule: euclid.induct)
  case (1 a b)
  show ?case
  proof (cases "b = 0")
    case False
    with "1.prems" have "euclid b (a mod b) = gcd b (a mod b)" using "1.IH" by simp
    with False show ?thesis by (simp add: euclid.simps [of a b] gcd_red_int [symmetric])
  qed (use "1.prems" in \<open>simp add: euclid.simps [of a 0]\<close>)
qed

definition span_of :: "licence \<Rightarrow> int" where
  "span_of l = lic_t1_ns l - lic_t0_ns l"

definition total_span :: "licence list \<Rightarrow> int" where
  "total_span ls = sum_list (map span_of ls)"

definition deficient_span :: "licence list \<Rightarrow> int" where
  "deficient_span ls = total_span (filter (\<lambda>l. deficient_reason (lic_reason l)) ls)"

lemma deficiency_spans_sums: "deficiency_spans ls = (deficient_span ls, total_span ls)"
proof (induction ls rule: rev_induct)
  case (snoc l ls)
  then show ?case
    by (simp add: deficiency_spans_def deficient_span_def total_span_def span_of_def Let_def)
qed (simp add: deficiency_spans_def deficient_span_def total_span_def)

lemma deficient_le_total:
  "\<forall>l \<in> set ls. lic_t0_ns l \<le> lic_t1_ns l \<Longrightarrow> 0 \<le> deficient_span ls \<and> deficient_span ls \<le> total_span ls"
  by (induction ls) (auto simp: deficient_span_def total_span_def span_of_def)

text \<open>C38. The share of licensed time that rests on missing calibration is exact. On licences with
  ordered ends \<open>calibration_deficiency\<close> returns the ratio of the deficient to the total span
  in lowest terms, a number between 0 and 1 whose denominator fits 32 bits, and 0/1 when
  nothing is licensed; it raises E-CANON-WIDTH exactly when the reduced denominator does not fit.\<close>

theorem deficiency_lowest_terms:
  assumes "\<forall>l \<in> set ls. lic_t0_ns l \<le> lic_t1_ns l"
  shows "case calibration_deficiency ls of
      Inr (num, den) \<Rightarrow> 0 \<le> num \<and> num \<le> den \<and> 0 < den \<and> den < 2 ^ 32 \<and> coprime num den \<and>
        num * total_span ls = den * deficient_span ls \<and> (total_span ls = 0 \<longrightarrow> num = 0)
    | Inl e \<Rightarrow> e = Raised CanonError ''E-CANON-WIDTH'' \<and> 0 < total_span ls \<and>
        2 ^ 32 \<le> total_span ls div gcd (deficient_span ls) (total_span ls)"
proof -
  let ?d = "deficient_span ls" and ?t = "total_span ls"
  note le = deficient_le_total [OF assms]
  have eu: "euclid ?d ?t = gcd ?d ?t" using le by (intro euclid_gcd) simp_all
  show ?thesis
  proof (cases "?t = 0")
    case True
    with le show ?thesis by (simp add: calibration_deficiency_def deficiency_spans_sums)
  next
    case False
    then have pos: "0 < ?t" using le by simp
    define g where "g = gcd ?d ?t"
    have g: "0 < g" "g dvd ?d" "g dvd ?t" using pos by (simp_all add: g_def)
    have terms: "?d = g * (?d div g)" "?t = g * (?t div g)" using g by simp_all
    have num: "0 \<le> ?d div g" "?d div g \<le> ?t div g" using le g(1) by (simp_all add: pos_imp_zdiv_nonneg_iff zdiv_mono1)
    have den: "0 < ?t div g" using terms(2) pos g(1) by (metis zero_less_mult_pos)
    have co: "coprime (?d div g) (?t div g)" unfolding g_def using False by (intro div_gcd_coprime) simp
    have "(?d div g) * (g * (?t div g)) = (?t div g) * (g * (?d div g))" by (simp add: ac_simps)
    then have prod: "(?d div g) * ?t = (?t div g) * ?d"
      unfolding terms(1) [symmetric] terms(2) [symmetric] .
    have "calibration_deficiency ls = (if 2 ^ 32 - 1 < ?t div g \<or> 2 ^ 32 - 1 < ?d div g
        then raises_code CanonError ''E-CANON-WIDTH'' else Inr (?d div g, ?t div g))"
      using False g(1) by (simp add: calibration_deficiency_def deficiency_spans_sums eu g_def [symmetric] Let_def)
    then have "calibration_deficiency ls = (if 2 ^ 32 \<le> ?t div g
        then raises_code CanonError ''E-CANON-WIDTH'' else Inr (?d div g, ?t div g))"
      using num by auto
    then show ?thesis using num den co prod pos by (simp add: raises_code_def g_def)
  qed
qed

lemma deficiency_lowest_terms_witness:
  "calibration_deficiency
     [\<lparr>lic_id = [], lic_source_id = [], lic_t0_ns = 0, lic_t1_ns = 4, lic_basis = LB_BLIND,
       lic_reason = ''B_REGIME_UNKNOWN'', lic_witness = []\<rparr>,
      \<lparr>lic_id = [], lic_source_id = [], lic_t0_ns = 4, lic_t1_ns = 10, lic_basis = LB_BLIND,
       lic_reason = ''B_UNBRACKETED'', lic_witness = []\<rparr>] = Inr (2, 5) \<and> coprime (2::int) 5"
proof -
  let ?ls = "[\<lparr>lic_id = [], lic_source_id = [], lic_t0_ns = 0, lic_t1_ns = 4, lic_basis = LB_BLIND,
       lic_reason = ''B_REGIME_UNKNOWN'', lic_witness = []\<rparr>,
      \<lparr>lic_id = [], lic_source_id = [], lic_t0_ns = 4, lic_t1_ns = 10, lic_basis = LB_BLIND,
       lic_reason = ''B_UNBRACKETED'', lic_witness = []\<rparr>]"
  have r: "calibration_deficiency ?ls = Inr (2, 5)" by code_simp
  have "\<forall>l \<in> set ?ls. lic_t0_ns l \<le> lic_t1_ns l" by simp
  from deficiency_lowest_terms [OF this] r show ?thesis by simp
qed

end
