(* ===== verification/PyValues.thy ===== *)
theory PyValues
  imports Scf "HOL-Library.Sublist"
begin

text \<open>
  The operations of Python that the certificate checker applies to parsed documents whose shape
  nobody has verified yet: subscripts, membership, iteration, truth, equality, order, hashing and
  sorting of the values of \<^typ>\<open>json\<close>. A computation of the checker ends with a value, with the
  exception \<open>Rejected\<close> and its code, with \<open>Usage\<close>, or with an exception that nothing catches
  (\<open>KeyError\<close>, \<open>TypeError\<close>, \<open>AttributeError\<close>, \<open>CanonError\<close> and the like).
\<close>

section \<open>The three ways to stop\<close>

datatype stop = Rejected string | Usage_stop | Uncaught

type_synonym 'a check = "(stop, 'a) result"

definition reject :: "string \<Rightarrow> 'a check" where
  "reject code = Inl (Rejected code)"

definition crash :: "'a check" where
  "crash = Inl Uncaught"

text \<open>\<open>_require(condition, code, detail)\<close>; the detail is text for the reader only.\<close>

definition need :: "bool \<Rightarrow> string \<Rightarrow> unit check" where
  "need condition code = (if condition then Inr () else reject code)"

text \<open>An encoder of \<^verbatim>\<open>spectra_core\<close> raises an exception the checker does not catch.\<close>

definition uncaught :: "'a outcome \<Rightarrow> 'a check" where
  "uncaught r = (case r of Inl e \<Rightarrow> crash | Inr x \<Rightarrow> Inr x)"

section \<open>Equality, hashing, truth and order\<close>

text \<open>Two values are equal to Python when these forms are: a boolean is the integer 0 or 1, and
  the order of the members of an object does not matter.\<close>

fun pyval :: "json \<Rightarrow> json"
  and pyval_members :: "(string \<times> json) list \<Rightarrow> (string \<times> json) list"
  and pyval_items :: "json list \<Rightarrow> json list" where
  "pyval (JBool b) = JInt (if b then 1 else 0)"
| "pyval (JObj members) = JObj (sort_key fst (pyval_members members))"
| "pyval (JArr items) = JArr (pyval_items items)"
| "pyval v = v"
| "pyval_members [] = []"
| "pyval_members ((k, v) # members) = (k, pyval v) # pyval_members members"
| "pyval_items [] = []"
| "pyval_items (v # items) = pyval v # pyval_items items"

definition py_eq :: "json \<Rightarrow> json \<Rightarrow> bool" where
  "py_eq a b = (pyval a = pyval b)"

text \<open>The hash key of a value: a list or an object has none.\<close>

fun hashable :: "json \<Rightarrow> bool" where
  "hashable (JObj members) = False"
| "hashable (JArr items) = False"
| "hashable v = True"

definition hashed :: "json \<Rightarrow> json check" where
  "hashed v = (if hashable v then Inr (pyval v) else crash)"

fun truthy :: "json \<Rightarrow> bool" where
  "truthy JNull = False"
| "truthy (JBool b) = b"
| "truthy (JFloat f) = (f \<noteq> ''0.0'' \<and> f \<noteq> ''-0.0'')"
| "truthy (JInt v) = (v \<noteq> 0)"
| "truthy (JStr s) = (s \<noteq> [])"
| "truthy (JObj members) = (members \<noteq> [])"
| "truthy (JArr items) = (items \<noteq> [])"

fun as_number :: "json \<Rightarrow> int option" where
  "as_number (JInt v) = Some v"
| "as_number (JBool b) = Some (if b then 1 else 0)"
| "as_number _ = None"

text \<open>\<open><\<close>: numbers with numbers, texts with texts, lists by their first difference. Floats never
  reach a comparison, since the parsers of the checker reject them.\<close>

fun py_less :: "json \<Rightarrow> json \<Rightarrow> bool check"
  and py_less_items :: "json list \<Rightarrow> json list \<Rightarrow> bool check" where
  "py_less (JStr s) (JStr t) = Inr (s < t)"
| "py_less (JArr xs) (JArr ys) = py_less_items xs ys"
| "py_less a b =
     (case (as_number a, as_number b) of (Some x, Some y) \<Rightarrow> Inr (x < y) | _ \<Rightarrow> crash)"
| "py_less_items xs [] = Inr False"
| "py_less_items [] (y # ys) = Inr True"
| "py_less_items (x # xs) (y # ys) =
     (if py_eq x y then py_less_items xs ys else py_less x y)"

section \<open>Containers\<close>

text \<open>The code points of a text, each with its octets: a new one begins at every octet that is
  not a continuation octet of UTF-8.\<close>

definition continuation_octet :: "char \<Rightarrow> bool" where
  "continuation_octet c = (128 \<le> (of_char c :: nat) \<and> (of_char c :: nat) < 192)"

function code_points :: "string \<Rightarrow> string list" where
  "code_points [] = []"
| "code_points (c # cs) = (c # takeWhile continuation_octet cs) # code_points (dropWhile continuation_octet cs)"
  by pat_completeness auto
termination
  by (relation "measure length") (auto simp: le_imp_less_Suc length_dropWhile_le)

text \<open>Iteration, which is also what \<open>len\<close> counts.\<close>

fun iter :: "json \<Rightarrow> json list check" where
  "iter (JArr items) = Inr items"
| "iter (JObj members) = Inr (map (\<lambda>kv. JStr (fst kv)) members)"
| "iter (JStr s) = Inr (map JStr (code_points s))"
| "iter _ = crash"

definition py_len :: "json \<Rightarrow> nat check" where
  "py_len v = andThen (iter v) (\<lambda>xs. Inr (length xs))"

text \<open>\<open>v[name]\<close>, \<open>v.get(name, default)\<close> and \<open>name in v\<close> for a text \<open>name\<close>.\<close>

fun item :: "json \<Rightarrow> string \<Rightarrow> json check" where
  "item (JObj members) name = (case map_of members name of None \<Rightarrow> crash | Some v \<Rightarrow> Inr v)"
| "item _ name = crash"

fun get_or :: "json \<Rightarrow> string \<Rightarrow> json \<Rightarrow> json check" where
  "get_or (JObj members) name other =
     (case map_of members name of None \<Rightarrow> Inr other | Some v \<Rightarrow> Inr v)"
| "get_or _ name other = crash"

fun py_contains :: "json \<Rightarrow> string \<Rightarrow> bool check" where
  "py_contains (JObj members) name = Inr (name \<in> fst ` set members)"
| "py_contains (JArr items) name = Inr (list_ex (py_eq (JStr name)) items)"
| "py_contains (JStr s) name = Inr (sublist name s)"
| "py_contains _ name = crash"

text \<open>\<open>_member(obj, name, where)\<close>.\<close>

definition member :: "json \<Rightarrow> string \<Rightarrow> json check" where
  "member obj name = andThen (py_contains obj name) (\<lambda>b.
     if b then item obj name else reject ''E-SCHEMA-MISSING'')"

text \<open>\<open>sorted(values)\<close>: stable, and a comparison of incomparable values raises.\<close>

fun insert_sorted :: "json \<Rightarrow> json list \<Rightarrow> json list check" where
  "insert_sorted x [] = Inr [x]"
| "insert_sorted x (y # ys) = andThen (py_less x y) (\<lambda>before.
     if before then Inr (x # y # ys) else andThen (insert_sorted x ys) (\<lambda>zs. Inr (y # zs)))"

fun py_sorted_onto :: "json list \<Rightarrow> json list \<Rightarrow> json list check" where
  "py_sorted_onto done [] = Inr done"
| "py_sorted_onto done (x # xs) = andThen (insert_sorted x done) (\<lambda>d. py_sorted_onto d xs)"

definition py_sorted :: "json list \<Rightarrow> json list check" where
  "py_sorted values = py_sorted_onto [] values"

text \<open>\<open>all(\<dots>)\<close> and \<open>any(\<dots>)\<close> over a generator, which stop at the first item that decides.\<close>

fun all_of :: "('a \<Rightarrow> bool check) \<Rightarrow> 'a list \<Rightarrow> bool check" where
  "all_of f [] = Inr True"
| "all_of f (x # xs) = andThen (f x) (\<lambda>b. if b then all_of f xs else Inr False)"

fun any_of :: "('a \<Rightarrow> bool check) \<Rightarrow> 'a list \<Rightarrow> bool check" where
  "any_of f [] = Inr False"
| "any_of f (x # xs) = andThen (f x) (\<lambda>b. if b then Inr True else any_of f xs)"

text \<open>A loop that carries a state.\<close>

fun fold_check :: "('a \<Rightarrow> 's \<Rightarrow> 's check) \<Rightarrow> 'a list \<Rightarrow> 's \<Rightarrow> 's check" where
  "fold_check f [] s = Inr s"
| "fold_check f (x # xs) s = andThen (f x s) (fold_check f xs)"

section \<open>Lemmas\<close>

named_theorems check_simps \<open>when a computation of the checker returns\<close>

lemma need_eq_Inr [simp, check_simps]: "need c code = Inr u \<longleftrightarrow> c"
  by (simp add: need_def reject_def)

lemma reject_crash_not_Inr [simp, check_simps]: "reject code \<noteq> Inr x" "crash \<noteq> Inr x"
  by (simp_all add: reject_def crash_def)

lemma uncaught_eq_Inr [simp, check_simps]: "uncaught r = Inr x \<longleftrightarrow> r = Inr x"
  by (cases r) (simp_all add: uncaught_def crash_def)

lemma hashed_eq_Inr [simp, check_simps]: "hashed v = Inr k \<longleftrightarrow> hashable v \<and> k = pyval v"
  by (auto simp: hashed_def)

lemma if_reject_eq_Inr [check_simps]: "(if b then r else reject code) = Inr x \<longleftrightarrow> b \<and> r = Inr x"
  by simp

lemma pyval_members_eq: "pyval_members ms = map (\<lambda>(k, v). (k, pyval v)) ms"
  by (induction ms) auto

lemma pyval_items_eq: "pyval_items xs = map pyval xs"
  by (induction xs) auto

lemma pyval_JStr [simp]: "pyval v = JStr s \<longleftrightarrow> v = JStr s"
  by (cases v) auto

lemma py_eq_JStr [simp]: "py_eq v (JStr s) \<longleftrightarrow> v = JStr s" "py_eq (JStr s) v \<longleftrightarrow> v = JStr s"
  by (auto simp: py_eq_def dest: sym)

lemma as_number_pyval: "as_number v = Some n \<longleftrightarrow> pyval v = JInt n"
  by (cases v) auto

lemma item_eq_Inr [check_simps]:
  "item v name = Inr x \<longleftrightarrow> (\<exists>ms. v = JObj ms \<and> map_of ms name = Some x)"
  by (cases v) (auto split: option.splits)

lemma get_or_eq_Inr [check_simps]:
  "get_or v name d = Inr x \<longleftrightarrow>
     (\<exists>ms. v = JObj ms \<and> (map_of ms name = Some x \<or> map_of ms name = None \<and> x = d))"
  by (cases v) (auto split: option.splits)

lemma member_eq_Inr [check_simps]: "member v name = Inr x \<longleftrightarrow> item v name = Inr x"
  by (cases v) (auto simp: member_def andThen_eq_Inr reject_def crash_def
      simp flip: map_of_eq_None_iff split: option.splits if_splits)

lemma all_of_eq_Inr_True [check_simps]: "all_of f xs = Inr True \<longleftrightarrow> (\<forall>x \<in> set xs. f x = Inr True)"
  by (induction xs) (auto simp: andThen_eq_Inr)

lemma any_of_eq_Inr_False [check_simps]: "any_of f xs = Inr False \<longleftrightarrow> (\<forall>x \<in> set xs. f x = Inr False)"
  by (induction xs) (auto simp: andThen_eq_Inr)

lemma any_of_eq_Inr_True: "any_of f xs = Inr True \<Longrightarrow> \<exists>x \<in> set xs. f x = Inr True"
  by (induction xs) (auto simp: andThen_eq_Inr split: if_splits)

lemma all_of_eq_Inr_False: "all_of f xs = Inr False \<Longrightarrow> \<exists>x \<in> set xs. f x = Inr False"
  by (induction xs) (auto simp: andThen_eq_Inr split: if_splits)

end
