(* ===== verification/Checker.thy ===== *)
theory Checker
  imports PyValues Closure
begin

text \<open>
  \<^verbatim>\<open>spectra_vs_verify/checker.py\<close>, first part: the strict reading of the certificate, the digest
  preimages and the reachability that the checker computes for itself. The checker receives a
  parsed document of any shape, so every access is an operation of \<^theory_text>\<open>PyValues\<close> that may raise.
  The packages it calls are the fields of \<open>checker_env\<close>: the digest of \<^verbatim>\<open>hashlib\<close>, the tables of
  \<^verbatim>\<open>unicodedata\<close>, the parsers of \<^verbatim>\<open>json\<close> (given the checker's hooks) and \<^verbatim>\<open>tomllib\<close>, and
  \<open>str\<close> and \<open>int\<close> of values that are neither texts nor integers. Messages are left out.
\<close>

section \<open>The environment and its files\<close>

record checker_env =
  env_digest :: "octets \<Rightarrow> octets"
  env_nform :: "string \<Rightarrow> string"
  env_json :: "((string \<times> json) list \<Rightarrow> json check) \<Rightarrow> (string \<Rightarrow> json check) \<Rightarrow> (string \<Rightarrow> json check)
      \<Rightarrow> string \<Rightarrow> (stop option, json) result"
  env_toml :: "octets \<Rightarrow> json option"
  env_str :: "json \<Rightarrow> string"
  env_int :: "json \<Rightarrow> int option"
  env_file :: "string \<Rightarrow> octets option"

definition CHECKER_VERSION :: string where "CHECKER_VERSION = ''1.1''"
definition SCHEMA_V :: string where "SCHEMA_V = ''1.1''"
definition FILE_MAGIC :: octets where "FILE_MAGIC = ''{'' @ quoted ''body'' @ '':{''"
definition MAX_DEPTH :: nat where "MAX_DEPTH = 8"

record checker_inputs =
  ci_rules :: "string option"
  ci_rules_cae :: "string option"
  ci_guards :: "string option"
  ci_controls_cae :: "string option"
  ci_catalog_bits :: "string option"
  ci_bundle :: "string option"
  ci_liveness :: "string option"
  ci_profile :: "string option"
  ci_goal_cae :: "string option"
  ci_er :: "string option"
  ci_run_manifest :: "string option"

definition path_for :: "checker_inputs \<Rightarrow> string \<Rightarrow> string option" where
  "path_for inputs option =
     (case map_of [(''rules'', ci_rules inputs), (''rules_cae'', ci_rules_cae inputs),
        (''guards'', ci_guards inputs), (''controls_cae'', ci_controls_cae inputs),
        (''catalog_bits'', ci_catalog_bits inputs), (''bundle'', ci_bundle inputs),
        (''liveness'', ci_liveness inputs), (''profile'', ci_profile inputs),
        (''goal_cae'', ci_goal_cae inputs), (''er'', ci_er inputs),
        (''run_manifest'', ci_run_manifest inputs)] option of
        None \<Rightarrow> None | Some path \<Rightarrow> path)"

definition read_octets :: "checker_env \<Rightarrow> string \<Rightarrow> octets check" where
  "read_octets env path =
     (case env_file env path of None \<Rightarrow> Inl Usage_stop | Some octets \<Rightarrow> Inr octets)"

section \<open>Strict reading\<close>

text \<open>Whether octets are the UTF-8 form of a text: no overlong forms, no surrogates, nothing
  above U+10FFFF.\<close>

definition octet_in :: "nat \<Rightarrow> nat \<Rightarrow> char \<Rightarrow> bool" where
  "octet_in low high c = (low \<le> (of_char c :: nat) \<and> (of_char c :: nat) \<le> high)"

fun utf8_ok :: "octets \<Rightarrow> bool" where
  "utf8_ok [] = True"
| "utf8_ok (a # cs) =
     (if octet_in 0 127 a then utf8_ok cs
      else case cs of
        [] \<Rightarrow> False
      | b # cs \<Rightarrow>
          if octet_in 194 223 a then octet_in 128 191 b \<and> utf8_ok cs
          else case cs of
            [] \<Rightarrow> False
          | c # cs \<Rightarrow>
              if octet_in 224 239 a
              then (if octet_in 224 224 a then octet_in 160 191 b
                    else if octet_in 237 237 a then octet_in 128 159 b
                    else octet_in 128 191 b) \<and> octet_in 128 191 c \<and> utf8_ok cs
              else case cs of
                [] \<Rightarrow> False
              | d # cs \<Rightarrow>
                  octet_in 240 244 a \<and>
                  (if octet_in 240 240 a then octet_in 144 191 b
                   else if octet_in 244 244 a then octet_in 128 143 b
                   else octet_in 128 191 b) \<and> octet_in 128 191 c \<and> octet_in 128 191 d \<and> utf8_ok cs)"

definition encode_utf8 :: "string \<Rightarrow> octets check" where
  "encode_utf8 s = (if utf8_ok s then Inr s else crash)"

definition floats_are_forbidden :: "string \<Rightarrow> json check" where
  "floats_are_forbidden text = reject ''E-CANON-FLOAT''"

definition reject_constant :: "string \<Rightarrow> json check" where
  "reject_constant name = reject ''E-CANON-FLOAT''"

fun pairs_hook_loop :: "(string \<times> json) list \<Rightarrow> (string \<times> json) list \<Rightarrow> json check" where
  "pairs_hook_loop seen [] = Inr (JObj seen)"
| "pairs_hook_loop seen ((key, value) # kvs) =
     (if key \<in> fst ` set seen then reject ''E-CANON-DUPKEY''
      else if \<not> is_scf_key key then reject ''E-CANON-FORM''
      else pairs_hook_loop (seen @ [(key, value)]) kvs)"

definition pairs_hook :: "(string \<times> json) list \<Rightarrow> json check" where
  "pairs_hook kvs = pairs_hook_loop [] kvs"

fun side_pairs_hook_loop :: "(string \<times> json) list \<Rightarrow> (string \<times> json) list \<Rightarrow> json check" where
  "side_pairs_hook_loop seen [] = Inr (JObj seen)"
| "side_pairs_hook_loop seen ((key, value) # kvs) =
     (if key \<in> fst ` set seen then reject ''E-CANON-DUPKEY''
      else side_pairs_hook_loop (seen @ [(key, value)]) kvs)"

definition side_pairs_hook :: "(string \<times> json) list \<Rightarrow> json check" where
  "side_pairs_hook kvs = side_pairs_hook_loop [] kvs"

definition COMPRESSION_MAGICS :: "octets list" where
  "COMPRESSION_MAGICS = [[CHR 0x1F, CHR 0x8B], ''PK'', ''BZ'', [CHR 0xFD, CHR ''7''], [CHR 0x28, CHR 0xB5]]"

text \<open>\<open>json.loads\<close> inside a \<open>try\<close> that turns a decoding error into a rejection, and outside one.\<close>

definition loads_or_reject ::
    "checker_env \<Rightarrow> ((string \<times> json) list \<Rightarrow> json check) \<Rightarrow> string \<Rightarrow> json check" where
  "loads_or_reject env hook text =
     (case env_json env hook floats_are_forbidden reject_constant text of
        Inl None \<Rightarrow> reject ''E-CANON-FORM''
      | Inl (Some e) \<Rightarrow> Inl e
      | Inr v \<Rightarrow> Inr v)"

definition loads_or_crash ::
    "checker_env \<Rightarrow> ((string \<times> json) list \<Rightarrow> json check) \<Rightarrow> string \<Rightarrow> json check" where
  "loads_or_crash env hook text =
     (case env_json env hook floats_are_forbidden reject_constant text of
        Inl None \<Rightarrow> crash
      | Inl (Some e) \<Rightarrow> Inl e
      | Inr v \<Rightarrow> Inr v)"

fun is_object :: "json \<Rightarrow> bool" where
  "is_object (JObj ms) = True"
| "is_object _ = False"

definition parse_document :: "checker_env \<Rightarrow> octets \<Rightarrow> json check" where
  "parse_document env octets =
     andThen (need (take 2 octets \<notin> set COMPRESSION_MAGICS) ''E-LIMIT-COMPRESSED'') (\<lambda>_.
     andThen (need (prefix FILE_MAGIC octets) ''E-SCHEMA-MISSING'') (\<lambda>_.
     andThen (need (octets \<noteq> [] \<and> last octets = CHR 0x0A \<and> count_list octets (CHR 0x0A) = 1)
       ''E-CANON-TRAILING'') (\<lambda>_.
     andThen (need (CHR 0x0D \<notin> set octets) ''E-CANON-FORM'') (\<lambda>_.
     andThen (need (utf8_ok octets) ''E-CANON-FORM'') (\<lambda>_.
     andThen (loads_or_reject env pairs_hook octets) (\<lambda>document.
     andThen (need (is_object document) ''E-CANON-FORM'') (\<lambda>_.
       Inr document)))))))"

definition NULL_PATH :: "string list" where
  "NULL_PATH = [''body'', ''verdict'', ''witness_class'']"

definition walk_text :: "checker_env \<Rightarrow> string \<Rightarrow> unit check" where
  "walk_text env s =
     andThen (need (env_nform env s = s) ''E-CANON-NFC'') (\<lambda>_.
       need (list_all (\<lambda>ch. 32 \<le> (of_char ch :: nat) \<and> (of_char ch :: nat) \<noteq> 127) s) ''E-CANON-NFC'')"

fun walk_value :: "checker_env \<Rightarrow> json \<Rightarrow> string list \<Rightarrow> nat \<Rightarrow> unit check"
  and walk_members :: "checker_env \<Rightarrow> (string \<times> json) list \<Rightarrow> string list \<Rightarrow> nat \<Rightarrow> unit check"
  and walk_items :: "checker_env \<Rightarrow> nat \<Rightarrow> json list \<Rightarrow> string list \<Rightarrow> nat \<Rightarrow> unit check" where
  "walk_value env JNull path depth = need (path = NULL_PATH) ''E-CANON-NULL''"
| "walk_value env (JBool b) path depth = Inr ()"
| "walk_value env (JFloat f) path depth = reject ''E-CANON-FLOAT''"
| "walk_value env (JInt v) path depth = need (0 \<le> v \<and> v \<le> U32_MAX) ''E-CANON-WIDTH''"
| "walk_value env (JStr s) path depth = walk_text env s"
| "walk_value env (JObj members) path depth =
     (if MAX_DEPTH < depth then reject ''E-LIMIT-DEPTH'' else walk_members env members path (depth + 1))"
| "walk_value env (JArr items) path depth =
     (if MAX_DEPTH < depth then reject ''E-LIMIT-DEPTH'' else walk_items env 0 items path (depth + 1))"
| "walk_members env [] path depth = Inr ()"
| "walk_members env ((key, value) # members) path depth =
     andThen (walk_value env value (path @ [key]) depth) (\<lambda>_. walk_members env members path depth)"
| "walk_items env index [] path depth = Inr ()"
| "walk_items env index (value # items) path depth =
     andThen (walk_value env value (path @ [decimal index]) depth) (\<lambda>_.
       walk_items env (Suc index) items path depth)"

definition walk_values :: "checker_env \<Rightarrow> json \<Rightarrow> unit check" where
  "walk_values env document = walk_value env document [] 1"

text \<open>\<open>_dumps\<close> with and without sorted keys.\<close>

fun unsorted_text :: "json \<Rightarrow> string"
  and unsorted_members :: "(string \<times> json) list \<Rightarrow> string list"
  and unsorted_items :: "json list \<Rightarrow> string list" where
  "unsorted_text (JObj members) = ''{'' @ comma_join (unsorted_members members) @ ''}''"
| "unsorted_text (JArr items) = ''['' @ comma_join (unsorted_items items) @ '']''"
| "unsorted_text v = json_text v"
| "unsorted_members [] = []"
| "unsorted_members ((k, v) # members) =
     (quoted k @ CHR '':'' # unsorted_text v) # unsorted_members members"
| "unsorted_items [] = []"
| "unsorted_items (v # items) = unsorted_text v # unsorted_items items"

definition dumps :: "json \<Rightarrow> bool \<Rightarrow> string" where
  "dumps value sort_keys = (if sort_keys then json_text value else unsorted_text value)"

fun ascending :: "json list \<Rightarrow> unit check" where
  "ascending (x # y # zs) = andThen (py_less x y) (\<lambda>less.
     if less then ascending (y # zs) else reject ''E-CANON-ORDER'')"
| "ascending _ = Inr ()"

text \<open>\<open>_ascending\<close> on a member of unknown type: it takes \<open>len\<close> and subscripts with integers.\<close>

definition ascending_value :: "json \<Rightarrow> unit check" where
  "ascending_value v =
     (case v of
        JObj members \<Rightarrow> if length members \<le> 1 then Inr () else crash
      | _ \<Rightarrow> andThen (iter v) ascending)"

fun is_plain_int :: "json \<Rightarrow> bool" where
  "is_plain_int (JInt n) = True"
| "is_plain_int _ = False"

definition digits_ok :: "string \<Rightarrow> bool" where
  "digits_ok ds = (ds = ''0'' \<or> ds \<noteq> [] \<and> list_all is_digit ds \<and> hd ds \<noteq> CHR ''0'')"

definition digits_value :: "nat \<Rightarrow> string \<Rightarrow> nat" where
  "digits_value base ds = foldl (\<lambda>n c. n * base + hex_value c) 0 ds"

text \<open>\<^verbatim>\<open>\A-?(?:0|[1-9][0-9]*)\Z\<close> and \<^verbatim>\<open>\A0x[0-9a-f]{16}\Z\<close>; \<open>int\<close> refuses a text of more than 4300
  digits with a \<open>ValueError\<close>.\<close>

definition int_text_value :: "json \<Rightarrow> int check" where
  "int_text_value value =
     (case value of
        JStr s \<Rightarrow>
          let negative = (s \<noteq> [] \<and> hd s = CHR ''-''); ds = (if negative then tl s else s)
          in if \<not> digits_ok ds then reject ''E-CANON-WIDTH''
             else if 4300 < length ds then crash
             else Inr (if negative then - int (digits_value 10 ds) else int (digits_value 10 ds))
      | _ \<Rightarrow> reject ''E-CANON-WIDTH'')"

definition mask_text :: "json \<Rightarrow> nat check" where
  "mask_text value =
     (case value of
        JStr s \<Rightarrow> if length s = 18 \<and> take 2 s = ''0x'' \<and> is_lower_hex (drop 2 s)
                  then Inr (digits_value 16 (drop 2 s)) else reject ''E-CANON-WIDTH''
      | _ \<Rightarrow> reject ''E-CANON-WIDTH'')"

section \<open>Preimages\<close>

fun text_of :: "json \<Rightarrow> string check" where
  "text_of (JStr s) = Inr s"
| "text_of _ = crash"

definition the_member :: "(json \<Rightarrow> 'a check) \<Rightarrow> json \<Rightarrow> string \<Rightarrow> 'a check" where
  "the_member f v name = andThen (item v name) f"

definition ascii_octets :: "json \<Rightarrow> octets check" where
  "ascii_octets v = andThen (text_of v) (\<lambda>s. uncaught (ascii_text s))"

definition utf8_octets :: "checker_env \<Rightarrow> json \<Rightarrow> octets check" where
  "utf8_octets env v = andThen (text_of v) (\<lambda>s. uncaught (utf8_text (env_nform env) s))"

text \<open>The integer encoders refuse a boolean.\<close>

fun int_of :: "json \<Rightarrow> int check" where
  "int_of (JInt n) = Inr n"
| "int_of _ = crash"

fun bool_of :: "json \<Rightarrow> bool check" where
  "bool_of (JBool b) = Inr b"
| "bool_of _ = crash"

definition octets_in_order :: "(json \<Rightarrow> octets check) \<Rightarrow> json \<Rightarrow> octets check" where
  "octets_in_order f v = andThen (iter v) (\<lambda>xs. andThen (mapM f xs) (\<lambda>os. uncaught (ordered_seq os)))"

fun joined :: "octets check list \<Rightarrow> octets check" where
  "joined [] = Inr []"
| "joined (p # ps) = andThen p (\<lambda>o1. andThen (joined ps) (\<lambda>o2. Inr (o1 @ o2)))"

definition SOURCE_PREFIX :: string where "SOURCE_PREFIX = ''src:''"

definition src :: "json \<Rightarrow> string check" where
  "src name = andThen (text_of name) (\<lambda>s. Inr (if prefix ''src:'' s then s else ''src:'' @ s))"

definition fact_id_ok :: "json \<Rightarrow> bool check" where
  "fact_id_ok value = andThen (text_of value) (\<lambda>s.
     Inr (prefix ''fh:'' s \<and> length (code_points s) = 3 + 64))"

definition instance_canonical :: "checker_env \<Rightarrow> json \<Rightarrow> octets check" where
  "instance_canonical env inst = joined
     [the_member (octets_in_order (\<lambda>m. andThen (mask_text m) (\<lambda>n. uncaught (u64 (int n))))) inst ''blockers'',
      the_member (octets_in_order ascii_octets) inst ''body'',
      the_member (octets_in_order (\<lambda>e. joined
        [the_member (utf8_octets env) e ''binding'', the_member ascii_octets e ''event_id'',
         the_member ascii_octets e ''source_id'',
         the_member (\<lambda>t. andThen (int_text_value t) (\<lambda>n. uncaught (i64 n))) e ''t_evt_ns''])) inst ''evidence'',
      the_member (\<lambda>g. andThen (bool_of g) (\<lambda>b. Inr (boolean b))) inst ''ghost'',
      the_member ascii_octets inst ''head'',
      the_member ascii_octets inst ''instance_id'',
      the_member (octets_in_order ascii_octets) inst ''license_ids'',
      the_member ascii_octets inst ''observed'',
      the_member ascii_octets inst ''rule_id'',
      the_member ascii_octets inst ''rule_version'',
      the_member (\<lambda>t. andThen (int_of t) (\<lambda>n. uncaught (u32 n))) inst ''tick'']"

definition checker_licence_preimage :: "checker_env \<Rightarrow> json \<Rightarrow> octets check" where
  "checker_licence_preimage env lic = joined
     [the_member ascii_octets lic ''basis'', the_member (utf8_octets env) lic ''reason'',
      the_member ascii_octets lic ''source_id'',
      the_member (\<lambda>t. andThen (int_text_value t) (\<lambda>n. uncaught (i64 n))) lic ''t0_ns'',
      the_member (\<lambda>t. andThen (int_text_value t) (\<lambda>n. uncaught (i64 n))) lic ''t1_ns'']"

fun spelled_bare :: "json \<Rightarrow> bool" where
  "spelled_bare (JStr s) = (\<not> prefix SOURCE_PREFIX s)"
| "spelled_bare _ = False"

definition checker_event_preimage :: "checker_env \<Rightarrow> json \<Rightarrow> octets check" where
  "checker_event_preimage env record =
     andThen (get_or record ''attrs'' (JObj [])) (\<lambda>attrs.
     andThen (need (is_object attrs) ''E-WITNESS-EVENT'') (\<lambda>_.
     andThen (item record ''source_id'') (\<lambda>source.
     andThen (need (spelled_bare source) ''E-WITNESS-EVENT'') (\<lambda>_.
     joined
       [case attrs of
          JObj members \<Rightarrow> andThen (mapM (\<lambda>(k, v). andThen (text_of v) (\<lambda>s. Inr (k, s))) members)
            (\<lambda>kvs. uncaught (pairs (env_nform env) kvs))
        | _ \<Rightarrow> crash,
        the_member (utf8_octets env) record ''event_type'',
        the_member (\<lambda>t. andThen (int_of t) (\<lambda>n. uncaught (u32 n))) record ''seq'',
        andThen (text_of source) (\<lambda>s. uncaught (ascii_text (SOURCE_PREFIX @ s))),
        the_member (\<lambda>t. andThen (int_text_value t) (\<lambda>n. uncaught (i64 n))) record ''t_evt_ns'']))))"

section \<open>Reachability\<close>

definition blocked :: "nat list \<Rightarrow> nat \<Rightarrow> bool" where
  "blocked blockers cut_mask = list_ex (\<lambda>t. t AND cut_mask = t) blockers"

text \<open>What \<open>_reach\<close> reads of one instance before it starts: its masks and the keys of its body.
  The head is read when the instance fires.\<close>

record horn =
  cl_masks :: "nat list"
  cl_body :: "json list"
  cl_head :: "json check"

definition inst_masks :: "json \<Rightarrow> nat list check" where
  "inst_masks inst = the_member (\<lambda>b. andThen (iter b) (mapM mask_text)) inst ''blockers''"

definition inst_facts :: "json \<Rightarrow> json list check" where
  "inst_facts inst = the_member (\<lambda>b. andThen (iter b) (mapM hashed)) inst ''body''"

definition horns_of :: "json list \<Rightarrow> horn list check" where
  "horns_of instances =
     andThen (mapM inst_masks instances) (\<lambda>masks.
     andThen (mapM inst_facts instances) (\<lambda>bodies.
       Inr (map (\<lambda>(inst, m, b). \<lparr>cl_masks = m, cl_body = b, cl_head = item inst ''head''\<rparr>)
         (zip instances (zip masks bodies)))))"

text \<open>\<open>by_body.get(fact, ())\<close>: the indices in order, once for every occurrence.\<close>

definition by_body :: "horn list \<Rightarrow> json \<Rightarrow> nat list" where
  "by_body cs key =
     concat (map (\<lambda>(index, c). replicate (count_list (cl_body c) key) index) (enumerate 0 cs))"

fun checker_touch ::
    "horn list \<Rightarrow> nat \<Rightarrow> nat list \<Rightarrow> int list \<times> json list \<times> nat \<Rightarrow> (int list \<times> json list \<times> nat) check" where
  "checker_touch cs cut_mask [] st = Inr st"
| "checker_touch cs cut_mask (index # is) (count, queue, steps) =
     (if blocked (cl_masks (cs ! index)) cut_mask then checker_touch cs cut_mask is (count, queue, steps)
      else let count' = count[index := count ! index - 1] in
        andThen (if count' ! index = 0
                 then andThen (cl_head (cs ! index)) (\<lambda>head. Inr (queue @ [head]))
                 else Inr queue) (\<lambda>queue'.
          checker_touch cs cut_mask is (count', queue', steps + 1)))"

definition heads_pool :: "horn list \<Rightarrow> json set" where
  "heads_pool cs = {pyval h |h i. i < length cs \<and> cl_head (cs ! i) = Inr h}"

lemma finite_heads_pool [simp]: "finite (heads_pool cs)"
proof -
  have "heads_pool cs \<subseteq> (\<lambda>i. case cl_head (cs ! i) of Inr h \<Rightarrow> pyval h | Inl e \<Rightarrow> JNull) ` {..<length cs}"
    by (force simp: heads_pool_def)
  then show ?thesis by (rule finite_subset) simp
qed

lemma by_body_index: "i \<in> set (by_body cs k) \<Longrightarrow> i < length cs"
  by (auto simp: by_body_def in_set_enumerate_eq)

lemma checker_touch_pool:
  assumes "checker_touch cs S is (r, q, n) = Inr (r', q', n')" and "\<forall>i \<in> set is. i < length cs"
  shows "pyval ` set q' \<subseteq> pyval ` set q \<union> heads_pool cs"
  using assms
proof (induction "is" arbitrary: r q n)
  case (Cons i "is")
  show ?case
  proof (cases "blocked (cl_masks (cs ! i)) S")
    case True
    with Cons show ?thesis by simp
  next
    case False
    define c where "c = r[i := r ! i - 1]"
    from Cons.prems(1) False obtain p where
      p: "(if c ! i = 0 then andThen (cl_head (cs ! i)) (\<lambda>head. Inr (q @ [head])) else Inr q) = Inr p"
      and rest: "checker_touch cs S is (c, p, n + 1) = Inr (r', q', n')"
      by (auto simp: Let_def c_def andThen_eq_Inr)
    have "pyval ` set q' \<subseteq> pyval ` set p \<union> heads_pool cs"
      using Cons.IH [OF rest] Cons.prems(2) by simp
    moreover have "pyval ` set p \<subseteq> pyval ` set q \<union> heads_pool cs"
    proof (cases "c ! i = 0")
      case True
      with p obtain h where h: "cl_head (cs ! i) = Inr h" "p = q @ [h]" by (auto simp: andThen_eq_Inr)
      then have "pyval h \<in> heads_pool cs" unfolding heads_pool_def using Cons.prems(2) by auto
      with h show ?thesis by auto
    qed (use p in auto)
    ultimately show ?thesis by blast
  qed
qed simp

text \<open>The loop over the queue; the set \<open>derived\<close> is kept as the list of its insertions. It ends on every input: each turn either derives a fact for the first
  time, of finitely many, or shortens the queue.\<close>

function checker_propagate ::
    "horn list \<Rightarrow> nat \<Rightarrow> int list \<Rightarrow> json list \<Rightarrow> json list \<Rightarrow> nat \<Rightarrow> (json list \<times> nat) check" where
  "checker_propagate cs cut_mask count derived [] steps = Inr (derived, steps)"
| "checker_propagate cs cut_mask count derived (head # queue) steps =
     (if \<not> hashable head then crash
      else if pyval head \<in> set derived then checker_propagate cs cut_mask count derived queue steps
      else case checker_touch cs cut_mask (by_body cs (pyval head)) (count, queue, steps) of
        Inl e \<Rightarrow> Inl e
      | Inr (count', queue', steps') \<Rightarrow>
          checker_propagate cs cut_mask count' (derived @ [pyval head]) queue' (steps' + 1))"
  by pat_completeness auto
termination
proof (relation "measures [\<lambda>(cs, S, r, d, q, n). card ((heads_pool cs \<union> pyval ` set q) - set d),
                           \<lambda>(cs, S, r, d, q, n). length q]", goal_cases)
  case 1
  then show ?case by simp
next
  case (2 cs S r d h q n)
  have "card ((heads_pool cs \<union> pyval ` set q) - set d) \<le> card ((heads_pool cs \<union> pyval ` set (h # q)) - set d)"
    by (rule card_mono) auto
  then show ?case by auto
next
  case (3 cs S r d h q n x r' y q' n')
  from 3(3-5) have "checker_touch cs S (by_body cs (pyval h)) (r, q, n) = Inr (r', q', n')" by simp
  then have "pyval ` set q' \<subseteq> pyval ` set q \<union> heads_pool cs"
    by (rule checker_touch_pool) (blast dest: by_body_index)
  then have "(heads_pool cs \<union> pyval ` set q') - set (d @ [pyval h])
      \<subset> (heads_pool cs \<union> pyval ` set (h # q)) - set d"
    using 3(2) by auto
  then have "card ((heads_pool cs \<union> pyval ` set q') - set (d @ [pyval h]))
      < card ((heads_pool cs \<union> pyval ` set (h # q)) - set d)"
    by (intro psubset_card_mono) auto
  then show ?case by simp
qed

text \<open>The heads of the instances without a body that the cut leaves open.\<close>

definition ready_heads :: "horn list \<Rightarrow> nat \<Rightarrow> json list check" where
  "ready_heads cs cut_mask =
     mapM cl_head (filter (\<lambda>c. cl_body c = [] \<and> \<not> blocked (cl_masks c) cut_mask) cs)"

definition checker_reach :: "json list \<Rightarrow> json list \<Rightarrow> nat \<Rightarrow> (json list \<times> nat) check" where
  "checker_reach instances axioms cut_mask =
     andThen (horns_of instances) (\<lambda>cs.
     andThen (py_sorted axioms) (\<lambda>queue.
     andThen (ready_heads cs cut_mask) (\<lambda>heads.
       checker_propagate cs cut_mask (map (\<lambda>c. int (length (cl_body c))) cs) [] (queue @ heads) 0)))"

definition axioms_of :: "json list \<Rightarrow> json list check" where
  "axioms_of instances =
     andThen (mapM (\<lambda>inst. the_member hashed inst ''head'') instances) (\<lambda>heads.
     andThen (mapM inst_facts instances) (\<lambda>bodies.
       py_sorted (filter (\<lambda>f. f \<notin> set heads) (remdups (concat bodies)))))"

end
