(* ===== verification/Verdict.thy ===== *)
theory Verdict
  imports Model "HOL-Library.Sublist"
begin

text \<open>
  The verdict algebra of \<^verbatim>\<open>spectra_vs/cert.py\<close>: the flag table and its masks, the closed
  alphabets, the no-tamper token, \<open>Verdict.build\<close> with the rules A1 to A10, and the renderings
  that carry the scope. The seal object that keeps callers from the constructor is a guard of
  the language: here a verdict is what \<open>Verdict_build\<close> returns. The effect column of the flag
  table is prose and is left out.
\<close>

section \<open>The flag table\<close>

record flag =
  fl_bit :: nat
  fl_name :: string
  fl_classes :: "string list"

definition blocks_robust :: "flag \<Rightarrow> bool" where
  "blocks_robust f = (''S'' \<in> set (fl_classes f))"

definition FLAGS :: "flag list" where
  "FLAGS = map (\<lambda>(b, n, c). \<lparr>fl_bit = b, fl_name = n, fl_classes = c\<rparr>)
    [(0, ''grounding_capped'', [''S'']),
     (1, ''corridor_cap'', [''S'', ''M'', ''D'']),
     (2, ''atoms_over_budget'', [''M'']),
     (3, ''er_ambiguous'', [''S'']),
     (4, ''quarantined_records'', [''S'']),
     (5, ''license_voided_by_suspected_tampering'', [''S'']),
     (6, ''greedy_cover'', [''D'']),
     (7, ''sampled_matrix'', [''R'']),
     (8, ''profile_missing'', [''S''])]"

definition FLAG_BY_NAME :: "string \<Rightarrow> flag option" where
  "FLAG_BY_NAME name = map_of (map (\<lambda>f. (fl_name f, f)) FLAGS) name"

definition SOUNDNESS_MASK :: nat where
  "SOUNDNESS_MASK = sum_list (map (\<lambda>f. push_bit (fl_bit f) 1) (filter blocks_robust FLAGS))"

definition RESERVED_MASK :: nat where
  "RESERVED_MASK = sum_list (map (\<lambda>b. push_bit b 1) [length FLAGS..<16])"

definition MINIMALITY_CAP_FLAGS :: "string list" where
  "MINIMALITY_CAP_FLAGS = [''atoms_over_budget'', ''corridor_cap'']"

definition DERIVED_SUPPRESSED_ALWAYS :: "string list" where
  "DERIVED_SUPPRESSED_ALWAYS = [''pareto_frontier'', ''redundancy_index'']"

text \<open>The loop over the names, with the mask so far and the last bit, -1 at first.\<close>

fun flags_loop :: "string list \<Rightarrow> nat \<Rightarrow> int \<Rightarrow> nat outcome" where
  "flags_loop [] m previous = Inr m"
| "flags_loop (name # names) m previous =
     (case FLAG_BY_NAME name of
        None \<Rightarrow> raises_code VerdictError ''VRD-008''
      | Some flag \<Rightarrow>
          if int (fl_bit flag) \<le> previous then raises_code VerdictError ''VRD-008''
          else flags_loop names (m OR push_bit (fl_bit flag) 1) (int (fl_bit flag)))"

definition flags_mask :: "string list \<Rightarrow> nat outcome" where
  "flags_mask names = flags_loop names 0 (-1)"

definition check_reserved_bits :: "nat \<Rightarrow> nat outcome" where
  "check_reserved_bits m =
     (if m AND RESERVED_MASK \<noteq> 0 then raises_code VerdictError ''VRD-009'' else Inr m)"

section \<open>Alphabets, token and verdict\<close>

datatype safety = ROBUST | OPTIMISTIC_ONLY | UNSAFE | INDETERMINATE

datatype witness_class = WC_OBSERVED | WC_LICENSED | WC_CONTESTED

datatype realizability_status = RZ_CHECKED | RZ_UNCHECKED

record no_tamper_evidence =
  nt_sources_checked :: int

definition mint_no_tamper_token :: "string list \<Rightarrow> bool \<Rightarrow> int \<Rightarrow> no_tamper_evidence outcome" where
  "mint_no_tamper_token tamper_suspected_sources verdict_tamper_sensitive sources =
     (if verdict_tamper_sensitive then raises_code VerdictError ''VRD-001''
      else if tamper_suspected_sources \<noteq> [] then raises_code VerdictError ''VRD-001''
      else andThen (u32 sources) (\<lambda>_. Inr \<lparr>nt_sources_checked = sources\<rparr>))"

record verdict_proposal =
  vp_safety :: safety
  vp_minimality :: minimality
  vp_flags :: "string list"
  vp_derived_suppressed :: "string list"
  vp_realizability :: realizability_status
  vp_witness_class :: "witness_class option"

record verdict =
  vd_safety :: safety
  vd_minimality :: minimality
  vd_flags :: "string list"
  vd_derived_suppressed :: "string list"
  vd_realizability :: realizability_status
  vd_witness_class :: "witness_class option"

definition exact_minimality :: "minimality \<Rightarrow> bool" where
  "exact_minimality m = (m = EXACT_EXHAUSTIVE \<or> m = EXACT_PSI_RELATIVE)"

definition check_verdict_algebra ::
    "safety \<Rightarrow> minimality \<Rightarrow> string list \<Rightarrow> string list \<Rightarrow> witness_class option \<Rightarrow> unit outcome" where
  "check_verdict_algebra safety minimality flags derived_suppressed witness_class =
     andThen (flags_mask flags) (\<lambda>m.
     andThen (check_reserved_bits m) (\<lambda>m.
     andThen (guard_code (\<not> (safety = ROBUST \<and> m AND SOUNDNESS_MASK \<noteq> 0)) VerdictError ''VRD-001'') (\<lambda>_.
     andThen (guard_code (\<not> (safety \<noteq> UNSAFE \<and> witness_class \<noteq> None)) VerdictError ''VRD-006'') (\<lambda>_.
     andThen (if safety = UNSAFE
              then andThen (guard_code (witness_class \<noteq> None) VerdictError ''VRD-002'') (\<lambda>_.
                guard_code (\<not> (''er_ambiguous'' \<in> set flags \<and> witness_class \<noteq> Some WC_CONTESTED))
                  VerdictError ''VRD-007'')
              else Inr ()) (\<lambda>_.
     andThen (guard_code (\<not> (exact_minimality minimality \<and>
               list_ex (\<lambda>n. n \<in> set flags) MINIMALITY_CAP_FLAGS)) VerdictError ''VRD-004'') (\<lambda>_.
     andThen (check_strictly_ascending derived_suppressed id) (\<lambda>_.
       guard_code (list_all (\<lambda>n. n \<in> set derived_suppressed) DERIVED_SUPPRESSED_ALWAYS)
         VerdictError ''VRD-014'')))))))"

definition Verdict_build ::
    "verdict_proposal \<Rightarrow> no_tamper_evidence option \<Rightarrow> bool \<Rightarrow> bool \<Rightarrow> bool \<Rightarrow> verdict outcome" where
  "Verdict_build p token witness_present witness_contains_silent pmax_fixpoint_terminated =
     andThen (check_verdict_algebra (vp_safety p) (vp_minimality p) (vp_flags p)
                (vp_derived_suppressed p) (vp_witness_class p)) (\<lambda>_.
     andThen (if vp_safety p = ROBUST
              then andThen (guard_code (token \<noteq> None) VerdictError ''VRD-001'') (\<lambda>_.
                guard_code pmax_fixpoint_terminated VerdictError ''VRD-001'')
              else Inr ()) (\<lambda>_.
     andThen (if vp_safety p = UNSAFE
              then andThen (guard_code witness_present VerdictError ''VRD-002'') (\<lambda>_.
                andThen (guard_code (\<not> (vp_witness_class p = Some WC_OBSERVED \<and> witness_contains_silent))
                  VerdictError ''VRD-003'') (\<lambda>_.
                guard_code (\<not> (vp_witness_class p = Some WC_LICENSED \<and> \<not> witness_contains_silent))
                  VerdictError ''VRD-003''))
              else Inr ()) (\<lambda>_.
       Inr \<lparr>vd_safety = vp_safety p, vd_minimality = vp_minimality p, vd_flags = vp_flags p,
         vd_derived_suppressed = vp_derived_suppressed p, vd_realizability = vp_realizability p,
         vd_witness_class = vp_witness_class p\<rparr>)))"

section \<open>Renderings\<close>

fun safety_text :: "safety \<Rightarrow> string" where
  "safety_text ROBUST = ''ROBUST''"
| "safety_text OPTIMISTIC_ONLY = ''OPTIMISTIC_ONLY''"
| "safety_text UNSAFE = ''UNSAFE''"
| "safety_text INDETERMINATE = ''INDETERMINATE''"

fun witness_class_text :: "witness_class \<Rightarrow> string" where
  "witness_class_text WC_OBSERVED = ''OBSERVED''"
| "witness_class_text WC_LICENSED = ''LICENSED''"
| "witness_class_text WC_CONTESTED = ''CONTESTED''"

fun realizability_text :: "realizability_status \<Rightarrow> string" where
  "realizability_text RZ_CHECKED = ''CHECKED''"
| "realizability_text RZ_UNCHECKED = ''UNCHECKED''"

fun minimality_label :: "minimality \<Rightarrow> string" where
  "minimality_label EXACT_EXHAUSTIVE = ''EXACT_EXHAUSTIVE''"
| "minimality_label EXACT_PSI_RELATIVE = ''EXACT_PSI_RELATIVE''"
| "minimality_label SUBSET = ''SUBSET''"
| "minimality_label UNVERIFIED = ''UNVERIFIED''"

definition ATTACKER :: string where "ATTACKER = ''non-adaptive''"

definition MODEL_STATEMENT :: string where
  "MODEL_STATEMENT = ''This is a statement about the model, not about the system.''"

definition CUT_DELTA_CAPTION :: string where
  "CUT_DELTA_CAPTION = ''difference between two canonical representatives; not the blindness premium''"

definition IMPLEMENTATION_NOTE :: string where
  "IMPLEMENTATION_NOTE = ''PYTHON REFERENCE IMPLEMENTATION. Telemetry comes from a seeded synthetic generator, '' @
     ''never from a service. Digests are blake2b-256 labelled b2b256:, not the algorithm '' @
     ''the specification names.''"

record scope =
  sc_rules :: string
  sc_controls :: string
  sc_liveness :: string
  sc_er :: string
  sc_goal :: string
  sc_bundle :: string
  sc_attacker :: string

definition check_scope :: "scope \<Rightarrow> scope outcome" where
  "check_scope s =
     andThen (guard_code (sc_attacker s = ATTACKER) VerdictError ''VRD-005'') (\<lambda>_.
     andThen (check_all (\<lambda>value. andThen (guard_code (value \<noteq> []) VerdictError ''VRD-005'') (\<lambda>_.
         andThen (parse_hash_ref value) (\<lambda>_. Inr ())))
       [sc_rules s, sc_controls s, sc_liveness s, sc_er s, sc_goal s, sc_bundle s]) (\<lambda>_.
       Inr s))"

definition short_digest :: "string \<Rightarrow> string" where
  "short_digest value =
     (case partition_at (CHR '':'') value of
        (_, Some body) \<Rightarrow> ''b2b256:'' @ take 8 body
      | (body, None) \<Rightarrow> ''b2b256:'' @ take 8 body)"

definition render_short :: "verdict \<Rightarrow> scope \<Rightarrow> string" where
  "render_short v s = safety_text (vd_safety v) @ ''(rules@'' @ short_digest (sc_rules s) @
     '', controls@'' @ short_digest (sc_controls s) @ '', liveness@'' @ short_digest (sc_liveness s) @
     '', er@'' @ short_digest (sc_er s) @ '', goal@'' @ short_digest (sc_goal s) @
     '', bundle@'' @ short_digest (sc_bundle s) @ '', '' @ sc_attacker s @ '') ['' @
     minimality_label (vd_minimality v) @ '']''"

fun minimality_clause :: "minimality \<Rightarrow> string" where
  "minimality_clause EXACT_EXHAUSTIVE =
     ''a fixpoint was run for every cut one control smaller over the admissible lattice''"
| "minimality_clause EXACT_PSI_RELATIVE = ''no smaller cut satisfies the enumerated corridor set''"
| "minimality_clause SUBSET =
     ''no control can be removed from this cut; smaller cuts were not ruled out''"
| "minimality_clause UNVERIFIED =
     ''no minimality probe ran, so nothing is claimed about the size of this cut''"

fun safety_clause :: "safety \<Rightarrow> string" where
  "safety_clause ROBUST = ''the goal is underivable under this cut in the upper program, which unions every '' @
     ''licensed silent instance''"
| "safety_clause OPTIMISTIC_ONLY = ''the goal is underivable under this cut in the lower program and derivable in the '' @
     ''upper one, so the difference is what could not be seen''"
| "safety_clause UNSAFE = ''the goal is derivable under this cut in the lower program, with a witness''"
| "safety_clause INDETERMINATE = ''no other safety value was constructible, which is the fail-closed sink''"

fun witness_clause :: "witness_class \<Rightarrow> string" where
  "witness_clause WC_OBSERVED = ''every leaf of the witness cites a record in the hashed bundle''"
| "witness_clause WC_LICENSED = ''the witness contains at least one silent step and depicts a hypothesis, not an '' @
     ''observation; the upper program may combine silent steps no single world realizes''"
| "witness_clause WC_CONTESTED = ''entity resolution was ambiguous, so the leaves themselves are contested''"

fun join_with :: "string \<Rightarrow> string list \<Rightarrow> string" where
  "join_with sep [] = []"
| "join_with sep [s] = s"
| "join_with sep (s # ss) = s @ sep @ join_with sep ss"

definition render_long :: "verdict \<Rightarrow> scope \<Rightarrow> string" where
  "render_long v s = join_with [CHR 0x0A] (
     [render_short v s, ''Safety: '' @ safety_clause (vd_safety v) @ ''.'',
      ''Minimality: '' @ minimality_clause (vd_minimality v) @ ''.''] @
     (case vd_witness_class v of None \<Rightarrow> [] | Some c \<Rightarrow> [''Witness: '' @ witness_clause c @ ''.'']) @
     [''Scope: this rule table, this control catalog, these licences, the telemetry '' @
      ''actually ingested, and a '' @ sc_attacker s @ '' attacker.''] @
     (if vd_flags v \<noteq> [] then [''Flags set: '' @ join_with '', '' (vd_flags v) @ ''.''] else []) @
     (if vd_derived_suppressed v \<noteq> []
      then [''Derived products omitted entirely: '' @ join_with '', '' (vd_derived_suppressed v) @ ''.'']
      else []) @
     [IMPLEMENTATION_NOTE, MODEL_STATEMENT])"

definition render_minimality :: "minimality \<Rightarrow> string" where
  "render_minimality m = minimality_clause m"

definition render_cut_delta_canonical :: "string list \<Rightarrow> string" where
  "render_cut_delta_canonical control_ids =
     ''cut_delta_canonical = {'' @ (if control_ids \<noteq> [] then join_with '', '' control_ids else ''(empty)'') @
     ''} -- '' @ CUT_DELTA_CAPTION"

section \<open>The mask of a flag array\<close>

definition FLAG_NAMES :: "string list" where
  "FLAG_NAMES = map fl_name FLAGS"

lemma flag_by_name: "FLAG_BY_NAME name = Some f \<Longrightarrow> f \<in> set FLAGS \<and> fl_name f = name"
  by (auto simp: FLAG_BY_NAME_def dest!: map_of_SomeD)

lemma FLAGS_nth: "i < 9 \<Longrightarrow> fl_bit (FLAGS ! i) = i \<and> FLAG_BY_NAME (FLAG_NAMES ! i) = Some (FLAGS ! i)"
proof -
  have "\<forall>i \<in> set [0..<9]. fl_bit (FLAGS ! i) = i \<and> FLAG_BY_NAME (FLAG_NAMES ! i) = Some (FLAGS ! i)"
    by code_simp
  then show "i < 9 \<Longrightarrow> fl_bit (FLAGS ! i) = i \<and> FLAG_BY_NAME (FLAG_NAMES ! i) = Some (FLAGS ! i)" by simp
qed

lemma length_FLAGS: "length FLAGS = 9" "length FLAG_NAMES = 9"
  by (simp_all add: FLAGS_def FLAG_NAMES_def)

text \<open>The position of a flag in the table, which is its bit.\<close>

definition bit_of :: "string \<Rightarrow> nat" where
  "bit_of name = (case FLAG_BY_NAME name of None \<Rightarrow> 0 | Some f \<Rightarrow> fl_bit f)"

definition declared_flags :: "string list \<Rightarrow> bool" where
  "declared_flags names \<longleftrightarrow> set names \<subseteq> set FLAG_NAMES \<and> sorted_wrt (<) (map bit_of names)"

lemma flag_known: "FLAG_BY_NAME name \<noteq> None \<longleftrightarrow> name \<in> set FLAG_NAMES"
  by (force simp: FLAG_BY_NAME_def FLAG_NAMES_def map_of_eq_None_iff image_iff)

lemma bit_of_flag: "FLAG_BY_NAME name = Some f \<Longrightarrow> bit_of name = fl_bit f"
  by (simp add: bit_of_def)

lemma flags_loop_eq:
  "flags_loop names m previous = Inr r \<longleftrightarrow>
     set names \<subseteq> set FLAG_NAMES \<and> (\<forall>n \<in> set names. previous < int (bit_of n)) \<and>
     sorted_wrt (<) (map bit_of names) \<and> r = foldl (\<lambda>m n. m OR push_bit (bit_of n) 1) m names"
proof (induction names arbitrary: m previous)
  case (Cons name names)
  show ?case
  proof (cases "FLAG_BY_NAME name")
    case None
    with flag_known [of name] show ?thesis by simp
  next
    case (Some f)
    with flag_known [of name] have known: "name \<in> set FLAG_NAMES" by simp
    have "(\<forall>n \<in> set names. int (bit_of name) < int (bit_of n)) \<longleftrightarrow> (\<forall>n \<in> set names. bit_of name < bit_of n)"
      by simp
    with Some known Cons.IH [of "m OR push_bit (bit_of name) 1" "int (bit_of name)"] show ?thesis
      by (auto simp: bit_of_flag [OF Some] simp del: push_bit_of_1)
         (meson linorder_not_le of_nat_less_iff order_less_trans)
  qed
qed auto

lemma bit_foldl_flags:
  "bit (foldl (\<lambda>m n. m OR push_bit (bit_of n) 1) m names) b \<longleftrightarrow> bit m b \<or> b \<in> bit_of ` set names"
  for m :: nat
  by (induction names arbitrary: m) (auto simp: bit_or_iff bit_exp_iff)

lemma flags_mask_eq:
  "flags_mask names = Inr m \<longleftrightarrow> declared_flags names \<and> m = foldl (\<lambda>m n. m OR push_bit (bit_of n) 1) 0 names"
  by (auto simp: flags_mask_def flags_loop_eq declared_flags_def)

lemma flags_mask_bit: "flags_mask names = Inr m \<Longrightarrow> bit m b \<longleftrightarrow> b \<in> bit_of ` set names"
  using bit_foldl_flags [of 0 names b] by (simp add: flags_mask_eq)

lemma FLAG_facts:
  "\<forall>f \<in> set FLAGS. bit_of (fl_name f) = fl_bit f \<and> fl_bit f < 9" "distinct (map fl_bit FLAGS)"
  by (simp_all add: FLAGS_def bit_of_def FLAG_BY_NAME_def)

lemma masks: "SOUNDNESS_MASK = 315" "RESERVED_MASK = 65024"
  by (simp_all add: SOUNDNESS_MASK_def RESERVED_MASK_def FLAGS_def blocks_robust_def upt_rec)

lemma below_nine: "(b::nat) < 9 \<Longrightarrow> b = 0 \<or> b = 1 \<or> b = 2 \<or> b = 3 \<or> b = 4 \<or> b = 5 \<or> b = 6 \<or> b = 7 \<or> b = 8"
  by presburger

lemma bit_soundness: "bit SOUNDNESS_MASK b \<longleftrightarrow> (\<exists>f \<in> set FLAGS. blocks_robust f \<and> fl_bit f = b)"
proof (cases "b < 9")
  case True
  from below_nine [OF this] show ?thesis
    unfolding masks by (elim disjE) (simp_all add: bit_iff_odd FLAGS_def blocks_robust_def)
next
  case False
  then have "(315::nat) div 2 ^ b = 0"
    using power_increasing [of 9 b "2::nat"] by (simp add: div_eq_0_iff)
  then have "\<not> bit SOUNDNESS_MASK b" by (simp add: masks bit_iff_odd)
  with False FLAG_facts(1) show ?thesis by force
qed

lemma bit_reserved: "bit RESERVED_MASK b \<Longrightarrow> 9 \<le> b"
proof (rule ccontr)
  assume l: "bit RESERVED_MASK b" and "\<not> 9 \<le> b"
  then have "b < 9" by simp
  from below_nine [OF this] l show False
    unfolding masks by (elim disjE) (simp_all add: bit_iff_odd)
qed

lemma and_zero_iff: "(a :: nat) AND c = 0 \<longleftrightarrow> (\<forall>b. \<not> (bit a b \<and> bit c b))"
  by (auto simp: bit_eq_iff bit_and_iff)

lemma declared_flag: "n \<in> set FLAG_NAMES \<Longrightarrow> \<exists>f \<in> set FLAGS. fl_name f = n \<and> bit_of n = fl_bit f"
  using FLAG_facts(1) by (auto simp: FLAG_NAMES_def)

lemma reserved_ok:
  assumes "flags_mask names = Inr m"
  shows "check_reserved_bits m = Inr m"
proof -
  have "\<not> (bit m b \<and> bit RESERVED_MASK b)" for b
  proof
    assume b: "bit m b \<and> bit RESERVED_MASK b"
    then obtain n where "n \<in> set names" "b = bit_of n" using flags_mask_bit [OF assms] by blast
    moreover have "set names \<subseteq> set FLAG_NAMES" using assms by (simp add: flags_mask_eq declared_flags_def)
    ultimately have "b < 9" using declared_flag [of n] FLAG_facts(1) by force
    with b bit_reserved show False by force
  qed
  then have "m AND RESERVED_MASK = 0" unfolding and_zero_iff by blast
  then show ?thesis by (simp add: check_reserved_bits_def)
qed

lemma soundness_flagged:
  assumes "flags_mask names = Inr m"
  shows "m AND SOUNDNESS_MASK = 0 \<longleftrightarrow> (\<forall>f \<in> set FLAGS. blocks_robust f \<longrightarrow> fl_name f \<notin> set names)"
proof -
  have sub: "set names \<subseteq> set FLAG_NAMES" using assms by (simp add: flags_mask_eq declared_flags_def)
  have "fl_bit f \<in> bit_of ` set names \<longleftrightarrow> fl_name f \<in> set names" if f: "f \<in> set FLAGS" for f
  proof
    assume "fl_bit f \<in> bit_of ` set names"
    then obtain n where n: "n \<in> set names" "fl_bit f = bit_of n" by blast
    with sub declared_flag obtain g where g: "g \<in> set FLAGS" "fl_name g = n" "bit_of n = fl_bit g" by blast
    with n f FLAG_facts(2) have "g = f" by (metis distinct_map inj_onD)
    with g n show "fl_name f \<in> set names" by simp
  next
    assume "fl_name f \<in> set names"
    with f FLAG_facts(1) show "fl_bit f \<in> bit_of ` set names" by (metis image_eqI)
  qed
  then show ?thesis
    unfolding and_zero_iff flags_mask_bit [OF assms] bit_soundness by blast
qed

lemma ascending_id: "check_strictly_ascending xs id = Inr r \<longleftrightarrow> strictly_ascending xs \<and> r = xs"
  by (auto simp: check_strictly_ascending_eq_Inr)

lemma verdict_algebra:
  "check_verdict_algebra safety minimality flags derived wc = Inr u \<longleftrightarrow>
     declared_flags flags \<and>
     \<not> (safety = ROBUST \<and> (\<exists>f. f \<in> set FLAGS \<and> blocks_robust f \<and> fl_name f \<in> set flags)) \<and>
     (safety = UNSAFE) = (wc \<noteq> None) \<and>
     \<not> (safety = UNSAFE \<and> ''er_ambiguous'' \<in> set flags \<and> wc \<noteq> Some WC_CONTESTED) \<and>
     \<not> (exact_minimality minimality \<and> (\<exists>n. n \<in> set MINIMALITY_CAP_FLAGS \<and> n \<in> set flags)) \<and>
     strictly_ascending derived \<and> set DERIVED_SUPPRESSED_ALWAYS \<subseteq> set derived"
proof (cases "flags_mask flags")
  case (Inl d)
  then have "\<not> declared_flags flags" by (metis flags_mask_eq Inl_Inr_False)
  with Inl show ?thesis by (simp add: check_verdict_algebra_def)
next
  case (Inr m)
  then have known: "declared_flags flags" by (simp add: flags_mask_eq)
  have clear: "m AND SOUNDNESS_MASK = 0 \<longleftrightarrow>
      \<not> (\<exists>f. f \<in> set FLAGS \<and> blocks_robust f \<and> fl_name f \<in> set flags)"
    using soundness_flagged [OF Inr] by blast
  have shown: "check_verdict_algebra safety minimality flags derived wc = Inr u \<longleftrightarrow>
      \<not> (safety = ROBUST \<and> m AND SOUNDNESS_MASK \<noteq> 0) \<and> \<not> (safety \<noteq> UNSAFE \<and> wc \<noteq> None) \<and>
      (safety = UNSAFE \<longrightarrow> wc \<noteq> None \<and> \<not> (''er_ambiguous'' \<in> set flags \<and> wc \<noteq> Some WC_CONTESTED)) \<and>
      \<not> (exact_minimality minimality \<and> (\<exists>n \<in> set MINIMALITY_CAP_FLAGS. n \<in> set flags)) \<and>
      strictly_ascending derived \<and> (\<forall>n \<in> set DERIVED_SUPPRESSED_ALWAYS. n \<in> set derived)"
    unfolding check_verdict_algebra_def Inr andThen_simps reserved_ok [OF Inr]
    by (cases "safety = UNSAFE")
      (simp_all only: andThen_eq_Inr guard_code_eq_Inr ascending_id list_ex_iff list_all_iff
         if_True if_False simp_thms ex_simps, blast+)
  show ?thesis unfolding shown clear using known by blast
qed


definition sample_proposal :: "string list \<Rightarrow> verdict_proposal" where
  "sample_proposal flags = \<lparr>vp_safety = ROBUST, vp_minimality = SUBSET, vp_flags = flags,
     vp_derived_suppressed = [''pareto_frontier'', ''redundancy_index''],
     vp_realizability = RZ_UNCHECKED, vp_witness_class = None\<rparr>"

lemma some_listed: "(\<exists>f. f \<in> set xs \<and> P f) \<longleftrightarrow> list_ex P xs"
  by (auto simp: list_ex_iff)


end
