(* ===== verification/Obligations.thy ===== *)
theory Obligations
  imports Checker Verdict
begin

text \<open>
  \<^verbatim>\<open>spectra_vs_verify/checker.py\<close>, second part: the obligations O0 to O9. Each takes the checker's
  state and returns it updated with the counter that the obligation reports as its cost.
  The mutable \<open>_State\<close> is \<open>cstate\<close>; the atom dictionaries that O5 fills are the ordered rows
  and two functions of them.
\<close>

section \<open>State\<close>

type_synonym atom_row = "string \<times> int \<times> int"

record cstate =
  cs_octets :: octets
  cs_document :: json
  cs_body :: json
  cs_inputs :: checker_inputs
  cs_atom_by_rank :: "atom_row list"
  cs_atom_bits :: "((string \<times> int) \<times> int) list"
  cs_control_levels :: "(string \<times> int list) list"
  cs_cut_mask :: nat
  cs_cut_controls :: "(string \<times> int) list"
  cs_corridor_masks :: "nat list"
  cs_invariant :: "json list"
  cs_flags :: "json list"
  cs_flag_mask :: nat

definition initial_state :: "octets \<Rightarrow> json \<Rightarrow> json \<Rightarrow> checker_inputs \<Rightarrow> cstate" where
  "initial_state octets document body inputs =
     \<lparr>cs_octets = octets, cs_document = document, cs_body = body, cs_inputs = inputs,
      cs_atom_by_rank = [], cs_atom_bits = [], cs_control_levels = [], cs_cut_mask = 0,
      cs_cut_controls = [], cs_corridor_masks = [], cs_invariant = [], cs_flags = [],
      cs_flag_mask = 0\<rparr>"

type_synonym obligation = "cstate \<Rightarrow> (cstate \<times> nat) check"

definition passed :: "cstate \<Rightarrow> (cstate \<times> nat) check" where
  "passed s = Inr (s, 0)"

text \<open>\<open>name in obj\<close>, then the member, as \<open>_member(obj, name, where)\<close>.\<close>

definition member_iter :: "json \<Rightarrow> string \<Rightarrow> json list check" where
  "member_iter obj name = andThen (member obj name) iter"

definition need_file :: "checker_env \<Rightarrow> string option \<Rightarrow> octets check" where
  "need_file env path = (case path of None \<Rightarrow> Inl Usage_stop | Some p \<Rightarrow> read_octets env p)"

definition parse_side_json :: "checker_env \<Rightarrow> string \<Rightarrow> json check" where
  "parse_side_json env path =
     andThen (read_octets env path) (\<lambda>octets.
     andThen (need (utf8_ok octets) ''E-CANON-FORM'') (\<lambda>_.
     andThen (loads_or_reject env side_pairs_hook octets) (\<lambda>value.
     andThen (need (is_object value) ''E-CANON-FORM'') (\<lambda>_.
       Inr value))))"

definition parse_toml :: "checker_env \<Rightarrow> string \<Rightarrow> json check" where
  "parse_toml env path =
     andThen (read_octets env path) (\<lambda>octets.
     andThen (need (CHR 0x0D \<notin> set octets) ''E-LEX-001'') (\<lambda>_.
       case env_toml env octets of None \<Rightarrow> reject ''E-SYN-000'' | Some v \<Rightarrow> Inr v))"

text \<open>A side file whose option was not given is a usage error.\<close>

definition given :: "string option \<Rightarrow> string check" where
  "given path = (case path of None \<Rightarrow> Inl Usage_stop | Some p \<Rightarrow> Inr p)"

section \<open>O0 to O2: the file\<close>

fun object_keys :: "json \<Rightarrow> string list" where
  "object_keys (JObj members) = map fst members"
| "object_keys _ = []"

definition o0_canonicity :: "checker_env \<Rightarrow> obligation" where
  "o0_canonicity env s =
     andThen (walk_values env (cs_document s)) (\<lambda>_.
     andThen (need (list_all (\<lambda>k. k = ''body'' \<or> k = ''cert_hash'') (object_keys (cs_document s)))
       ''E-SCHEMA-UNKNOWN'') (\<lambda>_.
     andThen (encode_utf8 (dumps (cs_document s) True @ [CHR 0x0A])) (\<lambda>canonical.
       if canonical \<noteq> cs_octets s then
         andThen (encode_utf8 (dumps (cs_document s) False @ [CHR 0x0A])) (\<lambda>as_written.
           if as_written = cs_octets s then reject ''E-CANON-ORDER'' else reject ''E-CANON-FORM'')
       else passed s)))"

definition o1_cert_hash :: "checker_env \<Rightarrow> obligation" where
  "o1_cert_hash env s =
     andThen (member (cs_document s) ''cert_hash'') (\<lambda>declared.
     andThen (encode_utf8 (dumps (cs_body s) True)) (\<lambda>octets.
     andThen (uncaught (hash_ref (env_digest env) ''cert'' octets)) (\<lambda>recomputed.
     andThen (need (py_eq declared (JStr recomputed)) ''E-HASH-CERT'') (\<lambda>_.
       passed s))))"

fun split_dots :: "string \<Rightarrow> string list" where
  "split_dots [] = [[]]"
| "split_dots (c # cs) =
     (if c = CHR ''.'' then [] # split_dots cs
      else case split_dots cs of p # ps \<Rightarrow> (c # p) # ps | [] \<Rightarrow> [[c]])"

definition version :: "json \<Rightarrow> nat list check" where
  "version text =
     (case text of
        JStr s \<Rightarrow>
          andThen (need (s \<noteq> [] \<and> list_all (\<lambda>part. part \<noteq> [] \<and> list_all is_digit part) (split_dots s))
            ''E-SCHEMA-DOWNGRADE'') (\<lambda>_.
          andThen (mapM (\<lambda>part. if 4300 < length part then crash else Inr (digits_value 10 part)) (split_dots s))
            (\<lambda>parts. Inr parts))
      | _ \<Rightarrow> reject ''E-SCHEMA-DOWNGRADE'')"

definition HASH_ALGORITHM :: string where "HASH_ALGORITHM = ''blake2b-256''"

definition HASH_SUBSTITUTION_NOTE :: string where
  "HASH_SUBSTITUTION_NOTE =
     ''The specification names blake3. This Python reference implementation computes '' @
     ''blake2b-256 because the standard library has no blake3 and no package may be '' @
     ''installed. Digests here are not comparable with specified digests.''"

definition REQUIRED_BODY_MEMBERS :: "string list" where
  "REQUIRED_BODY_MEMBERS = [''atoms'', ''budgets'', ''cut'', ''cut_delta_canonical'', ''ghost_count'',
     ''goals'', ''inputs'', ''instances'', ''licenses'', ''observed_event_count'', ''psi'', ''residual'',
     ''schema'', ''scope'', ''silent'', ''verdict'', ''witnesses'']"

definition CHECKER_BODY_MEMBERS :: "string list" where
  "CHECKER_BODY_MEMBERS = [''atoms'', ''budgets'', ''cut'', ''cut_delta_canonical'', ''ghost_count'',
     ''goals'', ''inputs'', ''instances'', ''invariant'', ''licenses'', ''observed_event_count'', ''premium'',
     ''premium_suppressed_reason'', ''psi'', ''residual'', ''schema'', ''scope'', ''silent'', ''verdict'',
     ''witnesses'']"

definition o2_schema :: obligation where
  "o2_schema s = (let body = cs_body s in
     andThen (member body ''schema'') (\<lambda>schema.
     andThen (member schema ''v'') (\<lambda>v.
     andThen (need (py_eq v (JStr SCHEMA_V)) ''E-SCHEMA-DOWNGRADE'') (\<lambda>_.
     andThen (member schema ''min_checker'') (\<lambda>min_checker.
     andThen (version (JStr CHECKER_VERSION)) (\<lambda>mine.
     andThen (version min_checker) (\<lambda>wanted.
     andThen (need (wanted \<le> mine) ''E-SCHEMA-DOWNGRADE'') (\<lambda>_.
     andThen (member schema ''profile'') (\<lambda>profile.
     andThen (need (py_eq profile (JStr ''eclipse-cert'')) ''E-SCHEMA-UNKNOWN'') (\<lambda>_.
     andThen (member schema ''hash_algorithm'') (\<lambda>algorithm.
     andThen (need (py_eq algorithm (JStr HASH_ALGORITHM)) ''E-HASH-ALGO'') (\<lambda>_.
     andThen (member schema ''hash_substitution_note'') (\<lambda>note.
     andThen (need (py_eq note (JStr HASH_SUBSTITUTION_NOTE)) ''E-HASH-ALGO'') (\<lambda>_.
     andThen (need (list_all (\<lambda>k. k \<in> set CHECKER_BODY_MEMBERS) (object_keys body)) ''E-SCHEMA-UNKNOWN'') (\<lambda>_.
     andThen (need (list_all (\<lambda>m. m \<in> set (object_keys body)) REQUIRED_BODY_MEMBERS) ''E-SCHEMA-MISSING'') (\<lambda>_.
     let premium = (''premium'' \<in> set (object_keys body));
         reason = (''premium_suppressed_reason'' \<in> set (object_keys body)) in
     andThen (need (premium \<noteq> reason)
       (if \<not> (premium \<or> reason) then ''E-SCHEMA-MISSING'' else ''E-SCHEMA-UNKNOWN'')) (\<lambda>_.
       passed s)))))))))))))))))"

section \<open>O3 and O4: scope, inputs and profile\<close>

definition SCOPE_TO_INPUT :: "(string \<times> string) list" where
  "SCOPE_TO_INPUT = [(''bundle'', ''bundle_hash''), (''controls'', ''controls_hash''), (''er'', ''er_hash''),
     (''goal'', ''goal_hash''), (''liveness'', ''liveness_hash''), (''rules'', ''rules_hash'')]"

fun is_hash_ref :: "json \<Rightarrow> bool" where
  "is_hash_ref (JStr s) = (case parse_hash_ref s of Inl e \<Rightarrow> False | Inr v \<Rightarrow> True)"
| "is_hash_ref _ = False"

definition o3_scope :: obligation where
  "o3_scope s = (let body = cs_body s in
     andThen (member body ''scope'') (\<lambda>scope.
     andThen (member body ''inputs'') (\<lambda>inputs.
     andThen (andThen (iter scope) (mapM hashed)) (\<lambda>names.
     andThen (andThen (iter scope) py_sorted) (\<lambda>_.
     andThen (need (set names = JStr ` {''attacker'', ''bundle'', ''controls'', ''er'', ''goal'', ''liveness'', ''rules''})
       ''VRD-005'') (\<lambda>_.
     andThen (item scope ''attacker'') (\<lambda>attacker.
     andThen (need (py_eq attacker (JStr ''non-adaptive'')) ''VRD-005'') (\<lambda>_.
     andThen (check_all (\<lambda>(scope_name, input_name).
       andThen (item scope scope_name) (\<lambda>value.
       andThen (need (truthy value) ''VRD-005'') (\<lambda>_.
       andThen (need (is_hash_ref value) ''VRD-005'') (\<lambda>_.
       andThen (member inputs input_name) (\<lambda>pinned.
         need (py_eq value pinned) ''E-SCOPE-BIND''))))) SCOPE_TO_INPUT) (\<lambda>_.
       passed s)))))))))"

text \<open>The input member, its digest domain and the option that names the file.\<close>

definition INPUT_COVERAGE :: "(string \<times> string \<times> string) list" where
  "INPUT_COVERAGE =
     [(''rules_hash'', ''rules'', ''rules_cae''), (''rules_text_hash'', ''rulestext'', ''rules''),
      (''guard_ast_hash'', ''guardast'', ''guards''), (''controls_hash'', ''controls'', ''controls_cae''),
      (''catalog_bits_hash'', ''catbits'', ''catalog_bits''), (''bundle_hash'', ''bundle'', ''bundle''),
      (''liveness_hash'', ''liveness'', ''liveness''), (''profile_hash'', ''profile'', ''profile''),
      (''goal_hash'', ''goal'', ''goal_cae''), (''er_hash'', ''er'', ''er'')]"

definition ADVISORY_INPUTS :: "string list" where
  "ADVISORY_INPUTS = [''rules_text_hash'']"

definition upper_char :: "char \<Rightarrow> char" where
  "upper_char c = (if is_lower c then char_of ((of_char c :: nat) - 32) else c)"

definition removesuffix :: "string \<Rightarrow> string \<Rightarrow> string" where
  "removesuffix suf s = (if suffix suf s then take (length s - length suf) s else s)"

text \<open>The loop over the coverage table: the notes it appends to the report, which stay there when it
  stops, and what it decided.\<close>

fun o4_loop :: "checker_env \<Rightarrow> checker_inputs \<Rightarrow> json \<Rightarrow> (string \<times> string \<times> string) list \<Rightarrow> nat
    \<Rightarrow> string list \<times> nat check" where
  "o4_loop env files inputs [] checked = ([], Inr checked)"
| "o4_loop env files inputs ((name, domain, option) # rows) checked =
     (case andThen (member inputs name) (\<lambda>declared.
           andThen (given (path_for files option)) (\<lambda>path.
           andThen (read_octets env path) (\<lambda>octets.
           andThen (uncaught (hash_ref (env_digest env) domain octets)) (\<lambda>recomputed.
             Inr (py_eq declared (JStr recomputed)))))) of
        Inl e \<Rightarrow> ([], Inl e)
      | Inr True \<Rightarrow> o4_loop env files inputs rows (checked + 1)
      | Inr False \<Rightarrow>
          if name \<in> set ADVISORY_INPUTS
          then case o4_loop env files inputs rows checked of (notes, r) \<Rightarrow> (name # notes, r)
          else ([], reject (''E-INPUT-'' @ map upper_char (removesuffix ''_hash'' name))))"

definition o4_inputs :: "checker_env \<Rightarrow> cstate \<Rightarrow> string list \<times> (cstate \<times> nat) check" where
  "o4_inputs env s = (let body = cs_body s in
     case andThen (member body ''inputs'') (\<lambda>inputs.
          andThen (member inputs ''grounding_mode'') (\<lambda>mode.
          andThen (need (py_eq mode (JStr ''replayed'')) ''E-SCHEMA-UNKNOWN'') (\<lambda>_.
          andThen (member inputs ''bundle_provenance'') (\<lambda>provenance.
          andThen (need (py_eq provenance (JStr ''synthetic_generator_no_range'')) ''E-SCHEMA-UNKNOWN'') (\<lambda>_.
          andThen (member inputs ''implementation'') (\<lambda>implementation.
          andThen (need (py_eq implementation (JStr ''python-reference'')) ''E-SCHEMA-UNKNOWN'') (\<lambda>_.
          andThen (member inputs ''seed'') (\<lambda>seed.
          andThen (mask_text seed) (\<lambda>_. Inr inputs))))))))) of
       Inl e \<Rightarrow> ([], Inl e)
     | Inr inputs \<Rightarrow>
         case o4_loop env (cs_inputs s) inputs INPUT_COVERAGE 0 of (notes, r) \<Rightarrow>
           (notes,
            andThen r (\<lambda>checked.
            andThen (member_iter body ''instances'') (\<lambda>instances.
            andThen (mapM (instance_canonical env) instances) (\<lambda>octets.
            andThen (uncaught (ordered_seq octets)) (\<lambda>payload.
            andThen (uncaught (hash_ref (env_digest env) ''instances'' payload)) (\<lambda>recomputed.
            andThen (member inputs ''instances_hash'') (\<lambda>declared.
            andThen (need (py_eq declared (JStr recomputed)) ''E-HASH-CERT'') (\<lambda>_.
              passed s)))))))))"

definition o4b_profile :: "checker_env \<Rightarrow> obligation" where
  "o4b_profile env s =
     andThen (member (cs_body s) ''inputs'') (\<lambda>inputs.
     andThen (given (ci_profile (cs_inputs s))) (\<lambda>path.
     andThen (parse_side_json env path) (\<lambda>profile.
     andThen (case ci_run_manifest (cs_inputs s) of None \<Rightarrow> reject ''PROFILE_INVALID'' | Some p \<Rightarrow> Inr p)
       (\<lambda>manifest_path.
     andThen (parse_side_json env manifest_path) (\<lambda>manifest.
     let differ = (\<lambda>name code. andThen (member profile name) (\<lambda>a. andThen (member manifest name) (\<lambda>b.
           need (py_eq a b) code))) in
     andThen (member profile ''reference_bundle_hash'') (\<lambda>reference.
     andThen (member inputs ''bundle_hash'') (\<lambda>bundle.
     andThen (need (\<not> py_eq reference bundle) ''PROFILE_SELF_CALIBRATED'') (\<lambda>_.
     andThen (member profile ''degradation_spec_hash'') (\<lambda>spec.
     andThen (member manifest ''identity_spec_hash'') (\<lambda>identity.
     andThen (need (py_eq spec identity) ''PROFILE_FROM_DEGRADED_RUN'') (\<lambda>_.
     andThen (member profile ''calibration_seed_band'') (\<lambda>band.
     andThen (case band of JArr [low, high] \<Rightarrow> Inr (low, high) | _ \<Rightarrow> reject ''PROFILE_INVALID'') (\<lambda>(low, high).
     andThen (member inputs ''seed'') (\<lambda>seed_text.
     andThen (mask_text seed_text) (\<lambda>seed.
     andThen (py_less (JInt (int seed)) low) (\<lambda>under.
     andThen (if under then Inr False
              else andThen (py_less high (JInt (int seed))) (\<lambda>over. Inr (\<not> over))) (\<lambda>inside.
     andThen (need (\<not> inside) ''PROFILE_SEED_OVERLAP'') (\<lambda>_.
     andThen (differ ''generator_config_hash'' ''PROFILE_CONFIG_MISMATCH'') (\<lambda>_.
     andThen (differ ''scenario_family'' ''PROFILE_FAMILY_MISMATCH'') (\<lambda>_.
     andThen (differ ''excluded_intervals_hash'' ''PROFILE_INTERVALS_MISMATCH'') (\<lambda>_.
       passed s)))))))))))))))))))))"

section \<open>O5 and O6: the atom table and the cut\<close>

fun is_text_with :: "string \<Rightarrow> json \<Rightarrow> bool" where
  "is_text_with pre (JStr s) = prefix pre s"
| "is_text_with pre _ = False"

text \<open>One row \<open>[control_id, level, bit]\<close> of the table, with the checks of the loop.\<close>

definition atom_row_of :: "json \<Rightarrow> atom_row check" where
  "atom_row_of row =
     (case row of
        JArr [control_id, level, position] \<Rightarrow>
          andThen (need (is_text_with ''ctl:'' control_id) ''E-LITERAL-TABLE'') (\<lambda>_.
          andThen (text_of control_id) (\<lambda>c.
          andThen (case level of JInt l \<Rightarrow> andThen (need (1 \<le> l) ''E-LITERAL-TABLE'') (\<lambda>_. Inr l)
                   | _ \<Rightarrow> reject ''E-LITERAL-TABLE'') (\<lambda>l.
          andThen (case position of JInt b \<Rightarrow> andThen (need (0 \<le> b \<and> b < 64) ''E-LITERAL-TABLE'') (\<lambda>_. Inr b)
                   | _ \<Rightarrow> reject ''E-LITERAL-TABLE'') (\<lambda>b.
            Inr (c, l, b)))))
      | _ \<Rightarrow> reject ''E-LITERAL-TABLE'')"

definition fstring :: "checker_env \<Rightarrow> json \<Rightarrow> string" where
  "fstring env v = (case v of JStr s \<Rightarrow> s | JInt n \<Rightarrow> int_text n | _ \<Rightarrow> env_str env v)"

definition py_int :: "checker_env \<Rightarrow> json \<Rightarrow> int check" where
  "py_int env v =
     (case as_number v of Some n \<Rightarrow> Inr n
      | None \<Rightarrow> (case env_int env v of None \<Rightarrow> crash | Some n \<Rightarrow> Inr n))"

text \<open>The loop over the entries of the lock: the live rows, and the positions seen.\<close>

fun live_rows :: "checker_env \<Rightarrow> json list \<Rightarrow> int list \<Rightarrow> atom_row list \<Rightarrow> atom_row list check" where
  "live_rows env [] seen_pos live = Inr live"
| "live_rows env (entry # entries) seen_pos live =
     andThen (get_or entry ''pos'' JNull) (\<lambda>pos.
       case as_number pos of
         None \<Rightarrow> reject ''E-LITERAL-TABLE''
       | Some p \<Rightarrow>
           andThen (need (0 \<le> p \<and> p < 64) ''E-LITERAL-TABLE'') (\<lambda>_.
           andThen (need (p \<notin> set seen_pos) ''E-LITERAL-TABLE'') (\<lambda>_.
           andThen (get_or entry ''state'' JNull) (\<lambda>state.
           andThen (if py_eq state (JStr ''live'')
                    then andThen (item entry ''control_id'') (\<lambda>control_id.
                         andThen (item entry ''level'') (\<lambda>level.
                         andThen (py_int env level) (\<lambda>l.
                           Inr (live @ [(''ctl:'' @ fstring env control_id, l, p)]))))
                    else Inr live) (\<lambda>live'.
             live_rows env entries (p # seen_pos) live')))))"

definition removeprefix :: "string \<Rightarrow> string \<Rightarrow> string" where
  "removeprefix pre s = (if prefix pre s then drop (length pre) s else s)"

text \<open>\<open>dict.setdefault(key, []).append(value)\<close> on the dictionary of control levels, then the sort
  of every list.\<close>

fun append_level :: "(string \<times> int list) list \<Rightarrow> string \<Rightarrow> int \<Rightarrow> (string \<times> int list) list" where
  "append_level [] c l = [(c, [l])]"
| "append_level ((c', ls) # rest) c l =
     (if c' = c then (c', ls @ [l]) # rest else (c', ls) # append_level rest c l)"

definition control_levels_of :: "atom_row list \<Rightarrow> (string \<times> int list) list" where
  "control_levels_of ordered =
     map (\<lambda>(c, ls). (c, sort ls)) (foldl (\<lambda>d (c, l, b). append_level d c l) [] ordered)"

definition o5_atoms :: "checker_env \<Rightarrow> obligation" where
  "o5_atoms env s =
     andThen (member (cs_body s) ''atoms'') (\<lambda>atoms.
     andThen (member atoms ''assign'') (\<lambda>assign.
     andThen (member atoms ''n'') (\<lambda>declared_n.
     andThen (iter assign) (\<lambda>assign_rows.
     andThen (need (py_eq declared_n (JInt (int (length assign_rows)))) ''E-LIMIT-COUNT'') (\<lambda>_.
     andThen (need (length assign_rows \<le> 64) ''E-LIMIT-COUNT'') (\<lambda>_.
     andThen (mapM atom_row_of assign_rows) (\<lambda>rows.
     andThen (ascending (map (\<lambda>(c, l, b). JInt b) rows)) (\<lambda>_.
     andThen (given (ci_catalog_bits (cs_inputs s))) (\<lambda>lock_path.
     andThen (parse_toml env lock_path) (\<lambda>lock.
     andThen (get_or lock ''bit'' (JArr [])) (\<lambda>bit.
     andThen (iter bit) (\<lambda>entries.
     andThen (live_rows env entries [] []) (\<lambda>live.
     andThen (need (set live = set rows) ''E-LITERAL-TABLE'') (\<lambda>_.
     let ordered = sort_key (\<lambda>(c, l, b). (removeprefix ''ctl:'' c, l)) rows in
       Inr (s\<lparr>cs_atom_by_rank := ordered,
              cs_atom_bits := map (\<lambda>(c, l, b). ((c, l), b)) ordered,
              cs_control_levels := control_levels_of ordered\<rparr>, 0)))))))))))))))"

text \<open>\<open>state.atom_by_rank.get(rank)\<close> and \<open>state.atom_bits[(control_id, level)]\<close>: a later row
  overwrites an earlier one.\<close>

definition row_at :: "cstate \<Rightarrow> json \<Rightarrow> atom_row option check" where
  "row_at s rank =
     andThen (hashed rank) (\<lambda>k. Inr (case k of
        JInt r \<Rightarrow> if 0 \<le> r \<and> r < int (length (cs_atom_by_rank s)) then Some (cs_atom_by_rank s ! nat r) else None
      | _ \<Rightarrow> None))"

definition bit_at :: "cstate \<Rightarrow> string \<Rightarrow> int \<Rightarrow> nat check" where
  "bit_at s c l = (case map_of (rev (cs_atom_bits s)) (c, l) of None \<Rightarrow> crash | Some b \<Rightarrow> Inr (nat b))"

text \<open>The loop over the published cut: the ranks, the raised controls with their highest level, in the
  order in which they first appear, the entries as read, and the mask.\<close>

type_synonym cut_loop_state = "int list \<times> (string \<times> int) list \<times> (string \<times> int) list \<times> nat"

fun raise_to :: "(string \<times> int) list \<Rightarrow> string \<Rightarrow> int \<Rightarrow> (string \<times> int) list" where
  "raise_to [] c l = [(c, max 0 l)]"
| "raise_to ((c', t) # rest) c l =
     (if c' = c then (c', max t l) # rest else (c', t) # raise_to rest c l)"

definition cut_step :: "cstate \<Rightarrow> json \<Rightarrow> cut_loop_state \<Rightarrow> cut_loop_state check" where
  "cut_step s entry st =
     (case st of (ranks, raised, entries, m) \<Rightarrow>
     andThen (member entry ''rank'') (\<lambda>rank.
     andThen (member entry ''control_id'') (\<lambda>control_id.
     andThen (member entry ''level'') (\<lambda>level.
     andThen (member entry ''bit'') (\<lambda>bit.
     andThen (row_at s rank) (\<lambda>expected.
       case (expected, as_number rank) of
         (Some (c, l, b), Some r) \<Rightarrow>
           andThen (need (py_eq control_id (JStr c) \<and> py_eq level (JInt l) \<and> py_eq bit (JInt b))
             ''E-LITERAL-TABLE'') (\<lambda>_.
             Inr (ranks @ [r], raise_to raised c l, entries @ [(c, l)], m OR push_bit (nat b) 1))
       | _ \<Rightarrow> reject ''E-LITERAL-TABLE''))))))"

definition cut_levels_held :: "cstate \<Rightarrow> string \<Rightarrow> int \<Rightarrow> int list" where
  "cut_levels_held s c t =
     sort (map snd (filter (\<lambda>(c', l). c' = c \<and> 1 \<le> l \<and> l \<le> t) (remdups (map fst (cs_atom_bits s)))))"

definition o6_cut :: obligation where
  "o6_cut s =
     andThen (member_iter (cs_body s) ''cut'') (\<lambda>cut.
     andThen (fold_check (cut_step s) cut ([], [], [], 0)) (\<lambda>(ranks, raised, entries, m).
     andThen (ascending (map JInt ranks)) (\<lambda>_.
     andThen (check_all (\<lambda>(c, top).
         need (sort (map snd (filter (\<lambda>(c', l). c' = c) entries)) = cut_levels_held s c top) ''E-CUT-CLOSURE'')
       raised) (\<lambda>_.
       Inr (s\<lparr>cs_cut_mask := m, cs_cut_controls := raised\<rparr>, 0)))))"

text \<open>\<open>mask & ~(1 << b)\<close>.\<close>

definition without_bit :: "nat \<Rightarrow> nat \<Rightarrow> nat" where
  "without_bit m b = unset_bit b m"

definition o6b_cardinality_and_levels :: obligation where
  "o6b_cardinality_and_levels s =
     andThen (member (cs_body s) ''psi'') (\<lambda>psi.
     andThen (member_iter psi ''corridors'') (\<lambda>corridors.
     andThen (mapM (\<lambda>c. the_member mask_text c ''mask'') corridors) (\<lambda>masks.
     andThen (check_all (\<lambda>(c, top).
         if top \<le> 1 then Inr ()
         else andThen (bit_at s c top) (\<lambda>b.
           let lowered = without_bit (cs_cut_mask s) b in
           need (\<not> list_all (\<lambda>m. m AND lowered \<noteq> 0) masks) ''E-CUT-LEVEL''))
       (cs_cut_controls s)) (\<lambda>_.
       Inr (s\<lparr>cs_corridor_masks := masks\<rparr>, length (cs_cut_controls s) * max 1 (length masks))))))"

section \<open>O7 to O9: the invariant\<close>

definition derivable :: "json \<Rightarrow> bool check" where
  "derivable g = andThen (item g ''derivable'') (\<lambda>d. Inr (truthy d))"

definition publishes :: "cstate \<Rightarrow> string \<Rightarrow> bool" where
  "publishes s name = (name \<in> set (object_keys (cs_body s)))"

definition o7_invariant :: obligation where
  "o7_invariant s =
     andThen (member_iter (cs_body s) ''goals'') (\<lambda>goals.
     andThen (all_of (\<lambda>g. andThen (derivable g) (\<lambda>d. Inr (\<not> d))) goals) (\<lambda>every_severed.
       if \<not> publishes s ''invariant''
       then andThen (need (\<not> every_severed) ''E-SCHEMA-MISSING'') (\<lambda>_. passed s)
       else
         andThen (need every_severed ''E-SCHEMA-UNKNOWN'') (\<lambda>_.
         andThen (item (cs_body s) ''invariant'') (\<lambda>invariant.
         andThen (member invariant ''u'') (\<lambda>u.
         andThen (ascending_value u) (\<lambda>_.
         andThen (iter u) (\<lambda>universe.
         andThen (check_all (\<lambda>f. andThen (fact_id_ok f) (\<lambda>ok. need ok ''E-INV-AXIOM'')) universe) (\<lambda>_.
         andThen (mapM hashed universe) (\<lambda>keys.
         andThen (member_iter (cs_body s) ''instances'') (\<lambda>instances.
         andThen (axioms_of instances) (\<lambda>axioms.
         andThen (need (list_all (\<lambda>a. a \<in> set keys) axioms) ''E-INV-AXIOM'') (\<lambda>_.
           passed (s\<lparr>cs_invariant := keys\<rparr>)))))))))))))"

definition o8_instance :: "cstate \<Rightarrow> json \<Rightarrow> nat \<Rightarrow> nat check" where
  "o8_instance s inst touched =
     andThen (inst_masks inst) (\<lambda>masks.
     andThen (check_all (\<lambda>t. andThen (item inst ''instance_id'') (\<lambda>_.
         need (bit_count t = 1) ''E-VS-BLOCK-CONJ'')) masks) (\<lambda>_.
     andThen (inst_facts inst) (\<lambda>facts.
       let touched' = touched + length facts in
       if \<not> list_all (\<lambda>f. f \<in> set (cs_invariant s)) facts then Inr touched'
       else if blocked masks (cs_cut_mask s) then Inr touched'
       else andThen (the_member hashed inst ''head'') (\<lambda>head.
            andThen (item inst ''instance_id'') (\<lambda>_.
            andThen (need (head \<in> set (cs_invariant s)) ''E-CLOSURE'') (\<lambda>_. Inr touched'))))))"

definition o8_closure :: obligation where
  "o8_closure s =
     (if \<not> publishes s ''invariant'' then passed s
      else
        andThen (member_iter (cs_body s) ''instances'') (\<lambda>instances.
        andThen (fold_check (o8_instance s) instances 0) (\<lambda>touched. Inr (s, touched))))"

definition o9_goals :: obligation where
  "o9_goals s =
     andThen (member_iter (cs_body s) ''goals'') (\<lambda>goals.
     andThen (mapM (\<lambda>g. item g ''goal_key'') goals) (\<lambda>keys.
     andThen (ascending keys) (\<lambda>_.
       if \<not> publishes s ''invariant'' then passed s
       else andThen (check_all (\<lambda>g. andThen (derivable g) (\<lambda>d.
              if d then Inr ()
              else andThen (the_member hashed g ''goal_key'') (\<lambda>k.
                need (k \<notin> set (cs_invariant s)) ''E-GOAL-MEMBER''))) goals) (\<lambda>_. passed s))))"

end
