(* ===== verification/Judgement.thy ===== *)
theory Judgement
  imports Obligations
begin

text \<open>
  \<^verbatim>\<open>spectra_vs_verify/checker.py\<close>, third part: the obligations O10 to O15 and \<open>verify\<close>, which runs
  all of them in order and stops at the first failure.
\<close>

section \<open>O10: licences\<close>

type_synonym liveness_row = "int \<times> int \<times> json \<times> json"

definition liveness_row_of :: "json \<Rightarrow> liveness_row check" where
  "liveness_row_of w =
     andThen (the_member int_text_value w ''t0_ns'') (\<lambda>t0.
     andThen (the_member int_text_value w ''t1_ns'') (\<lambda>t1.
     andThen (item w ''verdict'') (\<lambda>verdict.
     andThen (item w ''reason'') (\<lambda>reason. Inr (t0, t1, verdict, reason)))))"

definition liveness_rows :: "json \<Rightarrow> (string \<times> liveness_row list) list check" where
  "liveness_rows liveness =
     andThen (get_or liveness ''sources'' (JArr [])) (\<lambda>sources.
     andThen (iter sources) (mapM (\<lambda>source.
       andThen (get_or source ''intervals'' (JArr [])) (\<lambda>intervals.
       andThen (iter intervals) (\<lambda>ws.
       andThen (mapM liveness_row_of ws) (\<lambda>rows.
       andThen (the_member src source ''source_id'') (\<lambda>source_id.
         Inr (source_id, sort_key (\<lambda>(t0, t1, v, r). (t0, t1)) rows))))))))"

definition producing_of :: "checker_env \<Rightarrow> json \<Rightarrow> (string \<times> string list) list check" where
  "producing_of env rules =
     andThen (get_or rules ''rule'' (JArr [])) (\<lambda>listed.
     andThen (iter listed) (mapM (\<lambda>rule.
       andThen (get_or rule ''producing_sources'' (JArr [])) (\<lambda>sources.
       andThen (iter sources) (\<lambda>names.
       andThen (mapM src names) (\<lambda>typed.
       andThen (item rule ''id'') (\<lambda>rule_id.
         Inr (''rl:'' @ fstring env rule_id, typed))))))))"

text \<open>The last entry of a key is the one a dictionary built in order keeps.\<close>

definition keyed :: "('k \<times> 'v) list \<Rightarrow> 'k \<Rightarrow> 'v option" where
  "keyed kvs k = map_of (rev kvs) k"

fun non_live_from :: "liveness_row list \<Rightarrow> int \<Rightarrow> int \<Rightarrow> bool" where
  "non_live_from [] cursor t1 = (t1 \<le> cursor)"
| "non_live_from ((start, stop, verdict, reason) # rows) cursor t1 =
     (if stop \<le> cursor then non_live_from rows cursor t1
      else if cursor < start then False
      else if py_eq verdict (JStr ''LIVE'') then False
      else if t1 \<le> stop then True
      else non_live_from rows stop t1)"

definition non_live_over :: "liveness_row list \<Rightarrow> int \<Rightarrow> int \<Rightarrow> bool" where
  "non_live_over rows t0 t1 = non_live_from rows t0 t1"

definition o10_licence :: "checker_env \<Rightarrow> json \<Rightarrow> unit check" where
  "o10_licence env lic =
     andThen (checker_licence_preimage env lic) (\<lambda>preimage.
     andThen (uncaught (digest_hex (env_digest env) ''lic'' preimage 32)) (\<lambda>h.
     andThen (item lic ''license_id'') (\<lambda>license_id.
     andThen (need (py_eq license_id (JStr (''lic:'' @ h))) ''E-LICENSE-UNIMPLIED'') (\<lambda>_.
     andThen (item lic ''basis'') (\<lambda>basis.
     andThen (need (basis = JStr ''BLIND'' \<or> basis = JStr ''SUPPRESSED'') ''E-LICENSE-UNIMPLIED'') (\<lambda>_.
       if basis = JStr ''BLIND''
       then andThen (py_contains lic ''witness'') (\<lambda>b. need (\<not> b) ''E-LICENSE-UNIMPLIED'')
       else andThen (get_or lic ''witness'' JNull) (\<lambda>w. need (truthy w) ''E-LICENSE-UNIMPLIED'')))))))"

text \<open>One citation: the licence and every producing source over its span, with the counter.\<close>

definition o10_citation :: "(string \<times> liveness_row list) list \<Rightarrow> (json \<times> json) list \<Rightarrow> string list
    \<Rightarrow> json \<Rightarrow> nat \<Rightarrow> nat check" where
  "o10_citation intervals licences sources license_id checked =
     andThen (hashed license_id) (\<lambda>k.
     case keyed licences k of
       None \<Rightarrow> reject ''E-LICENSE-UNIMPLIED''
     | Some lic \<Rightarrow>
         andThen (the_member int_text_value lic ''t0_ns'') (\<lambda>t0.
         andThen (the_member int_text_value lic ''t1_ns'') (\<lambda>t1.
         andThen (need (t0 < t1) ''E-LICENSE-WINDOW'') (\<lambda>_.
         andThen (check_all (\<lambda>source_id. case keyed intervals source_id of
             None \<Rightarrow> reject ''E-LICENSE-UNIMPLIED''
           | Some rows \<Rightarrow> need (non_live_over rows t0 t1) ''E-LICENSE-WINDOW'') sources) (\<lambda>_.
         andThen (the_member src lic ''source_id'') (\<lambda>licence_source.
         andThen (case keyed intervals licence_source of
             None \<Rightarrow> Inr ()
           | Some rows \<Rightarrow>
               andThen (item lic ''basis'') (\<lambda>basis.
               andThen (item lic ''reason'') (\<lambda>reason.
               need (list_ex (\<lambda>(a, b, v, r). a < t1 \<and> t0 < b \<and> py_eq v basis \<and> py_eq r reason) rows)
                 ''E-LICENSE-UNIMPLIED''))) (\<lambda>_.
           Inr (checked + length sources))))))))"

definition o10_reference :: "(string \<times> string list) list \<Rightarrow> (string \<times> liveness_row list) list
    \<Rightarrow> (json \<times> json) list \<Rightarrow> (json \<times> json) list \<Rightarrow> json \<Rightarrow> nat \<Rightarrow> nat check" where
  "o10_reference producing intervals licences by_instance ref checked =
     andThen (the_member hashed ref ''instance_id'') (\<lambda>k.
     case keyed by_instance k of
       None \<Rightarrow> reject ''E-LICENSE-UNIMPLIED''
     | Some inst \<Rightarrow>
         andThen (item inst ''observed'') (\<lambda>observed.
         andThen (need (py_eq observed (JStr ''LICENSED'')) ''E-LICENSE-UNIMPLIED'') (\<lambda>_.
         andThen (the_member iter ref ''license_ids'') (\<lambda>cited.
         andThen (the_member iter inst ''license_ids'') (\<lambda>held.
         andThen (need (map pyval cited = map pyval held) ''E-LICENSE-UNIMPLIED'') (\<lambda>_.
         andThen (the_member hashed inst ''rule_id'') (\<lambda>rule_id.
         case (case rule_id of JStr r \<Rightarrow> keyed producing r | _ \<Rightarrow> None) of
           None \<Rightarrow> reject ''E-LICENSE-UNIMPLIED''
         | Some sources \<Rightarrow>
             fold_check (o10_citation intervals licences sources) cited checked)))))))"

definition o10_licenses :: "checker_env \<Rightarrow> obligation" where
  "o10_licenses env s =
     andThen (given (ci_liveness (cs_inputs s))) (\<lambda>liveness_path.
     andThen (given (ci_rules (cs_inputs s))) (\<lambda>rules_path.
     andThen (parse_side_json env liveness_path) (\<lambda>liveness.
     andThen (parse_toml env rules_path) (\<lambda>rules.
     andThen (producing_of env rules) (\<lambda>producing.
     andThen (liveness_rows liveness) (\<lambda>intervals.
     andThen (member_iter (cs_body s) ''licenses'') (\<lambda>published.
     andThen (mapM (\<lambda>lic. the_member hashed lic ''license_id'') published) (\<lambda>ids.
     andThen (mapM (\<lambda>lic.
         andThen (item lic ''source_id'') (\<lambda>source.
         andThen (the_member int_text_value lic ''t0_ns'') (\<lambda>t0.
         andThen (the_member int_text_value lic ''t1_ns'') (\<lambda>t1.
           Inr (JArr [source, JInt t0, JInt t1]))))) published) (\<lambda>keys.
     andThen (ascending keys) (\<lambda>_.
     andThen (check_all (o10_licence env) published) (\<lambda>_.
     andThen (member_iter (cs_body s) ''silent'') (\<lambda>silent.
     andThen (the_member iter (cs_body s) ''instances'') (\<lambda>instances.
     andThen (mapM (\<lambda>i. the_member hashed i ''instance_id'') instances) (\<lambda>instance_ids.
     andThen (fold_check (o10_reference producing intervals (zip ids published)
         (zip instance_ids instances)) silent 0) (\<lambda>checked.
       Inr (s, checked))))))))))))))))"

section \<open>O11: counts\<close>

definition o11_instance :: "json \<Rightarrow> json set \<times> json set \<Rightarrow> (json set \<times> json set) check" where
  "o11_instance inst found =
     (case found of (events, ghosts) \<Rightarrow>
     andThen (item inst ''observed'') (\<lambda>observed.
     andThen (item inst ''instance_id'') (\<lambda>_.
     andThen (if py_eq observed (JStr ''LICENSED'')
              then andThen (item inst ''evidence'') (\<lambda>evidence.
                   andThen (need (\<not> truthy evidence) ''E-GHOST-COUNT'') (\<lambda>_.
                   andThen (item inst ''license_ids'') (\<lambda>ids. need (truthy ids) ''E-LICENSE-UNIMPLIED'')))
              else andThen (item inst ''evidence'') (\<lambda>evidence.
                   if \<not> truthy evidence then reject ''E-GHOST-COUNT''
                   else andThen (item inst ''license_ids'') (\<lambda>ids. need (\<not> truthy ids) ''E-GHOST-COUNT''))) (\<lambda>_.
     andThen (the_member iter inst ''evidence'') (\<lambda>refs.
     andThen (mapM (\<lambda>r. the_member hashed r ''event_id'') refs) (\<lambda>cited.
     andThen (item inst ''ghost'') (\<lambda>ghost.
       if truthy ghost
       then andThen (need (py_eq observed (JStr ''LICENSED'')) ''E-GHOST-COUNT'') (\<lambda>_.
            andThen (the_member hashed inst ''head'') (\<lambda>head.
              Inr (events \<union> set cited, insert head ghosts)))
       else Inr (events \<union> set cited, ghosts))))))))"

definition o11_ghost :: obligation where
  "o11_ghost s =
     andThen (member_iter (cs_body s) ''instances'') (\<lambda>instances.
     andThen (fold_check o11_instance instances ({}, {})) (\<lambda>(events, ghosts).
     andThen (member (cs_body s) ''observed_event_count'') (\<lambda>declared_events.
     andThen (member (cs_body s) ''ghost_count'') (\<lambda>declared_ghosts.
     andThen (need (py_eq declared_events (JInt (int (card events)))) ''E-GHOST-COUNT'') (\<lambda>_.
     andThen (need (py_eq declared_ghosts (JInt (int (card ghosts)))) ''E-GHOST-COUNT'') (\<lambda>_.
       passed s))))))"

section \<open>O12: witness trees\<close>

text \<open>\<open>str.splitlines\<close> on UTF-8 octets: every line boundary of Python becomes a line feed first.\<close>

function normal_breaks :: "string \<Rightarrow> string" where
  "normal_breaks [] = []"
| "normal_breaks (c # cs) =
     (if c = CHR 0x0D then CHR 0x0A # normal_breaks (if take 1 cs = [CHR 0x0A] then tl cs else cs)
      else if c \<in> set [CHR 0x0B, CHR 0x0C, CHR 0x1C, CHR 0x1D, CHR 0x1E] then CHR 0x0A # normal_breaks cs
      else if c = CHR 0xC2 \<and> take 1 cs = [CHR 0x85] then CHR 0x0A # normal_breaks (tl cs)
      else if c = CHR 0xE2 \<and> take 2 cs \<in> set [[CHR 0x80, CHR 0xA8], [CHR 0x80, CHR 0xA9]]
        then CHR 0x0A # normal_breaks (drop 2 cs)
      else c # normal_breaks cs)"
  by pat_completeness auto
termination
  by (relation "measure length") (auto simp: less_Suc_eq_le)

fun split_lines :: "string \<Rightarrow> string \<Rightarrow> string list" where
  "split_lines line [] = (if line = [] then [] else [line])"
| "split_lines line (c # cs) =
     (if c = CHR 0x0A then line # split_lines [] cs else split_lines (line @ [c]) cs)"

definition splitlines :: "string \<Rightarrow> string list" where
  "splitlines s = split_lines [] (normal_breaks s)"

definition load_bundle :: "checker_env \<Rightarrow> string \<Rightarrow> (json \<times> json) list check" where
  "load_bundle env path =
     andThen (read_octets env path) (\<lambda>octets.
     andThen (need (take 2 octets \<notin> set COMPRESSION_MAGICS) ''E-LIMIT-COMPRESSED'') (\<lambda>_.
     andThen (encode_utf8 octets) (\<lambda>text.
       mapM (\<lambda>line.
         andThen (need (line \<noteq> []) ''E-CANON-FORM'') (\<lambda>_.
         andThen (loads_or_crash env pairs_hook line) (\<lambda>record.
         andThen (the_member hashed record ''event_id'') (\<lambda>k. Inr (k, record)))))
       (splitlines text))))"

text \<open>The structural rules of a flat tree: the counts of parents while the nodes are read, then one
  parent for every node but the root.\<close>

definition flat_child :: "nat \<Rightarrow> nat \<Rightarrow> json \<Rightarrow> nat list \<Rightarrow> nat list check" where
  "flat_child n index child parents =
     (case child of
        JInt c \<Rightarrow>
          if int index < c \<and> c < int n then Inr (parents[nat c := parents ! nat c + 1])
          else reject ''E-WITNESS-CYCLE''
      | _ \<Rightarrow> reject ''E-WITNESS-CYCLE'')"

definition flat_node :: "nat \<Rightarrow> nat \<times> json \<Rightarrow> nat list \<Rightarrow> nat list check" where
  "flat_node n node parents =
     andThen (member_iter (snd node) ''children'') (\<lambda>children.
       fold_check (flat_child n (fst node)) children parents)"

definition check_flat_tree :: "json \<Rightarrow> unit check" where
  "check_flat_tree tree =
     (case tree of
        JArr nodes \<Rightarrow>
          andThen (need (nodes \<noteq> []) ''E-WITNESS-CYCLE'') (\<lambda>_.
          andThen (fold_check (flat_node (length nodes)) (enumerate 0 nodes) (replicate (length nodes) 0)) (\<lambda>parents.
          andThen (need (parents ! 0 = 0) ''E-WITNESS-CYCLE'') (\<lambda>_.
            check_all (\<lambda>index. need (parents ! index = 1) ''E-WITNESS-CYCLE'') [1..<length nodes])))
      | _ \<Rightarrow> reject ''E-WITNESS-CYCLE'')"

definition check_event :: "checker_env \<Rightarrow> (json \<times> json) list \<Rightarrow> json \<Rightarrow> unit check" where
  "check_event env bundle event_id =
     andThen (hashed event_id) (\<lambda>k.
     case keyed bundle k of
       None \<Rightarrow> reject ''E-WITNESS-EVENT''
     | Some record \<Rightarrow>
         andThen (checker_event_preimage env record) (\<lambda>preimage.
         andThen (uncaught (digest_hex (env_digest env) ''ev'' preimage 16)) (\<lambda>h.
         need (py_eq (JStr (''ev:'' @ h)) event_id) ''E-WITNESS-EVENT'')))"

definition check_kind :: "checker_env \<Rightarrow> (json \<times> json) list \<Rightarrow> json \<Rightarrow> json \<Rightarrow> json \<Rightarrow> unit check" where
  "check_kind env bundle inst kind evidence =
     (if kind = JStr ''GHOST'' then
        andThen (need (\<not> truthy evidence) ''E-GHOST-COUNT'') (\<lambda>_.
        andThen (item inst ''ghost'') (\<lambda>ghost.
        andThen (need (ghost = JBool True) ''E-GHOST-COUNT'') (\<lambda>_.
        andThen (item inst ''license_ids'') (\<lambda>ids. need (truthy ids) ''E-LICENSE-UNIMPLIED''))))
      else if kind = JStr ''LICENSED'' then
        andThen (need (\<not> truthy evidence) ''E-WITNESS-EVENT'') (\<lambda>_.
        andThen (item inst ''ghost'') (\<lambda>ghost.
        andThen (need (ghost = JBool False) ''E-WITNESS-EVENT'') (\<lambda>_.
        andThen (item inst ''observed'') (\<lambda>observed.
        andThen (need (py_eq observed (JStr ''LICENSED'')) ''E-WITNESS-EVENT'') (\<lambda>_.
        andThen (item inst ''license_ids'') (\<lambda>ids. need (truthy ids) ''E-LICENSE-UNIMPLIED''))))))
      else if kind = JStr ''OBSERVED'' then
        andThen (need (truthy evidence) ''E-WITNESS-EVENT'') (\<lambda>_.
        andThen (item inst ''observed'') (\<lambda>observed.
        andThen (need (py_eq observed (JStr ''OBSERVED'')) ''E-WITNESS-EVENT'') (\<lambda>_.
        andThen (iter evidence) (\<lambda>cited.
        andThen (py_sorted cited) (\<lambda>cited_sorted.
        andThen (the_member iter inst ''evidence'') (\<lambda>refs.
        andThen (mapM (\<lambda>r. item r ''event_id'') refs) (\<lambda>held.
        andThen (py_sorted held) (\<lambda>held_sorted.
        andThen (need (map pyval cited_sorted = map pyval held_sorted) ''E-WITNESS-EVENT'') (\<lambda>_.
          check_all (check_event env bundle) cited)))))))))
      else reject ''E-WITNESS-EVENT'')"

definition check_node :: "checker_env \<Rightarrow> (json \<times> json) list \<Rightarrow> (json \<times> json) list \<Rightarrow> json list
    \<Rightarrow> json list \<Rightarrow> nat \<Rightarrow> json list \<Rightarrow> nat check" where
  "check_node env bundle by_id axioms tree index ancestors =
     (let node = tree ! index in
     andThen (member node ''instance_id'') (\<lambda>instance_id.
     andThen (need (pyval instance_id \<notin> pyval ` set ancestors) ''E-WITNESS-CYCLE'') (\<lambda>_.
     andThen (hashed instance_id) (\<lambda>k.
     case keyed by_id k of
       None \<Rightarrow> reject ''E-WITNESS-EVENT''
     | Some inst \<Rightarrow>
         andThen (item inst ''head'') (\<lambda>head.
         andThen (member node ''head'') (\<lambda>stated.
         andThen (need (py_eq head stated) ''E-WITNESS-EVENT'') (\<lambda>_.
         andThen (member node ''kind'') (\<lambda>kind.
         andThen (member node ''evidence'') (\<lambda>evidence.
         andThen (check_kind env bundle inst kind evidence) (\<lambda>_.
         andThen (the_member iter node ''children'') (\<lambda>children.
         andThen (mapM (\<lambda>c. andThen (int_of c) (\<lambda>i.
             if 0 \<le> i \<and> i < int (length tree) then the_member hashed (tree ! nat i) ''head'' else crash)) children) (\<lambda>covered.
         andThen (inst_facts inst) (\<lambda>facts.
         andThen (need (list_all (\<lambda>f. f \<in> set covered \<or> f \<in> set axioms) facts) ''E-WITNESS-EVENT'') (\<lambda>_.
           Inr 1)))))))))))))) "

text \<open>The walk over the nodes, with the path of instances above every node that is a child.\<close>

fun walk_nodes :: "checker_env \<Rightarrow> (json \<times> json) list \<Rightarrow> (json \<times> json) list \<Rightarrow> json list \<Rightarrow> json list
    \<Rightarrow> nat list \<Rightarrow> (nat \<times> json list) list \<Rightarrow> nat \<Rightarrow> nat check" where
  "walk_nodes env bundle by_id axioms tree [] ancestors nodes = Inr nodes"
| "walk_nodes env bundle by_id axioms tree (index # is) ancestors nodes =
     (case keyed ancestors index of
        None \<Rightarrow> crash
      | Some path \<Rightarrow>
          andThen (check_node env bundle by_id axioms tree index path) (\<lambda>n.
          andThen (item (tree ! index) ''instance_id'') (\<lambda>instance_id.
          andThen (the_member iter (tree ! index) ''children'') (\<lambda>children.
          andThen (mapM int_of children) (\<lambda>cs.
            walk_nodes env bundle by_id axioms tree is
              (ancestors @ map (\<lambda>c. (nat c, path @ [instance_id])) cs) (nodes + n))))))"

definition clear_control :: "cstate \<Rightarrow> string \<Rightarrow> nat check" where
  "clear_control s c =
     fold_check (\<lambda>l m. andThen (bit_at s c l) (\<lambda>b. Inr (without_bit m b)))
       (case map_of (cs_control_levels s) c of None \<Rightarrow> [] | Some ls \<Rightarrow> ls) (cs_cut_mask s)"

definition o12_entry :: "checker_env \<Rightarrow> cstate \<Rightarrow> (json \<times> json) list \<Rightarrow> json list \<Rightarrow> (json \<times> json) list
    \<Rightarrow> json list \<Rightarrow> json list \<Rightarrow> json \<Rightarrow> nat \<Rightarrow> nat check" where
  "o12_entry env s bundle instances by_id axioms goals entry nodes =
     andThen (the_member hashed entry ''removed_control'') (\<lambda>control_id.
     case control_id of
       JStr c \<Rightarrow>
         andThen (need (c \<in> fst ` set (cs_cut_controls s)) ''E-WITNESS-CUT'') (\<lambda>_.
         andThen (clear_control s c) (\<lambda>reduced.
         andThen (checker_reach instances axioms reduced) (\<lambda>(derived, steps).
         andThen (any_of (\<lambda>g. andThen (hashed g) (\<lambda>k. Inr (k \<in> set derived))) goals) (\<lambda>hit.
         andThen (need hit ''E-WITNESS-CUT'') (\<lambda>_.
         andThen (member entry ''nodes'') (\<lambda>tree.
         andThen (check_flat_tree tree) (\<lambda>_.
         andThen (iter tree) (\<lambda>ts.
           walk_nodes env bundle by_id axioms ts [0..<length ts] [(0, [])] (nodes + steps)))))))))
     | _ \<Rightarrow> reject ''E-WITNESS-CUT'')"

definition o12_witnesses :: "checker_env \<Rightarrow> obligation" where
  "o12_witnesses env s =
     andThen (member (cs_body s) ''witnesses'') (\<lambda>witnesses.
     andThen (iter witnesses) (\<lambda>entries.
     andThen (mapM (\<lambda>w. item w ''removed_control'') entries) (\<lambda>removed.
     andThen (ascending removed) (\<lambda>_.
       if entries = [] then passed s
       else
         andThen (given (ci_bundle (cs_inputs s))) (\<lambda>bundle_path.
         andThen (load_bundle env bundle_path) (\<lambda>bundle.
         andThen (member_iter (cs_body s) ''instances'') (\<lambda>instances.
         andThen (mapM (\<lambda>i. the_member hashed i ''instance_id'') instances) (\<lambda>ids.
         andThen (axioms_of instances) (\<lambda>axioms.
         andThen (member_iter (cs_body s) ''goals'') (\<lambda>goals.
         andThen (mapM (\<lambda>g. item g ''goal_key'') goals) (\<lambda>keys.
         andThen (fold_check (o12_entry env s bundle instances (zip ids instances) axioms keys) entries 0) (\<lambda>nodes.
           Inr (s, nodes)))))))))))))"

section \<open>O13: corridors and the premium\<close>

definition o13_corridor :: "checker_env \<Rightarrow> cstate \<Rightarrow> json \<Rightarrow> unit check" where
  "o13_corridor env s corridor =
     andThen (member corridor ''atom_ranks'') (\<lambda>ranks_value.
     andThen (ascending_value ranks_value) (\<lambda>_.
     andThen (iter ranks_value) (\<lambda>ranks.
     andThen (mapM int_of ranks) (\<lambda>rank_ints.
     andThen (uncaught (leb128_seq rank_ints)) (\<lambda>payload.
     andThen (uncaught (digest_hex (env_digest env) ''cor'' payload 32)) (\<lambda>h.
     andThen (item corridor ''corridor_id'') (\<lambda>corridor_id.
     andThen (need (py_eq corridor_id (JStr (''cor:'' @ h))) ''E-PSI-HIT'') (\<lambda>_.
     andThen (fold_check (\<lambda>rank m. andThen (row_at s rank) (\<lambda>row.
         case row of None \<Rightarrow> reject ''E-PSI-HIT'' | Some (c, l, b) \<Rightarrow> Inr (m OR push_bit (nat b) 1))) ranks 0) (\<lambda>expected.
     andThen (the_member mask_text corridor ''mask'') (\<lambda>declared.
     andThen (need (declared = expected) ''E-PSI-HIT'') (\<lambda>_.
       need (declared AND cs_cut_mask s \<noteq> 0) ''E-PSI-HIT'')))))))))))"

definition o13_psi_hit :: "checker_env \<Rightarrow> obligation" where
  "o13_psi_hit env s =
     andThen (member (cs_body s) ''psi'') (\<lambda>psi.
     andThen (member psi ''program'') (\<lambda>prog.
     andThen (need (py_eq prog (JStr ''PMax'')) ''E-PSI-HIT'') (\<lambda>_.
     andThen (member_iter psi ''corridors'') (\<lambda>corridors.
     andThen (mapM (\<lambda>c. item c ''corridor_id'') corridors) (\<lambda>ids.
     andThen (ascending ids) (\<lambda>_.
     andThen (check_all (o13_corridor env s) corridors) (\<lambda>_.
       Inr (s, length corridors))))))))"

definition o13b_premium_sets :: obligation where
  "o13b_premium_sets s =
     (if \<not> publishes s ''premium''
      then andThen (member (cs_body s) ''premium_suppressed_reason'') (\<lambda>_. passed s)
      else
        andThen (member (cs_body s) ''premium'') (\<lambda>premium.
        andThen (member premium ''nec_max'') (\<lambda>nec_max.
        andThen (member premium ''occ_min'') (\<lambda>occ_min.
        andThen (member premium ''blindness_premium'') (\<lambda>published.
        andThen (ascending_value nec_max) (\<lambda>_.
        andThen (ascending_value occ_min) (\<lambda>_.
        andThen (ascending_value published) (\<lambda>_.
        andThen (iter nec_max) (\<lambda>nec.
        andThen (iter occ_min) (\<lambda>occ.
        andThen (if nec = [] then Inr [] else mapM hashed occ) (\<lambda>occ_keys.
        andThen (mapM hashed nec) (\<lambda>nec_keys.
        andThen (need (py_eq published (JArr (map fst (filter (\<lambda>(c, k). k \<notin> set occ_keys) (zip nec nec_keys)))))
          ''E-PREMIUM-SETS'') (\<lambda>_.
        andThen (member_iter premium ''per_control'') (\<lambda>entries.
        andThen (check_all (\<lambda>e. andThen (item e ''control_id'') (\<lambda>c.
            andThen (iter published) (\<lambda>ps. need (list_ex (py_eq c) ps) ''E-PREMIUM-SETS''))) entries) (\<lambda>_.
          Inr (s, length nec + length occ))))))))))))))))"

section \<open>O14: flags and dispute\<close>

definition FLAG_BITS :: "(nat \<times> string) list" where
  "FLAG_BITS = [(0, ''grounding_capped''), (1, ''corridor_cap''), (2, ''atoms_over_budget''),
     (3, ''er_ambiguous''), (4, ''quarantined_records''),
     (5, ''license_voided_by_suspected_tampering''), (6, ''greedy_cover''), (7, ''sampled_matrix''),
     (8, ''profile_missing'')]"

definition BIT_OF :: "json \<Rightarrow> nat option" where
  "BIT_OF name = map_of (map (\<lambda>(b, n). (JStr n, b)) FLAG_BITS) name"

definition SOUNDNESS_BITS :: "nat list" where "SOUNDNESS_BITS = [0, 1, 3, 4, 5, 8]"

definition CHECKER_SOUNDNESS_MASK :: nat where
  "CHECKER_SOUNDNESS_MASK = sum_list (map (\<lambda>b. push_bit b 1) SOUNDNESS_BITS)"

definition CHECKER_RESERVED_MASK :: nat where
  "CHECKER_RESERVED_MASK = sum_list (map (\<lambda>b. push_bit b 1) [length FLAG_BITS..<16])"

fun flag_loop :: "json list \<Rightarrow> nat \<Rightarrow> int \<Rightarrow> nat check" where
  "flag_loop [] m previous = Inr m"
| "flag_loop (name # names) m previous =
     andThen (hashed name) (\<lambda>k.
     case BIT_OF k of
       None \<Rightarrow> reject ''VRD-008''
     | Some b \<Rightarrow>
         andThen (need (previous < int b) ''VRD-008'') (\<lambda>_.
           flag_loop names (m OR push_bit b 1) (int b)))"

definition is_one_of :: "string list \<Rightarrow> json \<Rightarrow> bool check" where
  "is_one_of names v = andThen (hashed v) (\<lambda>k. Inr (list_ex (\<lambda>n. k = JStr n) names))"

definition SILENT_KINDS :: "string list" where "SILENT_KINDS = [''GHOST'', ''LICENSED'']"

definition tree_has_silent :: "json list \<Rightarrow> bool check" where
  "tree_has_silent witnesses = any_of (\<lambda>w. andThen (the_member iter w ''nodes'') (\<lambda>nodes.
     any_of (\<lambda>node. andThen (item node ''kind'') (is_one_of SILENT_KINDS)) nodes)) witnesses"

definition o14_witness_class :: "cstate \<Rightarrow> json \<Rightarrow> json \<Rightarrow> json \<Rightarrow> unit check" where
  "o14_witness_class s safety flags witness_class =
     (if py_eq safety (JStr ''UNSAFE'') then
        andThen (is_one_of [''OBSERVED'', ''LICENSED'', ''CONTESTED''] witness_class) (\<lambda>known.
        andThen (need known ''VRD-002'') (\<lambda>_.
        andThen (member (cs_body s) ''witnesses'') (\<lambda>witnesses.
        andThen (need (truthy witnesses) ''VRD-002'') (\<lambda>_.
        andThen (py_contains flags ''er_ambiguous'') (\<lambda>ambiguous.
        andThen (need (ambiguous \<longrightarrow> py_eq witness_class (JStr ''CONTESTED'')) ''VRD-007'') (\<lambda>_.
        andThen (if py_eq witness_class (JStr ''OBSERVED'')
                 then andThen (andThen (iter witnesses) tree_has_silent) (\<lambda>b. need (\<not> b) ''VRD-003'')
                 else Inr ()) (\<lambda>_.
        if py_eq witness_class (JStr ''LICENSED'')
        then andThen (andThen (iter witnesses) tree_has_silent) (\<lambda>b. need b ''VRD-003'')
        else Inr ())))))))
      else need (witness_class = JNull) ''VRD-006'')"

definition o14_premium :: "cstate \<Rightarrow> json \<Rightarrow> unit check" where
  "o14_premium s flags =
     (if \<not> publishes s ''premium'' then Inr ()
      else
        andThen (mapM (py_contains flags) [''grounding_capped'', ''corridor_cap'']) (\<lambda>blocking.
        andThen (need (list_all (\<lambda>b. \<not> b) blocking) ''E-FLAG-DERIVED'') (\<lambda>_.
        andThen (item (cs_body s) ''psi'') (\<lambda>psi.
        andThen (member psi ''complete'') (\<lambda>complete.
        andThen (need (truthy complete) ''E-FLAG-DERIVED'') (\<lambda>_.
        andThen (item (cs_body s) ''budgets'') (\<lambda>budgets.
        andThen (member budgets ''budget_exhausted'') (\<lambda>exhausted.
          need (\<not> truthy exhausted) ''E-FLAG-DERIVED''))))))))"

definition o14_flags :: obligation where
  "o14_flags s =
     andThen (member (cs_body s) ''verdict'') (\<lambda>verdict.
     andThen (member verdict ''flags'') (\<lambda>flags.
     andThen (iter flags) (\<lambda>names.
     andThen (flag_loop names 0 (-1)) (\<lambda>m.
     andThen (need (m AND CHECKER_RESERVED_MASK = 0) ''VRD-009'') (\<lambda>_.
     andThen (member verdict ''safety'') (\<lambda>safety.
     andThen (member verdict ''minimality'') (\<lambda>minimality.
     andThen (member verdict ''realizability'') (\<lambda>realizability.
     andThen (is_one_of [''ROBUST'', ''OPTIMISTIC_ONLY'', ''UNSAFE'', ''INDETERMINATE''] safety) (\<lambda>known.
     andThen (need known ''VRD-008'') (\<lambda>_.
     andThen (is_one_of [''EXACT_EXHAUSTIVE'', ''EXACT_PSI_RELATIVE'', ''SUBSET'', ''UNVERIFIED''] minimality) (\<lambda>known.
     andThen (need known ''VRD-008'') (\<lambda>_.
     andThen (is_one_of [''CHECKED'', ''UNCHECKED''] realizability) (\<lambda>known.
     andThen (need known ''VRD-008'') (\<lambda>_.
     andThen (py_contains verdict ''witness_class'') (\<lambda>present.
     andThen (need present ''E-SCHEMA-MISSING'') (\<lambda>_.
     andThen (item verdict ''witness_class'') (\<lambda>witness_class.
     andThen (need (py_eq safety (JStr ''ROBUST'') \<longrightarrow> m AND CHECKER_SOUNDNESS_MASK = 0) ''VRD-001'') (\<lambda>_.
     andThen (o14_witness_class s safety flags witness_class) (\<lambda>_.
     andThen (text_of minimality) (\<lambda>minimality_name.
     andThen (if prefix ''EXACT_'' minimality_name
              then andThen (mapM (py_contains flags) MINIMALITY_CAP_FLAGS) (\<lambda>capped.
                need (list_all (\<lambda>b. \<not> b) capped) ''VRD-004'')
              else Inr ()) (\<lambda>_.
     andThen (member verdict ''derived_suppressed'') (\<lambda>derived.
     andThen (ascending_value derived) (\<lambda>_.
     andThen (mapM (py_contains derived) DERIVED_SUPPRESSED_ALWAYS) (\<lambda>held.
     andThen (need (list_all id held) ''VRD-014'') (\<lambda>_.
     andThen (o14_premium s flags) (\<lambda>_.
       passed (s\<lparr>cs_flags := names, cs_flag_mask := m\<rparr>)))))))))))))))))))))))))))"

text \<open>\<open>str(value)\<close> of a value that is a text is the text.\<close>

definition py_str :: "checker_env \<Rightarrow> json \<Rightarrow> string" where
  "py_str env v = fstring env v"

definition o14b_temporal_dispute :: "checker_env \<Rightarrow> obligation" where
  "o14b_temporal_dispute env s =
     andThen (member (cs_body s) ''verdict'') (\<lambda>verdict.
     andThen (member verdict ''safety'') (\<lambda>safety.
     andThen (given (ci_liveness (cs_inputs s))) (\<lambda>liveness_path.
     andThen (parse_side_json env liveness_path) (\<lambda>liveness.
     andThen (get_or liveness ''sources'' (JArr [])) (\<lambda>sources.
     andThen (iter sources) (\<lambda>listed.
     andThen (mapM (\<lambda>source.
         andThen (get_or source ''tamper_suspected'' JNull) (\<lambda>flag.
         if flag = JBool True
         then andThen (get_or source ''source_id'' JNull) (\<lambda>source_id. Inr [py_str env source_id])
         else Inr [])) listed) (\<lambda>found.
     let suspected = concat found in
     andThen (get_or liveness ''flags'' (JObj [])) (\<lambda>flags.
     andThen (get_or flags ''verdict_tamper_sensitive'' JNull) (\<lambda>sensitive.
     andThen (get_or liveness ''disputed_events'' (JArr [])) (\<lambda>disputed.
     andThen (need (\<not> (py_eq safety (JStr ''ROBUST'') \<and> suspected \<noteq> [])) ''VRD-001'') (\<lambda>_.
     andThen (need (\<not> (py_eq safety (JStr ''ROBUST'') \<and> truthy sensitive)) ''VRD-001'') (\<lambda>_.
     andThen (iter disputed) (\<lambda>events.
     andThen (check_all (\<lambda>event.
         andThen (get_or event ''source_id'' JNull) (\<lambda>source_id.
         if py_str env source_id \<in> set suspected then Inr ()
         else andThen (get_or event ''event_id'' JNull) (\<lambda>_. reject ''VRD-001''))) events) (\<lambda>_.
       Inr (s, length events)))))))))))))))"

section \<open>O15: minimality\<close>

definition EXHAUSTIVE_CUT_CAP :: nat where "EXHAUSTIVE_CUT_CAP = 200000"

text \<open>\<open>itertools.combinations\<close>, in its order, and \<open>math.comb\<close>.\<close>

fun cut_combinations :: "nat \<Rightarrow> 'a list \<Rightarrow> 'a list list" where
  "cut_combinations 0 xs = [[]]"
| "cut_combinations (Suc k) [] = []"
| "cut_combinations (Suc k) (x # xs) = map ((#) x) (cut_combinations k xs) @ cut_combinations (Suc k) xs"

fun comb :: "nat \<Rightarrow> nat \<Rightarrow> nat" where
  "comb n 0 = 1"
| "comb 0 (Suc k) = 0"
| "comb (Suc n) (Suc k) = comb n k + comb n (Suc k)"

text \<open>The mask that raises every level of every chosen control.\<close>

definition full_mask :: "cstate \<Rightarrow> string list \<Rightarrow> nat check" where
  "full_mask s chosen =
     fold_check (\<lambda>c m. fold_check (\<lambda>l m. andThen (bit_at s c l) (\<lambda>b. Inr (m OR push_bit b 1)))
       (case map_of (cs_control_levels s) c of None \<Rightarrow> [] | Some ls \<Rightarrow> ls) m) chosen 0"

definition reaches_goal :: "json list \<Rightarrow> json list \<Rightarrow> json list \<Rightarrow> nat \<Rightarrow> bool check" where
  "reaches_goal instances axioms goals m =
     andThen (checker_reach instances axioms m) (\<lambda>(derived, steps).
       any_of (\<lambda>g. andThen (hashed g) (\<lambda>k. Inr (k \<in> set derived))) goals)"

definition o15_subset :: "cstate \<Rightarrow> bool \<Rightarrow> json list \<Rightarrow> json list \<Rightarrow> json list \<Rightarrow> string list \<Rightarrow> unit check" where
  "o15_subset s psi_relative instances axioms goals chosen =
     andThen (full_mask s chosen) (\<lambda>m.
       if \<not> list_all (\<lambda>t. t AND m \<noteq> 0) (cs_corridor_masks s) then Inr ()
       else if psi_relative then reject ''E-MIN-SMALLER''
       else andThen (reaches_goal instances axioms goals m) (\<lambda>hit. need hit ''E-MIN-SMALLER''))"

definition o15_minimality :: obligation where
  "o15_minimality s = (let body = cs_body s in
     andThen (member body ''verdict'') (\<lambda>verdict.
     andThen (item verdict ''minimality'') (\<lambda>minimality.
       if minimality = JStr ''SUBSET'' \<or> minimality = JStr ''UNVERIFIED'' then passed s
       else let controls = sort (map fst (cs_control_levels s)); target = length (cs_cut_controls s) in
         if target = 0 then passed s
         else let candidates = comb (length controls) (target - 1) in
           andThen (need (candidates \<le> EXHAUSTIVE_CUT_CAP) ''E-MIN-UNEARNED'') (\<lambda>_.
           andThen (if minimality = JStr ''EXACT_EXHAUSTIVE''
                    then andThen (item body ''budgets'') (\<lambda>budgets.
                         andThen (member budgets ''exhaustive_ran'') (\<lambda>ran.
                         andThen (need (truthy ran) ''E-MIN-UNEARNED'') (\<lambda>_.
                         andThen (item budgets ''exhaustive_cuts_tested'') (\<lambda>declared.
                           need (py_eq declared (JInt (int candidates))) ''E-MIN-UNEARNED''))))
                    else Inr ()) (\<lambda>_.
           andThen (member_iter body ''instances'') (\<lambda>instances.
           andThen (axioms_of instances) (\<lambda>axioms.
           andThen (the_member iter body ''goals'') (\<lambda>listed.
           andThen (mapM (\<lambda>g. item g ''goal_key'') listed) (\<lambda>goals.
           andThen (check_all (o15_subset s (minimality = JStr ''EXACT_PSI_RELATIVE'') instances axioms goals)
             (cut_combinations (target - 1) controls)) (\<lambda>_.
             Inr (s, length (cut_combinations (target - 1) controls))))))))))))"

section \<open>The run\<close>

record obligation_result =
  ob_name :: string
  ob_ok :: bool
  ob_code :: string
  ob_cost :: nat

record report =
  rt_exit_code :: nat
  rt_code :: string
  rt_results :: "obligation_result list"
  rt_notes :: "string list"

definition accepted :: "report \<Rightarrow> bool" where
  "accepted r = (rt_exit_code r = 0)"

definition quiet :: "obligation \<Rightarrow> cstate \<Rightarrow> string list \<times> (cstate \<times> nat) check" where
  "quiet f s = ([], f s)"

text \<open>The table of obligations, each with the name its result carries.\<close>

definition OBLIGATIONS ::
    "checker_env \<Rightarrow> (string \<times> string \<times> (cstate \<Rightarrow> string list \<times> (cstate \<times> nat) check)) list" where
  "OBLIGATIONS env =
     [(''O0'', ''O0 canonicity'', quiet (o0_canonicity env)),
      (''O1'', ''O1 cert_hash'', quiet (o1_cert_hash env)),
      (''O2'', ''O2 schema'', quiet o2_schema),
      (''O3'', ''O3 scope'', quiet o3_scope),
      (''O4'', ''O4 inputs'', o4_inputs env),
      (''O4b'', ''O4b profile'', quiet (o4b_profile env)),
      (''O5'', ''O5 atoms'', quiet (o5_atoms env)),
      (''O6'', ''O6 cut'', quiet o6_cut),
      (''O6b'', ''O6b level-minimality'', quiet o6b_cardinality_and_levels),
      (''O7'', ''O7 invariant'', quiet o7_invariant),
      (''O8'', ''O8 closure'', quiet o8_closure),
      (''O9'', ''O9 goals'', quiet o9_goals),
      (''O10'', ''O10 licenses'', quiet (o10_licenses env)),
      (''O11'', ''O11 ghost'', quiet o11_ghost),
      (''O12'', ''O12 witnesses'', quiet (o12_witnesses env)),
      (''O13'', ''O13 psi-hit'', quiet (o13_psi_hit env)),
      (''O13b'', ''O13b premium sets'', quiet o13b_premium_sets),
      (''O14'', ''O14 flags'', quiet o14_flags),
      (''O14b'', ''O14b temporal dispute'', quiet (o14b_temporal_dispute env)),
      (''O15'', ''O15 minimality'', quiet o15_minimality)]"

definition next_name :: "checker_env \<Rightarrow> obligation_result list \<Rightarrow> string" where
  "next_name env results =
     (if length results < length (OBLIGATIONS env) then fst (OBLIGATIONS env ! length results) else ''post'')"

text \<open>The loop, with the results and notes so far; a stop leaves them in the report.\<close>

fun run_obligations ::
    "(string \<times> string \<times> (cstate \<Rightarrow> string list \<times> (cstate \<times> nat) check)) list \<Rightarrow> cstate
     \<Rightarrow> obligation_result list \<Rightarrow> string list
     \<Rightarrow> obligation_result list \<times> string list \<times> cstate check" where
  "run_obligations [] s results notes = (results, notes, Inr s)"
| "run_obligations ((short, name, obligation) # rest) s results notes =
     (case obligation s of
        (extra, Inl e) \<Rightarrow> (results, notes @ extra, Inl e)
      | (extra, Inr (s', cost)) \<Rightarrow>
          run_obligations rest s'
            (results @ [\<lparr>ob_name = name, ob_ok = True, ob_code = [], ob_cost = cost\<rparr>]) (notes @ extra))"

definition failing_report ::
    "checker_env \<Rightarrow> obligation_result list \<Rightarrow> string list \<Rightarrow> stop \<Rightarrow> report check" where
  "failing_report env results notes e =
     (case e of
        Rejected code \<Rightarrow>
          Inr \<lparr>rt_exit_code = 1, rt_code = code,
               rt_results = results @ [\<lparr>ob_name = next_name env results, ob_ok = False, ob_code = code, ob_cost = 0\<rparr>],
               rt_notes = notes\<rparr>
      | Usage_stop \<Rightarrow>
          Inr \<lparr>rt_exit_code = 2, rt_code = ''E-USAGE'',
               rt_results = results @ [\<lparr>ob_name = next_name env results, ob_ok = False, ob_code = ''E-USAGE'', ob_cost = 0\<rparr>],
               rt_notes = notes\<rparr>
      | Uncaught \<Rightarrow> crash)"

definition open_certificate :: "checker_env \<Rightarrow> string \<Rightarrow> checker_inputs \<Rightarrow> cstate check" where
  "open_certificate env cert_path inputs =
     andThen (read_octets env cert_path) (\<lambda>octets.
     andThen (parse_document env octets) (\<lambda>document.
     andThen (get_or document ''body'' JNull) (\<lambda>body.
     andThen (need (is_object body) ''E-SCHEMA-MISSING'') (\<lambda>_.
       Inr (initial_state octets document body inputs)))))"

definition verify :: "checker_env \<Rightarrow> string \<Rightarrow> checker_inputs \<Rightarrow> report check" where
  "verify env cert_path inputs =
     (case open_certificate env cert_path inputs of
        Inl e \<Rightarrow> failing_report env [] [] e
      | Inr s \<Rightarrow>
          (case run_obligations (OBLIGATIONS env) s [] [] of
             (results, notes, Inl e) \<Rightarrow> failing_report env results notes e
           | (results, notes, Inr s') \<Rightarrow>
               Inr \<lparr>rt_exit_code = 0, rt_code = [], rt_results = results, rt_notes = notes\<rparr>))"

end
