(* ===== verification/CheckerReach.thy ===== *)
theory CheckerReach
  imports Judgement
begin

text \<open>
  The reachability that the checker computes for itself is the least fixpoint of the published
  instances under the mask, and keeps the contract of \<^theory_text>\<open>Closure\<close> as the emitter's does.
\<close>

section \<open>Open clauses\<close>

text \<open>The clauses that a cut leaves open: of what \<open>_reach\<close> has read, and of published instances.\<close>

definition fires :: "horn list \<Rightarrow> nat \<Rightarrow> nat \<Rightarrow> bool" where
  "fires cs S i \<longleftrightarrow> i < length cs \<and> \<not> blocked (cl_masks (cs ! i)) S"

definition open_horns :: "horn list \<Rightarrow> nat \<Rightarrow> (json set \<times> json) set" where
  "open_horns cs S = {(set (cl_body (cs ! i)), pyval h) |i h. fires cs S i \<and> cl_head (cs ! i) = Inr h \<and> hashable h}"

definition open_instances :: "json list \<Rightarrow> nat \<Rightarrow> (json set \<times> json) set" where
  "open_instances instances S =
     {(set body, head) |inst masks body head. inst \<in> set instances \<and> inst_masks inst = Inr masks \<and>
        \<not> blocked masks S \<and> inst_facts inst = Inr body \<and> the_member hashed inst ''head'' = Inr head}"

lemma mapM_nth: "mapM f xs = Inr ys \<Longrightarrow> i < length xs \<Longrightarrow> f (xs ! i) = Inr (ys ! i)"
  by (simp add: mapM_eq_Inr_list_all2 list_all2_conv_all_nth)

lemma horns_of_nth:
  assumes "horns_of instances = Inr cs"
  shows "length cs = length instances"
    and "i < length instances \<Longrightarrow> inst_masks (instances ! i) = Inr (cl_masks (cs ! i))"
    and "i < length instances \<Longrightarrow> inst_facts (instances ! i) = Inr (cl_body (cs ! i))"
    and "i < length instances \<Longrightarrow> cl_head (cs ! i) = item (instances ! i) ''head''"
proof -
  obtain masks bodies where m: "mapM inst_masks instances = Inr masks"
      and b: "mapM inst_facts instances = Inr bodies"
      and cs: "cs = map (\<lambda>(inst, m, b). \<lparr>cl_masks = m, cl_body = b, cl_head = item inst ''head''\<rparr>)
         (zip instances (zip masks bodies))"
    using assms by (auto simp: horns_of_def andThen_eq_Inr)
  note l = mapM_eq_Inr_length [OF m] mapM_eq_Inr_length [OF b]
  then show "length cs = length instances" by (simp add: cs)
  assume i: "i < length instances"
  with l mapM_nth [OF m i] mapM_nth [OF b i]
  show "inst_masks (instances ! i) = Inr (cl_masks (cs ! i))"
    "inst_facts (instances ! i) = Inr (cl_body (cs ! i))"
    "cl_head (cs ! i) = item (instances ! i) ''head''"
    by (simp_all add: cs)
qed

lemma open_instances_horns:
  assumes "horns_of instances = Inr cs"
  shows "open_instances instances S = open_horns cs S"
proof -
  note h = horns_of_nth [OF assms]
  have "(B, x) \<in> open_instances instances S \<longleftrightarrow> (B, x) \<in> open_horns cs S" for B x
  proof
    assume "(B, x) \<in> open_instances instances S"
    then obtain i masks body where i: "i < length instances" "inst_masks (instances ! i) = Inr masks"
        "\<not> blocked masks S" "inst_facts (instances ! i) = Inr body" "B = set body"
        "the_member hashed (instances ! i) ''head'' = Inr x"
      by (auto simp: open_instances_def in_set_conv_nth)
    with h show "(B, x) \<in> open_horns cs S"
      by (auto simp: open_horns_def fires_def the_member_def andThen_eq_Inr)
  next
    assume "(B, x) \<in> open_horns cs S"
    then obtain i y where i: "fires cs S i" "B = set (cl_body (cs ! i))" "x = pyval y"
        "cl_head (cs ! i) = Inr y" "hashable y"
      by (auto simp: open_horns_def)
    with h have "i < length instances" by (simp add: fires_def)
    with h i show "(B, x) \<in> open_instances instances S"
      by (auto simp: open_instances_def fires_def the_member_def andThen_eq_Inr intro!: exI [of _ "instances ! i"])
  qed
  then show ?thesis by auto
qed

section \<open>The inner loop\<close>

lemma count_by_body:
  "count_list (by_body cs k) i = (if i < length cs then count_list (cl_body (cs ! i)) k else 0)"
proof -
  have "count_list (concat (map (\<lambda>(index, c). replicate (count_list (cl_body c) k) index) (enumerate n cs))) i
      = (if n \<le> i \<and> i < n + length cs then count_list (cl_body (cs ! (i - n))) k else 0)" for n
  proof (induction cs arbitrary: n)
    case (Cons c cs)
    have "i - n = Suc (i - Suc n)" if "n < i" using that by simp
    moreover have "count_list (replicate m n) i = (if n = i then m else 0)" for m n
      by (induction m) auto
    ultimately show ?case using Cons [of "Suc n"] by (auto simp: nth_Cons')
  qed simp
  from this [of 0] show ?thesis by (simp add: by_body_def)
qed

lemma set_by_body: "i \<in> set (by_body cs k) \<longleftrightarrow> i < length cs \<and> k \<in> set (cl_body (cs ! i))"
  using count_list_0_iff [of "by_body cs k" i] count_list_0_iff [of "cl_body (cs ! i)" k]
  by (auto simp: count_by_body split: if_splits)

lemma checker_touch_effect:
  assumes "checker_touch cs S is (r, q, n) = Inr (r', q', n')"
    and "\<forall>i \<in> set is. i < length cs" and "length r = length cs"
  shows "length r' = length cs \<and>
    (\<forall>i < length cs. r' ! i = r ! i - (if fires cs S i then int (count_list is i) else 0)) \<and>
    (\<exists>hs. q' = q @ hs \<and>
       (\<forall>h \<in> set hs. \<exists>i \<in> set is. fires cs S i \<and> cl_head (cs ! i) = Inr h \<and> r' ! i \<le> 0)) \<and>
    (\<forall>i \<in> set is. fires cs S i \<and> 0 < r ! i \<and> r' ! i \<le> 0 \<longrightarrow> (\<exists>h \<in> set q'. cl_head (cs ! i) = Inr h))"
  using assms
proof (induction "is" arbitrary: r q n)
  case (Cons i "is")
  then have i: "i < length cs" by simp
  show ?case
  proof (cases "blocked (cl_masks (cs ! i)) S")
    case True
    with Cons.prems(1) have step: "checker_touch cs S is (r, q, n) = Inr (r', q', n')" by simp
    from True i have "\<not> fires cs S i" by (simp add: fires_def)
    with Cons.IH [OF step] Cons.prems show ?thesis by fastforce
  next
    case False
    then have fi: "fires cs S i" using i by (simp add: fires_def)
    define c where "c = r[i := r ! i - 1]"
    from Cons.prems(1) False obtain p where
      p: "(if c ! i = 0 then andThen (cl_head (cs ! i)) (\<lambda>head. Inr (q @ [head])) else Inr q) = Inr p"
      and rest: "checker_touch cs S is (c, p, n + 1) = Inr (r', q', n')"
      by (auto simp: Let_def c_def andThen_eq_Inr)
    have cl: "length c = length cs" "c ! i = r ! i - 1" "\<And>j. j \<noteq> i \<Longrightarrow> c ! j = r ! j"
      using i Cons.prems(3) by (simp_all add: c_def)
    from p obtain h0 where h0: "p = q @ h0"
        "c ! i = 0 \<Longrightarrow> \<exists>h. cl_head (cs ! i) = Inr h \<and> h0 = [h]" "c ! i \<noteq> 0 \<Longrightarrow> h0 = []"
      by (cases "c ! i = 0") (auto simp: andThen_eq_Inr)
    from Cons.IH [OF rest _ cl(1)] Cons.prems(2) obtain hs where
      len: "length r' = length cs" and
      cnt: "\<And>j. j < length cs \<Longrightarrow> r' ! j = c ! j - (if fires cs S j then int (count_list is j) else 0)" and
      hs: "q' = p @ hs" "\<And>h. h \<in> set hs \<Longrightarrow> \<exists>j \<in> set is. fires cs S j \<and> cl_head (cs ! j) = Inr h \<and> r' ! j \<le> 0" and
      hit: "\<And>j. j \<in> set is \<Longrightarrow> fires cs S j \<Longrightarrow> 0 < c ! j \<Longrightarrow> r' ! j \<le> 0 \<Longrightarrow> \<exists>h \<in> set q'. cl_head (cs ! j) = Inr h"
      by auto
    have count: "r' ! j = r ! j - (if fires cs S j then int (count_list (i # is) j) else 0)" if "j < length cs" for j
      using cnt [OF that] cl fi by (cases "j = i") auto
    have low: "r' ! i \<le> c ! i" using cnt [OF i] by simp
    have new: "\<exists>j \<in> set (i # is). fires cs S j \<and> cl_head (cs ! j) = Inr h \<and> r' ! j \<le> 0"
      if "h \<in> set (h0 @ hs)" for h
    proof (cases "h \<in> set hs")
      case True
      with hs(2) show ?thesis by fastforce
    next
      case False
      with that have "h \<in> set h0" by simp
      with h0(2,3) have "c ! i = 0" "cl_head (cs ! i) = Inr h" by (cases "c ! i = 0"; auto)+
      with low fi show ?thesis by auto
    qed
    have fired: "\<exists>h \<in> set q'. cl_head (cs ! j) = Inr h"
      if j: "j \<in> set (i # is)" "fires cs S j" "0 < r ! j" "r' ! j \<le> 0" for j
    proof (cases "j = i \<and> c ! i = 0")
      case True
      with h0 hs show ?thesis by auto
    next
      case False
      then have pos: "0 < c ! j" using j(3) cl by (cases "j = i") auto
      have "j \<in> set is"
      proof (rule ccontr)
        assume "j \<notin> set is"
        with cnt [of j] j(2) have "r' ! j = c ! j" by (simp add: fires_def count_list_0_iff)
        with pos j(4) show False by simp
      qed
      from hit [OF this j(2) pos j(4)] show ?thesis .
    qed
    have "q' = q @ (h0 @ hs)" using h0(1) hs(1) by simp
    with len count new fired show ?thesis by blast
  qed
qed auto

section \<open>The outer loop\<close>

definition missing :: "json list \<Rightarrow> json list \<Rightarrow> nat" where
  "missing d body = length (filter (\<lambda>f. f \<notin> set d) body)"

lemma missing_snoc: "k \<notin> set d \<Longrightarrow> int (missing (d @ [k]) body) = int (missing d body) - int (count_list body k)"
  by (induction body) (auto simp: missing_def)

lemma missing_zero: "missing d body = 0 \<longleftrightarrow> set body \<subseteq> set d"
  by (auto simp: missing_def filter_empty_conv)

definition justified :: "horn list \<Rightarrow> json set \<Rightarrow> nat \<Rightarrow> json \<Rightarrow> json set \<Rightarrow> bool" where
  "justified cs A S f X \<longleftrightarrow> f \<in> A \<or> (\<exists>B. (B, f) \<in> open_horns cs S \<and> B \<subseteq> X)"

lemma justified_mono: "justified cs A S f X \<Longrightarrow> X \<subseteq> Y \<Longrightarrow> justified cs A S f Y"
  unfolding justified_def by blast

definition check_inv :: "horn list \<Rightarrow> json set \<Rightarrow> nat \<Rightarrow> int list \<Rightarrow> json list \<Rightarrow> json list \<Rightarrow> bool" where
  "check_inv cs A S r d q \<longleftrightarrow>
     length r = length cs \<and>
     (\<forall>i. fires cs S i \<longrightarrow> r ! i = int (missing d (cl_body (cs ! i)))) \<and>
     (\<forall>i. fires cs S i \<longrightarrow> r ! i = 0 \<longrightarrow>
        (\<exists>h. cl_head (cs ! i) = Inr h \<and> pyval h \<in> set d \<union> pyval ` set q)) \<and>
     (\<forall>k < length d. justified cs A S (d ! k) (set (take k d))) \<and>
     (\<forall>h \<in> set q. hashable h \<longrightarrow> justified cs A S (pyval h) (set d)) \<and>
     A \<subseteq> set d \<union> pyval ` set q"

lemma check_inv_skip:
  "check_inv cs A S r d (h # q) \<Longrightarrow> pyval h \<in> set d \<Longrightarrow> check_inv cs A S r d q"
  unfolding check_inv_def by auto

lemma check_inv_expand:
  assumes inv: "check_inv cs A S r d (h # q)" and h: "hashable h" "pyval h \<notin> set d"
    and t: "checker_touch cs S (by_body cs (pyval h)) (r, q, n) = Inr (r', q', n')"
  shows "check_inv cs A S r' (d @ [pyval h]) q'"
proof -
  let ?k = "pyval h" let ?d = "d @ [pyval h]"
  from inv have len: "length r = length cs"
    and cnt: "\<And>i. fires cs S i \<Longrightarrow> r ! i = int (missing d (cl_body (cs ! i)))"
    and ready: "\<And>i. fires cs S i \<Longrightarrow> r ! i = 0 \<Longrightarrow>
        \<exists>g. cl_head (cs ! i) = Inr g \<and> pyval g \<in> set d \<union> pyval ` set (h # q)"
    and just: "\<And>k. k < length d \<Longrightarrow> justified cs A S (d ! k) (set (take k d))"
    and queued: "\<And>g. g \<in> set (h # q) \<Longrightarrow> hashable g \<Longrightarrow> justified cs A S (pyval g) (set d)"
    and seeds: "A \<subseteq> set d \<union> pyval ` set (h # q)"
    by (auto simp: check_inv_def)
  from checker_touch_effect [OF t _ len] obtain hs where
      len': "length r' = length cs" and
      r': "\<And>i. i < length cs \<Longrightarrow> r' ! i = r ! i - (if fires cs S i then int (count_list (by_body cs ?k) i) else 0)" and
      q': "q' = q @ hs" and
      hs: "\<And>g. g \<in> set hs \<Longrightarrow> \<exists>i. fires cs S i \<and> cl_head (cs ! i) = Inr g \<and> r' ! i \<le> 0" and
      hit: "\<And>i. i \<in> set (by_body cs ?k) \<Longrightarrow> fires cs S i \<Longrightarrow> 0 < r ! i \<Longrightarrow> r' ! i \<le> 0 \<Longrightarrow>
        \<exists>g \<in> set q'. cl_head (cs ! i) = Inr g"
    by (fastforce dest: by_body_index)
  have cnt': "r' ! i = int (missing ?d (cl_body (cs ! i)))" if "fires cs S i" for i
    using that r' [of i] cnt [OF that] missing_snoc [OF h(2)] by (simp add: fires_def count_by_body)
  have ready': "\<exists>g. cl_head (cs ! i) = Inr g \<and> pyval g \<in> set ?d \<union> pyval ` set q'"
    if f: "fires cs S i" and z: "r' ! i = 0" for i
  proof (cases "r ! i = 0")
    case True
    from ready [OF f True] show ?thesis by (auto simp: q')
  next
    case False
    with cnt [OF f] have pos: "0 < r ! i" by simp
    with z r' [of i] f have "count_list (by_body cs ?k) i \<noteq> 0" by (auto simp: fires_def)
    then have "i \<in> set (by_body cs ?k)" using count_list_0_iff by metis
    from hit [OF this f pos] z show ?thesis by auto
  qed
  have just': "justified cs A S (?d ! k) (set (take k ?d))" if "k < length ?d" for k
    using that just [of k] queued [of h] h(1) by (cases "k < length d") (auto simp: nth_append less_Suc_eq)
  have queued': "justified cs A S (pyval g) (set ?d)" if g: "g \<in> set q'" "hashable g" for g
  proof (cases "g \<in> set q")
    case True
    then have "justified cs A S (pyval g) (set d)" using queued g(2) by simp
    then show ?thesis by (rule justified_mono) auto
  next
    case False
    with g q' hs obtain i where i: "fires cs S i" "cl_head (cs ! i) = Inr g" "r' ! i \<le> 0" by auto
    with cnt' have "set (cl_body (cs ! i)) \<subseteq> set ?d" using missing_zero [of ?d] by fastforce
    moreover have "(set (cl_body (cs ! i)), pyval g) \<in> open_horns cs S"
      using i g(2) unfolding open_horns_def by blast
    ultimately show ?thesis unfolding justified_def by blast
  qed
  have "A \<subseteq> set ?d \<union> pyval ` set q'" using seeds by (auto simp: q')
  with len' cnt' ready' just' queued' show ?thesis unfolding check_inv_def by blast
qed

lemma checker_propagate_inv:
  "checker_propagate cs S r d q n = Inr (d', n') \<Longrightarrow> check_inv cs A S r d q \<Longrightarrow>
   \<exists>r'. check_inv cs A S r' d' []"
proof (induction cs S r d q n rule: checker_propagate.induct)
  case (1 cs S r d n)
  then show ?case by auto
next
  case (2 cs S r d h q n)
  from 2(3) have hh: "hashable h" by (simp split: if_splits add: crash_def)
  show ?case
  proof (cases "pyval h \<in> set d")
    case True
    with 2(3) hh have "checker_propagate cs S r d q n = Inr (d', n')" by simp
    from 2(1) [OF _ True this check_inv_skip [OF 2(4) True]] hh show ?thesis by simp
  next
    case False
    with 2(3) hh obtain r1 q1 n1 where
      t: "checker_touch cs S (by_body cs (pyval h)) (r, q, n) = Inr (r1, q1, n1)"
      and rest: "checker_propagate cs S r1 (d @ [pyval h]) q1 (n1 + 1) = Inr (d', n')"
      by (auto split: sum.splits)
    from 2(2) [OF _ False t _ _ rest check_inv_expand [OF 2(4) hh False t]] hh show ?thesis by simp
  qed
qed

lemma missing_Nil: "missing [] body = length body"
  by (simp add: missing_def)

lemma mapM_member: "mapM f xs = Inr ys \<Longrightarrow> x \<in> set xs \<Longrightarrow> \<exists>y \<in> set ys. f x = Inr y"
  by (induction xs arbitrary: ys) (auto simp: andThen_eq_Inr)

lemma mapM_source: "mapM f xs = Inr ys \<Longrightarrow> y \<in> set ys \<Longrightarrow> \<exists>x \<in> set xs. f x = Inr y"
  by (induction xs arbitrary: ys) (auto simp: andThen_eq_Inr)

lemma initial_check_inv:
  assumes "ready_heads cs S = Inr hs"
  shows "check_inv cs (pyval ` set axs) S (map (\<lambda>c. int (length (cl_body c))) cs) [] (axs @ hs)"
proof -
  let ?ready = "filter (\<lambda>c. cl_body c = [] \<and> \<not> blocked (cl_masks c) S) cs"
  from assms have all: "mapM cl_head ?ready = Inr hs" by (simp add: ready_heads_def)
  have in_hs: "\<exists>h. cl_head (cs ! i) = Inr h \<and> h \<in> set hs" if "fires cs S i" "cl_body (cs ! i) = []" for i
  proof -
    from that have "cs ! i \<in> set ?ready" by (simp add: fires_def)
    from mapM_member [OF all this] show ?thesis by blast
  qed
  have from_hs: "justified cs A S (pyval h) {}" if h: "h \<in> set hs" "hashable h" for h A
  proof -
    from mapM_source [OF all h(1)] obtain c where "c \<in> set ?ready" "cl_head c = Inr h" by blast
    then obtain i where "i < length cs" "cl_body (cs ! i) = []" "\<not> blocked (cl_masks (cs ! i)) S"
        "cl_head (cs ! i) = Inr h"
      by (auto simp: in_set_conv_nth)
    with h(2) have "({}, pyval h) \<in> open_horns cs S"
      unfolding open_horns_def fires_def by (auto intro!: exI [of _ i])
    then show ?thesis unfolding justified_def by blast
  qed
  have empty: "\<exists>h. cl_head (cs ! i) = Inr h \<and> pyval h \<in> set [] \<union> pyval ` set (axs @ hs)"
    if "fires cs S i" "map (\<lambda>c. int (length (cl_body c))) cs ! i = 0" for i
    using in_hs [of i] that by (auto simp: fires_def)
  have queued: "justified cs (pyval ` set axs) S (pyval h) (set [])" if "h \<in> set (axs @ hs)" "hashable h" for h
    using from_hs [of h] that by (auto simp: justified_def)
  have seeds: "pyval ` set axs \<subseteq> set [] \<union> pyval ` set (axs @ hs)" by auto
  show ?thesis
    unfolding check_inv_def using empty queued seeds by (simp add: fires_def missing_Nil)
qed

section \<open>The contract\<close>

definition check_returns :: "json list \<times> json list \<Rightarrow> nat \<Rightarrow> bool" where
  "check_returns p S \<longleftrightarrow> (\<exists>r. checker_reach (fst p) (snd p) S = Inr r)"

definition check_order :: "json list \<times> json list \<Rightarrow> nat \<Rightarrow> json list" where
  "check_order p S = (case checker_reach (fst p) (snd p) S of Inr (d, n) \<Rightarrow> d | Inl e \<Rightarrow> [])"

lemma set_insert_sorted: "insert_sorted x ys = Inr zs \<Longrightarrow> set zs = insert x (set ys)"
  by (induction ys arbitrary: zs) (auto simp: andThen_eq_Inr split: if_splits)

lemma set_py_sorted: "py_sorted xs = Inr ys \<Longrightarrow> set ys = set xs"
proof -
  have "py_sorted_onto d xs = Inr ys \<Longrightarrow> set ys = set d \<union> set xs" for d
    by (induction xs arbitrary: d) (auto simp: andThen_eq_Inr dest: set_insert_sorted)
  then show "py_sorted xs = Inr ys \<Longrightarrow> set ys = set xs" by (simp add: py_sorted_def)
qed

lemma checker_reach_inv:
  assumes "checker_reach instances axs S = Inr (d, n)"
  obtains cs r where "horns_of instances = Inr cs" "check_inv cs (pyval ` set axs) S r d []"
proof -
  from assms obtain cs queue hs where cs: "horns_of instances = Inr cs" and queue: "py_sorted axs = Inr queue"
      and hs: "ready_heads cs S = Inr hs"
      and run: "checker_propagate cs S (map (\<lambda>c. int (length (cl_body c))) cs) [] (queue @ hs) 0 = Inr (d, n)"
    by (auto simp: checker_reach_def andThen_eq_Inr)
  from checker_propagate_inv [OF run initial_check_inv [OF hs]] set_py_sorted [OF queue] cs that
  show thesis by metis
qed

lemma blocked_iff: "blocked ms S \<longleftrightarrow> (\<exists>t \<in> set ms. submask t S)"
  by (auto simp: blocked_def list_ex_iff submask_def)

lemma blocked_mono: "blocked ms S \<Longrightarrow> submask S S' \<Longrightarrow> blocked ms S'"
  unfolding blocked_iff using submask_trans by blast

lemma open_instances_antitone: "submask S S' \<Longrightarrow> open_instances instances S' \<subseteq> open_instances instances S"
  unfolding open_instances_def using blocked_mono by blast

lemma check_inv_closed:
  assumes "check_inv cs A S r d []" and "(B, f) \<in> open_horns cs S" and "B \<subseteq> set d"
  shows "f \<in> set d"
proof -
  from assms(2) obtain i h where i: "fires cs S i" "B = set (cl_body (cs ! i))" "f = pyval h"
      "cl_head (cs ! i) = Inr h" unfolding open_horns_def by blast
  with assms(1,3) have "r ! i = 0" unfolding check_inv_def by (simp add: missing_zero)
  with assms(1) i show ?thesis unfolding check_inv_def by auto
qed

interpretation cr: closure_engine check_returns "\<lambda>p. pyval ` set (snd p)"
  "\<lambda>p S. open_instances (fst p) S" check_order
proof unfold_locales
  fix p S
  assume "check_returns p S"
  then obtain d n where run: "checker_reach (fst p) (snd p) S = Inr (d, n)"
    unfolding check_returns_def by force
  then have order: "check_order p S = d" by (simp add: check_order_def)
  from run obtain cs r where cs: "horns_of (fst p) = Inr cs" and inv: "check_inv cs (pyval ` set (snd p)) S r d []"
    by (rule checker_reach_inv)
  note opened = open_instances_horns [OF cs]
  show "pyval ` set (snd p) \<subseteq> set (check_order p S)"
    using inv unfolding check_inv_def order by simp
  show "k < length (check_order p S) \<Longrightarrow> check_order p S ! k \<in> pyval ` set (snd p) \<or>
      (\<exists>B. (B, check_order p S ! k) \<in> open_instances (fst p) S \<and> B \<subseteq> set (take k (check_order p S)))" for k
    using inv unfolding check_inv_def order opened justified_def by blast
  show "(B, h) \<in> open_instances (fst p) S \<Longrightarrow> B \<subseteq> set (check_order p S) \<Longrightarrow> h \<in> set (check_order p S)" for B h
    unfolding order opened by (rule check_inv_closed [OF inv])
next
  fix p :: "json list \<times> json list" and S S' :: nat
  assume "submask S S'"
  then show "open_instances (fst p) S' \<subseteq> open_instances (fst p) S" by (rule open_instances_antitone)
qed

section \<open>When the propagation returns\<close>

definition readable :: "json \<Rightarrow> bool" where
  "readable inst \<longleftrightarrow> (\<exists>masks body head. inst_masks inst = Inr masks \<and> inst_facts inst = Inr body \<and>
     the_member hashed inst ''head'' = Inr head)"

definition headed :: "horn list \<Rightarrow> bool" where
  "headed cs \<longleftrightarrow> (\<forall>i < length cs. \<exists>h. cl_head (cs ! i) = Inr h \<and> hashable h)"

lemma checker_touch_returns:
  assumes "headed cs" and "\<forall>i \<in> set is. i < length cs" and "list_all hashable q"
  shows "\<exists>r' q' n'. checker_touch cs S is (r, q, n) = Inr (r', q', n') \<and> list_all hashable q'"
  using assms(2,3)
proof (induction "is" arbitrary: r q n)
  case (Cons i "is")
  then obtain h where h: "cl_head (cs ! i) = Inr h" "hashable h" using assms(1) by (auto simp: headed_def)
  have tail: "\<forall>i \<in> set is. i < length cs" using Cons.prems by simp
  from Cons.IH [OF tail Cons.prems(2)] Cons.IH [OF tail, of "q @ [h]"] h Cons.prems(2)
  show ?case by (simp add: Let_def)
qed auto

lemma checker_propagate_returns:
  "headed cs \<Longrightarrow> list_all hashable q \<Longrightarrow> \<exists>d' n'. checker_propagate cs S r d q n = Inr (d', n')"
proof (induction cs S r d q n rule: checker_propagate.induct)
  case (2 cs S r d h q n)
  show ?case
  proof (cases "pyval h \<in> set d")
    case True
    with 2 show ?thesis by simp
  next
    case False
    have "\<forall>i \<in> set (by_body cs (pyval h)). i < length cs" by (blast dest: by_body_index)
    from checker_touch_returns [OF 2(3) this, of q S r n] 2(4) obtain r' q' n' where
      t: "checker_touch cs S (by_body cs (pyval h)) (r, q, n) = Inr (r', q', n')" and q': "list_all hashable q'"
      by auto
    from 2(2) [OF _ False t _ _ 2(3) q'] 2(4) False t show ?thesis by simp
  qed
qed simp

lemma mapM_returns:
  "\<forall>x \<in> set xs. \<exists>y. f x = Inr y \<and> P y \<Longrightarrow> \<exists>ys. mapM f xs = Inr ys \<and> list_all P ys"
  by (induction xs) auto

lemma horns_of_returns:
  assumes "\<forall>inst \<in> set instances. readable inst"
  shows "\<exists>cs. horns_of instances = Inr cs \<and> headed cs"
proof -
  from mapM_returns [of instances inst_masks "\<lambda>_. True"] mapM_returns [of instances inst_facts "\<lambda>_. True"] assms
  obtain cs where cs: "horns_of instances = Inr cs"
    unfolding readable_def horns_of_def by fastforce
  have "\<exists>h. cl_head (cs ! i) = Inr h \<and> hashable h" if "i < length cs" for i
  proof -
    from that have "i < length instances" by (simp add: horns_of_nth(1) [OF cs])
    with assms horns_of_nth(4) [OF cs this] show ?thesis
      by (force simp: readable_def the_member_def andThen_eq_Inr)
  qed
  with cs show ?thesis by (auto simp: headed_def)
qed

lemma insert_sorted_texts: "\<exists>ts. insert_sorted (JStr s) (map JStr ss) = Inr (map JStr ts)"
proof (induction ss)
  case Nil
  show ?case by (auto intro: exI [of _ "[s]"])
next
  case (Cons t ss)
  then obtain ts where "insert_sorted (JStr s) (map JStr ss) = Inr (map JStr ts)" by blast
  then show ?case by (cases "s < t") (auto intro: exI [of _ "s # t # ss"] exI [of _ "t # ts"])
qed

lemma py_sorted_texts: "\<exists>ts. py_sorted (map JStr ss) = Inr (map JStr ts)"
proof -
  have "\<exists>ts. py_sorted_onto (map JStr us) (map JStr ss) = Inr (map JStr ts)" for us
  proof (induction ss arbitrary: us)
    case (Cons s ss)
    from insert_sorted_texts [of s us] Cons show ?case by force
  qed auto
  from this [of "[]"] show ?thesis by (simp add: py_sorted_def)
qed

lemma checker_reach_returns:
  assumes "\<forall>inst \<in> set instances. readable inst"
  shows "\<exists>d n. checker_reach instances (map JStr axioms) S = Inr (d, n)"
proof -
  from horns_of_returns [OF assms] obtain cs where cs: "horns_of instances = Inr cs" "headed cs" by blast
  from py_sorted_texts obtain ts where ts: "py_sorted (map JStr axioms) = Inr (map JStr ts)" by blast
  let ?ready = "filter (\<lambda>c. cl_body c = [] \<and> \<not> blocked (cl_masks c) S) cs"
  have ok: "\<exists>h. cl_head c = Inr h \<and> hashable h" if "c \<in> set ?ready" for c
    using that cs(2) by (auto simp: headed_def in_set_conv_nth)
  then have "\<exists>hs. mapM cl_head ?ready = Inr hs \<and> list_all hashable hs"
    by (intro mapM_returns ballI) blast
  then obtain hs where hs: "ready_heads cs S = Inr hs" "list_all hashable hs" by (auto simp: ready_heads_def)
  have "list_all hashable (map JStr ts @ hs)" using hs(2) by (auto simp: list_all_iff)
  from checker_propagate_returns [OF cs(2) this] cs(1) ts hs(1) show ?thesis
    by (simp add: checker_reach_def)
qed

text \<open>C10. On published instances whose fields can be read, the propagation of the checker returns,
  and the facts it derives are exactly the least set that contains the axioms and is closed under
  the instances that the cut leaves open.\<close>

theorem checker_reach_least_fixpoint:
  assumes "\<forall>inst \<in> set instances. readable inst"
  shows "\<exists>d n. checker_reach instances (map JStr axioms) S = Inr (d, n) \<and>
    set d = closure (JStr ` set axioms) (open_instances instances S)"
proof -
  from checker_reach_returns [OF assms] obtain d n where
    run: "checker_reach instances (map JStr axioms) S = Inr (d, n)" by blast
  then have "check_returns (instances, map JStr axioms) S" "check_order (instances, map JStr axioms) S = d"
    by (auto simp: check_returns_def check_order_def)
  with cr.run_closure [of "(instances, map JStr axioms)" S] run show ?thesis by (simp add: image_image)
qed

text \<open>Two published instances: \<open>b\<close> follows from \<open>a\<close> unless bit 0 is raised, \<open>c\<close> follows from \<open>b\<close>.\<close>

definition sample_published :: "json list" where
  "sample_published =
     [JObj [(''blockers'', JArr [JStr ''0x0000000000000001'']), (''body'', JArr [JStr ''a'']), (''head'', JStr ''b'')],
      JObj [(''blockers'', JArr []), (''body'', JArr [JStr ''b'']), (''head'', JStr ''c'')]]"

lemma sample_readable: "\<not> (\<exists>inst. inst \<in> set sample_published \<and> \<not> readable inst)"
  by (auto simp: sample_published_def readable_def inst_masks_def inst_facts_def the_member_def mask_text_def
      is_lower_hex_def hashed_def)

theorem checker_reach_least_fixpoint_witness:
  "(\<exists>d n. checker_reach sample_published (map JStr [''a'']) 0 = Inr (d, n) \<and>
      set d = closure (JStr ` set [''a'']) (open_instances sample_published 0)) \<and>
   checker_reach sample_published (map JStr [''a'']) 0 = Inr ([JStr ''a'', JStr ''b'', JStr ''c''], 5) \<and>
   checker_reach sample_published (map JStr [''a'']) 1 = Inr ([JStr ''a''], 1)"
proof (intro conjI)
  show "\<exists>d n. checker_reach sample_published (map JStr [''a'']) 0 = Inr (d, n) \<and>
      set d = closure (JStr ` set [''a'']) (open_instances sample_published 0)"
    by (rule checker_reach_least_fixpoint) (use sample_readable in blast)
qed code_simp+

end
