(* ===== verification/Acceptance.thy ===== *)
theory Acceptance
  imports CheckerReach
begin

text \<open>
  What an accepting run of the checker establishes: the state that every obligation left behind,
  the facts each of them guarantees about the published body, and the two claims of a certificate
  that rest on them, severance and exact minimality.
\<close>

section \<open>Obligations that keep the state\<close>

named_theorems ends_intros \<open>the computation returns the state it was given\<close>

definition ends :: "cstate \<Rightarrow> (cstate \<times> nat) check \<Rightarrow> bool" where
  "ends s r \<longleftrightarrow> (\<forall>s' c. r = Inr (s', c) \<longrightarrow> s' = s)"

lemma endsD: "ends s r \<Longrightarrow> r = Inr (s', c) \<Longrightarrow> s' = s"
  unfolding ends_def by blast

lemma ends_basic [ends_intros]:
  "ends s (Inr (s, c))" "ends s (passed s)" "ends s (reject code)" "ends s crash" "ends s (Inl e)"
  by (simp_all add: ends_def passed_def)

lemma ends_andThen [ends_intros]: "(\<And>x. ends s (f x)) \<Longrightarrow> ends s (andThen r f)"
  unfolding ends_def andThen_eq_Inr by blast

lemma ends_if [ends_intros]: "(b \<Longrightarrow> ends s r) \<Longrightarrow> (\<not> b \<Longrightarrow> ends s r') \<Longrightarrow> ends s (if b then r else r')"
  by simp

lemma ends_option [ends_intros]:
  "(x = None \<Longrightarrow> ends s r) \<Longrightarrow> (\<And>y. x = Some y \<Longrightarrow> ends s (f y)) \<Longrightarrow>
   ends s (case x of None \<Rightarrow> r | Some y \<Rightarrow> f y)"
  by (cases x) simp_all

lemma ends_pair [ends_intros]: "(\<And>a b. ends s (f a b)) \<Longrightarrow> ends s (case x of (a, b) \<Rightarrow> f a b)"
  by (cases x) simp

lemma ends_let [ends_intros]: "(\<And>y. ends s (f y)) \<Longrightarrow> ends s (let y = x in f y)"
  by simp

lemmas obligation_defs = o0_canonicity_def o1_cert_hash_def o2_schema_def o3_scope_def o4b_profile_def
  o8_closure_def o9_goals_def o10_licenses_def o11_ghost_def o12_witnesses_def o13_psi_hit_def
  o13b_premium_sets_def o14b_temporal_dispute_def o15_minimality_def

lemma obligation_ends:
  "ends s (o0_canonicity env s)" "ends s (o1_cert_hash env s)" "ends s (o2_schema s)" "ends s (o3_scope s)"
  "ends s (o4b_profile env s)" "ends s (o8_closure s)" "ends s (o9_goals s)" "ends s (o10_licenses env s)"
  "ends s (o11_ghost s)" "ends s (o12_witnesses env s)" "ends s (o13_psi_hit env s)"
  "ends s (o13b_premium_sets s)" "ends s (o14b_temporal_dispute env s)" "ends s (o15_minimality s)"
  unfolding obligation_defs by (rule ends_intros | assumption)+

lemma o4_ends: "ends s (snd (o4_inputs env s))"
  unfolding o4_inputs_def
  by (auto simp: Let_def split: sum.splits prod.splits intro!: ends_intros)

section \<open>The run\<close>

definition ran :: "(cstate \<times> nat) check \<Rightarrow> cstate \<Rightarrow> bool" where
  "ran r s \<longleftrightarrow> (\<exists>c. r = Inr (s, c))"

fun passes :: "(string \<times> string \<times> (cstate \<Rightarrow> string list \<times> (cstate \<times> nat) check)) list
    \<Rightarrow> cstate \<Rightarrow> cstate \<Rightarrow> bool" where
  "passes [] s s' \<longleftrightarrow> s' = s"
| "passes (row # rows) s s' \<longleftrightarrow> (\<exists>s1. ran (snd (snd (snd row) s)) s1 \<and> passes rows s1 s')"

lemma run_passes: "run_obligations obs s res ns = (res', ns', Inr s') \<Longrightarrow> passes obs s s'"
proof (induction obs arbitrary: s res ns)
  case (Cons row obs)
  obtain short name f where row: "row = (short, name, f)" by (cases row)
  obtain extra r where f: "f s = (extra, r)" by (cases "f s")
  from Cons.prems row f obtain s1 c where r: "r = Inr (s1, c)" by (cases r) auto
  with Cons.prems row f have "passes obs s1 s'" by (auto dest!: Cons.IH)
  with row f r show ?case by (auto simp: ran_def)
qed simp

text \<open>The state after the last obligation of an accepting run.\<close>

definition accepted_state :: "checker_env \<Rightarrow> string \<Rightarrow> checker_inputs \<Rightarrow> cstate option" where
  "accepted_state env path inputs =
     (case open_certificate env path inputs of
        Inl e \<Rightarrow> None
      | Inr s \<Rightarrow> (case run_obligations (OBLIGATIONS env) s [] [] of
          (results, ns, Inr s') \<Rightarrow> Some s' | _ \<Rightarrow> None))"

lemma failing_not_accepted: "failing_report env results ns e = Inr r \<Longrightarrow> \<not> accepted r"
  by (cases e) (auto simp: failing_report_def accepted_def)

lemma verify_accepted:
  assumes "verify env path inputs = Inr r" and "accepted r"
  obtains s where "accepted_state env path inputs = Some s"
proof (cases "open_certificate env path inputs")
  case (Inl e)
  with assms failing_not_accepted show ?thesis by (auto simp: verify_def)
next
  case (Inr s)
  obtain results ns q where run: "run_obligations (OBLIGATIONS env) s [] [] = (results, ns, q)"
    by (cases "run_obligations (OBLIGATIONS env) s [] []") auto
  with assms Inr failing_not_accepted show ?thesis
    by (cases q) (auto simp: verify_def accepted_state_def intro: that)
qed

lemma o5_state:
  "ran (o5_atoms env s) s' \<Longrightarrow> \<exists>rows. s' = s\<lparr>cs_atom_by_rank := sort_key (\<lambda>(c, l, b). (removeprefix ''ctl:'' c, l)) rows,
     cs_atom_bits := map (\<lambda>(c, l, b). ((c, l), b)) (sort_key (\<lambda>(c, l, b). (removeprefix ''ctl:'' c, l)) rows),
     cs_control_levels := control_levels_of (sort_key (\<lambda>(c, l, b). (removeprefix ''ctl:'' c, l)) rows)\<rparr>"
  by (auto simp: ran_def o5_atoms_def andThen_eq_Inr Let_def)

lemma o6_state: "ran (o6_cut s) s' \<Longrightarrow> \<exists>m raised. s' = s\<lparr>cs_cut_mask := m, cs_cut_controls := raised\<rparr>"
  by (auto simp: ran_def o6_cut_def andThen_eq_Inr)

lemma o6b_state: "ran (o6b_cardinality_and_levels s) s' \<Longrightarrow> \<exists>masks. s' = s\<lparr>cs_corridor_masks := masks\<rparr>"
  by (auto simp: ran_def o6b_cardinality_and_levels_def andThen_eq_Inr)

lemma same_invariant: "\<exists>keys. s = s\<lparr>cs_invariant := keys\<rparr>"
  by (rule exI [of _ "cs_invariant s"]) simp

lemma o7_state: "ran (o7_invariant s) s' \<Longrightarrow> \<exists>keys. s' = s\<lparr>cs_invariant := keys\<rparr>"
  by (auto simp: ran_def o7_invariant_def andThen_eq_Inr passed_def same_invariant split: if_splits)

lemma o14_state: "ran (o14_flags s) s' \<Longrightarrow> \<exists>names m. s' = s\<lparr>cs_flags := names, cs_flag_mask := m\<rparr>"
  by (auto simp: ran_def o14_flags_def andThen_eq_Inr passed_def)

definition kept :: "(cstate \<times> nat) check \<Rightarrow> cstate \<Rightarrow> bool" where
  "kept r s \<longleftrightarrow> ran r s"

lemma ran_ends: "ends s r \<Longrightarrow> ran r s' \<longleftrightarrow> s' = s \<and> kept r s"
  unfolding kept_def ran_def using endsD by blast

lemmas ran_simps = obligation_ends [THEN ran_ends] o4_ends [THEN ran_ends]

lemma accepted_chain:
  assumes "accepted_state env path inputs = Some s"
  obtains s0 s5 s6 s6b s7 where
    "open_certificate env path inputs = Inr s0"
    "ran (o0_canonicity env s0) s0" "ran (o1_cert_hash env s0) s0" "ran (o2_schema s0) s0"
    "ran (o3_scope s0) s0" "ran (snd (o4_inputs env s0)) s0" "ran (o4b_profile env s0) s0"
    "ran (o5_atoms env s0) s5" "ran (o6_cut s5) s6" "ran (o6b_cardinality_and_levels s6) s6b"
    "ran (o7_invariant s6b) s7" "ran (o8_closure s7) s7" "ran (o9_goals s7) s7"
    "ran (o10_licenses env s7) s7" "ran (o11_ghost s7) s7" "ran (o12_witnesses env s7) s7"
    "ran (o13_psi_hit env s7) s7" "ran (o13b_premium_sets s7) s7" "ran (o14_flags s7) s"
    "ran (o14b_temporal_dispute env s) s" "ran (o15_minimality s) s"
proof -
  note outer = that
  from assms obtain s0 res ns where open0: "open_certificate env path inputs = Inr s0"
      and "run_obligations (OBLIGATIONS env) s0 [] [] = (res, ns, Inr s)"
    by (auto simp: accepted_state_def split: sum.splits prod.splits)
  from run_passes [OF this(2)] have "passes (OBLIGATIONS env) s0 s" .
  moreover have finish: thesis if "kept (o0_canonicity env s0) s0" "kept (o1_cert_hash env s0) s0" "kept (o2_schema s0) s0"
    "kept (o3_scope s0) s0" "kept (snd (o4_inputs env s0)) s0" "kept (o4b_profile env s0) s0"
    "ran (o5_atoms env s0) s5" "ran (o6_cut s5) s6" "ran (o6b_cardinality_and_levels s6) s6b"
    "ran (o7_invariant s6b) s7" "kept (o8_closure s7) s7" "kept (o9_goals s7) s7"
    "kept (o10_licenses env s7) s7" "kept (o11_ghost s7) s7" "kept (o12_witnesses env s7) s7"
    "kept (o13_psi_hit env s7) s7" "kept (o13b_premium_sets s7) s7" "ran (o14_flags s7) s"
    "kept (o14b_temporal_dispute env s) s" "kept (o15_minimality s) s" for s5 s6 s6b s7
    using that [unfolded kept_def] by (rule outer [OF open0])
  ultimately show thesis
    unfolding OBLIGATIONS_def passes.simps quiet_def snd_conv ran_simps
    by (elim exE conjE) (hypsubst, rule finish; assumption)
qed

section \<open>Severance\<close>

text \<open>The published program: the instances, and the facts that are the head of none.\<close>

definition published :: "cstate \<Rightarrow> json list \<Rightarrow> json list \<Rightarrow> bool" where
  "published s instances axioms \<longleftrightarrow>
     member_iter (cs_body s) ''instances'' = Inr instances \<and> axioms_of instances = Inr axioms"

lemma fold_check_each: "fold_check f xs s = Inr r \<Longrightarrow> x \<in> set xs \<Longrightarrow> \<exists>s1 s2. f x s1 = Inr s2"
  by (induction xs arbitrary: s) (auto simp: andThen_eq_Inr)

lemma o7_facts:
  assumes "ran (o7_invariant s) s'" and "publishes s ''invariant''"
  obtains instances axioms goals where "published s instances axioms" "set axioms \<subseteq> set (cs_invariant s')"
    "member_iter (cs_body s) ''goals'' = Inr goals" "\<forall>g \<in> set goals. derivable g = Inr False"
proof -
  from assms obtain goals instances axioms where
    goals: "member_iter (cs_body s) ''goals'' = Inr goals" and
    all: "all_of (\<lambda>g. andThen (derivable g) (\<lambda>d. Inr (\<not> d))) goals = Inr True" and
    known: "published s instances axioms" "list_all (\<lambda>a. a \<in> set (cs_invariant s')) axioms"
    by (auto simp: ran_def o7_invariant_def andThen_eq_Inr passed_def published_def)
  have "\<forall>g \<in> set goals. derivable g = Inr False"
    using all unfolding all_of_eq_Inr_True andThen_eq_Inr by fastforce
  with goals known that [of instances axioms goals] show thesis by (simp add: list_all_iff subset_iff)
qed

lemma o8_facts:
  assumes "ran (o8_closure s) s" and "publishes s ''invariant''" and "published s instances axioms"
    and "(B, h) \<in> open_instances instances (cs_cut_mask s)" and "B \<subseteq> set (cs_invariant s)"
  shows "h \<in> set (cs_invariant s)"
proof -
  from assms(1-3) obtain touched where loop: "fold_check (o8_instance s) instances 0 = Inr touched"
    by (auto simp: ran_def o8_closure_def andThen_eq_Inr published_def)
  from assms(4) obtain inst masks body where i: "inst \<in> set instances" "inst_masks inst = Inr masks"
      "\<not> blocked masks (cs_cut_mask s)" "inst_facts inst = Inr body" "B = set body"
      "the_member hashed inst ''head'' = Inr h"
    unfolding open_instances_def by blast
  from fold_check_each [OF loop i(1)] obtain n m where "o8_instance s inst n = Inr m" by blast
  with i assms(5) show ?thesis
    by (auto simp: o8_instance_def andThen_eq_Inr Let_def list_all_iff split: if_splits)
qed

lemma o9_facts:
  assumes "ran (o9_goals s) s" and "publishes s ''invariant''"
    and "member_iter (cs_body s) ''goals'' = Inr goals" and "g \<in> set goals" and "derivable g = Inr False"
  obtains k where "the_member hashed g ''goal_key'' = Inr k" "k \<notin> set (cs_invariant s)"
proof -
  from assms have "andThen (the_member hashed g ''goal_key'') (\<lambda>k.
      need (k \<notin> set (cs_invariant s)) ''E-GOAL-MEMBER'') = Inr ()"
    by (auto simp: ran_def o9_goals_def andThen_eq_Inr check_all_eq_Inr)
  with that show thesis by (auto simp: andThen_eq_Inr)
qed

lemma publishes_update [simp]:
  "publishes (s\<lparr>cs_invariant := x\<rparr>) name = publishes s name"
  "publishes (s\<lparr>cs_flags := y, cs_flag_mask := m\<rparr>) name = publishes s name"
  "published (s\<lparr>cs_invariant := x\<rparr>) = published s"
  "published (s\<lparr>cs_flags := y, cs_flag_mask := m\<rparr>) = published s"
  by (simp_all add: publishes_def published_def fun_eq_iff)

lemma accepted_severs:
  assumes "accepted_state env path inputs = Some s" and "publishes s ''invariant''"
  obtains instances axioms goals where "published s instances axioms"
    "member_iter (cs_body s) ''goals'' = Inr goals"
    "\<And>g. g \<in> set goals \<Longrightarrow> \<exists>k. the_member hashed g ''goal_key'' = Inr k \<and>
       k \<notin> closure (set axioms) (open_instances instances (cs_cut_mask s))"
  using assms(1)
proof (rule accepted_chain)
  fix s0 s5 s6 s6b s7
  assume o7: "ran (o7_invariant s6b) s7" and o8: "ran (o8_closure s7) s7" and o9: "ran (o9_goals s7) s7"
    and o14: "ran (o14_flags s7) s"
  from o14_state [OF o14] obtain names m where s: "s = s7\<lparr>cs_flags := names, cs_flag_mask := m\<rparr>" by blast
  from o7_state [OF o7] obtain keys where s7: "s7 = s6b\<lparr>cs_invariant := keys\<rparr>" by blast
  from assms(2) have pub: "publishes s6b ''invariant''" "publishes s7 ''invariant''" by (simp_all add: s s7)
  from o7_facts [OF o7 pub(1)] obtain instances axioms goals where
    p: "published s6b instances axioms" "set axioms \<subseteq> set (cs_invariant s7)"
    "member_iter (cs_body s6b) ''goals'' = Inr goals" "\<forall>g \<in> set goals. derivable g = Inr False" by metis
  have p7: "published s7 instances axioms" "member_iter (cs_body s7) ''goals'' = Inr goals"
    using p by (simp_all add: s7)
  have closed: "closure (set axioms) (open_instances instances (cs_cut_mask s7)) \<subseteq> set (cs_invariant s7)"
    by (rule closure_least) (use p(2) o8_facts [OF o8 pub(2) p7(1)] in auto)
  have "\<exists>k. the_member hashed g ''goal_key'' = Inr k \<and>
      k \<notin> closure (set axioms) (open_instances instances (cs_cut_mask s))" if g: "g \<in> set goals" for g
  proof -
    obtain k where "the_member hashed g ''goal_key'' = Inr k" "k \<notin> set (cs_invariant s7)"
      using o9_facts [OF o9 pub(2) p7(2) g] p(4) g by blast
    with closed show ?thesis by (auto simp: s)
  qed
  then show thesis using p7 by (intro that [of instances axioms goals]) (simp_all add: s)
qed

section \<open>Smaller cuts\<close>

lemma filter_in_combinations: "filter P xs \<in> set (cut_combinations (length (filter P xs)) xs)"
proof (induction xs)
  case (Cons x xs)
  show ?case
  proof (cases "P x")
    case True
    with Cons show ?thesis by auto
  next
    case False
    with Cons show ?thesis by (cases "length (filter P xs)") auto
  qed
qed simp

lemma superset_combination:
  assumes "distinct xs" "C \<subseteq> set xs" "card C \<le> k" "k \<le> length xs"
  obtains ys where "ys \<in> set (cut_combinations k xs)" "C \<subseteq> set ys"
proof -
  have "k \<le> card (set xs)" using assms(1,4) by (simp add: distinct_card)
  then obtain D where D: "C \<subseteq> D" "D \<subseteq> set xs" "card D = k"
    using exists_subset_between [OF assms(3) _ assms(2)] by auto
  let ?ys = "filter (\<lambda>x. x \<in> D) xs"
  have "set ?ys = D" using D(2) by auto
  moreover have "distinct ?ys" using assms(1) by simp
  ultimately have "length ?ys = k" using D(3) distinct_card [of ?ys] by simp
  with filter_in_combinations [of "\<lambda>x. x \<in> D" xs] have "?ys \<in> set (cut_combinations k xs)" by simp
  with D(1) \<open>set ?ys = D\<close> show thesis by (intro that) auto
qed

definition levels_of :: "cstate \<Rightarrow> string \<Rightarrow> int list" where
  "levels_of s c = (case map_of (cs_control_levels s) c of None \<Rightarrow> [] | Some ls \<Rightarrow> ls)"

lemma level_loop_bits:
  "fold_check (\<lambda>l m. andThen (bit_at s c l) (\<lambda>b. Inr (m OR push_bit b 1))) ls m = Inr m' \<Longrightarrow>
   bit m' k \<longleftrightarrow> bit m k \<or> (\<exists>l \<in> set ls. bit_at s c l = Inr k)"
  for m m' :: nat
proof (induction ls arbitrary: m)
  case (Cons l ls)
  then obtain b where b: "bit_at s c l = Inr b"
    "fold_check (\<lambda>l m. andThen (bit_at s c l) (\<lambda>b. Inr (m OR push_bit b 1))) ls (m OR push_bit b 1) = Inr m'"
    by (auto simp: andThen_eq_Inr)
  from Cons.IH [OF b(2)] b(1) show ?case by (auto simp: bit_or_iff bit_exp_iff)
qed simp

lemma control_loop_bits:
  "fold_check (\<lambda>c m. fold_check (\<lambda>l m. andThen (bit_at s c l) (\<lambda>b. Inr (m OR push_bit b 1)))
      (levels_of s c) m) cs m = Inr m' \<Longrightarrow>
   bit m' k \<longleftrightarrow> bit m k \<or> (\<exists>c \<in> set cs. \<exists>l \<in> set (levels_of s c). bit_at s c l = Inr k)"
  for m m' :: nat
proof (induction cs arbitrary: m)
  case (Cons c cs)
  then obtain m1 where m1:
    "fold_check (\<lambda>l m. andThen (bit_at s c l) (\<lambda>b. Inr (m OR push_bit b 1))) (levels_of s c) m = Inr m1"
    "fold_check (\<lambda>c m. fold_check (\<lambda>l m. andThen (bit_at s c l) (\<lambda>b. Inr (m OR push_bit b 1)))
      (levels_of s c) m) cs m1 = Inr m'"
    by (auto simp: andThen_eq_Inr)
  from Cons.IH [OF m1(2)] level_loop_bits [OF m1(1)] show ?case by auto
qed simp

lemma full_mask_bits:
  "full_mask s cs = Inr m \<Longrightarrow> bit m k \<longleftrightarrow> (\<exists>c \<in> set cs. \<exists>l \<in> set (levels_of s c). bit_at s c l = Inr k)"
  using control_loop_bits [of s cs 0 m k] by (simp add: full_mask_def levels_of_def)

lemma full_mask_mono:
  "full_mask s cs = Inr m \<Longrightarrow> full_mask s ds = Inr n \<Longrightarrow> set cs \<subseteq> set ds \<Longrightarrow> submask m n"
  unfolding submask_iff using full_mask_bits by blast

section \<open>The raised controls\<close>

lemma fst_append_level: "fst ` set (append_level d c l) = insert c (fst ` set d)"
  by (induction d c l rule: append_level.induct) auto

lemma distinct_append_level: "distinct (map fst d) \<Longrightarrow> distinct (map fst (append_level d c l))"
proof (induction d c l rule: append_level.induct)
  case (2 c' ls rest c l)
  have "c' \<notin> fst ` set (append_level rest c l)" if "c' \<noteq> c" using 2(2) that by (simp add: fst_append_level)
  with 2 show ?case by auto
qed simp

lemma control_levels_keys:
  "fst ` set (control_levels_of rows) = fst ` set rows" "distinct (map fst (control_levels_of rows))"
proof -
  let ?f = "foldl (\<lambda>d (c, l, b). append_level d c l)"
  have "fst ` set (?f d rows) = fst ` set d \<union> fst ` set rows" for d :: "(string \<times> int list) list"
  proof (induction rows arbitrary: d)
    case (Cons row rows)
    then show ?case by (cases row) (simp add: fst_append_level)
  qed simp
  moreover have "distinct (map fst d) \<Longrightarrow> distinct (map fst (?f d rows))" for d :: "(string \<times> int list) list"
  proof (induction rows arbitrary: d)
    case (Cons row rows)
    then show ?case by (cases row) (simp add: distinct_append_level)
  qed simp
  ultimately show "fst ` set (control_levels_of rows) = fst ` set rows"
    "distinct (map fst (control_levels_of rows))"
    by (simp_all add: control_levels_of_def image_image split_def comp_def)
qed

lemma fst_raise_to: "fst ` set (raise_to d c l) = insert c (fst ` set d)"
  by (induction d c l rule: raise_to.induct) auto

lemma distinct_raise_to: "distinct (map fst d) \<Longrightarrow> distinct (map fst (raise_to d c l))"
proof (induction d c l rule: raise_to.induct)
  case (2 c' t rest c l)
  have "c' \<notin> fst ` set (raise_to rest c l)" if "c' \<noteq> c" using 2(2) that by (simp add: fst_raise_to)
  with 2 show ?case by auto
qed simp

lemma row_at_row: "row_at s rank = Inr (Some row) \<Longrightarrow> row \<in> set (cs_atom_by_rank s)"
  by (auto simp: row_at_def andThen_eq_Inr split: json.splits if_splits)

lemma andThenE: "andThen r f = Inr y \<Longrightarrow> (\<And>x. r = Inr x \<Longrightarrow> f x = Inr y \<Longrightarrow> thesis) \<Longrightarrow> thesis"
  by (auto simp: andThen_eq_Inr)

lemma cut_step_raised:
  assumes "cut_step s entry (ranks, raised, entries, m) = Inr (ranks', raised', entries', m')"
    and "fst ` set raised \<subseteq> fst ` set (cs_atom_by_rank s)" "distinct (map fst raised)"
  shows "fst ` set raised' \<subseteq> fst ` set (cs_atom_by_rank s) \<and> distinct (map fst raised')"
proof -
  from assms(1) obtain rank control_id level bt expected where r: "row_at s rank = Inr expected"
      and e: "(case expected of None \<Rightarrow> reject ''E-LITERAL-TABLE''
       | Some (c, l, b) \<Rightarrow> case as_number rank of None \<Rightarrow> reject ''E-LITERAL-TABLE''
         | Some r \<Rightarrow> andThen (need (py_eq control_id (JStr c) \<and> py_eq level (JInt l) \<and> py_eq bt (JInt b)) ''E-LITERAL-TABLE'')
             (\<lambda>_. Inr (ranks @ [r], raise_to raised c l, entries @ [(c, l)], m OR push_bit (nat b) 1)))
       = Inr (ranks', raised', entries', m')"
    unfolding cut_step_def prod.case by (elim andThenE) (rule that)
  show ?thesis
  proof (cases expected)
    case None
    with e show ?thesis by simp
  next
    case (Some row)
    obtain c l b where row: "row = (c, l, b)" by (cases row)
    have "raised' = raise_to raised c l"
      using e unfolding Some row option.case prod.case
      by (cases "as_number rank") (simp_all add: andThen_eq_Inr)
    moreover have "c \<in> fst ` set (cs_atom_by_rank s)"
      using row_at_row [OF r [unfolded Some row]] by force
    ultimately show ?thesis using assms(2,3) by (simp add: fst_raise_to distinct_raise_to)
  qed
qed

lemma o6_raised:
  assumes "ran (o6_cut s) s'"
  shows "fst ` set (cs_cut_controls s') \<subseteq> fst ` set (cs_atom_by_rank s) \<and> distinct (map fst (cs_cut_controls s'))"
proof -
  from assms obtain cut ranks raised entries m where
    loop: "fold_check (cut_step s) cut ([], [], [], 0) = Inr (ranks, raised, entries, m)"
    and s': "s' = s\<lparr>cs_cut_mask := m, cs_cut_controls := raised\<rparr>"
    by (auto simp: ran_def o6_cut_def andThen_eq_Inr)
  have "fold_check (cut_step s) cut st = Inr st' \<Longrightarrow> fst ` set (fst (snd st)) \<subseteq> fst ` set (cs_atom_by_rank s) \<Longrightarrow>
      distinct (map fst (fst (snd st))) \<Longrightarrow>
      fst ` set (fst (snd st')) \<subseteq> fst ` set (cs_atom_by_rank s) \<and> distinct (map fst (fst (snd st')))" for st st'
  proof (induction cut arbitrary: st)
    case (Cons entry cut)
    obtain a b c d where st: "st = (a, b, c, d)" by (cases st)
    from Cons.prems(1) st obtain a' b' c' d' where step: "cut_step s entry (a, b, c, d) = Inr (a', b', c', d')"
        and rest: "fold_check (cut_step s) cut (a', b', c', d') = Inr st'"
      by (auto simp: andThen_eq_Inr)
    from cut_step_raised [OF step] Cons.prems(2,3) st Cons.IH [OF rest] show ?case by simp
  qed simp
  from this [OF loop] show ?thesis by (simp add: s')
qed

section \<open>Exact minimality\<close>

text \<open>What the certificate claims of its size; a cut that raises every level of fewer controls; the
  published clauses it satisfies; and the goals the published program still derives under it.\<close>

definition claims :: "cstate \<Rightarrow> string \<Rightarrow> bool" where
  "claims s name \<longleftrightarrow> (\<exists>v. member (cs_body s) ''verdict'' = Inr v \<and> item v ''minimality'' = Inr (JStr name))"

definition smaller_cut :: "cstate \<Rightarrow> string list \<Rightarrow> nat \<Rightarrow> bool" where
  "smaller_cut s cs m \<longleftrightarrow> set cs \<subseteq> fst ` set (cs_control_levels s) \<and>
     card (set cs) < length (cs_cut_controls s) \<and> full_mask s cs = Inr m"

definition satisfies_clauses :: "cstate \<Rightarrow> nat \<Rightarrow> bool" where
  "satisfies_clauses s m \<longleftrightarrow> list_all (\<lambda>t. t AND m \<noteq> 0) (cs_corridor_masks s)"

definition goal_derived :: "cstate \<Rightarrow> nat \<Rightarrow> bool" where
  "goal_derived s m \<longleftrightarrow> (\<exists>instances axioms goals g k. published s instances axioms \<and>
     member_iter (cs_body s) ''goals'' = Inr goals \<and> g \<in> set goals \<and>
     the_member hashed g ''goal_key'' = Inr k \<and> k \<in> closure (set axioms) (open_instances instances m))"

lemma hits_submask: "t AND m \<noteq> 0 \<Longrightarrow> submask m m' \<Longrightarrow> t AND m' \<noteq> (0 :: nat)"
  by (metis bit_and_iff bit_eq_iff submask_iff bit_0_eq bot_apply bot_bool_def)

lemma satisfies_mono: "satisfies_clauses s m \<Longrightarrow> submask m m' \<Longrightarrow> satisfies_clauses s m'"
  unfolding satisfies_clauses_def list_all_iff using hits_submask by blast

lemma goal_derived_antitone: "goal_derived s m' \<Longrightarrow> submask m m' \<Longrightarrow> goal_derived s m"
  unfolding goal_derived_def using closure_mono [OF order_refl open_instances_antitone] by blast

lemma pyval_scalar: "hashable v \<Longrightarrow> pyval (pyval v) = pyval v"
  by (cases v) auto

lemma axioms_keys:
  assumes "axioms_of instances = Inr axioms"
  shows "pyval ` set axioms = set axioms"
proof -
  from assms obtain heads bodies where b: "mapM inst_facts instances = Inr bodies"
      and s: "py_sorted (filter (\<lambda>f. f \<notin> set heads) (remdups (concat bodies))) = Inr axioms"
    by (auto simp: axioms_of_def andThen_eq_Inr)
  have "pyval k = k" if k: "k \<in> set axioms" for k
  proof -
    from k set_py_sorted [OF s] obtain body where "body \<in> set bodies" "k \<in> set body" by auto
    with mapM_source [OF b] obtain inst where "inst_facts inst = Inr body" by blast
    then obtain v where "mapM hashed v = Inr body" by (auto simp: inst_facts_def the_member_def andThen_eq_Inr)
    from mapM_source [OF this \<open>k \<in> set body\<close>] pyval_scalar show ?thesis by auto
  qed
  then show ?thesis by (simp add: image_def)
qed

lemma reaches_goal_derived:
  assumes "reaches_goal instances axioms keys m = Inr True" and "published s instances axioms"
    and "member_iter (cs_body s) ''goals'' = Inr goals" and "mapM (\<lambda>g. item g ''goal_key'') goals = Inr keys"
  shows "goal_derived s m"
proof -
  from assms(1) obtain d n where run: "checker_reach instances axioms m = Inr (d, n)"
      and any: "any_of (\<lambda>g. andThen (hashed g) (\<lambda>k. Inr (k \<in> set d))) keys = Inr True"
    by (auto simp: reaches_goal_def andThen_eq_Inr)
  from any_of_eq_Inr_True [OF any] obtain key where key: "key \<in> set keys" "hashable key" "pyval key \<in> set d"
    by (auto simp: andThen_eq_Inr)
  from mapM_source [OF assms(4) key(1)] obtain g where g: "g \<in> set goals" "item g ''goal_key'' = Inr key" by blast
  have "check_returns (instances, axioms) m" "check_order (instances, axioms) m = d"
    using run by (auto simp: check_returns_def check_order_def)
  with cr.run_closure [of "(instances, axioms)" m] have
    "set d = closure (set axioms) (open_instances instances m)"
    using axioms_keys [of instances axioms] assms(2) by (simp add: published_def)
  with key have "pyval key \<in> closure (set axioms) (open_instances instances m)" by simp
  moreover from key g have "the_member hashed g ''goal_key'' = Inr (pyval key)"
    by (simp add: the_member_def)
  ultimately show ?thesis unfolding goal_derived_def using assms(2,3) g(1) by blast
qed

lemma o15_facts:
  assumes "ran (o15_minimality s) s" and "claims s name" and "name \<noteq> ''SUBSET''" "name \<noteq> ''UNVERIFIED''"
    and "cs_cut_controls s \<noteq> []"
  obtains instances axioms goals keys where "published s instances axioms"
    "the_member iter (cs_body s) ''goals'' = Inr goals" "mapM (\<lambda>g. item g ''goal_key'') goals = Inr keys"
    "\<And>cs. cs \<in> set (cut_combinations (length (cs_cut_controls s) - 1) (sort (map fst (cs_control_levels s)))) \<Longrightarrow>
       o15_subset s (name = ''EXACT_PSI_RELATIVE'') instances axioms keys cs = Inr ()"
proof -
  from assms(2) obtain v where v: "member (cs_body s) ''verdict'' = Inr v" "item v ''minimality'' = Inr (JStr name)"
    unfolding claims_def by blast
  with assms obtain instances axioms goals keys where
    "member_iter (cs_body s) ''instances'' = Inr instances" "axioms_of instances = Inr axioms"
    "the_member iter (cs_body s) ''goals'' = Inr goals" "mapM (\<lambda>g. item g ''goal_key'') goals = Inr keys"
    "check_all (o15_subset s (name = ''EXACT_PSI_RELATIVE'') instances axioms keys)
       (cut_combinations (length (cs_cut_controls s) - 1) (sort (map fst (cs_control_levels s)))) = Inr ()"
    by (auto simp: ran_def o15_minimality_def andThen_eq_Inr Let_def)
  with that show thesis by (simp add: published_def check_all_eq_Inr)
qed

lemma member_iter_iff: "member_iter v name = Inr xs \<longleftrightarrow> the_member iter v name = Inr xs"
  by (simp add: member_iter_def the_member_def andThen_eq_Inr member_eq_Inr)

text \<open>In an accepting run the raised controls are distinct controls of the catalogue.\<close>

lemma accepted_controls:
  assumes "accepted_state env path inputs = Some s"
  shows "distinct (map fst (cs_control_levels s)) \<and> distinct (map fst (cs_cut_controls s)) \<and>
    fst ` set (cs_cut_controls s) \<subseteq> fst ` set (cs_control_levels s)"
  using assms
proof (rule accepted_chain)
  fix s0 s5 s6 s6b s7
  assume o5: "ran (o5_atoms env s0) s5" and o6: "ran (o6_cut s5) s6" and o6b: "ran (o6b_cardinality_and_levels s6) s6b"
    and o7: "ran (o7_invariant s6b) s7" and o14: "ran (o14_flags s7) s"
  from o14_state [OF o14] o7_state [OF o7] o6b_state [OF o6b]
  have same: "cs_control_levels s = cs_control_levels s6" "cs_cut_controls s = cs_cut_controls s6" by auto
  from o6_state [OF o6] have six: "cs_control_levels s6 = cs_control_levels s5" by auto
  from o5_state [OF o5] obtain rows where rows: "cs_atom_by_rank s5 = rows" "cs_control_levels s5 = control_levels_of rows"
    by auto
  from o6_raised [OF o6] control_levels_keys [of rows] show ?thesis by (simp add: same six rows)
qed

lemma smaller_extends:
  assumes "accepted_state env path inputs = Some s" and "smaller_cut s cs m"
  obtains ds where "ds \<in> set (cut_combinations (length (cs_cut_controls s) - 1) (sort (map fst (cs_control_levels s))))"
    "set cs \<subseteq> set ds" "cs_cut_controls s \<noteq> []"
proof -
  note c = accepted_controls [OF assms(1)]
  have small: "set cs \<subseteq> fst ` set (cs_control_levels s)" "card (set cs) < length (cs_cut_controls s)"
    using assms(2) by (simp_all add: smaller_cut_def)
  have "length (cs_cut_controls s) = card (fst ` set (cs_cut_controls s))"
    using c distinct_card [of "map fst (cs_cut_controls s)"] by simp
  also have "\<dots> \<le> card (fst ` set (cs_control_levels s))" using c by (intro card_mono) auto
  also have "\<dots> = length (cs_control_levels s)"
    using c distinct_card [of "map fst (cs_control_levels s)"] by simp
  finally have "length (cs_cut_controls s) - 1 \<le> length (sort (map fst (cs_control_levels s)))" by simp
  moreover have "card (set cs) \<le> length (cs_cut_controls s) - 1" using small(2) by simp
  ultimately show thesis
    using superset_combination [of "sort (map fst (cs_control_levels s))" "set cs" "length (cs_cut_controls s) - 1"]
      c small that by (metis distinct_sort image_set list.size(3) not_less_zero set_sort)
qed

lemma accepted_no_smaller:
  assumes acc: "accepted_state env path inputs = Some s" and small: "smaller_cut s cs m"
    and "satisfies_clauses s m"
  shows "\<not> claims s ''EXACT_PSI_RELATIVE''" and "claims s ''EXACT_EXHAUSTIVE'' \<Longrightarrow> goal_derived s m"
proof -
  from smaller_extends [OF acc small] obtain ds where
    ds: "ds \<in> set (cut_combinations (length (cs_cut_controls s) - 1) (sort (map fst (cs_control_levels s))))"
      "set cs \<subseteq> set ds" and ne: "cs_cut_controls s \<noteq> []" .
  have o15: "ran (o15_minimality s) s" using acc by (rule accepted_chain)
  have no_psi: False if c: "claims s ''EXACT_PSI_RELATIVE''"
  proof -
    obtain instances axioms keys where "o15_subset s True instances axioms keys ds = Inr ()"
      by (rule o15_facts [OF o15 c _ _ ne]) (use ds(1) in auto)
    then obtain m' where m': "full_mask s ds = Inr m'" "\<not> satisfies_clauses s m'"
      by (auto simp: o15_subset_def andThen_eq_Inr satisfies_clauses_def split: if_splits)
    have "submask m m'" using full_mask_mono [OF _ m'(1) ds(2)] small by (simp add: smaller_cut_def)
    with m'(2) assms(3) satisfies_mono show False by blast
  qed
  then show "\<not> claims s ''EXACT_PSI_RELATIVE''" by blast
  assume c: "claims s ''EXACT_EXHAUSTIVE''"
  have names: "''EXACT_EXHAUSTIVE'' \<noteq> ''SUBSET''" "''EXACT_EXHAUSTIVE'' \<noteq> ''UNVERIFIED''"
    "(''EXACT_EXHAUSTIVE'' = ''EXACT_PSI_RELATIVE'') = False" by simp_all
  obtain instances axioms goals keys where
    p: "published s instances axioms" "the_member iter (cs_body s) ''goals'' = Inr goals"
      "mapM (\<lambda>g. item g ''goal_key'') goals = Inr keys"
    and sub: "o15_subset s False instances axioms keys ds = Inr ()"
    by (rule o15_facts [OF o15 c names(1,2) ne, unfolded names(3)]) (rule that; use ds(1) in blast)
  from sub obtain m' where m': "full_mask s ds = Inr m'"
      and hit: "satisfies_clauses s m' \<longrightarrow> reaches_goal instances axioms keys m' = Inr True"
    by (auto simp: o15_subset_def andThen_eq_Inr satisfies_clauses_def split: if_splits)
  have le: "submask m m'" using full_mask_mono [OF _ m' ds(2)] small by (simp add: smaller_cut_def)
  with assms(3) hit satisfies_mono have "reaches_goal instances axioms keys m' = Inr True" by blast
  from reaches_goal_derived [OF this p(1) _ p(3)] p(2) have "goal_derived s m'" by (simp add: member_iter_iff)
  then show "goal_derived s m" using le by (rule goal_derived_antitone)
qed

section \<open>A certificate\<close>

text \<open>
  A complete certificate with its side files, to evaluate the checker on: one instance, which
  derives \<open>goal_fact\<close> from \<open>axiom_fact\<close>. In the first, one control at level one blocks it and is the
  whole cut; in the second nothing blocks it, the cut is empty and the goal is declared derivable.
  The digest is a constant, so every reference is the same.
\<close>

definition axiom_fact :: string where "axiom_fact = ''fh:'' @ replicate 64 (CHR ''a'')"
definition goal_fact :: string where "goal_fact = ''fh:'' @ replicate 64 (CHR ''b'')"
definition zero_digest :: octets where "zero_digest = replicate 32 (CHR 0x00)"
definition zero_hex :: string where "zero_hex = replicate 64 (CHR ''0'')"
definition zero_ref :: json where "zero_ref = JStr (''b2b256:'' @ zero_hex)"

definition sample_instance_member :: "bool \<Rightarrow> json" where
  "sample_instance_member guarded = JObj
     [(''blockers'', JArr (if guarded then [JStr ''0x0000000000000001''] else [])),
      (''body'', JArr [JStr axiom_fact]),
      (''evidence'', JArr [JObj [(''binding'', JStr ''e''), (''event_id'', JStr ''ev:1''),
         (''source_id'', JStr ''src:a''), (''t_evt_ns'', JStr ''1'')]]),
      (''ghost'', JBool False), (''head'', JStr goal_fact), (''instance_id'', JStr ''in:1''),
      (''license_ids'', JArr []), (''observed'', JStr ''OBSERVED''), (''rule_id'', JStr ''rl:r''),
      (''rule_version'', JStr ''1.0.0''), (''tick'', JInt 0)]"

definition sample_verdict_member :: "string \<Rightarrow> json" where
  "sample_verdict_member minimality = JObj
     [(''derived_suppressed'', JArr [JStr ''pareto_frontier'', JStr ''redundancy_index'']),
      (''flags'', JArr []), (''minimality'', JStr minimality), (''realizability'', JStr ''UNCHECKED''),
      (''safety'', JStr ''ROBUST''), (''witness_class'', JNull)]"

definition sample_inputs_member :: json where
  "sample_inputs_member = JObj
     [(''bundle_hash'', zero_ref), (''bundle_provenance'', JStr ''synthetic_generator_no_range''),
      (''catalog_bits_hash'', zero_ref), (''controls_hash'', zero_ref), (''er_hash'', zero_ref),
      (''goal_hash'', zero_ref), (''grounding_mode'', JStr ''replayed''), (''guard_ast_hash'', zero_ref),
      (''implementation'', JStr ''python-reference''), (''instances_hash'', zero_ref),
      (''liveness_hash'', zero_ref), (''profile_hash'', zero_ref), (''rules_hash'', zero_ref),
      (''rules_text_hash'', zero_ref), (''seed'', JStr ''0x0000000000000001'')]"

definition sample_body :: "bool \<Rightarrow> json" where
  "sample_body guarded = JObj (
     [(''atoms'', JObj [(''assign'', JArr [JArr [JStr ''ctl:a'', JInt 1, JInt 0]]), (''n'', JInt 1)]),
      (''budgets'', JObj [(''budget_exhausted'', JBool False), (''exhaustive_cuts_tested'', JInt 1),
         (''exhaustive_ran'', JBool True)]),
      (''cut'', JArr (if guarded then [JObj [(''bit'', JInt 0), (''control_id'', JStr ''ctl:a''),
         (''level'', JInt 1), (''rank'', JInt 0)]] else [])),
      (''cut_delta_canonical'', JArr []), (''ghost_count'', JInt 0),
      (''goals'', JArr [JObj [(''derivable'', JBool (\<not> guarded)), (''goal_key'', JStr goal_fact)]]),
      (''inputs'', sample_inputs_member), (''instances'', JArr [sample_instance_member guarded])] @
     (if guarded then [(''invariant'', JObj [(''u'', JArr [JStr axiom_fact])])] else []) @
     [(''licenses'', JArr []), (''observed_event_count'', JInt 1),
      (''premium_suppressed_reason'', JStr ''x''),
      (''psi'', JObj [(''complete'', JBool True), (''corridors'', JArr (if guarded then
         [JObj [(''atom_ranks'', JArr [JInt 0]), (''corridor_id'', JStr (''cor:'' @ zero_hex)),
            (''mask'', JStr ''0x0000000000000001'')]] else [])), (''program'', JStr ''PMax'')]),
      (''residual'', JObj []),
      (''schema'', JObj [(''hash_algorithm'', JStr HASH_ALGORITHM),
         (''hash_substitution_note'', JStr HASH_SUBSTITUTION_NOTE), (''min_checker'', JStr ''1.1''),
         (''profile'', JStr ''eclipse-cert''), (''v'', JStr ''1.1'')]),
      (''scope'', JObj [(''attacker'', JStr ''non-adaptive''), (''bundle'', zero_ref), (''controls'', zero_ref),
         (''er'', zero_ref), (''goal'', zero_ref), (''liveness'', zero_ref), (''rules'', zero_ref)]),
      (''silent'', JArr []),
      (''verdict'', sample_verdict_member (if guarded then ''EXACT_EXHAUSTIVE'' else ''SUBSET'')),
      (''witnesses'', JArr [])])"

definition sample_certificate :: "bool \<Rightarrow> json" where
  "sample_certificate guarded = JObj [(''body'', sample_body guarded), (''cert_hash'', zero_ref)]"

definition sample_octets :: "bool \<Rightarrow> octets" where
  "sample_octets guarded = json_text (sample_certificate guarded) @ [CHR 0x0A]"

text \<open>The other files, by their names: the parsers know what each of them holds.\<close>

definition sample_liveness_file :: json where "sample_liveness_file = JObj [(''sources'', JArr [])]"

definition sample_profile_file :: json where
  "sample_profile_file = JObj
     [(''calibration_seed_band'', JArr [JInt 5, JInt 9]), (''degradation_spec_hash'', JStr ''d''),
      (''excluded_intervals_hash'', JStr ''i''), (''generator_config_hash'', JStr ''g''),
      (''reference_bundle_hash'', JStr ''r''), (''scenario_family'', JStr ''f'')]"

definition sample_manifest_file :: json where
  "sample_manifest_file = JObj
     [(''excluded_intervals_hash'', JStr ''i''), (''generator_config_hash'', JStr ''g''),
      (''identity_spec_hash'', JStr ''d''), (''scenario_family'', JStr ''f'')]"

definition sample_lock_file :: json where
  "sample_lock_file = JObj [(''bit'', JArr [JObj [(''pos'', JInt 0), (''state'', JStr ''live''),
     (''control_id'', JStr ''a''), (''level'', JInt 1)]])]"

definition sample_rules_file :: json where
  "sample_rules_file = JObj [(''rule'', JArr [JObj [(''id'', JStr ''r''), (''producing_sources'', JArr [JStr ''a''])]])]"

definition sample_env :: "bool \<Rightarrow> checker_env" where
  "sample_env guarded =
     \<lparr>env_digest = (\<lambda>_. zero_digest), env_nform = id,
      env_json = (\<lambda>hook on_float on_constant text.
        if text = ''liveness'' then Inr sample_liveness_file
        else if text = ''profile'' then Inr sample_profile_file
        else if text = ''manifest'' then Inr sample_manifest_file
        else Inr (sample_certificate guarded)),
      env_toml = (\<lambda>octets. if octets = ''lock'' then Some sample_lock_file else Some sample_rules_file),
      env_str = (\<lambda>_. []), env_int = (\<lambda>_. None),
      env_file = (\<lambda>path. if path = ''cert'' then Some (sample_octets guarded) else Some path)\<rparr>"

definition sample_inputs :: checker_inputs where
  "sample_inputs =
     \<lparr>ci_rules = Some ''rules'', ci_rules_cae = Some ''rules.cae'', ci_guards = Some ''guards'',
      ci_controls_cae = Some ''controls'', ci_catalog_bits = Some ''lock'', ci_bundle = Some ''bundle'',
      ci_liveness = Some ''liveness'', ci_profile = Some ''profile'', ci_goal_cae = Some ''goal'',
      ci_er = Some ''er'', ci_run_manifest = Some ''manifest''\<rparr>"

end
