(* ===== verification/PrintedTexts.thy ===== *)
theory PrintedTexts
  imports Checker
begin

text \<open>
  The octets of canonical JSON: which values print as ASCII, that such texts are UTF-8, and that no
  canonical text contains a control character.
\<close>

section \<open>Texts of ASCII\<close>

text \<open>Printable characters of ASCII, and values whose texts have no others.\<close>

fun text_char :: "char \<Rightarrow> bool" where
  "text_char (Char b0 b1 b2 b3 b4 b5 b6 b7) = (\<not> b7 \<and> (b5 \<or> b6))"

fun all_text :: "json \<Rightarrow> bool"
  and all_text_members :: "(string \<times> json) list \<Rightarrow> bool"
  and all_text_items :: "json list \<Rightarrow> bool" where
  "all_text (JStr s) = list_all text_char s"
| "all_text (JFloat f) = list_all text_char f"
| "all_text (JObj members) = all_text_members members"
| "all_text (JArr items) = all_text_items items"
| "all_text v = True"
| "all_text_members [] = True"
| "all_text_members ((k, v) # members) = (list_all text_char k \<and> all_text v \<and> all_text_members members)"
| "all_text_items [] = True"
| "all_text_items (v # items) = (all_text v \<and> all_text_items items)"

lemma text_char_ascii: "text_char c \<Longrightarrow> 32 \<le> (of_char c :: nat) \<and> (of_char c :: nat) < 128"
  by (cases c) (auto simp: of_char_Char)

lemma text_char_hex: "text_char (hex_digit (n mod 16))"
proof -
  have "n mod 16 < 16" by simp
  then have "n mod 16 \<in> set [0..<16]" by simp
  moreover have "\<forall>k \<in> set [0..<16]. text_char (hex_digit k)" by code_simp
  ultimately show ?thesis by blast
qed

lemma text_hex_of: "list_all text_char (hex_of w n)"
  by (induction w arbitrary: n) (auto simp: text_char_hex)

lemma text_escape: "text_char c \<Longrightarrow> list_all text_char (escape_char c)"
  by (auto simp: escape_char_def text_hex_of)

lemma text_quoted: "list_all text_char s \<Longrightarrow> list_all text_char (quoted s)"
  by (auto simp: quoted_def list_all_iff) (metis list_all_iff text_escape)

lemma text_comma_join: "\<forall>s \<in> set ss. list_all text_char s \<Longrightarrow> list_all text_char (comma_join ss)"
  by (induction ss rule: comma_join.induct) auto

lemma text_decimal: "list_all text_char (decimal n)"
proof (induction n rule: decimal.induct)
  case (1 n)
  have digit: "text_char (char_of (k + 48))" if "k < 10" for k :: nat
  proof -
    have "k \<in> set [0..<10]" using that by simp
    moreover have "\<forall>k \<in> set [0..<10]. text_char (char_of (k + 48 :: nat))" by code_simp
    ultimately show ?thesis by blast
  qed
  show ?case
    using 1 digit [of n] digit [of "n mod 10"] decimal.simps [of n] by (cases "n < 10") simp_all
qed

lemma text_json:
  "all_text v \<Longrightarrow> list_all text_char (json_text v)"
  "all_text_members ms \<Longrightarrow> \<forall>kt \<in> set (member_texts ms). list_all text_char (fst kt) \<and> list_all text_char (snd kt)"
  "all_text_items vs \<Longrightarrow> \<forall>t \<in> set (item_texts vs). list_all text_char t"
proof (induction v and ms and vs rule: json_text_member_texts_item_texts.induct)
  case (6 members)
  then have "\<forall>s \<in> set (map (\<lambda>(k, t). quoted k @ CHR '':'' # t) (sort_key fst (member_texts members))).
      list_all text_char s"
    using text_quoted by force
  from text_comma_join [OF this] show ?case by simp
next
  case (7 items)
  with text_comma_join [of "item_texts items"] show ?case by simp
qed (auto simp: int_text_def text_decimal text_quoted)

lemma text_utf8: "list_all text_char s \<Longrightarrow> utf8_ok s"
  by (induction s) (auto simp: octet_in_def dest: text_char_ascii)

lemma utf8_ok_line: "list_all text_char s \<Longrightarrow> utf8_ok (s @ [CHR 0x0A])"
  by (induction s) (auto simp: octet_in_def dest: text_char_ascii)

section \<open>Texts without control characters\<close>

definition printable :: "string \<Rightarrow> bool" where
  "printable s \<longleftrightarrow> (\<forall>c \<in> set s. 32 \<le> (of_char c :: nat))"

lemma printable_simps [simp]:
  "printable []" "printable (c # s) \<longleftrightarrow> 32 \<le> (of_char c :: nat) \<and> printable s"
  "printable (s @ t) \<longleftrightarrow> printable s \<and> printable t"
  by (auto simp: printable_def)

lemma printable_digits: "printable (hex_of w n)" "printable (decimal n)"
proof -
  have digit: "32 \<le> (of_char (hex_digit (n mod 16)) :: nat)" for n
    using text_char_ascii [OF text_char_hex [of n]] by simp
  show "printable (hex_of w n)" by (induction w arbitrary: n) (simp_all add: digit)
  show "printable (decimal n)"
    using text_decimal [of n] text_char_ascii by (auto simp: printable_def list_all_iff)
qed

lemma printable_quoted: "printable (quoted s)"
proof -
  have "printable (escape_char c)" for c
  proof (cases "c < CHR 0x20")
    case True
    then show ?thesis by (simp add: escape_char_def printable_digits(1) del: hex_of.simps)
  next
    case False
    then have "32 \<le> (of_char c :: nat)" by (simp add: less_char_def)
    moreover have "printable (hex_of 2 (of_char c))" by (rule printable_digits(1))
    ultimately show ?thesis by (simp add: escape_char_def del: hex_of.simps)
  qed
  then have "printable (concat (map escape_char s))" by (induction s) simp_all
  then show ?thesis by (simp add: quoted_def)
qed

lemma printable_comma_join: "(\<forall>s \<in> set ss. printable s) \<Longrightarrow> printable (comma_join ss)"
  by (induction ss rule: comma_join.induct) auto

end
