(* ===== verification/SampleCertificate.thy ===== *)
theory SampleCertificate
  imports Acceptance PrintedTexts
begin

text \<open>
  The checker evaluated on the two sample certificates of \<^theory_text>\<open>Acceptance\<close>, one obligation at a time,
  so that the claims about accepting runs have a run to speak of.
\<close>

section \<open>The sample octets\<close>

lemma sample_text: "all_text (sample_certificate True)" "all_text (sample_certificate False)"
  by code_simp+

lemma sample_line: "list_all text_char (json_text (sample_certificate g))"
  using sample_text by (cases g) (simp_all add: text_json)

lemma sample_opening:
  "json_text (sample_certificate g) = FILE_MAGIC @ drop (length FILE_MAGIC) (json_text (sample_certificate g))"
proof -
  obtain ms where body: "sample_body g = JObj ms" by (simp add: sample_body_def)
  then obtain rest where "json_text (sample_body g) = CHR ''{'' # rest" by simp
  then show ?thesis
    by (simp add: sample_certificate_def FILE_MAGIC_def quoted_def escape_char_def zero_ref_def)
qed

lemma sample_parse: "parse_document (sample_env g) (sample_octets g) = Inr (sample_certificate g)"
proof -
  let ?s = "json_text (sample_certificate g)"
  have no_break: "CHR 0x0A \<notin> set ?s" "CHR 0x0D \<notin> set ?s"
    using sample_line [of g] by (auto simp: list_all_iff)
  have "take 2 (sample_octets g) = take 2 FILE_MAGIC"
    by (subst sample_octets_def, subst sample_opening) (simp add: FILE_MAGIC_def quoted_def escape_char_def)
  then have "take 2 (sample_octets g) \<notin> set COMPRESSION_MAGICS"
    by (simp add: FILE_MAGIC_def COMPRESSION_MAGICS_def quoted_def)
  moreover have "prefix FILE_MAGIC (sample_octets g)"
    by (subst sample_octets_def, subst sample_opening) simp
  moreover have "utf8_ok (sample_octets g)" using utf8_ok_line [OF sample_line] by (simp add: sample_octets_def)
  moreover have "count_list (sample_octets g) (CHR 0x0A) = 1"
    using no_break(1) by (simp add: sample_octets_def count_list_0_iff)
  moreover have "loads_or_reject (sample_env g) pairs_hook (sample_octets g) = Inr (sample_certificate g)"
  proof -
    have "sample_octets g \<noteq> t" if "hd t \<noteq> CHR ''{''" for t
      using that sample_opening [of g] by (metis FILE_MAGIC_def append.simps(2) append_Cons append_assoc list.sel(1) sample_octets_def)
    then show ?thesis by (simp add: loads_or_reject_def sample_env_def)
  qed
  moreover have "sample_octets g \<noteq> []" "last (sample_octets g) = CHR 0x0A" "CHR 0x0D \<notin> set (sample_octets g)"
    using no_break(2) by (simp_all add: sample_octets_def)
  moreover have "is_object (sample_certificate g)" by (simp add: sample_certificate_def)
  ultimately show ?thesis by (simp add: parse_document_def need_def)
qed

section \<open>The obligations, one by one\<close>

text \<open>Only O0 and O1 look at the octets and the document, so the others are evaluated with both left open.\<close>

definition sample_state :: "bool \<Rightarrow> octets \<Rightarrow> json \<Rightarrow> cstate" where
  "sample_state g octets document = initial_state octets document (sample_body g) sample_inputs"

definition with_atoms :: "cstate \<Rightarrow> cstate" where
  "with_atoms s = s\<lparr>cs_atom_by_rank := [(''ctl:a'', 1, 0)], cs_atom_bits := [((''ctl:a'', 1), 0)],
     cs_control_levels := [(''ctl:a'', [1])]\<rparr>"

definition with_cut :: "cstate \<Rightarrow> cstate" where
  "with_cut s = s\<lparr>cs_cut_mask := 1, cs_cut_controls := [(''ctl:a'', 1)], cs_corridor_masks := [1],
     cs_invariant := [JStr axiom_fact]\<rparr>"

definition shown_char :: "char \<Rightarrow> bool" where
  "shown_char c \<longleftrightarrow> text_char c \<and> c \<noteq> CHR 0x7F"

lemma walk_shown: "list_all shown_char s \<Longrightarrow> walk_text (sample_env g) s = Inr ()"
proof -
  assume s: "list_all shown_char s"
  have "32 \<le> (of_char c :: nat) \<and> (of_char c :: nat) \<noteq> 127" if "shown_char c" for c
  proof -
    have "c = CHR 0x7F" if "(of_char c :: nat) = 127"
    proof -
      have "char_of (127 :: nat) = CHR 0x7F" by code_simp
      with arg_cong [OF that, of char_of] show ?thesis by simp
    qed
    with that text_char_ascii [of c] show ?thesis by (auto simp: shown_char_def)
  qed
  with s show "walk_text (sample_env g) s = Inr ()"
    by (auto simp: walk_text_def sample_env_def need_def list_all_iff)
qed

lemma shown_literals: "list_all shown_char zero_hex" "list_all shown_char axiom_fact" "list_all shown_char goal_fact"
  by (simp_all add: zero_hex_def axiom_fact_def goal_fact_def shown_char_def list_all_iff)

lemma sample_walk: "walk_values (sample_env g) (sample_certificate True) = Inr ()"
  "walk_values (sample_env g) (sample_certificate False) = Inr ()"
  by (simp_all add: walk_values_def sample_certificate_def sample_body_def sample_verdict_member_def
      sample_inputs_member_def sample_instance_member_def zero_ref_def walk_shown shown_char_def
      shown_literals HASH_ALGORITHM_def HASH_SUBSTITUTION_NOTE_def MAX_DEPTH_def NULL_PATH_def U32_MAX_def need_def)

lemma sample_o0:
  "o0_canonicity (sample_env g) (sample_state g (sample_octets g) (sample_certificate g)) =
     Inr (sample_state g (sample_octets g) (sample_certificate g), 0)"
proof -
  have "walk_values (sample_env g) (sample_certificate g) = Inr ()" using sample_walk by (cases g) simp_all
  moreover have "utf8_ok (json_text (sample_certificate g) @ [CHR 0x0A])" by (rule utf8_ok_line [OF sample_line])
  moreover have "object_keys (sample_certificate g) = [''body'', ''cert_hash'']" by (simp add: sample_certificate_def)
  ultimately show ?thesis
    by (simp add: o0_canonicity_def sample_state_def initial_state_def need_def encode_utf8_def dumps_def
        sample_octets_def passed_def)
qed

lemma sample_hash: "hash_ref (env_digest (sample_env g)) ''cert'' payload = Inr (''b2b256:'' @ zero_hex)"
  by code_simp

lemma sample_body_text: "list_all text_char (json_text (sample_body g))"
  using sample_text by (intro text_json) (cases g; simp add: sample_certificate_def)

lemma sample_o1:
  "o1_cert_hash (sample_env g) (sample_state g (sample_octets g) (sample_certificate g)) =
     Inr (sample_state g (sample_octets g) (sample_certificate g), 0)"
proof -
  have "member (sample_certificate g) ''cert_hash'' = Inr zero_ref"
    by (simp add: member_eq_Inr sample_certificate_def)
  with sample_hash [of g] text_utf8 [OF sample_body_text [of g]] show ?thesis
    by (simp add: o1_cert_hash_def sample_state_def initial_state_def need_def encode_utf8_def dumps_def
        passed_def uncaught_def zero_ref_def)
qed

lemma sample_early:
  "o2_schema (sample_state True oc dc) = Inr (sample_state True oc dc, 0)"
  "o3_scope (sample_state True oc dc) = Inr (sample_state True oc dc, 0)"
  "o4_inputs (sample_env g) (sample_state True oc dc) = ([], Inr (sample_state True oc dc, 0))"
  "o4b_profile (sample_env g) (sample_state True oc dc) = Inr (sample_state True oc dc, 0)"
  "o5_atoms (sample_env g) (sample_state True oc dc) = Inr (with_atoms (sample_state True oc dc), 0)"
  by code_simp+

lemma sample_early_open:
  "o2_schema (sample_state False oc dc) = Inr (sample_state False oc dc, 0)"
  "o3_scope (sample_state False oc dc) = Inr (sample_state False oc dc, 0)"
  "o4_inputs (sample_env g) (sample_state False oc dc) = ([], Inr (sample_state False oc dc, 0))"
  "o4b_profile (sample_env g) (sample_state False oc dc) = Inr (sample_state False oc dc, 0)"
  "o5_atoms (sample_env g) (sample_state False oc dc) = Inr (with_atoms (sample_state False oc dc), 0)"
  by code_simp+

lemma sample_late_open1:
  "o6_cut (with_atoms (sample_state False oc dc)) = Inr (with_atoms (sample_state False oc dc), 0)"
  "o6b_cardinality_and_levels (with_atoms (sample_state False oc dc)) = Inr (with_atoms (sample_state False oc dc), 0)"
  "o7_invariant (with_atoms (sample_state False oc dc)) = Inr (with_atoms (sample_state False oc dc), 0)"
  by code_simp+

lemma sample_late_open2:
  "o8_closure (with_atoms (sample_state False oc dc)) = Inr (with_atoms (sample_state False oc dc), 0)"
  "o9_goals (with_atoms (sample_state False oc dc)) = Inr (with_atoms (sample_state False oc dc), 0)"
  "o10_licenses (sample_env g) (with_atoms (sample_state False oc dc)) = Inr (with_atoms (sample_state False oc dc), 0)"
  by code_simp+

lemma sample_late_open3:
  "o11_ghost (with_atoms (sample_state False oc dc)) = Inr (with_atoms (sample_state False oc dc), 0)"
  "o12_witnesses (sample_env g) (with_atoms (sample_state False oc dc)) = Inr (with_atoms (sample_state False oc dc), 0)"
  "o13_psi_hit (sample_env g) (with_atoms (sample_state False oc dc)) = Inr (with_atoms (sample_state False oc dc), 0)"
  by code_simp+

lemma sample_late_open4:
  "o13b_premium_sets (with_atoms (sample_state False oc dc)) = Inr (with_atoms (sample_state False oc dc), 0)"
  "o14b_temporal_dispute (sample_env g) (with_atoms (sample_state False oc dc)) =
     Inr (with_atoms (sample_state False oc dc), 0)"
  by code_simp+

lemma sample_verdict_flags:
  assumes "member (cs_body s) ''verdict'' = Inr (sample_verdict_member minimality)"
    and "minimality \<in> {''EXACT_EXHAUSTIVE'', ''SUBSET''}"
    and "\<not> publishes s ''premium''" and "cs_flags s = []" and "cs_flag_mask s = 0"
  shows "o14_flags s = Inr (s, 0)"
proof -
  have "prefix ''EXACT_'' minimality = (minimality = ''EXACT_EXHAUSTIVE'')" using assms(2) by auto
  with assms show ?thesis
    by (auto simp: o14_flags_def sample_verdict_member_def member_def is_one_of_def need_def hashed_def
        o14_witness_class_def o14_premium_def ascending_value_def DERIVED_SUPPRESSED_ALWAYS_def
        MINIMALITY_CAP_FLAGS_def passed_def py_eq_def less_char_def)
qed

lemma sample_flags_open:
  "o14_flags (with_atoms (sample_state False oc dc)) = Inr (with_atoms (sample_state False oc dc), 0)"
  by (rule sample_verdict_flags [of _ "''SUBSET''"])
    (simp_all add: with_atoms_def sample_state_def initial_state_def member_def sample_body_def publishes_def)

lemma sample_late_open5:
  "o15_minimality (with_atoms (sample_state False oc dc)) = Inr (with_atoms (sample_state False oc dc), 0)"
  by code_simp+

definition guarded_state :: "octets \<Rightarrow> json \<Rightarrow> cstate" where
  "guarded_state oc dc = with_cut (with_atoms (sample_state True oc dc))"

definition raised_state :: "octets \<Rightarrow> json \<Rightarrow> cstate" where
  "raised_state oc dc = (with_atoms (sample_state True oc dc))\<lparr>cs_cut_mask := 1, cs_cut_controls := [(''ctl:a'', 1)]\<rparr>"

definition clause_state :: "octets \<Rightarrow> json \<Rightarrow> cstate" where
  "clause_state oc dc = (with_atoms (sample_state True oc dc))\<lparr>cs_cut_mask := 1, cs_cut_controls := [(''ctl:a'', 1)],
       cs_corridor_masks := [1]\<rparr>"

lemma sample_cut:
  "o6_cut (with_atoms (sample_state True oc dc)) =
     Inr (raised_state oc dc, 0)"
  "o6b_cardinality_and_levels (raised_state oc dc) =
     Inr (clause_state oc dc, 1)"
  "o7_invariant (clause_state oc dc) = Inr (guarded_state oc dc, 0)"
  by code_simp+

lemma sample_closed:
  "o8_closure (guarded_state oc dc) = Inr (guarded_state oc dc, 1)"
  "o9_goals (guarded_state oc dc) = Inr (guarded_state oc dc, 0)"
  "o10_licenses (sample_env g) (guarded_state oc dc) = Inr (guarded_state oc dc, 0)"
  by code_simp+

lemma sample_counts:
  "o11_ghost (guarded_state oc dc) = Inr (guarded_state oc dc, 0)"
  "o12_witnesses (sample_env g) (guarded_state oc dc) = Inr (guarded_state oc dc, 0)"
  "o13_psi_hit (sample_env g) (guarded_state oc dc) = Inr (guarded_state oc dc, 1)"
  by code_simp+

lemma sample_rest:
  "o13b_premium_sets (guarded_state oc dc) = Inr (guarded_state oc dc, 0)"
  "o14b_temporal_dispute (sample_env g) (guarded_state oc dc) = Inr (guarded_state oc dc, 0)"
  by code_simp+

lemma sample_program: "axioms_of [sample_instance_member True] = Inr [JStr axiom_fact]"
  "o15_subset (guarded_state oc dc) False [sample_instance_member True] [JStr axiom_fact] [JStr goal_fact] [] = Inr ()"
  by code_simp+

lemma guarded_fields:
  "cs_body (guarded_state oc dc) = sample_body True" "cs_cut_controls (guarded_state oc dc) = [(''ctl:a'', 1)]"
  "cs_control_levels (guarded_state oc dc) = [(''ctl:a'', [1])]" "cs_cut_mask (guarded_state oc dc) = 1"
  "cs_corridor_masks (guarded_state oc dc) = [1]"
  by (simp_all add: guarded_state_def with_cut_def with_atoms_def sample_state_def initial_state_def)

lemma guarded_members:
  "member (sample_body True) ''verdict'' = Inr (sample_verdict_member ''EXACT_EXHAUSTIVE'')"
  "item (sample_verdict_member name) ''minimality'' = Inr (JStr name)"
  "member_iter (sample_body True) ''instances'' = Inr [sample_instance_member True]"
  "member_iter (sample_body True) ''goals'' = Inr [JObj [(''derivable'', JBool False), (''goal_key'', JStr goal_fact)]]"
  by (simp_all add: sample_body_def sample_verdict_member_def member_iter_def member_def)

lemma sample_minimal: "o15_minimality (guarded_state oc dc) = Inr (guarded_state oc dc, 1)"
proof -
  have "the_member iter (sample_body True) ''goals'' =
      Inr [JObj [(''derivable'', JBool False), (''goal_key'', JStr goal_fact)]]"
    using guarded_members(4) by (simp add: member_iter_iff)
  moreover have "item (sample_body True) ''budgets'' = Inr (JObj [(''budget_exhausted'', JBool False),
      (''exhaustive_cuts_tested'', JInt 1), (''exhaustive_ran'', JBool True)])"
    by (simp add: sample_body_def)
  moreover have "member (JObj [(''budget_exhausted'', JBool False), (''exhaustive_cuts_tested'', JInt 1),
      (''exhaustive_ran'', JBool True)]) ''exhaustive_ran'' = Inr (JBool True)"
    by (simp add: member_def)
  ultimately show ?thesis
    by (simp add: o15_minimality_def guarded_fields guarded_members sample_program need_def EXHAUSTIVE_CUT_CAP_def
        py_eq_def Let_def)
qed

lemma sample_flags: "o14_flags (guarded_state oc dc) = Inr (guarded_state oc dc, 0)"
  by (rule sample_verdict_flags [of _ "''EXACT_EXHAUSTIVE''"])
    (simp_all add: guarded_state_def with_cut_def with_atoms_def sample_state_def initial_state_def member_def
      sample_body_def publishes_def)

lemma sample_open:
  "open_certificate (sample_env g) ''cert'' sample_inputs =
     Inr (sample_state g (sample_octets g) (sample_certificate g))"
proof -
  have "read_octets (sample_env g) ''cert'' = Inr (sample_octets g)" by (simp add: read_octets_def sample_env_def)
  moreover have "get_or (sample_certificate g) ''body'' JNull = Inr (sample_body g)" by (simp add: sample_certificate_def)
  moreover have "is_object (sample_body g)" by (simp add: sample_body_def)
  ultimately show ?thesis
    using sample_parse [of g] by (simp add: open_certificate_def sample_state_def need_def)
qed

section \<open>Both are accepted\<close>

lemma guarded_accepted:
  "\<exists>r. verify (sample_env True) ''cert'' sample_inputs = Inr r \<and> accepted r"
  "accepted_state (sample_env True) ''cert'' sample_inputs =
     Some (guarded_state (sample_octets True) (sample_certificate True))"
  using sample_o0 [of True] sample_o1 [of True]
  by (simp_all add: verify_def accepted_state_def sample_open OBLIGATIONS_def quiet_def sample_early sample_cut
      sample_closed sample_counts sample_rest sample_minimal sample_flags accepted_def)

lemma open_accepted:
  "\<exists>r. verify (sample_env False) ''cert'' sample_inputs = Inr r \<and> accepted r"
  "accepted_state (sample_env False) ''cert'' sample_inputs =
     Some (with_atoms (sample_state False (sample_octets False) (sample_certificate False)))"
  using sample_o0 [of False] sample_o1 [of False]
  by (simp_all add: verify_def accepted_state_def sample_open OBLIGATIONS_def quiet_def sample_early_open
      sample_late_open1 sample_late_open2 sample_late_open3 sample_late_open4 sample_late_open5 sample_flags_open
      accepted_def)

section \<open>What acceptance means\<close>

text \<open>C2. When the checker accepts a certificate that publishes the closure invariant, no published goal is
  in the least fixpoint of the published instances under the published cut: the cut severs every
  goal, whatever the emitter computed.\<close>

theorem accepted_cut_severs:
  assumes "verify env path inputs = Inr r" and "accepted r"
  shows "\<exists>s. accepted_state env path inputs = Some s \<and>
    \<not> (publishes s ''invariant'' \<and>
       (goal_derived s (cs_cut_mask s) \<or> \<not> (\<exists>instances axioms. published s instances axioms)))"
proof -
  obtain s where s: "accepted_state env path inputs = Some s" using assms by (rule verify_accepted)
  have "\<not> goal_derived s (cs_cut_mask s) \<and> (\<exists>instances axioms. published s instances axioms)"
    if "publishes s ''invariant''"
    by (rule accepted_severs [OF s that]) (fastforce simp: goal_derived_def published_def)
  with s show ?thesis by blast
qed

theorem accepted_cut_severs_witness:
  "\<exists>s. accepted_state (sample_env True) ''cert'' sample_inputs = Some s \<and> publishes s ''invariant'' \<and>
     cs_cut_mask s = 1 \<and> \<not> goal_derived s 1"
proof -
  obtain r where "verify (sample_env True) ''cert'' sample_inputs = Inr r" "accepted r"
    using guarded_accepted(1) by blast
  from accepted_cut_severs [OF this] guarded_accepted(2) show ?thesis
    by (auto simp: guarded_fields publishes_def sample_body_def)
qed

text \<open>C3. When the checker accepts a claim of exact minimality, it holds of every cut that raises fewer
  controls at all their levels, not only of those one control smaller: such a cut misses a
  published clause, or, under \<open>EXACT_EXHAUSTIVE\<close>, the published program still derives a goal.\<close>

theorem accepted_minimality_holds:
  assumes "verify env path inputs = Inr r" and "accepted r"
  shows "\<exists>s. accepted_state env path inputs = Some s \<and>
    \<not> (\<exists>cs m. smaller_cut s cs m \<and> satisfies_clauses s m \<and>
        (claims s ''EXACT_PSI_RELATIVE'' \<or> claims s ''EXACT_EXHAUSTIVE'' \<and> \<not> goal_derived s m))"
proof -
  obtain s where s: "accepted_state env path inputs = Some s" using assms by (rule verify_accepted)
  with accepted_no_smaller [OF s] show ?thesis by blast
qed

theorem accepted_minimality_holds_witness:
  "\<exists>s. accepted_state (sample_env True) ''cert'' sample_inputs = Some s \<and> claims s ''EXACT_EXHAUSTIVE'' \<and>
     smaller_cut s [] 0 \<and> \<not> (satisfies_clauses s 0 \<and> \<not> goal_derived s 0)"
proof -
  let ?s = "guarded_state (sample_octets True) (sample_certificate True)"
  obtain r where "verify (sample_env True) ''cert'' sample_inputs = Inr r" "accepted r"
    using guarded_accepted(1) by blast
  note least = accepted_minimality_holds [OF this]
  have c: "claims ?s ''EXACT_EXHAUSTIVE''"
    unfolding claims_def using guarded_members by (auto simp: guarded_fields)
  have "smaller_cut ?s [] 0" by (simp add: smaller_cut_def guarded_fields full_mask_def)
  with c least guarded_accepted(2) show ?thesis by auto
qed


section \<open>The report\<close>

definition obligation_names :: "string list" where
  "obligation_names = [''O0 canonicity'', ''O1 cert_hash'', ''O2 schema'', ''O3 scope'', ''O4 inputs'',
     ''O4b profile'', ''O5 atoms'', ''O6 cut'', ''O6b level-minimality'', ''O7 invariant'', ''O8 closure'',
     ''O9 goals'', ''O10 licenses'', ''O11 ghost'', ''O12 witnesses'', ''O13 psi-hit'',
     ''O13b premium sets'', ''O14 flags'', ''O14b temporal dispute'', ''O15 minimality'']"

lemma obligation_names: "map (\<lambda>row. fst (snd row)) (OBLIGATIONS env) = obligation_names"
  by (simp add: OBLIGATIONS_def obligation_names_def)

lemma run_results:
  "run_obligations obs s res ns = (res', ns', q) \<Longrightarrow>
   \<exists>oks. res' = res @ oks \<and> list_all ob_ok oks \<and>
     map ob_name oks = take (length oks) (map (\<lambda>row. fst (snd row)) obs) \<and> length oks \<le> length obs \<and>
     (length oks = length obs \<longleftrightarrow> (\<exists>s'. q = Inr s'))"
proof (induction obs arbitrary: s res ns)
  case (Cons row obs)
  obtain short name f where row: "row = (short, name, f)" by (cases row)
  obtain extra r where f: "f s = (extra, r)" by (cases "f s")
  show ?case
  proof (cases r)
    case (Inl e)
    with Cons.prems row f show ?thesis by auto
  next
    case (Inr sc)
    obtain s1 c where sc: "sc = (s1, c)" by (cases sc)
    let ?o = "\<lparr>ob_name = name, ob_ok = True, ob_code = [], ob_cost = c\<rparr>"
    from Cons.prems row f Inr sc have "run_obligations obs s1 (res @ [?o]) (ns @ extra) = (res', ns', q)" by simp
    from Cons.IH [OF this] obtain oks where "res' = (res @ [?o]) @ oks" "list_all ob_ok oks"
        "map ob_name oks = take (length oks) (map (\<lambda>row. fst (snd row)) obs)" "length oks \<le> length obs"
        "length oks = length obs \<longleftrightarrow> (\<exists>s'. q = Inr s')" by blast
    with row show ?thesis by (intro exI [of _ "?o # oks"]) simp
  qed
qed auto

lemma failing_report_form:
  "failing_report env results ns e = Inr r \<Longrightarrow>
   rt_exit_code r \<in> {1, 2} \<and> (\<exists>ob. rt_results r = results @ [ob] \<and> \<not> ob_ok ob \<and> ob_code ob = rt_code r)"
  by (cases e) (auto simp: failing_report_def)

text \<open>C11. A report that \<open>verify\<close> returns lists the obligations that passed, in their declared order and
  without a gap; an accepting report lists all twenty and no code, and any other adds exactly one
  failed entry, which carries the code of the report, the reason for the exit status 1 or 2.\<close>

theorem report_stops_at_first_failure:
  assumes "verify env path inputs = Inr r"
  shows "\<exists>oks. (\<not> (\<exists>ob. ob \<in> set oks \<and> \<not> ob_ok ob)) \<and> map ob_name oks = take (length oks) obligation_names \<and>
    length oks \<le> 20 \<and>
    (if accepted r then rt_results r = oks \<and> length oks = 20 \<and> rt_code r = []
     else rt_exit_code r \<in> {1, 2} \<and>
       (\<exists>ob. rt_results r = oks @ [ob] \<and> \<not> ob_ok ob \<and> ob_code ob = rt_code r))"
proof (cases "open_certificate env path inputs")
  case (Inl e)
  with assms have "failing_report env [] [] e = Inr r" by (simp add: verify_def)
  from failing_report_form [OF this] failing_not_accepted [OF this] show ?thesis
    by (intro exI [of _ "[]"]) simp
next
  case (Inr s)
  obtain res ns q where run: "run_obligations (OBLIGATIONS env) s [] [] = (res, ns, q)"
    by (cases "run_obligations (OBLIGATIONS env) s [] []") auto
  have total: "length (OBLIGATIONS env) = 20" by (simp add: OBLIGATIONS_def)
  from run_results [OF run] have oks: "list_all ob_ok res" "map ob_name res = take (length res) obligation_names"
      "length res \<le> 20" "length res = 20 \<longleftrightarrow> (\<exists>s'. q = Inr s')"
    by (simp_all add: obligation_names total)
  then have ok: "\<not> (\<exists>ob. ob \<in> set res \<and> \<not> ob_ok ob)" by (auto simp: list_all_iff)
  show ?thesis
  proof (cases q)
    case (Inl e)
    with assms Inr run have "failing_report env res ns e = Inr r" by (simp add: verify_def)
    from failing_report_form [OF this] failing_not_accepted [OF this] ok oks show ?thesis by auto
  next
    case (Inr s')
    with assms \<open>open_certificate env path inputs = Inr s\<close> run
    have "r = \<lparr>rt_exit_code = 0, rt_code = [], rt_results = res, rt_notes = ns\<rparr>" by (simp add: verify_def)
    with ok oks Inr show ?thesis by (intro exI [of _ res]) (simp add: accepted_def)
  qed
qed

theorem report_stops_at_first_failure_witness:
  "\<exists>r oks. verify (sample_env True) ''cert'' sample_inputs = Inr r \<and> rt_results r = oks \<and> length oks = 20 \<and>
     map ob_name oks = obligation_names"
proof -
  obtain r where r: "verify (sample_env True) ''cert'' sample_inputs = Inr r" "accepted r"
    using guarded_accepted(1) by blast
  from report_stops_at_first_failure [OF r(1)] r show ?thesis by (auto simp: obligation_names_def)
qed

end
