(* ===== verification/Certificate.thy ===== *)
theory Certificate
  imports Verdict Scf
begin

unbundle bit_operations_syntax

text \<open>
  The sub-objects of a certificate body, \<^verbatim>\<open>spectra_vs/cert.py\<close> from \<open>Scope.as_member\<close> to
  \<open>_atoms_member\<close>: each class is a record, its \<open>__post_init__\<close> a function \<open>check_*\<close> that
  returns the record or raises, and its \<open>as_member\<close> a function into \<^typ>\<open>json\<close>, with the members
  in the order the code writes them. A witness is nested in memory and published flat.
  The tests \<open>isinstance(x, bool)\<close> and the like have no counterpart, since the model is typed.
\<close>

section \<open>Identifiers in a certificate\<close>

text \<open>An identifier is its text; its class is the one its prefix names, and a text without a known
  prefix is no identifier.\<close>

definition class_of_id :: "string \<Rightarrow> id_type option" where
  "class_of_id value = PREFIX_TO_TYPE (fst (partition_at (CHR '':'') value) @ '':'')"

definition reject_run_local :: "string \<Rightarrow> unit outcome" where
  "reject_run_local value =
     (case class_of_id value of
        None \<Rightarrow> raises IdentifierTypeError
      | Some t \<Rightarrow> andThen (reject_run_local_in_certificate (t, value)) (\<lambda>_. Inr ()))"

definition check_published_ids :: "string list \<Rightarrow> unit outcome" where
  "check_published_ids values =
     andThen (check_all reject_run_local values) (\<lambda>_.
     andThen (check_strictly_ascending values id) (\<lambda>_. Inr ()))"

definition texts :: "string list \<Rightarrow> json" where
  "texts values = JArr (map JStr values)"

fun program_text :: "program_kind \<Rightarrow> string" where
  "program_text P_MIN = ''PMin''"
| "program_text P_MAX = ''PMax''"

section \<open>Scope, inputs and budgets\<close>

definition scope_member :: "scope \<Rightarrow> json" where
  "scope_member s = JObj [(''attacker'', JStr (sc_attacker s)), (''bundle'', JStr (sc_bundle s)),
     (''controls'', JStr (sc_controls s)), (''er'', JStr (sc_er s)), (''goal'', JStr (sc_goal s)),
     (''liveness'', JStr (sc_liveness s)), (''rules'', JStr (sc_rules s))]"

definition GROUNDING_MODE :: string where "GROUNDING_MODE = ''replayed''"
definition BUNDLE_PROVENANCE :: string where "BUNDLE_PROVENANCE = ''synthetic_generator_no_range''"
definition IMPLEMENTATION :: string where "IMPLEMENTATION = ''python-reference''"

record cert_inputs =
  in_rules_hash :: string
  in_rules_text_hash :: string
  in_guard_ast_hash :: string
  in_controls_hash :: string
  in_catalog_bits_hash :: string
  in_bundle_hash :: string
  in_liveness_hash :: string
  in_profile_hash :: string
  in_goal_hash :: string
  in_er_hash :: string
  in_instances_hash :: string
  in_seed :: int
  in_k :: int

text \<open>The digests by name, in the order of the coverage table.\<close>

definition INPUT_HASHES :: "(string \<times> (cert_inputs \<Rightarrow> string)) list" where
  "INPUT_HASHES = [(''rules_hash'', in_rules_hash), (''rules_text_hash'', in_rules_text_hash),
     (''guard_ast_hash'', in_guard_ast_hash), (''controls_hash'', in_controls_hash),
     (''catalog_bits_hash'', in_catalog_bits_hash), (''bundle_hash'', in_bundle_hash),
     (''liveness_hash'', in_liveness_hash), (''profile_hash'', in_profile_hash),
     (''goal_hash'', in_goal_hash), (''er_hash'', in_er_hash),
     (''instances_hash'', in_instances_hash)]"

definition check_inputs :: "cert_inputs \<Rightarrow> cert_inputs outcome" where
  "check_inputs i =
     andThen (check_all (\<lambda>(name, field). andThen (parse_hash_ref (field i)) (\<lambda>_. Inr ())) INPUT_HASHES) (\<lambda>_.
     andThen (mask_hex (in_seed i)) (\<lambda>_.
     andThen (u32 (in_k i)) (\<lambda>_. Inr i)))"

definition inputs_member :: "cert_inputs \<Rightarrow> json outcome" where
  "inputs_member i =
     andThen (mask_hex (in_seed i)) (\<lambda>seed.
       Inr (JObj ([(''bundle_provenance'', JStr BUNDLE_PROVENANCE),
         (''grounding_mode'', JStr GROUNDING_MODE), (''implementation'', JStr IMPLEMENTATION),
         (''k'', JInt (in_k i)), (''seed'', JStr seed)] @
         map (\<lambda>(name, field). (name, JStr (field i))) INPUT_HASHES)))"

record budgets =
  bg_fixpoint_steps :: int
  bg_bb_nodes :: int
  bg_step_budget :: int
  bg_budget_exhausted :: bool
  bg_exhaustive_ran :: bool
  bg_exhaustive_cuts_tested :: int

definition check_budgets :: "budgets \<Rightarrow> budgets outcome" where
  "check_budgets b =
     andThen (check_all (\<lambda>value. andThen (u32 value) (\<lambda>_. Inr ()))
       [bg_fixpoint_steps b, bg_bb_nodes b, bg_step_budget b, bg_exhaustive_cuts_tested b]) (\<lambda>_. Inr b)"

definition budgets_member :: "budgets \<Rightarrow> json" where
  "budgets_member b = JObj [(''bb_nodes'', JInt (bg_bb_nodes b)),
     (''budget_exhausted'', JBool (bg_budget_exhausted b)),
     (''exhaustive_cuts_tested'', JInt (bg_exhaustive_cuts_tested b)),
     (''exhaustive_ran'', JBool (bg_exhaustive_ran b)),
     (''fixpoint_steps'', JInt (bg_fixpoint_steps b)), (''step_budget'', JInt (bg_step_budget b))]"

section \<open>Goals and silent instances\<close>

record goal_ref =
  gr_goal_key :: string
  gr_derivable :: bool

definition check_goal_ref :: "goal_ref \<Rightarrow> goal_ref outcome" where
  "check_goal_ref g = andThen (reject_run_local (gr_goal_key g)) (\<lambda>_. Inr g)"

definition goal_member :: "goal_ref \<Rightarrow> json" where
  "goal_member g = JObj [(''derivable'', JBool (gr_derivable g)), (''goal_key'', JStr (gr_goal_key g))]"

record silent_ref =
  sr_instance_id :: string
  sr_license_ids :: "string list"

definition check_silent_ref :: "silent_ref \<Rightarrow> silent_ref outcome" where
  "check_silent_ref s =
     andThen (reject_run_local (sr_instance_id s)) (\<lambda>_.
     andThen (guard_code (sr_license_ids s \<noteq> []) SchemaError ''E-LICENSE-UNIMPLIED'') (\<lambda>_.
     andThen (check_published_ids (sr_license_ids s)) (\<lambda>_. Inr s)))"

definition silent_member :: "silent_ref \<Rightarrow> json" where
  "silent_member s = JObj [(''instance_id'', JStr (sr_instance_id s)), (''license_ids'', texts (sr_license_ids s))]"

section \<open>Witness trees\<close>

datatype published_kind = WK_OBSERVED | WK_GHOST | WK_LICENSED

fun kind_text :: "published_kind \<Rightarrow> string" where
  "kind_text WK_OBSERVED = ''OBSERVED''"
| "kind_text WK_GHOST = ''GHOST''"
| "kind_text WK_LICENSED = ''LICENSED''"

definition SILENT_WITNESS_KINDS :: "published_kind list" where
  "SILENT_WITNESS_KINDS = [WK_GHOST, WK_LICENSED]"

datatype published_node = PublishedNode
  (pn_instance_id: string) (pn_head: string) (pn_kind: published_kind) (pn_evidence: "string list")
  (pn_children: "published_node list")

definition check_published_node :: "published_node \<Rightarrow> published_node outcome" where
  "check_published_node n =
     andThen (reject_run_local (pn_instance_id n)) (\<lambda>_.
     andThen (reject_run_local (pn_head n)) (\<lambda>_.
     andThen (check_strictly_ascending (pn_evidence n) id) (\<lambda>_.
     andThen (guard_code (\<not> (pn_kind n = WK_GHOST \<and> pn_evidence n \<noteq> [])) SchemaError ''E-GHOST-COUNT'') (\<lambda>_.
     andThen (guard_code (\<not> (pn_kind n = WK_LICENSED \<and> pn_evidence n \<noteq> [])) SchemaError ''E-WITNESS-EVENT'') (\<lambda>_.
     andThen (guard_code (\<not> (pn_kind n = WK_OBSERVED \<and> pn_evidence n = [])) SchemaError ''E-WITNESS-EVENT'') (\<lambda>_.
       Inr n))))))"

fun contains_silent :: "published_node \<Rightarrow> bool" where
  "contains_silent (PublishedNode iid head kind evidence children) =
     (kind \<in> set SILENT_WITNESS_KINDS \<or> list_ex contains_silent children)"

definition node_member :: "published_node \<Rightarrow> nat list \<Rightarrow> json" where
  "node_member n indices = JObj [(''children'', JArr (map (\<lambda>i. JInt (int i)) indices)),
     (''evidence'', texts (pn_evidence n)), (''head'', JStr (pn_head n)),
     (''instance_id'', JStr (pn_instance_id n)), (''kind'', JStr (kind_text (pn_kind n)))]"

text \<open>\<open>place\<close>: the nodes a subtree appends when the list already holds \<open>index\<close> of them, and for a
  sequence of subtrees also the index each was placed at.\<close>

fun place :: "nat \<Rightarrow> published_node \<Rightarrow> json list"
  and place_children :: "nat \<Rightarrow> published_node list \<Rightarrow> nat list \<times> json list" where
  "place index (PublishedNode iid head kind evidence children) =
     (case place_children (Suc index) children of (indices, appended) \<Rightarrow>
        node_member (PublishedNode iid head kind evidence children) indices # appended)"
| "place_children index [] = ([], [])"
| "place_children index (child # children) =
     (let nodes = place index child
      in case place_children (index + length nodes) children of (indices, appended) \<Rightarrow>
           (index # indices, nodes @ appended))"

definition flatten :: "published_node \<Rightarrow> json list" where
  "flatten tree = place 0 tree"

record published_witness =
  pw_removed_control :: string
  pw_tree :: published_node

definition check_published_witness :: "published_witness \<Rightarrow> published_witness outcome" where
  "check_published_witness w = andThen (reject_run_local (pw_removed_control w)) (\<lambda>_. Inr w)"

definition witness_member :: "published_witness \<Rightarrow> json" where
  "witness_member w = JObj [(''nodes'', JArr (flatten (pw_tree w))), (''removed_control'', JStr (pw_removed_control w))]"

section \<open>Corridors, residual and premium\<close>

record published_psi =
  pp_program :: program_kind
  pp_complete :: bool
  pp_corridors :: "corridor list"

definition check_published_psi :: "(octets \<Rightarrow> octets) \<Rightarrow> published_psi \<Rightarrow> published_psi outcome" where
  "check_published_psi raw_digest p =
     andThen (check_strictly_ascending (pp_corridors p) cor_id) (\<lambda>_.
     andThen (check_all (\<lambda>c. andThen (reject_run_local (cor_id c)) (\<lambda>_.
         andThen (corridor_verify_id raw_digest c) (\<lambda>same. guard_code same SchemaError ''E-PSI-HIT'')))
       (pp_corridors p)) (\<lambda>_. Inr p))"

definition corridor_member :: "corridor \<Rightarrow> json outcome" where
  "corridor_member c =
     andThen (mask_hex (int (cor_mask c))) (\<lambda>m.
       Inr (JObj [(''atom_ranks'', JArr (map (\<lambda>r. JInt (int r)) (cor_atom_ranks c))),
         (''corridor_id'', JStr (cor_id c)), (''mask'', JStr m)]))"

definition psi_member :: "published_psi \<Rightarrow> json outcome" where
  "psi_member p =
     andThen (mapM corridor_member (pp_corridors p)) (\<lambda>corridors.
       Inr (JObj [(''complete'', JBool (pp_complete p)), (''corridors'', JArr corridors),
         (''program'', JStr (program_text (pp_program p)))]))"

record residual =
  rs_program :: program_kind
  rs_goals_derivable :: "string list"
  rs_goals_severed :: "string list"
  rs_corridors_open :: "string list"
  rs_corridors_exhaustive :: bool

definition check_residual :: "residual \<Rightarrow> residual outcome" where
  "check_residual r =
     andThen (check_all check_published_ids [rs_goals_derivable r, rs_goals_severed r, rs_corridors_open r]) (\<lambda>_.
     andThen (guard_code (set (rs_goals_derivable r) \<inter> set (rs_goals_severed r) = {}) SchemaError ''E-GOAL-MEMBER'') (\<lambda>_.
       Inr r))"

definition residual_member :: "residual \<Rightarrow> json" where
  "residual_member r = JObj [(''corridors_exhaustive'', JBool (rs_corridors_exhaustive r)),
     (''corridors_open'', texts (rs_corridors_open r)), (''goals_derivable'', texts (rs_goals_derivable r)),
     (''goals_severed'', texts (rs_goals_severed r)), (''program'', JStr (program_text (rs_program r)))]"

text \<open>The deficiency is a \<open>Fraction\<close>: its numerator and its positive denominator.\<close>

record premium_entry =
  pe_control_id :: string
  pe_license_ids :: "string list"
  pe_deficiency :: "int \<times> int"

definition check_premium_entry :: "premium_entry \<Rightarrow> premium_entry outcome" where
  "check_premium_entry e =
     andThen (reject_run_local (pe_control_id e)) (\<lambda>_.
     andThen (check_published_ids (pe_license_ids e)) (\<lambda>_.
     case pe_deficiency e of (num, den) \<Rightarrow>
       andThen (guard (0 \<le> num \<and> num \<le> den) SchemaError) (\<lambda>_.
       andThen (u32 num) (\<lambda>_.
       andThen (u32 den) (\<lambda>_. Inr e)))))"

definition premium_entry_member :: "premium_entry \<Rightarrow> json" where
  "premium_entry_member e = JObj [(''calibration_deficiency'',
       JObj [(''den'', JInt (snd (pe_deficiency e))), (''num'', JInt (fst (pe_deficiency e)))]),
     (''control_id'', JStr (pe_control_id e)), (''license_ids'', texts (pe_license_ids e))]"

record published_premium =
  pr_nec_max :: "string list"
  pr_occ_min :: "string list"
  pr_blindness_premium :: "string list"
  pr_per_control :: "premium_entry list"

definition check_published_premium :: "published_premium \<Rightarrow> published_premium outcome" where
  "check_published_premium p =
     andThen (check_all check_published_ids [pr_nec_max p, pr_occ_min p, pr_blindness_premium p]) (\<lambda>_.
     andThen (check_strictly_ascending (pr_per_control p) pe_control_id) (\<lambda>_.
     andThen (guard_code (pr_blindness_premium p = filter (\<lambda>c. c \<notin> set (pr_occ_min p)) (pr_nec_max p))
       SchemaError ''E-FLAG-DERIVED'') (\<lambda>_.
     andThen (guard_code (set (pr_blindness_premium p) \<subseteq> set (map pe_control_id (pr_per_control p)))
       SchemaError ''E-FLAG-DERIVED'') (\<lambda>_.
       Inr p))))"

definition premium_member :: "published_premium \<Rightarrow> json" where
  "premium_member p = JObj [(''blindness_premium'', texts (pr_blindness_premium p)),
     (''nec_max'', texts (pr_nec_max p)), (''occ_min'', texts (pr_occ_min p)),
     (''per_control'', JArr (map premium_entry_member (pr_per_control p)))]"

section \<open>Instances, licences, cut and atoms\<close>

definition instances_hash ::
    "(octets \<Rightarrow> octets) \<Rightarrow> (string \<Rightarrow> string) \<Rightarrow> rule_instance list \<Rightarrow> string outcome" where
  "instances_hash raw_digest nform instances =
     andThen (mapM (instance_canonical_bytes nform) instances) (\<lambda>encoded.
     andThen (ordered_seq encoded) (hash_ref raw_digest ''instances''))"

definition evidence_member :: "evidence_ref \<Rightarrow> json" where
  "evidence_member e = JObj [(''binding'', JStr (er_binding e)), (''event_id'', JStr (er_event_id e)),
     (''source_id'', JStr (er_source_id e)), (''t_evt_ns'', JStr (int_text (er_t_evt_ns e)))]"

definition instance_member :: "rule_instance \<Rightarrow> json outcome" where
  "instance_member i =
     andThen (mapM (\<lambda>m. mask_hex (int m)) (ri_blockers i)) (\<lambda>blockers.
       Inr (JObj [(''blockers'', texts blockers), (''body'', texts (ri_body i)),
         (''evidence'', JArr (map evidence_member (ri_evidence i))), (''ghost'', JBool (ri_ghost i)),
         (''head'', JStr (ri_head i)), (''instance_id'', JStr (ri_instance_id i)),
         (''license_ids'', texts (ri_license_ids i)),
         (''observed'', JStr (observation_text (ri_observed i))), (''rule_id'', JStr (ri_rule_id i)),
         (''rule_version'', JStr (ri_rule_version i)), (''tick'', JInt (ri_tick i))]))"

definition licence_member :: "licence \<Rightarrow> json" where
  "licence_member l = JObj ([(''basis'', JStr (basis_text (lic_basis l))), (''license_id'', JStr (lic_id l)),
     (''reason'', JStr (lic_reason l)), (''source_id'', JStr (lic_source_id l)),
     (''t0_ns'', JStr (int_text (lic_t0_ns l))), (''t1_ns'', JStr (int_text (lic_t1_ns l)))] @
     (if lic_witness l \<noteq> [] then [(''witness'', texts (lic_witness l))] else []))"

definition cut_member :: "cut \<Rightarrow> json" where
  "cut_member c = JArr (map (\<lambda>a. JObj [(''bit'', JInt (int (tl_bit a))), (''control_id'', JStr (tl_control_id a)),
     (''level'', JInt (int (tl_level a))), (''rank'', JInt (int (tl_rank a)))]) (ct_atoms c))"

definition atoms_member :: "threshold_literal list \<Rightarrow> json" where
  "atoms_member atoms = JObj [(''assign'', JArr (map (\<lambda>a. JArr [JStr (tl_control_id a), JInt (int (tl_level a)),
     JInt (int (tl_bit a))]) atoms)), (''n'', JInt (int (length atoms)))]"

text \<open>\<open>Verdict.as_member\<close>: the witness class is null exactly where there is none.\<close>

definition verdict_member :: "verdict \<Rightarrow> json" where
  "verdict_member v = JObj [(''derived_suppressed'', texts (vd_derived_suppressed v)),
     (''flags'', texts (vd_flags v)), (''minimality'', JStr (minimality_label (vd_minimality v))),
     (''realizability'', JStr (realizability_text (vd_realizability v))),
     (''safety'', JStr (safety_text (vd_safety v))),
     (''witness_class'', (case vd_witness_class v of None \<Rightarrow> JNull | Some c \<Rightarrow> JStr (witness_class_text c)))]"

end
