(* ===== verification/CertificateBody.thy ===== *)
theory CertificateBody
  imports Certificate Checker
begin

text \<open>
  The assembly of a certificate in \<^verbatim>\<open>spectra_vs/cert.py\<close>: the checks \<open>build_body\<close> makes between
  the members, the body it returns, the encoding law of the document with its one permitted
  null, and the octets of the file. A body is its members in insertion order. The texts are
  UTF-8 octets, so \<open>encode("utf-8")\<close> tests that they are and is the identity otherwise;
  \<open>json.loads(json.dumps(document))\<close> is the document again.
\<close>

section \<open>The checks between members\<close>

definition check_scope_binds_inputs :: "scope \<Rightarrow> cert_inputs \<Rightarrow> unit outcome" where
  "check_scope_binds_inputs s i =
     check_all (\<lambda>(named, pinned). guard_code (named = pinned) VerdictError ''VRD-012'')
       [(sc_bundle s, in_bundle_hash i), (sc_controls s, in_controls_hash i), (sc_er s, in_er_hash i),
        (sc_goal s, in_goal_hash i), (sc_liveness s, in_liveness_hash i), (sc_rules s, in_rules_hash i)]"

definition check_atom_table :: "threshold_literal list \<Rightarrow> cut \<Rightarrow> unit outcome" where
  "check_atom_table atoms c =
     andThen (guard_code (\<not> 64 < length atoms) SchemaError ''E-LIMIT-COUNT'') (\<lambda>_.
     andThen (check_strictly_ascending atoms tl_bit) (\<lambda>_.
     andThen (check_all (\<lambda>(index, atom). guard_code (tl_rank atom = index) SchemaError ''E-LITERAL-TABLE'')
       (enumerate 0 (sort_key literal_order_key atoms))) (\<lambda>_.
       let table = map_of (rev (map (\<lambda>a. ((tl_control_id a, tl_level a), a)) atoms))
       in check_all (\<lambda>atom. case table (tl_control_id atom, tl_level atom) of
            None \<Rightarrow> raises_code SchemaError ''E-LITERAL-TABLE''
          | Some published \<Rightarrow> guard_code (tl_bit published = tl_bit atom \<and> tl_rank published = tl_rank atom)
              SchemaError ''E-LITERAL-TABLE'') (ct_atoms c))))"

definition check_instances :: "(octets \<Rightarrow> octets) \<Rightarrow> rule_instance list \<Rightarrow> unit outcome" where
  "check_instances raw_digest instances =
     andThen (check_strictly_ascending instances ri_instance_id) (\<lambda>_.
       check_all (\<lambda>i. andThen (reject_run_local (ri_instance_id i)) (\<lambda>_.
         andThen (reject_run_local (ri_head i)) (\<lambda>_.
         andThen (instance_verify_id raw_digest i) (\<lambda>same. guard_code same SchemaError ''E-HASH-CERT''))))
       instances)"

definition check_licences :: "(octets \<Rightarrow> octets) \<Rightarrow> (string \<Rightarrow> string) \<Rightarrow> licence list \<Rightarrow> unit outcome" where
  "check_licences raw_digest nform licenses =
     andThen (check_strictly_ascending licenses licence_sort_key) (\<lambda>_.
       check_all (\<lambda>l. andThen (reject_run_local (lic_id l)) (\<lambda>_.
         andThen (licence_verify_id raw_digest nform l) (\<lambda>same. guard_code same SchemaError ''E-HASH-CERT'')))
       licenses)"

text \<open>Dictionaries by instance: a later instance with the same identifier wins.\<close>

definition by_instance_id :: "rule_instance list \<Rightarrow> string \<Rightarrow> rule_instance option" where
  "by_instance_id instances = map_of (rev (map (\<lambda>i. (ri_instance_id i, i)) instances))"

definition check_silent :: "silent_ref list \<Rightarrow> rule_instance list \<Rightarrow> licence list \<Rightarrow> unit outcome" where
  "check_silent silent instances licenses =
     andThen (check_strictly_ascending silent sr_instance_id) (\<lambda>_.
     andThen (guard_code (map sr_instance_id silent =
         sort (map ri_instance_id (filter (\<lambda>i. ri_license_ids i \<noteq> []) instances)))
       SchemaError ''E-LICENSE-UNIMPLIED'') (\<lambda>_.
       check_all (\<lambda>ref. case by_instance_id instances (sr_instance_id ref) of
           None \<Rightarrow> raises KeyError
         | Some inst \<Rightarrow>
             andThen (guard_code (sr_license_ids ref = ri_license_ids inst) SchemaError ''E-LICENSE-UNIMPLIED'') (\<lambda>_.
               check_all (\<lambda>l. guard_code (l \<in> set (map lic_id licenses)) SchemaError ''E-LICENSE-UNIMPLIED'')
                 (sr_license_ids ref)))
         silent))"

text \<open>\<open>_walk_witness\<close>, with the identifiers on the path so far.\<close>

definition check_witness_kind :: "published_kind \<Rightarrow> rule_instance \<Rightarrow> unit outcome" where
  "check_witness_kind kind inst =
     andThen (guard_code (\<not> (kind = WK_GHOST \<and> \<not> ri_ghost inst)) SchemaError ''E-GHOST-COUNT'') (\<lambda>_.
     andThen (guard_code (\<not> (kind = WK_LICENSED \<and>
         (ri_ghost inst \<or> ri_observed inst \<noteq> LICENSED \<or> ri_license_ids inst = [])))
       SchemaError ''E-WITNESS-EVENT'') (\<lambda>_.
       guard_code (\<not> (kind = WK_OBSERVED \<and> ri_observed inst \<noteq> OBSERVED)) SchemaError ''E-WITNESS-EVENT''))"

lemma check_all_cong [fundef_cong]:
  "xs = ys \<Longrightarrow> (\<And>x. x \<in> set ys \<Longrightarrow> f x = g x) \<Longrightarrow> check_all f xs = check_all g ys"
  by (induction xs arbitrary: ys) auto

fun walk_witness :: "rule_instance list \<Rightarrow> string list \<Rightarrow> published_node \<Rightarrow> unit outcome" where
  "walk_witness instances seen (PublishedNode key head kind evidence children) =
     (if key \<in> set seen then raises_code SchemaError ''E-WITNESS-CYCLE''
      else case by_instance_id instances key of
        None \<Rightarrow> raises_code SchemaError ''E-WITNESS-EVENT''
      | Some inst \<Rightarrow>
          andThen (guard_code (ri_head inst = head) SchemaError ''E-WITNESS-EVENT'') (\<lambda>_.
          andThen (check_witness_kind kind inst) (\<lambda>_.
            check_all (walk_witness instances (seen @ [key])) children)))"

definition check_witnesses :: "published_witness list \<Rightarrow> rule_instance list \<Rightarrow> unit outcome" where
  "check_witnesses witnesses instances =
     andThen (check_strictly_ascending witnesses pw_removed_control) (\<lambda>_.
       check_all (\<lambda>w. walk_witness instances [] (pw_tree w)) witnesses)"

definition check_goals_against_residual ::
    "goal_ref list \<Rightarrow> residual \<Rightarrow> string list option \<Rightarrow> unit outcome" where
  "check_goals_against_residual goals residual invariant =
     andThen (check_strictly_ascending goals gr_goal_key) (\<lambda>_.
     let derivable = sort (map gr_goal_key (filter gr_derivable goals));
         severed = sort (map gr_goal_key (filter (\<lambda>g. \<not> gr_derivable g) goals))
     in andThen (guard_code (derivable = rs_goals_derivable residual) SchemaError ''E-GOAL-MEMBER'') (\<lambda>_.
        andThen (guard_code (severed = rs_goals_severed residual) SchemaError ''E-GOAL-MEMBER'') (\<lambda>_.
        andThen (guard_code (\<not> (derivable = [] \<and> invariant = None)) SchemaError ''E-SCHEMA-MISSING'') (\<lambda>_.
        andThen (guard_code (\<not> (derivable \<noteq> [] \<and> invariant \<noteq> None)) SchemaError ''E-SCHEMA-UNKNOWN'') (\<lambda>_.
          case invariant of
            None \<Rightarrow> Inr ()
          | Some u \<Rightarrow>
              andThen (check_strictly_ascending u id) (\<lambda>_.
              andThen (check_all reject_run_local u) (\<lambda>_.
                check_all (\<lambda>goal. guard_code (goal \<notin> set u) SchemaError ''E-GOAL-MEMBER'') severed)))))))"

definition check_psi_hit :: "published_psi \<Rightarrow> cut \<Rightarrow> unit outcome" where
  "check_psi_hit psi c =
     check_all (\<lambda>corridor. guard_code (cor_mask corridor AND ct_mask c \<noteq> 0) SchemaError ''E-PSI-HIT'')
       (pp_corridors psi)"

definition check_counts :: "rule_instance list \<Rightarrow> int \<Rightarrow> int \<Rightarrow> unit outcome" where
  "check_counts instances observed_event_count ghost_count =
     andThen (u32 observed_event_count) (\<lambda>_.
     andThen (u32 ghost_count) (\<lambda>_.
     let events = set (concat (map (\<lambda>i. map er_event_id (ri_evidence i)) instances));
         ghosts = set (map ri_head (filter ri_ghost instances))
     in andThen (guard_code (observed_event_count = int (card events)) SchemaError ''E-GHOST-COUNT'') (\<lambda>_.
          guard_code (ghost_count = int (card ghosts)) SchemaError ''E-GHOST-COUNT'')))"

definition PREMIUM_SUPPRESSED_REASONS :: "string list" where
  "PREMIUM_SUPPRESSED_REASONS =
     [''corridor_cap'', ''er_ambiguous'', ''grounding_capped'', ''horizon_truncated'', ''solver_budget'']"

definition check_premium_preconditions ::
    "published_premium option \<Rightarrow> string option \<Rightarrow> published_psi \<Rightarrow> bool \<Rightarrow> budgets \<Rightarrow> string list \<Rightarrow> unit outcome" where
  "check_premium_preconditions premium reason psi psi_min_complete budgets flags =
     andThen (guard_code ((premium = None) \<noteq> (reason = None)) SchemaError ''E-FLAG-DERIVED'') (\<lambda>_.
       case reason of
         Some r \<Rightarrow> guard_code (r \<in> set PREMIUM_SUPPRESSED_REASONS) SchemaError ''E-SCHEMA-UNKNOWN''
       | None \<Rightarrow> guard_code (pp_complete psi \<and> psi_min_complete \<and> ''grounding_capped'' \<notin> set flags \<and>
             ''corridor_cap'' \<notin> set flags \<and> \<not> bg_budget_exhausted budgets) SchemaError ''E-FLAG-DERIVED'')"

section \<open>Body assembly\<close>

definition CERT_SCHEMA_V :: string where "CERT_SCHEMA_V = ''1.1''"
definition CERT_MIN_CHECKER :: string where "CERT_MIN_CHECKER = ''1.1''"
definition CERT_PROFILE :: string where "CERT_PROFILE = ''eclipse-cert''"
definition CANON_HASH_ALGORITHM :: string where "CANON_HASH_ALGORITHM = ''blake2b-256''"

definition CANON_HASH_NOTE :: string where
  "CANON_HASH_NOTE =
     ''The specification names blake3. This Python reference implementation computes '' @
     ''blake2b-256 because the standard library has no blake3 and no package may be '' @
     ''installed. Digests here are not comparable with specified digests.''"

definition BODY_MEMBERS :: "string list" where
  "BODY_MEMBERS = [''atoms'', ''budgets'', ''cut'', ''cut_delta_canonical'', ''ghost_count'', ''goals'',
     ''inputs'', ''instances'', ''invariant'', ''licenses'', ''observed_event_count'', ''premium'',
     ''premium_suppressed_reason'', ''psi'', ''residual'', ''schema'', ''scope'', ''silent'',
     ''verdict'', ''witnesses'']"

definition OPTIONAL_BODY_MEMBERS :: "string list" where
  "OPTIONAL_BODY_MEMBERS = [''invariant'', ''premium'', ''premium_suppressed_reason'']"

text \<open>The keyword arguments of \<open>build_body\<close>.\<close>

record body_parts =
  bp_scope :: scope
  bp_inputs :: cert_inputs
  bp_verdict :: verdict
  bp_atoms :: "threshold_literal list"
  bp_cut :: cut
  bp_goals :: "goal_ref list"
  bp_invariant :: "string list option"
  bp_instances :: "rule_instance list"
  bp_licenses :: "licence list"
  bp_silent :: "silent_ref list"
  bp_witnesses :: "published_witness list"
  bp_psi :: published_psi
  bp_premium :: "published_premium option"
  bp_reason :: "string option"
  bp_cut_delta_canonical :: "string list"
  bp_residual :: residual
  bp_budgets :: budgets
  bp_observed_event_count :: int
  bp_ghost_count :: int
  bp_psi_min_complete :: bool

definition check_body :: "(octets \<Rightarrow> octets) \<Rightarrow> (string \<Rightarrow> string) \<Rightarrow> body_parts \<Rightarrow> unit outcome" where
  "check_body raw_digest nform p =
     andThen (check_scope_binds_inputs (bp_scope p) (bp_inputs p)) (\<lambda>_.
     andThen (check_atom_table (bp_atoms p) (bp_cut p)) (\<lambda>_.
     andThen (check_instances raw_digest (bp_instances p)) (\<lambda>_.
     andThen (check_licences raw_digest nform (bp_licenses p)) (\<lambda>_.
     andThen (check_silent (bp_silent p) (bp_instances p) (bp_licenses p)) (\<lambda>_.
     andThen (check_witnesses (bp_witnesses p) (bp_instances p)) (\<lambda>_.
     andThen (check_goals_against_residual (bp_goals p) (bp_residual p) (bp_invariant p)) (\<lambda>_.
     andThen (check_psi_hit (bp_psi p) (bp_cut p)) (\<lambda>_.
     andThen (check_counts (bp_instances p) (bp_observed_event_count p) (bp_ghost_count p)) (\<lambda>_.
     andThen (check_premium_preconditions (bp_premium p) (bp_reason p) (bp_psi p) (bp_psi_min_complete p)
       (bp_budgets p) (vd_flags (bp_verdict p))) (\<lambda>_.
     andThen (instances_hash raw_digest nform (bp_instances p)) (\<lambda>h.
     andThen (guard_code (in_instances_hash (bp_inputs p) = h) SchemaError ''E-HASH-CERT'') (\<lambda>_.
       check_published_ids (bp_cut_delta_canonical p)))))))))))))"

definition schema_member :: json where
  "schema_member = JObj [(''hash_algorithm'', JStr CANON_HASH_ALGORITHM),
     (''hash_substitution_note'', JStr CANON_HASH_NOTE), (''min_checker'', JStr CERT_MIN_CHECKER),
     (''profile'', JStr CERT_PROFILE), (''v'', JStr CERT_SCHEMA_V)]"

definition body_members :: "body_parts \<Rightarrow> (string \<times> json) list outcome" where
  "body_members p =
     andThen (inputs_member (bp_inputs p)) (\<lambda>inputs.
     andThen (mapM instance_member (bp_instances p)) (\<lambda>instances.
     andThen (psi_member (bp_psi p)) (\<lambda>psi.
       Inr ([(''atoms'', atoms_member (bp_atoms p)), (''budgets'', budgets_member (bp_budgets p)),
         (''cut'', cut_member (bp_cut p)), (''cut_delta_canonical'', texts (bp_cut_delta_canonical p)),
         (''ghost_count'', JInt (bp_ghost_count p)), (''goals'', JArr (map goal_member (bp_goals p))),
         (''inputs'', inputs), (''instances'', JArr instances),
         (''licenses'', JArr (map licence_member (bp_licenses p))),
         (''observed_event_count'', JInt (bp_observed_event_count p)), (''psi'', psi),
         (''residual'', residual_member (bp_residual p)), (''schema'', schema_member),
         (''scope'', scope_member (bp_scope p)), (''silent'', JArr (map silent_member (bp_silent p))),
         (''verdict'', verdict_member (bp_verdict p)),
         (''witnesses'', JArr (map witness_member (bp_witnesses p)))] @
         (case bp_invariant p of None \<Rightarrow> [] | Some u \<Rightarrow> [(''invariant'', JObj [(''u'', texts u)])]) @
         (case bp_premium p of None \<Rightarrow> [] | Some premium \<Rightarrow> [(''premium'', premium_member premium)]) @
         (case bp_reason p of None \<Rightarrow> [] | Some r \<Rightarrow> [(''premium_suppressed_reason'', JStr r)])))))"

definition build_body ::
    "(octets \<Rightarrow> octets) \<Rightarrow> (string \<Rightarrow> string) \<Rightarrow> body_parts \<Rightarrow> (string \<times> json) list outcome" where
  "build_body raw_digest nform p =
     andThen (check_body raw_digest nform p) (\<lambda>_.
     andThen (body_members p) (\<lambda>body.
     andThen (guard_code (list_all (\<lambda>k. k \<in> set BODY_MEMBERS) (map fst body)) SchemaError ''E-SCHEMA-UNKNOWN'') (\<lambda>_.
     andThen (guard_code (list_all (\<lambda>m. m \<in> set OPTIONAL_BODY_MEMBERS \<or> m \<in> set (map fst body)) BODY_MEMBERS)
       SchemaError ''E-SCHEMA-MISSING'') (\<lambda>_.
       Inr body))))"

section \<open>Serialisation\<close>

definition NULL_MEMBER_PATH :: "string list" where
  "NULL_MEMBER_PATH = [''body'', ''verdict'', ''witness_class'']"

definition CERT_MAX_DEPTH :: nat where "CERT_MAX_DEPTH = 8"

definition CERT_FILE_MAGIC :: octets where "CERT_FILE_MAGIC = ''{'' @ quoted ''body'' @ '':{''"

text \<open>\<open>del d[k]\<close> and \<open>d[k] = v\<close> on a dictionary that has the key.\<close>

fun del_member :: "string \<Rightarrow> (string \<times> json) list \<Rightarrow> (string \<times> json) list" where
  "del_member k [] = []"
| "del_member k ((j, v) # ms) = (if j = k then ms else (j, v) # del_member k ms)"

fun set_member :: "string \<Rightarrow> json \<Rightarrow> (string \<times> json) list \<Rightarrow> (string \<times> json) list" where
  "set_member k w [] = []"
| "set_member k w ((j, v) # ms) = (if j = k then (j, w) # ms else (j, v) # set_member k w ms)"

text \<open>The copy of the document from which the one permitted null is lifted out. A \<open>verdict\<close> that is
  no dictionary fails in the tests for its member with the error that Python gives for it.\<close>

definition lift_out_null :: "(string \<times> json) list \<Rightarrow> (string \<times> json) list outcome" where
  "lift_out_null body =
     (case map_of body ''verdict'' of
        None \<Rightarrow> raises KeyError
      | Some (JObj verdict) \<Rightarrow>
          (case map_of verdict ''witness_class'' of
             None \<Rightarrow> raises_code SchemaError ''E-SCHEMA-MISSING''
           | Some JNull \<Rightarrow> Inr (set_member ''verdict'' (JObj (del_member ''witness_class'' verdict)) body)
           | Some _ \<Rightarrow> Inr body)
      | Some (JArr items) \<Rightarrow>
          if JStr ''witness_class'' \<in> set items then raises TypeError
          else raises_code SchemaError ''E-SCHEMA-MISSING''
      | Some (JStr s) \<Rightarrow>
          if sublist ''witness_class'' s then raises TypeError
          else raises_code SchemaError ''E-SCHEMA-MISSING''
      | Some _ \<Rightarrow> raises TypeError)"

fun check_depth :: "nat \<Rightarrow> json \<Rightarrow> unit outcome"
  and check_depth_members :: "nat \<Rightarrow> (string \<times> json) list \<Rightarrow> unit outcome"
  and check_depth_items :: "nat \<Rightarrow> json list \<Rightarrow> unit outcome" where
  "check_depth depth (JObj members) =
     (if CERT_MAX_DEPTH < depth then raises_code SchemaError ''E-LIMIT-DEPTH''
      else check_depth_members (depth + 1) members)"
| "check_depth depth (JArr items) =
     (if CERT_MAX_DEPTH < depth then raises_code SchemaError ''E-LIMIT-DEPTH''
      else check_depth_items (depth + 1) items)"
| "check_depth depth _ = Inr ()"
| "check_depth_members depth [] = Inr ()"
| "check_depth_members depth ((key, value) # members) =
     andThen (check_depth depth value) (\<lambda>_. check_depth_members depth members)"
| "check_depth_items depth [] = Inr ()"
| "check_depth_items depth (x # items) =
     andThen (check_depth depth x) (\<lambda>_. check_depth_items depth items)"

definition check_plain_text :: "(string \<Rightarrow> string) \<Rightarrow> string \<Rightarrow> unit outcome" where
  "check_plain_text nform value =
     andThen (guard_code (nform value = value) SchemaError ''E-CANON-NFC'') (\<lambda>_.
       check_all (\<lambda>ch. guard_code (\<not> ((of_char ch :: nat) < 32 \<or> (of_char ch :: nat) = 127))
         SchemaError ''E-CANON-NFC'') value)"

fun check_text :: "(string \<Rightarrow> string) \<Rightarrow> json \<Rightarrow> unit outcome"
  and check_text_members :: "(string \<Rightarrow> string) \<Rightarrow> (string \<times> json) list \<Rightarrow> unit outcome"
  and check_text_items :: "(string \<Rightarrow> string) \<Rightarrow> json list \<Rightarrow> unit outcome" where
  "check_text nform (JStr s) = check_plain_text nform s"
| "check_text nform (JObj members) = check_text_members nform members"
| "check_text nform (JArr items) = check_text_items nform items"
| "check_text nform _ = Inr ()"
| "check_text_members nform [] = Inr ()"
| "check_text_members nform ((key, value) # members) =
     andThen (check_plain_text nform key) (\<lambda>_.
     andThen (check_text nform value) (\<lambda>_. check_text_members nform members))"
| "check_text_items nform [] = Inr ()"
| "check_text_items nform (x # items) =
     andThen (check_text nform x) (\<lambda>_. check_text_items nform items)"

definition certificate_document :: "(string \<times> json) list \<Rightarrow> string \<Rightarrow> json" where
  "certificate_document body h = JObj [(''body'', JObj body), (''cert_hash'', JStr h)]"

definition validate_certificate_document ::
    "(string \<Rightarrow> string) \<Rightarrow> (string \<times> json) list \<Rightarrow> string \<Rightarrow> unit outcome" where
  "validate_certificate_document nform body h =
     andThen (lift_out_null body) (\<lambda>stripped.
     andThen (validate_scf (certificate_document stripped h)) (\<lambda>_.
     andThen (check_depth 1 (certificate_document body h)) (\<lambda>_.
       check_text nform (certificate_document body h))))"

text \<open>\<open>text.encode("utf-8")\<close> raises a \<open>UnicodeEncodeError\<close>, a \<open>ValueError\<close>, on a lone surrogate.\<close>

definition encode_text :: "string \<Rightarrow> octets outcome" where
  "encode_text text = (if utf8_ok text then Inr text else raises ValueError)"

definition body_octets :: "(string \<times> json) list \<Rightarrow> octets outcome" where
  "body_octets body = encode_text (json_text (JObj body))"

definition certificate_bytes ::
    "(octets \<Rightarrow> octets) \<Rightarrow> (string \<Rightarrow> string) \<Rightarrow> (string \<times> json) list \<Rightarrow> octets outcome" where
  "certificate_bytes raw_digest nform body =
     andThen (body_octets body) (\<lambda>preimage.
     andThen (hash_ref raw_digest ''cert'' preimage) (\<lambda>h.
     andThen (validate_certificate_document nform body h) (\<lambda>_.
     andThen (encode_text (json_text (certificate_document body h) @ [CHR 0x0A])) (\<lambda>octets.
     andThen (guard_code (prefix CERT_FILE_MAGIC octets) SchemaError ''E-CANON-FORM'') (\<lambda>_.
       Inr octets)))))"

record certificate_artifact =
  ca_octets :: octets
  ca_cert_hash :: string
  ca_short :: string
  ca_long :: string

definition emit ::
    "(octets \<Rightarrow> octets) \<Rightarrow> (string \<Rightarrow> string) \<Rightarrow> (string \<times> json) list \<Rightarrow> verdict \<Rightarrow> scope
     \<Rightarrow> certificate_artifact outcome" where
  "emit raw_digest nform body v s =
     andThen (certificate_bytes raw_digest nform body) (\<lambda>octets.
     andThen (body_octets body) (\<lambda>preimage.
     andThen (hash_ref raw_digest ''cert'' preimage) (\<lambda>h.
       Inr \<lparr>ca_octets = octets, ca_cert_hash = h, ca_short = render_short v s, ca_long = render_long v s\<rparr>)))"

end
