(* ===== verification/Emission.thy ===== *)
theory Emission
  imports CertificateBody Acceptance PrintedTexts "HOL-Library.Multiset"
begin

text \<open>
  The emitter \<^theory_text>\<open>CertificateBody\<close> and the checker \<^theory_text>\<open>Judgement\<close>, written apart from each other,
  put together: what the one publishes, the other reads back. The witness trees are flat trees
  in the checker's sense and can be told apart; the octets of every certificate pass the
  checker's reading, O0 and O1; a body that \<open>build_body\<close> returns passes O2 and O3; a verdict
  that \<open>Verdict.build\<close> returned over the published trees passes O14.
\<close>

section \<open>The published tree\<close>

text \<open>The nodes in publication order, each with the indices of its children.\<close>

fun placed :: "nat \<Rightarrow> published_node \<Rightarrow> (published_node \<times> nat list) list"
  and placed_children :: "nat \<Rightarrow> published_node list \<Rightarrow> nat list \<times> (published_node \<times> nat list) list" where
  "placed index (PublishedNode iid head kind evidence children) =
     (case placed_children (Suc index) children of (indices, appended) \<Rightarrow>
        (PublishedNode iid head kind evidence children, indices) # appended)"
| "placed_children index [] = ([], [])"
| "placed_children index (child # children) =
     (let nodes = placed index child
      in case placed_children (index + length nodes) children of (indices, appended) \<Rightarrow>
           (index # indices, nodes @ appended))"

lemma place_placed:
  "place index t = map (\<lambda>(n, indices). node_member n indices) (placed index t)"
  "place_children index ts =
     (fst (placed_children index ts), map (\<lambda>(n, indices). node_member n indices) (snd (placed_children index ts)))"
  by (induction index t and index ts rule: placed_placed_children.induct)
     (simp_all add: Let_def split: prod.splits)

definition kids :: "(published_node \<times> nat list) list \<Rightarrow> nat list" where
  "kids nodes = concat (map snd nodes)"

lemma kids_simps [simp]:
  "kids [] = []" "kids (n # ns) = snd n @ kids ns" "kids (ns @ ms) = kids ns @ kids ms"
  by (simp_all add: kids_def)

text \<open>Every index after the first is the child of exactly one node, and of an earlier one.\<close>

lemma placed_kids:
  "mset (kids (placed index t)) = mset [Suc index..<index + length (placed index t)]"
  "mset (fst (placed_children index ts) @ kids (snd (placed_children index ts))) =
     mset [index..<index + length (snd (placed_children index ts))]"
proof (induction index t and index ts rule: placed_placed_children.induct)
  case (1 index iid head kind evidence children)
  obtain js ns where "placed_children (Suc index) children = (js, ns)" by (rule prod.exhaust)
  with 1 show ?case by (simp del: upt_Suc)
next
  case (3 index child children)
  obtain js ns where ic: "placed_children (index + length (placed index child)) children = (js, ns)"
    by (rule prod.exhaust)
  define m where "m = index + length (placed index child)"
  have "0 < length (placed index child)" by (cases child) (simp split: prod.splits)
  then have head: "[index..<m] = index # [Suc index..<m]" by (simp add: m_def upt_conv_Cons)
  have split: "[index..<m + j] = [index..<m] @ [m..<m + j]" for j
    by (rule upt_add_eq_append) (simp add: m_def)
  have later: "mset js + mset (kids ns) = mset [m..<m + length ns]"
    using 3(2) [OF refl] ic by (simp add: m_def)
  have first: "mset (kids (placed index child)) = mset [Suc index..<m]"
    using 3(1) by (simp add: m_def)
  have "mset (fst (placed_children index (child # children)) @ kids (snd (placed_children index (child # children)))) =
      add_mset index (mset (kids (placed index child))) + (mset js + mset (kids ns))"
    using ic by (simp add: Let_def)
  also have "\<dots> = mset [index..<m + length ns]"
    unfolding later first split head by simp
  also have "m + length ns = index + length (snd (placed_children index (child # children)))"
    using ic by (simp add: m_def Let_def)
  finally show ?case .
qed simp

lemma placed_later:
  "k < length (placed index t) \<Longrightarrow> c \<in> set (snd (placed index t ! k)) \<Longrightarrow> index + k < c"
  "k < length (snd (placed_children index ts)) \<Longrightarrow> c \<in> set (snd (snd (placed_children index ts) ! k)) \<Longrightarrow> index + k < c"
proof (induction index t and index ts arbitrary: k and k rule: placed_placed_children.induct)
  case (1 index iid head kind evidence children)
  obtain js ns where ic: "placed_children (Suc index) children = (js, ns)" by (rule prod.exhaust)
  have "set js \<subseteq> set [Suc index..<Suc index + length ns]"
    using placed_kids(2) [where index = "Suc index" and ts = children] unfolding ic fst_conv snd_conv
    by (metis Un_upper1 set_append set_mset_mset)
  then have "c \<in> set js \<Longrightarrow> index < c" by (force simp del: upt_Suc)
  then show ?case using 1 ic by (cases k) auto
next
  case (3 index child children)
  obtain js ns where ic: "placed_children (index + length (placed index child)) children = (js, ns)"
    by (rule prod.exhaust)
  show ?case
  proof (cases "k < length (placed index child)")
    case True
    with 3 ic show ?thesis by (simp add: Let_def nth_append)
  next
    case False
    with 3(2) [OF refl, of "k - length (placed index child)"] 3(3,4) ic show ?thesis
      by (simp add: Let_def nth_append)
  qed
qed simp

text \<open>The checker's count of parents over such a list.\<close>

lemma flat_child_int:
  "index < c \<Longrightarrow> c < n \<Longrightarrow>
   flat_child n index (JInt (int c)) parents = Inr (parents[c := parents ! c + 1])"
  by (simp add: flat_child_def)

lemma flat_node_member:
  "flat_node n (index, node_member t js) parents =
     fold_check (flat_child n index) (map (\<lambda>i. JInt (int i)) js) parents"
  by (simp add: flat_node_def member_iter_def member_def node_member_def)

lemma flat_children:
  "(\<forall>c \<in> set cs. index < c \<and> c < n) \<Longrightarrow> length parents = n \<Longrightarrow>
   \<exists>parents'. fold_check (flat_child n index) (map (\<lambda>i. JInt (int i)) cs) parents = Inr parents' \<and>
     length parents' = n \<and> (\<forall>i < n. parents' ! i = parents ! i + count_list cs i)"
proof (induction cs arbitrary: parents)
  case (Cons c cs)
  have c: "index < c" "c < n" using Cons.prems by auto
  obtain parents' where
    "fold_check (flat_child n index) (map (\<lambda>i. JInt (int i)) cs) (parents[c := parents ! c + 1]) = Inr parents'"
    "length parents' = n" "\<forall>i < n. parents' ! i = parents[c := parents ! c + 1] ! i + count_list cs i"
    using Cons.IH [of "parents[c := parents ! c + 1]"] Cons.prems by auto
  with c Cons.prems show ?case
    by (intro exI [of _ parents']) (auto simp: flat_child_int nth_list_update)
qed simp

lemma flat_nodes:
  "(\<forall>k < length nodes. \<forall>c \<in> set (snd (nodes ! k)). index + k < c \<and> c < n) \<Longrightarrow> length parents = n \<Longrightarrow>
   \<exists>parents'. fold_check (flat_node n) (enumerate index (map (\<lambda>(t, js). node_member t js) nodes)) parents = Inr parents' \<and>
     length parents' = n \<and> (\<forall>i < n. parents' ! i = parents ! i + count_list (kids nodes) i)"
proof (induction nodes arbitrary: index parents)
  case (Cons node nodes)
  obtain t js where node: "node = (t, js)" by (rule prod.exhaust)
  have "\<forall>c \<in> set js. index < c \<and> c < n" using Cons.prems(1) node by force
  from flat_children [OF this Cons.prems(2)] obtain counted where counted:
    "fold_check (flat_child n index) (map (\<lambda>i. JInt (int i)) js) parents = Inr counted"
    "length counted = n" "\<forall>i < n. counted ! i = parents ! i + count_list js i" by blast
  have "\<forall>k < length nodes. \<forall>c \<in> set (snd (nodes ! k)). Suc index + k < c \<and> c < n"
    using Cons.prems(1) by fastforce
  from Cons.IH [OF this counted(2)] obtain parents' where
    "fold_check (flat_node n) (enumerate (Suc index) (map (\<lambda>(t, js). node_member t js) nodes)) counted = Inr parents'"
    "length parents' = n" "\<forall>i < n. parents' ! i = counted ! i + count_list (kids nodes) i" by blast
  with counted show ?case
    by (intro exI [of _ parents']) (simp add: node flat_node_member)
qed simp

lemma published_tree_flat: "check_flat_tree (JArr (flatten tree)) = Inr ()"
proof -
  define nodes where "nodes = placed 0 tree"
  let ?n = "length nodes"
  have pos: "0 < ?n" unfolding nodes_def by (cases tree) (simp split: prod.splits)
  have counts: "mset (kids nodes) = mset [1..<?n]"
    using placed_kids(1) [of 0 tree] by (simp add: nodes_def)
  then have below: "set (kids nodes) = {1..<?n}" by (metis mset_eq_setD set_upt)
  have "\<forall>k < ?n. \<forall>c \<in> set (snd (nodes ! k)). 0 + k < c \<and> c < ?n"
  proof (intro allI impI ballI conjI)
    fix k c assume kc: "k < ?n" "c \<in> set (snd (nodes ! k))"
    then show "0 + k < c" using placed_later(1) [of k 0 tree c] by (simp add: nodes_def)
    have "c \<in> set (kids nodes)" using kc nth_mem [of k nodes] unfolding kids_def by auto
    then show "c < ?n" unfolding below by simp
  qed
  from flat_nodes [OF this, of "replicate ?n 0"] obtain parents where parents:
    "fold_check (flat_node ?n) (enumerate 0 (map (\<lambda>(t, js). node_member t js) nodes)) (replicate ?n 0) = Inr parents"
    "\<forall>i < ?n. parents ! i = count_list (kids nodes) i"
    by auto
  have one: "count_list (kids nodes) i = (if 1 \<le> i \<and> i < ?n then 1 else 0)" for i
    using distinct_count_atmost_1 [of "[1..<?n]"] counts by (simp add: count_mset [symmetric])
  have "check_all (\<lambda>index. need (parents ! index = 1) ''E-WITNESS-CYCLE'') [1..<?n] = Inr ()"
    using parents(2) one by (auto simp: check_all_eq_Inr)
  moreover have "parents ! 0 = 0" using parents(2) one pos by simp
  ultimately show ?thesis
    unfolding check_flat_tree_def flatten_def place_placed nodes_def [symmetric]
    using parents(1) pos by (simp add: need_def)
qed

section \<open>Reading the tree back\<close>

lemma node_member_eq:
  "node_member n js = node_member m ks \<longleftrightarrow>
     pn_instance_id n = pn_instance_id m \<and> pn_head n = pn_head m \<and> pn_kind n = pn_kind m \<and>
     pn_evidence n = pn_evidence m \<and> js = ks"
proof -
  have "kind_text k = kind_text l \<longleftrightarrow> k = l" for k l by (cases k; cases l) simp_all
  moreover have "map (\<lambda>i. JInt (int i)) js = map (\<lambda>i. JInt (int i)) ks \<longleftrightarrow> js = ks"
    by (rule inj_map_eq_map) (simp add: inj_on_def)
  moreover have "texts vs = texts ws \<longleftrightarrow> vs = ws" for vs ws
    unfolding texts_def by (simp add: inj_map_eq_map inj_on_def)
  ultimately show ?thesis by (auto simp: node_member_def)
qed

lemma place_children_length: "length (fst (place_children index ts)) = length ts"
proof (induction ts arbitrary: index)
  case (Cons t ts)
  obtain js ns where "place_children (index + length (place index t)) ts = (js, ns)" by (rule prod.exhaust)
  with Cons [of "index + length (place index t)"] show ?case by (simp add: Let_def)
qed simp

lemma place_reads_back:
  "place index t @ r = place index t' @ r' \<Longrightarrow> t = t' \<and> r = r'"
  "snd (place_children index ts) @ r = snd (place_children index ts') @ r' \<Longrightarrow> length ts = length ts'
     \<Longrightarrow> ts = ts' \<and> r = r'"
proof (induction index t and index ts arbitrary: t' r r' and ts' r r' rule: place_place_children.induct)
  case (1 index iid head kind evidence children)
  obtain iid' head' kind' evidence' children' where t': "t' = PublishedNode iid' head' kind' evidence' children'"
    by (rule published_node.exhaust)
  obtain js ns where ic: "place_children (Suc index) children = (js, ns)" by (rule prod.exhaust)
  obtain js' ns' where ic': "place_children (Suc index) children' = (js', ns')" by (rule prod.exhaust)
  have same: "iid = iid'" "head = head'" "kind = kind'" "evidence = evidence'" "js = js'"
      "ns @ r = ns' @ r'"
    using "1.prems" by (simp_all add: t' ic ic' node_member_eq)
  have "length children = length children'"
    using place_children_length [of "Suc index" children] place_children_length [of "Suc index" children']
      same(5) by (simp add: ic ic')
  with "1.IH" [of r children' r'] same(6) have "children = children' \<and> r = r'"
    unfolding ic ic' snd_conv by blast
  with same(1-4) show ?case by (simp add: t')
next
  case (2 index)
  then show ?case by simp
next
  case (3 index child children)
  obtain child' children' where ts': "ts' = child' # children'"
    using "3.prems"(2) by (cases ts') simp_all
  have split: "snd (place_children index (c # cs)) = place index c @ snd (place_children (index + length (place index c)) cs)"
    for c cs by (cases "place_children (index + length (place index c)) cs") (simp add: Let_def)
  have parts: "place index child @ snd (place_children (index + length (place index child)) children) @ r =
      place index child' @ snd (place_children (index + length (place index child')) children') @ r'"
    using "3.prems"(1) unfolding ts' split append_assoc .
  note child = "3.IH"(1) [OF parts]
  have same_length: "length children = length children'" using "3.prems"(2) by (simp add: ts')
  have "snd (place_children (index + length (place index child)) children) @ r =
      snd (place_children (index + length (place index child)) children') @ r'"
    using child by fastforce
  from "3.IH"(2) [OF refl this same_length] child show ?case by (simp add: ts')
qed

lemma published_tree_faithful: "flatten t = flatten t' \<longleftrightarrow> t = t'"
  using place_reads_back(1) [of 0 t "[]" t' "[]"] by (auto simp: flatten_def)

section \<open>Silent steps\<close>

lemma contains_silent_placed:
  "contains_silent t \<longleftrightarrow> (\<exists>n \<in> set (placed index t). pn_kind (fst n) \<in> set SILENT_WITNESS_KINDS)"
  "list_ex contains_silent ts \<longleftrightarrow>
     (\<exists>n \<in> set (snd (placed_children index ts)). pn_kind (fst n) \<in> set SILENT_WITNESS_KINDS)"
proof (induction index t and index ts rule: placed_placed_children.induct)
  case (1 index iid head kind evidence children)
  obtain js ns where "placed_children (Suc index) children = (js, ns)" by (rule prod.exhaust)
  with 1 show ?case by simp
next
  case (3 index child children)
  obtain js ns where "placed_children (index + length (placed index child)) children = (js, ns)"
    by (rule prod.exhaust)
  with 3(1) 3(2) [OF refl] show ?case by (auto simp: Let_def)
qed simp

lemma any_of_total: "(\<And>x. x \<in> set xs \<Longrightarrow> f x = Inr (g x)) \<Longrightarrow> any_of f xs = Inr (list_ex g xs)"
  by (induction xs) auto

lemma silent_kind_of_member:
  "andThen (item (node_member n js) ''kind'') (is_one_of SILENT_KINDS) =
     Inr (pn_kind n \<in> set SILENT_WITNESS_KINDS)"
  by (cases "pn_kind n")
     (simp_all add: node_member_def is_one_of_def hashed_def SILENT_KINDS_def SILENT_WITNESS_KINDS_def)

lemma tree_has_silent_published:
  "tree_has_silent (map witness_member ws) = Inr (list_ex (\<lambda>w. contains_silent (pw_tree w)) ws)"
proof -
  have tree: "any_of (\<lambda>node. andThen (item node ''kind'') (is_one_of SILENT_KINDS)) (flatten t) = Inr (contains_silent t)" for t
  proof -
    have "any_of (\<lambda>node. andThen (item node ''kind'') (is_one_of SILENT_KINDS)) (map (\<lambda>(n, js). node_member n js) ns) =
        Inr (list_ex (\<lambda>n. pn_kind (fst n) \<in> set SILENT_WITNESS_KINDS) ns)" for ns
      by (induction ns) (auto simp: silent_kind_of_member)
    then show ?thesis
      by (simp add: flatten_def place_placed contains_silent_placed(1) [of t 0] list_ex_iff)
  qed
  have "any_of (\<lambda>w. andThen (the_member iter w ''nodes'') (\<lambda>nodes.
      any_of (\<lambda>node. andThen (item node ''kind'') (is_one_of SILENT_KINDS)) nodes)) (map witness_member ws) =
      Inr (list_ex (\<lambda>w. contains_silent (pw_tree w)) ws)"
    by (induction ws) (auto simp: witness_member_def the_member_def tree)
  then show ?thesis unfolding tree_has_silent_def .
qed

section \<open>The encoding law on both sides\<close>

lemma walk_members_all:
  "walk_members env ms path depth = Inr () \<longleftrightarrow>
     (\<forall>(k, v) \<in> set ms. walk_value env v (path @ [k]) depth = Inr ())"
  by (induction ms) (auto simp: result_simps)

lemma plain_text_walk:
  "check_plain_text (env_nform env) s = Inr () \<Longrightarrow> walk_text env s = Inr ()"
  by (auto simp: check_plain_text_def walk_text_def check_all_eq_Inr result_simps list_all_iff not_less)

text \<open>What the emitter admits without a null, the walk of the checker admits at any path.\<close>

lemma admitted_walks:
  "validate_scf v = Inr () \<Longrightarrow> check_depth depth v = Inr () \<Longrightarrow> check_text (env_nform env) v = Inr () \<Longrightarrow>
     walk_value env v path depth = Inr ()"
  "validate_members ms = Inr () \<Longrightarrow> check_depth_members depth ms = Inr () \<Longrightarrow>
     check_text_members (env_nform env) ms = Inr () \<Longrightarrow> walk_members env ms path depth = Inr ()"
  "validate_items vs = Inr () \<Longrightarrow> check_depth_items depth vs = Inr () \<Longrightarrow>
     check_text_items (env_nform env) vs = Inr () \<Longrightarrow> walk_items env index vs path depth = Inr ()"
proof (induction v and ms and vs arbitrary: path depth and path depth and path depth index
    rule: validate_scf_validate_members_validate_items.induct)
qed (auto simp: result_simps plain_text_walk CERT_MAX_DEPTH_def MAX_DEPTH_def split: if_splits)

lemma validate_members_all:
  "validate_members ms = Inr () \<longleftrightarrow> (\<forall>(k, v) \<in> set ms. is_scf_key k \<and> validate_scf v = Inr ())"
  by (induction ms) (auto simp: result_simps split: if_splits)

lemma check_depth_members_all:
  "check_depth_members depth ms = Inr () \<longleftrightarrow> (\<forall>(k, v) \<in> set ms. check_depth depth v = Inr ())"
  by (induction ms) (auto simp: result_simps)

lemma check_text_members_all:
  "check_text_members nform ms = Inr () \<longleftrightarrow>
     (\<forall>(k, v) \<in> set ms. check_plain_text nform k = Inr () \<and> check_text nform v = Inr ())"
  by (induction ms) (auto simp: result_simps)

text \<open>The members a lookup leaves alone.\<close>

lemma lookup_split:
  assumes "map_of ms k = Some v"
  obtains as bs where "ms = as @ (k, v) # bs" "set_member k w ms = as @ (k, w) # bs"
    "del_member k ms = as @ bs"
proof -
  have "\<exists>as bs. ms = as @ (k, v) # bs \<and> set_member k w ms = as @ (k, w) # bs \<and> del_member k ms = as @ bs"
    using assms
  proof (induction ms)
    case (Cons m ms)
    obtain j u where m: "m = (j, u)" by (rule prod.exhaust)
    show ?case
    proof (cases "j = k")
      case True
      with Cons.prems m show ?thesis by (intro exI [of _ "[]"] exI [of _ ms]) simp
    next
      case False
      with Cons m obtain as bs where
        "ms = as @ (k, v) # bs" "set_member k w ms = as @ (k, w) # bs" "del_member k ms = as @ bs"
        by auto
      with m False show ?thesis by (intro exI [of _ "m # as"] exI [of _ bs]) simp
    qed
  qed simp
  with that show ?thesis by blast
qed

text \<open>What \<open>lift_out_null\<close> returns: the body, or the body without the null of its verdict.\<close>

lemma lift_out_null_cases:
  assumes "lift_out_null body = Inr stripped"
  obtains "stripped = body"
  | as bs cs ds where "body = as @ (''verdict'', JObj (cs @ (''witness_class'', JNull) # ds)) # bs"
      "stripped = as @ (''verdict'', JObj (cs @ ds)) # bs"
proof (cases "stripped = body")
  case False
  from assms False obtain verdict where v: "map_of body ''verdict'' = Some (JObj verdict)"
      "map_of verdict ''witness_class'' = Some JNull"
      "stripped = set_member ''verdict'' (JObj (del_member ''witness_class'' verdict)) body"
    unfolding lift_out_null_def by (auto split: option.splits json.splits if_splits)
  from lookup_split [OF v(2)] obtain cs ds where w:
    "verdict = cs @ (''witness_class'', JNull) # ds" "del_member ''witness_class'' verdict = cs @ ds"
    by blast
  from lookup_split [OF v(1)] obtain as bs where
    "body = as @ (''verdict'', JObj verdict) # bs"
    "set_member ''verdict'' (JObj (cs @ ds)) body = as @ (''verdict'', JObj (cs @ ds)) # bs"
    by blast
  with v(3) w that(2) show ?thesis by simp
qed (rule that(1))

lemma admitted_document_walks:
  assumes "validate_certificate_document (env_nform env) body h = Inr ()"
  shows "walk_values env (certificate_document body h) = Inr ()"
proof -
  from assms obtain stripped where lift: "lift_out_null body = Inr stripped"
    and scf: "validate_scf (certificate_document stripped h) = Inr ()"
    and depth: "check_depth 1 (certificate_document body h) = Inr ()"
    and plain: "check_text (env_nform env) (certificate_document body h) = Inr ()"
    by (auto simp: validate_certificate_document_def result_simps)
  have hash: "walk_text env h = Inr ()"
    using plain by (simp add: certificate_document_def plain_text_walk result_simps)
  have members: "check_depth_members 3 body = Inr ()" "check_text_members (env_nform env) body = Inr ()"
      "validate_members stripped = Inr ()"
    using depth plain scf
    by (simp_all add: certificate_document_def result_simps numeral_3_eq_3 split: if_splits)
  have "walk_members env body [''body''] 3 = Inr ()"
    using lift
  proof (cases rule: lift_out_null_cases)
    case 1
    with members admitted_walks(2) show ?thesis by blast
  next
    case (2 as bs cs ds)
    have inner: "walk_members env (cs @ (''witness_class'', JNull) # ds) [''body'', ''verdict''] 4 = Inr ()"
      using members unfolding 2 walk_members_all
      by (auto simp: validate_members_all check_depth_members_all check_text_members_all NULL_PATH_def
        intro!: admitted_walks(1) split: if_splits)
    have outer: "walk_members env (as @ bs) [''body''] 3 = Inr ()"
      using members unfolding 2
      by (intro admitted_walks(2)) (auto simp: validate_members_all check_depth_members_all check_text_members_all)
    have "walk_value env (JObj (cs @ (''witness_class'', JNull) # ds)) [''body'', ''verdict''] 3 = Inr ()"
      using inner by (simp add: MAX_DEPTH_def)
    with outer show ?thesis unfolding 2 walk_members_all by auto
  qed
  then show ?thesis
    using hash by (simp add: walk_values_def certificate_document_def MAX_DEPTH_def numeral_3_eq_3)
qed

lemma norm_walks:
  "walk_value env v path depth = Inr () \<Longrightarrow> walk_value env (norm v) path depth = Inr ()"
  "walk_members env ms path depth = Inr () \<Longrightarrow> walk_members env (norm_members ms) path depth = Inr ()"
  "walk_items env index vs path depth = Inr () \<Longrightarrow> walk_items env index (norm_items vs) path depth = Inr ()"
proof (induction v and ms and vs arbitrary: path depth and path depth and path depth index
    rule: norm_norm_members_norm_items.induct)
  case (1 members)
  have "walk_members env (sort_key fst ms) p d = Inr () \<longleftrightarrow> walk_members env ms p d = Inr ()" for ms p d
    by (simp add: walk_members_all)
  with 1 show ?case by (simp split: if_splits)
qed (auto simp: result_simps split: if_splits)

text \<open>Every octet of the text is printable, so its one line feed is the last octet of the file.\<close>

lemma walked_printable:
  "walk_value env v path depth = Inr () \<Longrightarrow> printable (json_text v)"
  "walk_members env ms path depth = Inr () \<Longrightarrow> \<forall>kv \<in> set ms. printable (member_text kv)"
  "walk_items env index vs path depth = Inr () \<Longrightarrow> \<forall>v \<in> set vs. printable (json_text v)"
proof (induction env v path depth and env ms path depth and env index vs path depth
    rule: walk_value_walk_members_walk_items.induct)
  case (6 env members path depth)
  then show ?case
    by (auto simp: json_text_JObj simp del: json_text.simps intro!: printable_comma_join split: if_splits)
next
  case (7 env items path depth)
  then show ?case
    by (auto simp: json_text_JArr simp del: json_text.simps intro!: printable_comma_join split: if_splits)
qed (auto simp: result_simps int_text_def printable_digits printable_quoted member_text_def)

section \<open>The emitted file is read back\<close>

lemma certificate_bytes_facts:
  assumes "certificate_bytes raw_digest nform body = Inr octets"
  obtains h where "hash_ref raw_digest ''cert'' (json_text (JObj body)) = Inr h"
    "utf8_ok (json_text (JObj body))" "validate_certificate_document nform body h = Inr ()"
    "octets = json_text (certificate_document body h) @ [CHR 0x0A]" "utf8_ok octets"
    "prefix CERT_FILE_MAGIC octets"
  using assms that
  by (auto simp: certificate_bytes_def body_octets_def encode_text_def result_simps andThen_eq_Inr split: if_splits)

lemma norm_document:
  "norm (certificate_document body h) = JObj [(''body'', norm (JObj body)), (''cert_hash'', JStr h)]"
proof -
  have "\<not> ''cert_hash'' \<le> (''body'' :: string)" by code_simp
  then show ?thesis by (simp add: certificate_document_def)
qed

lemma magics_agree: "CERT_FILE_MAGIC = FILE_MAGIC"
  by (simp add: CERT_FILE_MAGIC_def FILE_MAGIC_def)

lemma magic_not_compressed: "prefix FILE_MAGIC octets \<Longrightarrow> take 2 octets \<notin> set COMPRESSION_MAGICS"
  by (auto simp: prefix_def FILE_MAGIC_def COMPRESSION_MAGICS_def quoted_def escape_char_def)

text \<open>The state with which the checker starts on the file of a certificate.\<close>

definition opened :: "octets \<Rightarrow> (string \<times> json) list \<Rightarrow> string \<Rightarrow> checker_inputs \<Rightarrow> cstate" where
  "opened octets body h inputs =
     initial_state octets (norm (certificate_document body h)) (norm (JObj body)) inputs"

text \<open>C12. The octets of every certificate that the emitter returns pass the checker's strict reading,
  the canonicity obligation O0 and the digest obligation O1, provided that the JSON parser reads
  back the value that was printed, with the members in the order of the text.\<close>

theorem emitted_file_passes:
  assumes "certificate_bytes (env_digest env) (env_nform env) body = Inr octets"
    and "hash_ref (env_digest env) ''cert'' (json_text (JObj body)) = Inr h"
    and "env_json env pairs_hook floats_are_forbidden reject_constant octets =
      Inr (norm (certificate_document body h))"
    and "env_file env path = Some octets"
  shows "open_certificate env path inputs = Inr (opened octets body h inputs) \<and>
    o0_canonicity env (opened octets body h inputs) = passed (opened octets body h inputs) \<and>
    o1_cert_hash env (opened octets body h inputs) = passed (opened octets body h inputs)"
proof -
  obtain h' where h': "hash_ref (env_digest env) ''cert'' (json_text (JObj body)) = Inr h'"
      "utf8_ok (json_text (JObj body))" "validate_certificate_document (env_nform env) body h' = Inr ()"
      "octets = json_text (certificate_document body h') @ [CHR 0x0A]" "utf8_ok octets"
      "prefix CERT_FILE_MAGIC octets"
    by (rule certificate_bytes_facts [OF assms(1)])
  have "h' = h" using h'(1) assms(2) by (metis sum.inject(2))
  note law = h'(3) [unfolded this] and octets = h'(4) [unfolded this] and utf8 = h'(5,2)
    and magic = h'(6) [unfolded magics_agree]
  have walk: "walk_values env (norm (certificate_document body h)) = Inr ()"
    using norm_walks(1) admitted_document_walks [OF law] unfolding walk_values_def by blast
  have "printable (json_text (certificate_document body h))"
    using walked_printable(1) admitted_document_walks [OF law] unfolding walk_values_def by blast
  then have breaks: "CHR 0x0A \<notin> set (json_text (certificate_document body h))"
    "CHR 0x0D \<notin> set (json_text (certificate_document body h))"
    by (auto simp: printable_def)
  have "parse_document env octets = Inr (norm (certificate_document body h))"
    unfolding parse_document_def loads_or_reject_def assms(3)
    using magic magic_not_compressed [OF magic] utf8(1) breaks
    by (simp add: octets need_def norm_document count_list_0_iff del: json_text.simps norm.simps)
  then have "open_certificate env path inputs = Inr (opened octets body h inputs)"
    using assms(4) by (simp add: open_certificate_def read_octets_def norm_document opened_def need_def)
  moreover have "o0_canonicity env (opened octets body h inputs) = passed (opened octets body h inputs)"
  proof -
    have "object_keys (norm (certificate_document body h)) = [''body'', ''cert_hash'']"
      unfolding norm_document by simp
    with walk utf8(1) octets show ?thesis
      by (simp add: o0_canonicity_def opened_def initial_state_def dumps_def json_text_norm encode_utf8_def
        need_def del: json_text.simps norm.simps utf8_ok.simps)
  qed
  moreover have "o1_cert_hash env (opened octets body h inputs) = passed (opened octets body h inputs)"
    using assms(2) utf8(2)
    by (simp add: o1_cert_hash_def opened_def initial_state_def dumps_def json_text_norm encode_utf8_def
      norm_document need_def member_def uncaught_def del: json_text.simps norm.simps)
  ultimately show ?thesis by blast
qed

definition small_body :: "(string \<times> json) list" where
  "small_body = [(''verdict'', JObj [(''witness_class'', JNull)])]"

definition small_hash :: string where
  "small_hash = ''b2b256:'' @ zero_hex"

definition small_octets :: octets where
  "small_octets = json_text (certificate_document small_body small_hash) @ [CHR 0x0A]"

definition small_env :: checker_env where
  "small_env = \<lparr>env_digest = (\<lambda>_. zero_digest), env_nform = id,
     env_json = (\<lambda>_ _ _ _. Inr (norm (certificate_document small_body small_hash))),
     env_toml = (\<lambda>_. None), env_str = (\<lambda>_. []), env_int = (\<lambda>_. None),
     env_file = (\<lambda>_. Some small_octets)\<rparr>"

lemma small_bytes:
  "certificate_bytes (env_digest small_env) (env_nform small_env) small_body = Inr small_octets"
  "hash_ref (env_digest small_env) ''cert'' (json_text (JObj small_body)) = Inr small_hash"
  by code_simp+

lemma emitted_file_passes_witness:
  "open_certificate small_env ''cert'' sample_inputs = Inr (opened small_octets small_body small_hash sample_inputs) \<and>
    o0_canonicity small_env (opened small_octets small_body small_hash sample_inputs) =
      passed (opened small_octets small_body small_hash sample_inputs) \<and>
    o1_cert_hash small_env (opened small_octets small_body small_hash sample_inputs) =
      passed (opened small_octets small_body small_hash sample_inputs)"
  by (rule emitted_file_passes [OF small_bytes]) (simp_all add: small_env_def)

section \<open>The members of a built body\<close>

lemma norm_sorted:
  "sorted (map fst ms) \<Longrightarrow> (\<And>k v. (k, v) \<in> set ms \<Longrightarrow> norm v = v) \<Longrightarrow> norm (JObj ms) = JObj ms"
proof -
  assume "sorted (map fst ms)" and same: "\<And>k v. (k, v) \<in> set ms \<Longrightarrow> norm v = v"
  moreover have "map (\<lambda>(k, v). (k, norm v)) ms = ms" using same by (intro map_idI) auto
  ultimately show ?thesis by (simp add: norm_members_eq sort_key_id_if_sorted)
qed

lemma norm_texts [simp]: "norm (texts vs) = texts vs"
  by (simp add: texts_def norm_items_eq)

lemma norm_verdict [simp]: "norm (verdict_member v) = verdict_member v"
proof -
  have "sorted [''derived_suppressed'', ''flags'', ''minimality'', ''realizability'', ''safety'', ''witness_class'' :: string]"
    by code_simp
  then show ?thesis unfolding verdict_member_def
    by (intro norm_sorted) (auto split: option.splits)
qed

lemma norm_node [simp]: "norm (node_member n js) = node_member n js"
proof -
  have "sorted [''children'', ''evidence'', ''head'', ''instance_id'', ''kind'' :: string]" by code_simp
  then show ?thesis unfolding node_member_def by (intro norm_sorted) (auto simp: norm_items_eq)
qed

lemma norm_witness [simp]: "norm (witness_member w) = witness_member w"
proof -
  have "sorted [''nodes'', ''removed_control'' :: string]" by code_simp
  moreover have "norm_items (flatten t) = flatten t" for t
    unfolding norm_items_eq flatten_def place_placed by (induction "placed 0 t") auto
  ultimately show ?thesis unfolding witness_member_def by (intro norm_sorted) auto
qed

lemma norm_lookup:
  assumes "distinct (map fst ms)"
  shows "map_of (sort_key fst (norm_members ms)) k = map_option norm (map_of ms k)"
proof -
  have keys: "map fst (norm_members ms) = map fst ms" by (induction ms) auto
  have "map_of (sort_key fst (norm_members ms)) = map_of (norm_members ms)"
  proof (rule map_of_inject_set [THEN iffD2])
    show "distinct (map fst (norm_members ms))" using assms keys by simp
    then show "distinct (map fst (sort_key fst (norm_members ms)))"
      by (metis distinct_map distinct_sort set_sort)
  qed simp
  moreover have "map_of (norm_members ms) k = map_option norm (map_of ms k)" by (induction ms) auto
  ultimately show ?thesis by simp
qed

lemma norm_member:
  assumes "distinct (map fst ms)" and "map_of ms k = Some v"
  shows "member (norm (JObj ms)) k = Inr (norm v)" "item (norm (JObj ms)) k = Inr (norm v)"
proof -
  have "k \<in> fst ` set (norm_members ms)"
    using assms(2) by (force simp: norm_members_eq dest: map_of_SomeD)
  with assms norm_lookup [of ms k]
  show "member (norm (JObj ms)) k = Inr (norm v)" "item (norm (JObj ms)) k = Inr (norm v)"
    by (simp_all add: member_def)
qed

lemma norm_keys: "set (object_keys (norm (JObj ms))) = fst ` set ms"
  by (force simp: norm_members_eq)

definition SURE_MEMBERS :: "string list" where
  "SURE_MEMBERS = [''atoms'', ''budgets'', ''cut'', ''cut_delta_canonical'', ''ghost_count'', ''goals'',
     ''inputs'', ''instances'', ''licenses'', ''observed_event_count'', ''psi'', ''residual'', ''schema'',
     ''scope'', ''silent'', ''verdict'', ''witnesses'']"

lemma body_facts:
  assumes "build_body raw_digest nform p = Inr body"
  obtains inputs psi where "check_body raw_digest nform p = Inr ()"
    "inputs_member (bp_inputs p) = Inr inputs" "psi_member (bp_psi p) = Inr psi"
    "map fst body = SURE_MEMBERS @ (if bp_invariant p = None then [] else [''invariant'']) @
       (if bp_premium p = None then [] else [''premium'']) @
       (if bp_reason p = None then [] else [''premium_suppressed_reason''])"
    "map_of body ''inputs'' = Some inputs" "map_of body ''psi'' = Some psi"
    "map_of body ''schema'' = Some schema_member" "map_of body ''scope'' = Some (scope_member (bp_scope p))"
    "map_of body ''verdict'' = Some (verdict_member (bp_verdict p))"
    "map_of body ''budgets'' = Some (budgets_member (bp_budgets p))"
    "map_of body ''witnesses'' = Some (JArr (map witness_member (bp_witnesses p)))"
proof -
  from assms obtain members where built: "check_body raw_digest nform p = Inr ()" "body_members p = Inr members"
      "members = body"
    unfolding build_body_def by (auto simp: andThen_eq_Inr)
  from built(2) obtain inputs instances psi where parts:
    "inputs_member (bp_inputs p) = Inr inputs" "psi_member (bp_psi p) = Inr psi"
    "members = [(''atoms'', atoms_member (bp_atoms p)), (''budgets'', budgets_member (bp_budgets p)),
         (''cut'', cut_member (bp_cut p)), (''cut_delta_canonical'', texts (bp_cut_delta_canonical p)),
         (''ghost_count'', JInt (bp_ghost_count p)), (''goals'', JArr (map goal_member (bp_goals p))),
         (''inputs'', inputs), (''instances'', JArr instances),
         (''licenses'', JArr (map licence_member (bp_licenses p))),
         (''observed_event_count'', JInt (bp_observed_event_count p)), (''psi'', psi),
         (''residual'', residual_member (bp_residual p)), (''schema'', schema_member),
         (''scope'', scope_member (bp_scope p)), (''silent'', JArr (map silent_member (bp_silent p))),
         (''verdict'', verdict_member (bp_verdict p)),
         (''witnesses'', JArr (map witness_member (bp_witnesses p)))] @
         (case bp_invariant p of None \<Rightarrow> [] | Some u \<Rightarrow> [(''invariant'', JObj [(''u'', texts u)])]) @
         (case bp_premium p of None \<Rightarrow> [] | Some premium \<Rightarrow> [(''premium'', premium_member premium)]) @
         (case bp_reason p of None \<Rightarrow> [] | Some r \<Rightarrow> [(''premium_suppressed_reason'', JStr r)])"
    unfolding body_members_def andThen_eq_Inr by blast
  show thesis
    by (rule that [OF built(1) parts(1,2)])
       (simp_all add: built(3) [symmetric] parts(3) SURE_MEMBERS_def split: option.splits)
qed

lemma body_distinct:
  assumes "build_body raw_digest nform p = Inr body"
  shows "distinct (map fst body)"
proof -
  have "distinct (SURE_MEMBERS @ [''invariant'', ''premium'', ''premium_suppressed_reason''])" by code_simp
  then have "distinct (SURE_MEMBERS @ (if a then [] else [''invariant'']) @ (if b then [] else [''premium'']) @
      (if c then [] else [''premium_suppressed_reason'']))" for a b c by simp
  then show ?thesis using body_facts [OF assms] by metis
qed

lemma built_premium_or_reason:
  assumes "build_body raw_digest nform p = Inr body"
  shows "(bp_premium p = None) \<noteq> (bp_reason p = None)"
  using body_facts [OF assms]
  by (auto simp: check_body_def andThen_eq_Inr check_premium_preconditions_def)

lemma built_passes_schema:
  assumes "build_body raw_digest nform p = Inr body" and s: "cs_body s = norm (JObj body)"
  shows "o2_schema s = passed s"
proof -
  have schema: "norm schema_member = schema_member"
  proof -
    have "sorted [''hash_algorithm'', ''hash_substitution_note'', ''min_checker'', ''profile'', ''v'' :: string]"
      by code_simp
    then show ?thesis unfolding schema_member_def by (intro norm_sorted) auto
  qed
  obtain inputs psi where keys: "map fst body = SURE_MEMBERS @ (if bp_invariant p = None then [] else [''invariant'']) @
       (if bp_premium p = None then [] else [''premium'']) @
       (if bp_reason p = None then [] else [''premium_suppressed_reason''])"
    and at: "map_of body ''schema'' = Some schema_member"
    by (rule body_facts [OF assms(1)])
  have here: "member (cs_body s) ''schema'' = Inr schema_member"
    unfolding s norm_member(1) [OF body_distinct [OF assms(1)] at] schema ..
  have keys_set: "set (object_keys (cs_body s)) = set (map fst body)"
    unfolding s norm_keys by simp
  have version: "version (JStr ''1.1'') = Inr [1, 1]" by code_simp
  have notes_agree: "CANON_HASH_NOTE = HASH_SUBSTITUTION_NOTE" by (simp add: CANON_HASH_NOTE_def HASH_SUBSTITUTION_NOTE_def)
  have members: "member schema_member ''v'' = Inr (JStr ''1.1'')" "member schema_member ''min_checker'' = Inr (JStr ''1.1'')"
    "member schema_member ''profile'' = Inr (JStr ''eclipse-cert'')"
    "member schema_member ''hash_algorithm'' = Inr (JStr HASH_ALGORITHM)"
    "member schema_member ''hash_substitution_note'' = Inr (JStr HASH_SUBSTITUTION_NOTE)"
    by (simp_all add: schema_member_def member_def CERT_SCHEMA_V_def CERT_MIN_CHECKER_def CERT_PROFILE_def
      CANON_HASH_ALGORITHM_def HASH_ALGORITHM_def notes_agree [symmetric])
  have known: "list_all (\<lambda>k. k \<in> set CHECKER_BODY_MEMBERS) (object_keys (cs_body s))"
    unfolding list_all_iff keys_set keys
    by (auto simp: CHECKER_BODY_MEMBERS_def SURE_MEMBERS_def)
  have required: "list_all (\<lambda>m. m \<in> set (object_keys (cs_body s))) REQUIRED_BODY_MEMBERS"
    unfolding list_all_iff keys_set keys by (auto simp: REQUIRED_BODY_MEMBERS_def SURE_MEMBERS_def)
  have "''premium'' \<in> set (object_keys (cs_body s)) \<longleftrightarrow> bp_premium p \<noteq> None"
    "''premium_suppressed_reason'' \<in> set (object_keys (cs_body s)) \<longleftrightarrow> bp_reason p \<noteq> None"
    unfolding keys_set keys by (auto simp: SURE_MEMBERS_def split: if_splits)
  with built_premium_or_reason [OF assms(1)]
  have one: "(''premium'' \<in> set (object_keys (cs_body s))) \<noteq> (''premium_suppressed_reason'' \<in> set (object_keys (cs_body s)))"
    by simp
  show ?thesis
    unfolding o2_schema_def Let_def here members
    using known required one
    by (simp add: members CHECKER_VERSION_def SCHEMA_V_def version need_def)
qed

section \<open>The scope of a built body\<close>

lemma map_of_members: "map_of (map (\<lambda>(k, f). (k, g f)) fs) k = map_option g (map_of fs k)"
  by (induction fs) auto

lemma scope_members:
  "norm (scope_member c) = scope_member c"
  "iter (scope_member c) = Inr (map JStr [''attacker'', ''bundle'', ''controls'', ''er'', ''goal'', ''liveness'', ''rules''])"
  "item (scope_member c) ''attacker'' = Inr (JStr (sc_attacker c))"
  "item (scope_member c) ''bundle'' = Inr (JStr (sc_bundle c))"
  "item (scope_member c) ''controls'' = Inr (JStr (sc_controls c))"
  "item (scope_member c) ''er'' = Inr (JStr (sc_er c))"
  "item (scope_member c) ''goal'' = Inr (JStr (sc_goal c))"
  "item (scope_member c) ''liveness'' = Inr (JStr (sc_liveness c))"
  "item (scope_member c) ''rules'' = Inr (JStr (sc_rules c))"
proof -
  have "sorted [''attacker'', ''bundle'', ''controls'', ''er'', ''goal'', ''liveness'', ''rules'' :: string]"
    by code_simp
  then show "norm (scope_member c) = scope_member c" unfolding scope_member_def by (intro norm_sorted) auto
qed (simp_all add: scope_member_def)

lemma inputs_members:
  assumes "inputs_member i = Inr inputs"
  shows "member (norm inputs) ''bundle_hash'' = Inr (JStr (in_bundle_hash i))"
    "member (norm inputs) ''controls_hash'' = Inr (JStr (in_controls_hash i))"
    "member (norm inputs) ''er_hash'' = Inr (JStr (in_er_hash i))"
    "member (norm inputs) ''goal_hash'' = Inr (JStr (in_goal_hash i))"
    "member (norm inputs) ''liveness_hash'' = Inr (JStr (in_liveness_hash i))"
    "member (norm inputs) ''rules_hash'' = Inr (JStr (in_rules_hash i))"
proof -
  from assms obtain seed where inputs: "inputs = JObj ([(''bundle_provenance'', JStr BUNDLE_PROVENANCE),
         (''grounding_mode'', JStr GROUNDING_MODE), (''implementation'', JStr IMPLEMENTATION),
         (''k'', JInt (in_k i)), (''seed'', JStr seed)] @
         map (\<lambda>(name, field). (name, JStr (field i))) INPUT_HASHES)"
    unfolding inputs_member_def by (auto simp: andThen_eq_Inr)
  let ?ms = "[(''bundle_provenance'', JStr BUNDLE_PROVENANCE),
         (''grounding_mode'', JStr GROUNDING_MODE), (''implementation'', JStr IMPLEMENTATION),
         (''k'', JInt (in_k i)), (''seed'', JStr seed)] @
         map (\<lambda>(name, field). (name, JStr (field i))) INPUT_HASHES"
  have "distinct ([''bundle_provenance'', ''grounding_mode'', ''implementation'', ''k'', ''seed''] @ map fst INPUT_HASHES)"
    unfolding INPUT_HASHES_def by simp
  moreover have "map fst ?ms = [''bundle_provenance'', ''grounding_mode'', ''implementation'', ''k'', ''seed''] @ map fst INPUT_HASHES"
    by (simp add: case_prod_unfold o_def)
  ultimately have distinct: "distinct (map fst ?ms)" by argo
  have at: "member (norm inputs) k = Inr (JStr x)" if "map_of ?ms k = Some (JStr x)" for k x
    using norm_member(1) [OF distinct that] by (simp only: inputs norm.simps)
  show "member (norm inputs) ''bundle_hash'' = Inr (JStr (in_bundle_hash i))"
    "member (norm inputs) ''controls_hash'' = Inr (JStr (in_controls_hash i))"
    "member (norm inputs) ''er_hash'' = Inr (JStr (in_er_hash i))"
    "member (norm inputs) ''goal_hash'' = Inr (JStr (in_goal_hash i))"
    "member (norm inputs) ''liveness_hash'' = Inr (JStr (in_liveness_hash i))"
    "member (norm inputs) ''rules_hash'' = Inr (JStr (in_rules_hash i))"
    by (rule at, simp add: INPUT_HASHES_def)+
qed

lemma scope_names_sort:
  "\<exists>names. py_sorted (map JStr [''attacker'', ''bundle'', ''controls'', ''er'', ''goal'', ''liveness'', ''rules'']) = Inr names"
proof -
  have "(case py_sorted (map JStr [''attacker'', ''bundle'', ''controls'', ''er'', ''goal'', ''liveness'', ''rules''])
      of Inl e \<Rightarrow> False | Inr names \<Rightarrow> True)" by code_simp
  then show ?thesis by (simp split: sum.splits)
qed

lemma built_passes_scope:
  assumes "build_body raw_digest nform p = Inr body" and s: "cs_body s = norm (JObj body)"
    and scope: "check_scope (bp_scope p) = Inr c"
  shows "o3_scope s = passed s"
proof -
  let ?c = "bp_scope p" and ?i = "bp_inputs p"
  obtain inputs psi where body: "check_body raw_digest nform p = Inr ()" "inputs_member ?i = Inr inputs"
      "map_of body ''inputs'' = Some inputs" "map_of body ''scope'' = Some (scope_member ?c)"
    by (rule body_facts [OF assms(1)])
  note distinct = body_distinct [OF assms(1)]
  have here: "member (cs_body s) ''scope'' = Inr (scope_member ?c)" "member (cs_body s) ''inputs'' = Inr (norm inputs)"
    unfolding s norm_member(1) [OF distinct body(4)] norm_member(1) [OF distinct body(3)] scope_members(1) by simp_all
  have bound: "sc_bundle ?c = in_bundle_hash ?i" "sc_controls ?c = in_controls_hash ?i" "sc_er ?c = in_er_hash ?i"
      "sc_goal ?c = in_goal_hash ?i" "sc_liveness ?c = in_liveness_hash ?i" "sc_rules ?c = in_rules_hash ?i"
    using body(1) by (simp_all add: check_body_def andThen_eq_Inr check_scope_binds_inputs_def check_all_eq_Inr)
  have attacker: "sc_attacker ?c = ''non-adaptive''"
    using scope by (auto simp: check_scope_def andThen_eq_Inr ATTACKER_def)
  have valued: "x \<noteq> [] \<and> is_hash_ref (JStr x)"
    if "x \<in> {sc_rules ?c, sc_controls ?c, sc_liveness ?c, sc_er ?c, sc_goal ?c, sc_bundle ?c}" for x
    using scope that by (auto simp: check_scope_def andThen_eq_Inr check_all_eq_Inr)
  obtain names where names: "py_sorted (map JStr [''attacker'', ''bundle'', ''controls'', ''er'', ''goal'', ''liveness'', ''rules'']) = Inr names"
    using scope_names_sort by blast
  have bindings: "check_all (\<lambda>(scope_name, input_name).
       andThen (item (scope_member ?c) scope_name) (\<lambda>value.
       andThen (need (truthy value) ''VRD-005'') (\<lambda>_.
       andThen (need (is_hash_ref value) ''VRD-005'') (\<lambda>_.
       andThen (member (norm inputs) input_name) (\<lambda>pinned.
         need (py_eq value pinned) ''E-SCOPE-BIND''))))) SCOPE_TO_INPUT = Inr ()"
    using valued bound
    by (simp add: SCOPE_TO_INPUT_def scope_members inputs_members [OF body(2)] need_def del: is_hash_ref.simps)
  have hashed_names: "mapM hashed (map JStr ns) = Inr (map JStr ns)" for ns
    by (induction ns) (simp_all add: hashed_def)
  show ?thesis
    unfolding o3_scope_def Let_def here scope_members(2) andThen_simps hashed_names names bindings
    by (simp add: scope_members(3) attacker need_def)
qed

section \<open>The verdict of a built body\<close>

lemma BIT_OF_flag: "BIT_OF (JStr name) = map_option fl_bit (FLAG_BY_NAME name)"
  by (simp add: BIT_OF_def FLAG_BITS_def FLAG_BY_NAME_def FLAGS_def)

lemma flag_loop_flags:
  "flags_loop names m previous = Inr r \<Longrightarrow> flag_loop (map JStr names) m previous = Inr r"
proof (induction names arbitrary: m previous)
  case (Cons name names)
  then obtain f where f: "FLAG_BY_NAME name = Some f" "previous < int (fl_bit f)"
    "flags_loop names (m OR push_bit (fl_bit f) 1) (int (fl_bit f)) = Inr r"
    by (auto split: option.splits if_splits)
  with Cons.IH [OF f(3)] show ?case by (simp add: hashed_def BIT_OF_flag need_def)
qed simp

lemma masks_agree: "CHECKER_RESERVED_MASK = RESERVED_MASK" "CHECKER_SOUNDNESS_MASK = SOUNDNESS_MASK"
  by (simp_all add: CHECKER_RESERVED_MASK_def CHECKER_SOUNDNESS_MASK_def masks FLAG_BITS_def SOUNDNESS_BITS_def upt_rec)

lemma texts_contain:
  "iter (texts vs) = Inr (map JStr vs)" "py_contains (texts vs) v = Inr (v \<in> set vs)"
  "mapM (py_contains (texts vs)) ws = Inr (map (\<lambda>w. w \<in> set vs) ws)"
proof -
  show contains: "py_contains (texts vs) v = Inr (v \<in> set vs)" for v
    by (auto simp: texts_def list_ex_iff)
  show "mapM (py_contains (texts vs)) ws = Inr (map (\<lambda>w. w \<in> set vs) ws)"
    by (induction ws) (simp_all add: contains)
qed (simp add: texts_def)

lemma ascending_texts: "strictly_ascending vs \<Longrightarrow> ascending_value (texts vs) = Inr ()"
proof -
  assume "strictly_ascending vs"
  then have "ascending (map JStr vs) = Inr ()"
    by (induction vs rule: strictly_ascending.induct) simp_all
  then show ?thesis by (simp add: ascending_value_def texts_def)
qed

lemma verdict_members:
  "member (verdict_member v) ''flags'' = Inr (texts (vd_flags v))"
  "member (verdict_member v) ''derived_suppressed'' = Inr (texts (vd_derived_suppressed v))"
  "member (verdict_member v) ''safety'' = Inr (JStr (safety_text (vd_safety v)))"
  "member (verdict_member v) ''minimality'' = Inr (JStr (minimality_label (vd_minimality v)))"
  "member (verdict_member v) ''realizability'' = Inr (JStr (realizability_text (vd_realizability v)))"
  "py_contains (verdict_member v) ''witness_class'' = Inr True"
  "item (verdict_member v) ''witness_class'' =
     Inr (case vd_witness_class v of None \<Rightarrow> JNull | Some c \<Rightarrow> JStr (witness_class_text c))"
  by (simp_all add: verdict_member_def member_def)

lemma known_texts:
  "is_one_of [''ROBUST'', ''OPTIMISTIC_ONLY'', ''UNSAFE'', ''INDETERMINATE''] (JStr (safety_text a)) = Inr True"
  "is_one_of [''EXACT_EXHAUSTIVE'', ''EXACT_PSI_RELATIVE'', ''SUBSET'', ''UNVERIFIED''] (JStr (minimality_label m)) = Inr True"
  "is_one_of [''CHECKED'', ''UNCHECKED''] (JStr (realizability_text r)) = Inr True"
  "is_one_of [''OBSERVED'', ''LICENSED'', ''CONTESTED''] (JStr (witness_class_text c)) = Inr True"
  "prefix ''EXACT_'' (minimality_label m) = exact_minimality m"
  "safety_text a = ''ROBUST'' \<longleftrightarrow> a = ROBUST" "safety_text a = ''UNSAFE'' \<longleftrightarrow> a = UNSAFE"
  by (cases a; simp add: is_one_of_def hashed_def; fail | cases m; simp add: is_one_of_def hashed_def exact_minimality_def; fail |
    cases r; simp add: is_one_of_def hashed_def; fail | cases c; simp add: is_one_of_def hashed_def; fail)+

text \<open>The premium is only published next to a complete database, an unfired budget and no capping flag.\<close>

lemma built_premium_complete:
  assumes "build_body raw_digest nform p = Inr body" and s: "cs_body s = norm (JObj body)"
  shows "o14_premium s (texts (vd_flags (bp_verdict p))) = Inr ()"
proof (cases "bp_premium p = None")
  case True
  obtain inputs psi where "map fst body = SURE_MEMBERS @ (if bp_invariant p = None then [] else [''invariant'']) @
       (if bp_premium p = None then [] else [''premium'']) @
       (if bp_reason p = None then [] else [''premium_suppressed_reason''])"
    by (rule body_facts [OF assms(1)])
  then have "''premium'' \<notin> set (map fst body)" using True by (auto simp: SURE_MEMBERS_def split: if_splits)
  then have "\<not> publishes s ''premium''" unfolding publishes_def s norm_keys by simp
  then show ?thesis by (simp add: o14_premium_def)
next
  case False
  obtain inputs psi where body: "check_body raw_digest nform p = Inr ()" "psi_member (bp_psi p) = Inr psi"
      "map_of body ''psi'' = Some psi" "map_of body ''budgets'' = Some (budgets_member (bp_budgets p))"
    by (rule body_facts [OF assms(1)])
  note distinct = body_distinct [OF assms(1)]
  from body(1) have "check_premium_preconditions (bp_premium p) (bp_reason p) (bp_psi p) (bp_psi_min_complete p)
      (bp_budgets p) (vd_flags (bp_verdict p)) = Inr ()"
    by (simp add: check_body_def andThen_eq_Inr)
  with False have met: "pp_complete (bp_psi p)" "\<not> bg_budget_exhausted (bp_budgets p)"
      "''grounding_capped'' \<notin> set (vd_flags (bp_verdict p))" "''corridor_cap'' \<notin> set (vd_flags (bp_verdict p))"
    by (auto simp: check_premium_preconditions_def andThen_eq_Inr split: option.splits)
  obtain cs where psi: "psi = JObj [(''complete'', JBool (pp_complete (bp_psi p))), (''corridors'', JArr cs),
      (''program'', JStr (program_text (pp_program (bp_psi p))))]"
    using body(2) by (auto simp: psi_member_def andThen_eq_Inr)
  have complete: "member (norm psi) ''complete'' = Inr (JBool (pp_complete (bp_psi p)))"
    unfolding psi by (subst norm_member(1) [where v = "JBool (pp_complete (bp_psi p))"]) simp_all
  have exhausted: "member (norm (budgets_member b)) ''budget_exhausted'' = Inr (JBool (bg_budget_exhausted b))" for b
    unfolding budgets_member_def
    by (subst norm_member(1) [where v = "JBool (bg_budget_exhausted b)"]) simp_all
  show ?thesis
    unfolding o14_premium_def texts_contain s norm_member(2) [OF distinct body(3)]
      norm_member(2) [OF distinct body(4)] andThen_simps complete exhausted
    using met by (simp add: need_def)
qed

text \<open>The class of the witness, as \<open>Verdict.build\<close> was told of the trees that are published.\<close>

lemma built_witness_class:
  assumes "build_body raw_digest nform p = Inr body" and s: "cs_body s = norm (JObj body)"
    and v: "Verdict_build proposal token (bp_witnesses p \<noteq> [])
      (list_ex (\<lambda>w. contains_silent (pw_tree w)) (bp_witnesses p)) terminated = Inr v"
  shows "o14_witness_class s (JStr (safety_text (vd_safety v))) (texts (vd_flags v))
    (case vd_witness_class v of None \<Rightarrow> JNull | Some c \<Rightarrow> JStr (witness_class_text c)) = Inr ()"
proof -
  obtain inputs psi where "map_of body ''witnesses'' = Some (JArr (map witness_member (bp_witnesses p)))"
    by (rule body_facts [OF assms(1)])
  from norm_member(1) [OF body_distinct [OF assms(1)] this]
  have here: "member (cs_body s) ''witnesses'' = Inr (JArr (map witness_member (bp_witnesses p)))"
    unfolding s by (simp add: norm_items_eq o_def)
  have silent: "andThen (iter (JArr (map witness_member ws))) tree_has_silent =
      Inr (list_ex (\<lambda>w. contains_silent (pw_tree w)) ws)" for ws
    by (simp add: tree_has_silent_published)
  show ?thesis
  proof (cases "vd_safety v = UNSAFE")
    case False
    with v have "vd_witness_class v = None"
      by (auto simp: Verdict_build_def check_verdict_algebra_def andThen_eq_Inr)
    with False show ?thesis by (simp add: o14_witness_class_def known_texts)
  next
    case True
    with v obtain c where c: "vd_witness_class v = Some c" "bp_witnesses p \<noteq> []"
      "''er_ambiguous'' \<in> set (vd_flags v) \<Longrightarrow> c = WC_CONTESTED"
      "c = WC_OBSERVED \<Longrightarrow> \<not> list_ex (\<lambda>w. contains_silent (pw_tree w)) (bp_witnesses p)"
      "c = WC_LICENSED \<Longrightarrow> list_ex (\<lambda>w. contains_silent (pw_tree w)) (bp_witnesses p)"
      by (auto simp: Verdict_build_def check_verdict_algebra_def andThen_eq_Inr)
    have texts: "witness_class_text c = ''OBSERVED'' \<longleftrightarrow> c = WC_OBSERVED"
      "witness_class_text c = ''LICENSED'' \<longleftrightarrow> c = WC_LICENSED"
      "witness_class_text c = ''CONTESTED'' \<longleftrightarrow> c = WC_CONTESTED" by (cases c; simp)+
    have "truthy (JArr (map witness_member (bp_witnesses p)))" using c(2) by simp
    then show ?thesis
      using c(3-5) True unfolding o14_witness_class_def here c(1) option.case known_texts texts_contain silent andThen_simps
      by (auto simp: known_texts texts need_def)
  qed
qed

lemma build_algebra:
  "Verdict_build proposal token present silent terminated = Inr v \<Longrightarrow>
   check_verdict_algebra (vd_safety v) (vd_minimality v) (vd_flags v) (vd_derived_suppressed v) (vd_witness_class v) = Inr ()"
  by (auto simp: Verdict_build_def andThen_eq_Inr)

lemma built_passes_flags:
  assumes "build_body raw_digest nform p = Inr body" and s: "cs_body s = norm (JObj body)"
    and v: "Verdict_build proposal token (bp_witnesses p \<noteq> [])
      (list_ex (\<lambda>w. contains_silent (pw_tree w)) (bp_witnesses p)) terminated = Inr (bp_verdict p)"
  shows "\<exists>m. flags_mask (vd_flags (bp_verdict p)) = Inr m \<and>
    o14_flags s = passed (s\<lparr>cs_flags := map JStr (vd_flags (bp_verdict p)), cs_flag_mask := m\<rparr>)"
proof -
  let ?v = "bp_verdict p"
  obtain inputs psi where "map_of body ''verdict'' = Some (verdict_member ?v)"
    by (rule body_facts [OF assms(1)])
  from norm_member(1) [OF body_distinct [OF assms(1)] this]
  have here: "member (cs_body s) ''verdict'' = Inr (verdict_member ?v)" unfolding s by simp
  from build_algebra [OF v] obtain m where m: "flags_mask (vd_flags ?v) = Inr m" "m AND RESERVED_MASK = 0"
    "vd_safety ?v = ROBUST \<Longrightarrow> m AND SOUNDNESS_MASK = 0"
    "exact_minimality (vd_minimality ?v) \<Longrightarrow> \<not> list_ex (\<lambda>n. n \<in> set (vd_flags ?v)) MINIMALITY_CAP_FLAGS"
    "strictly_ascending (vd_derived_suppressed ?v)"
    "list_all (\<lambda>n. n \<in> set (vd_derived_suppressed ?v)) DERIVED_SUPPRESSED_ALWAYS"
    unfolding check_verdict_algebra_def check_reserved_bits_def
    by (auto simp: andThen_eq_Inr split: if_splits)
  from m(1) have loop: "flag_loop (map JStr (vd_flags ?v)) 0 (- 1) = Inr m"
    by (simp add: flags_mask_def flag_loop_flags)
  have capped: "exact_minimality (vd_minimality ?v) \<longrightarrow>
      list_all (\<lambda>b. \<not> b) (map (\<lambda>w. w \<in> set (vd_flags ?v)) MINIMALITY_CAP_FLAGS)"
    using m(4) by (auto simp: list_all_iff list_ex_iff)
  have held: "need (list_all id (map (\<lambda>w. w \<in> set (vd_derived_suppressed ?v)) DERIVED_SUPPRESSED_ALWAYS)) ''VRD-014'' = Inr ()"
    using m(6) by (simp add: need_def list_all_iff)
  have sound: "py_eq (JStr (safety_text (vd_safety ?v))) (JStr ''ROBUST'') \<longrightarrow> m AND SOUNDNESS_MASK = 0"
    using m(3) by (simp add: known_texts)
  have "o14_flags s = passed (s\<lparr>cs_flags := map JStr (vd_flags ?v), cs_flag_mask := m\<rparr>)"
    unfolding o14_flags_def here andThen_simps verdict_members texts_contain loop known_texts masks_agree text_of.simps
      built_witness_class [OF assms] built_premium_complete [OF assms(1,2)] ascending_texts [OF m(5)] held
    using m(2) sound capped by (simp add: need_def)
  with m(1) show ?thesis by blast
qed

text \<open>C26. Every published witness tree passes the structural test of the checker: all indices point
  forward and every node but the root has exactly one parent. The published list determines the tree.\<close>

theorem published_trees_read_back:
  "check_flat_tree (JArr (flatten tree)) = Inr () \<and> (flatten tree = flatten tree' \<longleftrightarrow> tree = tree')"
  using published_tree_flat published_tree_faithful by blast


text \<open>A small run: one severed goal, no instance, no silent step, and the premium withheld.\<close>

definition small_scope :: scope where
  "small_scope = \<lparr>sc_rules = small_hash, sc_controls = small_hash, sc_liveness = small_hash, sc_er = small_hash,
     sc_goal = small_hash, sc_bundle = small_hash, sc_attacker = ATTACKER\<rparr>"

definition small_inputs :: cert_inputs where
  "small_inputs = \<lparr>in_rules_hash = small_hash, in_rules_text_hash = small_hash, in_guard_ast_hash = small_hash,
     in_controls_hash = small_hash, in_catalog_bits_hash = small_hash, in_bundle_hash = small_hash,
     in_liveness_hash = small_hash, in_profile_hash = small_hash, in_goal_hash = small_hash,
     in_er_hash = small_hash, in_instances_hash = small_hash, in_seed = 7, in_k = 3\<rparr>"

definition small_verdict :: verdict where
  "small_verdict = \<lparr>vd_safety = INDETERMINATE, vd_minimality = UNVERIFIED, vd_flags = [],
     vd_derived_suppressed = DERIVED_SUPPRESSED_ALWAYS, vd_realizability = RZ_UNCHECKED, vd_witness_class = None\<rparr>"

definition small_proposal :: verdict_proposal where
  "small_proposal = \<lparr>vp_safety = INDETERMINATE, vp_minimality = UNVERIFIED, vp_flags = [],
     vp_derived_suppressed = DERIVED_SUPPRESSED_ALWAYS, vp_realizability = RZ_UNCHECKED, vp_witness_class = None\<rparr>"

definition small_parts :: body_parts where
  "small_parts = \<lparr>bp_scope = small_scope, bp_inputs = small_inputs, bp_verdict = small_verdict, bp_atoms = [],
     bp_cut = \<lparr>ct_atoms = [], ct_cardinality = 0, ct_mask = 0, ct_minimality = UNVERIFIED\<rparr>,
     bp_goals = [\<lparr>gr_goal_key = ''fh:'' @ zero_hex, gr_derivable = False\<rparr>], bp_invariant = Some [],
     bp_instances = [], bp_licenses = [], bp_silent = [], bp_witnesses = [],
     bp_psi = \<lparr>pp_program = P_MAX, pp_complete = False, pp_corridors = []\<rparr>, bp_premium = None,
     bp_reason = Some ''solver_budget'', bp_cut_delta_canonical = [],
     bp_residual = \<lparr>rs_program = P_MAX, rs_goals_derivable = [], rs_goals_severed = [''fh:'' @ zero_hex],
       rs_corridors_open = [], rs_corridors_exhaustive = False\<rparr>,
     bp_budgets = \<lparr>bg_fixpoint_steps = 1, bg_bb_nodes = 0, bg_step_budget = 2, bg_budget_exhausted = False,
       bg_exhaustive_ran = False, bg_exhaustive_cuts_tested = 0\<rparr>,
     bp_observed_event_count = 0, bp_ghost_count = 0, bp_psi_min_complete = False\<rparr>"

definition small_built :: "(string \<times> json) list" where
  "small_built = (case build_body (\<lambda>_. zero_digest) id small_parts of Inl e \<Rightarrow> [] | Inr body \<Rightarrow> body)"

definition small_state :: cstate where
  "small_state = initial_state [] JNull (norm (JObj small_built)) sample_inputs"

lemma small_scope_checked: "check_scope small_scope = Inr small_scope"
  by code_simp

lemma small_verdict_built:
  "Verdict_build small_proposal None False False False = Inr small_verdict"
proof -
  have "strictly_ascending [''pareto_frontier'', ''redundancy_index'' :: string]" by code_simp
  then show ?thesis
    by (simp add: Verdict_build_def check_verdict_algebra_def small_proposal_def small_verdict_def flags_mask_def
      check_reserved_bits_def exact_minimality_def DERIVED_SUPPRESSED_ALWAYS_def check_strictly_ascending_def
      del: strictly_ascending.simps)
qed

lemma small_build: "build_body (\<lambda>_. zero_digest) id small_parts = Inr small_built"
proof -
  have hash: "instances_hash (\<lambda>_. zero_digest) id [] = Inr small_hash" by code_simp
  have binds: "check_scope_binds_inputs small_scope small_inputs = Inr ()" by code_simp
  have goals: "check_goals_against_residual (bp_goals small_parts) (bp_residual small_parts) (bp_invariant small_parts) = Inr ()"
    by code_simp
  have inputs: "\<exists>i. inputs_member small_inputs = Inr i"
    by (simp add: inputs_member_def small_inputs_def mask_hex_def)
  have "check_body (\<lambda>_. zero_digest) id small_parts = Inr ()"
    using hash binds goals
    by (simp add: check_body_def small_parts_def check_atom_table_def check_instances_def check_licences_def
      check_silent_def check_witnesses_def check_psi_hit_def check_counts_def u32_def uint_def
      check_premium_preconditions_def PREMIUM_SUPPRESSED_REASONS_def small_inputs_def check_published_ids_def
      check_strictly_ascending_def)
  moreover obtain body where members: "body_members small_parts = Inr body"
      "map fst body = SURE_MEMBERS @ [''invariant'', ''premium_suppressed_reason'']"
    using inputs by (auto simp: body_members_def small_parts_def psi_member_def SURE_MEMBERS_def)
  moreover have "list_all (\<lambda>k. k \<in> set BODY_MEMBERS) (map fst body)"
    "list_all (\<lambda>m. m \<in> set OPTIONAL_BODY_MEMBERS \<or> m \<in> set (map fst body)) BODY_MEMBERS"
    unfolding members(2) by (simp_all add: BODY_MEMBERS_def SURE_MEMBERS_def OPTIONAL_BODY_MEMBERS_def)
  ultimately have "build_body (\<lambda>_. zero_digest) id small_parts = Inr body"
    unfolding build_body_def by (simp only: andThen_simps guard_simps)
  then show ?thesis by (simp add: small_built_def)
qed


section \<open>The premium on both sides\<close>

lemma premium_members:
  "member (norm (premium_member p)) ''nec_max'' = Inr (texts (pr_nec_max p))"
  "member (norm (premium_member p)) ''occ_min'' = Inr (texts (pr_occ_min p))"
  "member (norm (premium_member p)) ''blindness_premium'' = Inr (texts (pr_blindness_premium p))"
  "member_iter (norm (premium_member p)) ''per_control'' = Inr (map (\<lambda>e. norm (premium_entry_member e)) (pr_per_control p))"
proof -
  have distinct: "distinct (map fst [(''blindness_premium'', texts (pr_blindness_premium p)),
     (''nec_max'', texts (pr_nec_max p)), (''occ_min'', texts (pr_occ_min p)),
     (''per_control'', JArr (map premium_entry_member (pr_per_control p)))])" by simp
  note at = norm_member(1) [OF distinct, folded premium_member_def]
  show "member (norm (premium_member p)) ''nec_max'' = Inr (texts (pr_nec_max p))"
    "member (norm (premium_member p)) ''occ_min'' = Inr (texts (pr_occ_min p))"
    "member (norm (premium_member p)) ''blindness_premium'' = Inr (texts (pr_blindness_premium p))"
    using at [of "''nec_max''"] at [of "''occ_min''"] at [of "''blindness_premium''"] by simp_all
  show "member_iter (norm (premium_member p)) ''per_control'' =
      Inr (map (\<lambda>e. norm (premium_entry_member e)) (pr_per_control p))"
    using at [of "''per_control''"] by (simp add: member_iter_def norm_items_eq)
qed

lemma premium_entry_control: "item (norm (premium_entry_member e)) ''control_id'' = Inr (JStr (pe_control_id e))"
  unfolding premium_entry_member_def
  by (subst norm_member(2) [where v = "JStr (pe_control_id e)"]) simp_all

lemma mapM_hashed_texts: "mapM hashed (map JStr vs) = Inr (map JStr vs)"
  by (induction vs) (simp_all add: hashed_def)

lemma kept_texts:
  "map fst (filter (\<lambda>(c, k). k \<notin> set (map JStr occ)) (zip (map JStr nec) (map JStr nec))) =
     map JStr (filter (\<lambda>c. c \<notin> set occ) nec)"
  by (induction nec) auto

text \<open>C27. The checker accepts a premium that the emitter admits exactly when its entries name no
  control outside the premium, which the emitter does not test.\<close>

theorem admitted_premium_judged:
  assumes "check_published_premium p = Inr q" and "publishes s ''premium''"
    and "member (cs_body s) ''premium'' = Inr (norm (premium_member p))"
  shows "o13b_premium_sets s =
    (if set (map pe_control_id (pr_per_control p)) \<subseteq> set (pr_blindness_premium p)
     then Inr (s, length (pr_nec_max p) + length (pr_occ_min p)) else reject ''E-PREMIUM-SETS'')"
proof -
  from assms(1) have up: "strictly_ascending (pr_nec_max p)" "strictly_ascending (pr_occ_min p)"
      "strictly_ascending (pr_blindness_premium p)"
    and exact: "pr_blindness_premium p = filter (\<lambda>c. c \<notin> set (pr_occ_min p)) (pr_nec_max p)"
    by (auto simp: check_published_premium_def check_published_ids_def andThen_eq_Inr)
  have occ: "(if map JStr (pr_nec_max p) = [] then Inr [] else mapM hashed (map JStr (pr_occ_min p))) =
      Inr (if pr_nec_max p = [] then [] else map JStr (pr_occ_min p))"
    by (simp add: mapM_hashed_texts)
  have kept: "py_eq (texts (pr_blindness_premium p)) (JArr (map fst (filter (\<lambda>(c, k). k \<notin> JStr ` set (pr_occ_min p))
      (zip (map JStr (pr_nec_max p)) (map JStr (pr_nec_max p))))))"
    using kept_texts [of "pr_occ_min p" "pr_nec_max p"] by (simp add: exact texts_def py_eq_def)
  have entries: "check_all (\<lambda>e. andThen (item e ''control_id'') (\<lambda>c.
      need (list_ex (py_eq c) (map JStr (pr_blindness_premium p))) ''E-PREMIUM-SETS''))
      (map (\<lambda>e. norm (premium_entry_member e)) es) =
      (if set (map pe_control_id es) \<subseteq> set (pr_blindness_premium p) then Inr () else reject ''E-PREMIUM-SETS'')" for es
    by (induction es) (auto simp: premium_entry_control texts_contain need_def reject_def list_ex_iff)
  show ?thesis
    unfolding o13b_premium_sets_def assms(3) andThen_simps premium_members ascending_texts [OF up(1)]
      ascending_texts [OF up(2)] ascending_texts [OF up(3)] texts_contain occ mapM_hashed_texts
    unfolding entries using assms(2) kept exact
    by (cases "pr_nec_max p = []") (auto simp: need_def reject_def texts_def)
qed

definition wide_premium :: published_premium where
  "wide_premium = \<lparr>pr_nec_max = [''ctl:a''], pr_occ_min = [], pr_blindness_premium = [''ctl:a''],
     pr_per_control = [\<lparr>pe_control_id = ''ctl:a'', pe_license_ids = [], pe_deficiency = (0, 1)\<rparr>,
       \<lparr>pe_control_id = ''ctl:b'', pe_license_ids = [], pe_deficiency = (1, 2)\<rparr>]\<rparr>"

definition wide_state :: cstate where
  "wide_state = initial_state [] JNull (norm (JObj [(''premium'', premium_member wide_premium)])) sample_inputs"

lemma admitted_premium_judged_witness:
  "check_published_premium wide_premium = Inr wide_premium \<and>
   o13b_premium_sets wide_state = reject ''E-PREMIUM-SETS''"
proof -
  have admitted: "check_published_premium wide_premium = Inr wide_premium" by code_simp
  have "o13b_premium_sets wide_state =
    (if set (map pe_control_id (pr_per_control wide_premium)) \<subseteq> set (pr_blindness_premium wide_premium)
     then Inr (wide_state, length (pr_nec_max wide_premium) + length (pr_occ_min wide_premium))
     else reject ''E-PREMIUM-SETS'')"
    by (rule admitted_premium_judged [OF admitted])
      (simp_all add: wide_state_def initial_state_def publishes_def member_def)
  then show ?thesis using admitted by (simp add: wide_premium_def)
qed

end
