(* ===== verification/Spec2Isabelle.thy ===== *)
theory Spec2Isabelle
  imports Premium TemporalPass Licences SampleCertificate Emission
begin

text \<open>
  A verification development for SPECTRA, the Python reference implementation under
  \<^verbatim>\<open>src/python\<close>.

  THE PROGRAM. Telemetry records are ingested and grounded into Horn clauses (rule instances). A
  cut is a set of raised security controls; it disables the instances whose blockers it contains.
  The program asks for the least cut under which no goal fact is derivable, twice: over what was
  observed (the lower program), and over what could have happened while a sensor was blind (the
  upper program, with instances that rest on licences). The controls that only blindness makes
  necessary are the blindness premium. The answer is published as a certificate, which a second
  package checks again from the published data.

  THEORIES, in the order of the data flow, with the code each models.

  \<^item> Foundations. \<open>Prelude\<close> has the result type of computations that may raise, its collection of
    \<open>= Inr\<close> equivalences and the facts on declared orders. \<open>Errors\<close> and \<open>Canon\<close> model
    \<^verbatim>\<open>spectra_core/errors.py\<close> and \<^verbatim>\<open>canon.py\<close> (octet encodings, digests, order checks), \<open>Ids\<close>
    \<^verbatim>\<open>ids.py\<close>, \<open>Model\<close> and \<open>Records\<close> the records of \<^verbatim>\<open>model.py\<close>, \<open>Masks\<close> the mask tests of the
    code as statements about bits, \<open>Scf\<close> the canonical JSON of \<^verbatim>\<open>spectra_vs/scf.py\<close>.
  \<^item> Calibration and liveness. \<open>Calibration\<close> models \<^verbatim>\<open>calibrate.py\<close>. \<open>Liveness\<close>, \<open>LivenessDoc\<close>,
    \<open>Documents\<close> and \<open>Licences\<close> model \<^verbatim>\<open>liveness.py\<close>: thresholds and rules R1 to R11, the document
    and its merge, its correctness, and the answers it gives to later stages.
  \<^item> Blind windows. \<open>Timelines\<close> and \<open>Windows\<close> model the window functions of \<^verbatim>\<open>envelope.py\<close>.
  \<^item> Clock disputes. \<open>Temporal\<close>, \<open>Relaxation\<close>, \<open>Patience\<close> and \<open>TemporalPass\<close> model \<^verbatim>\<open>temporal.py\<close>.
  \<^item> Derivability. \<open>Closure\<close> states the contract of a forward-chaining engine as a locale;
    \<open>Reach\<close> models \<^verbatim>\<open>reach.py\<close> and interprets it, \<open>CheckerReach\<close> does the same for the checker.
  \<^item> Cuts. \<open>Oracle\<close> states what the cut search relies on; \<open>Atoms\<close>, \<open>CutSearch\<close>, \<open>Selection\<close> and
    \<open>Psi\<close> model \<^verbatim>\<open>cut.py\<close>: the atom table, the branch and bound, the canonical choice, the
    clause-learning loop with its fall-backs. \<open>Tables\<close> and \<open>Premium\<close> model \<^verbatim>\<open>premium.py\<close>.
  \<^item> Certificate. \<open>Verdict\<close>, \<open>Certificate\<close> and \<open>CertificateBody\<close> model \<^verbatim>\<open>cert.py\<close>: the verdict algebra,
    the published sub-objects, the checks and the assembly of a body, the octets of the file.
  \<^item> Checker. \<open>PyValues\<close> has the operations of Python on parsed values of unknown shape; \<open>Checker\<close>,
    \<open>Obligations\<close> and \<open>Judgement\<close> model \<^verbatim>\<open>spectra_vs_verify/checker.py\<close>: the strict reading, the
    obligations O0 to O15 and \<open>verify\<close>. \<open>Acceptance\<close> derives what an accepting run establishes and
    \<open>SampleCertificate\<close> evaluates two complete certificates; \<open>PrintedTexts\<close> has the facts on printed
    JSON that evaluation needs.
  \<^item> Emitter and checker together. \<open>Emission\<close> shows what the checker makes of an emitted file: O0 to
    O3, O14, the witness trees and the premium.

  REPRESENTATION. Texts are the octets of their UTF-8 form, so bytewise order is the order of
  \<open>List_Lexorder\<close>; instants and counts are integers with the width checks of the code written out;
  masks are naturals with bit operations, guarded by the 64-bit check where the code has one; a
  raised exception is \<open>Inl\<close>. In the checker an exception is a rejection with its code, a usage
  error, or one that nothing catches. Dictionaries are association lists in insertion order where
  the order shows, sets are lists of insertions or sets.

  PARAMETERS. The digest of \<^verbatim>\<open>hashlib\<close>, the normalisation of \<^verbatim>\<open>unicodedata\<close>, the parsers \<^verbatim>\<open>json\<close> and
  \<^verbatim>\<open>tomllib\<close>, and the file system are arguments; the properties hold for every choice of them.
  Where injectivity of an encoding matters it is proved of the preimage, never of the digest.

  TERMINATION. Every loop is a total function: structural recursion, or a measure that is proved.
  The propagation loops (emitter and checker) descend on the facts not yet derived and then on
  the queue; the clause-learning loop on the masks not yet excluded; the branch and bound has the
  node budget of the code, and \<open>Premium\<close> proves a budget that is enough. No fuel is used.

  LEMMA GROUPS. Each component has its \<open>= Inr\<close> equivalences (when an operation returns, and what),
  an invariant of its loop with one preservation lemma for each step, and the property on top. The
  obligations of the checker share the rules \<open>ends_intros\<close>, which show that an obligation returns
  the state it was given.

  NOT MODELLED. File and terminal output, the TOML and JSON parsers and readers, messages and
  texts for the reader other than the verdict renderings; rule parsing and guard expressions
  (\<^verbatim>\<open>rules.py\<close>), grounding (\<^verbatim>\<open>ground.py\<close>), ingest, resolution and the fact store, the
  synthetic test bed (\<^verbatim>\<open>gen.py\<close>, \<^verbatim>\<open>degrade.py\<close>, \<^verbatim>\<open>scenario.py\<close>, \<^verbatim>\<open>demo.py\<close>), the stage driver
  (\<^verbatim>\<open>pipeline.py\<close>, one adapter apart) and the repository lint \<^verbatim>\<open>tools/claims_check.py\<close>. Recursion
  limits and memory of the interpreter are outside the model.
\<close>

end
